(* ===== verification/RV_Prelude.thy ===== *)
theory RV_Prelude
  imports Main "HOL-Library.Word" "HOL-Library.Signed_Division"
begin

text \<open>
  Shared ground of the development: the macros of \<^verbatim>\<open>src/src/utils.h\<close> (sign extension, bit
  assembly, alignment, minimum and maximum), the little-endian view of C objects as byte lists
  (the emulator insists on a little-endian host, \<^verbatim>\<open>src/src/cpu/rv.h\<close>), and \<^verbatim>\<open>memcpy\<close> on
  byte lists. The collections declared here gather the facts that the component theories hand
  to the simplifier.
\<close>

unbundle bit_operations_syntax

named_theorems mask_bits \<open>bits of the mask constants\<close>
named_theorems frame \<open>state components an operation leaves alone\<close>
named_theorems wf_intros \<open>operations keep the well-formedness invariant\<close>

type_synonym byte = "8 word"

section \<open>Words\<close>

subsection \<open>SIGN\_EXTEND\<close>

definition sign_extend :: "'a::len word \<Rightarrow> nat \<Rightarrow> 'a word" where
  "sign_extend v signBit =
     v OR ((drop_bit signBit v AND 1) * NOT (push_bit signBit 1 - 1))"

lemma and_one_of_bit: "(drop_bit n v AND 1 :: 'a::len word) = of_bool (bit v n)"
  by (simp add: and_one_eq bit_iff_odd_drop_bit mod_2_eq_odd)

lemma bit_not_exp_minus_one:
  "bit (NOT (push_bit n 1 - 1) :: 'a::len word) i \<longleftrightarrow> i < LENGTH('a) \<and> n \<le> i"
proof -
  have "(push_bit n 1 - 1 :: 'a word) = mask n"
    by (simp add: mask_eq_exp_minus_1 push_bit_eq_mult)
  then show ?thesis
    by (auto simp: bit_simps)
qed

lemma bit_sign_extend:
  "bit (sign_extend (v :: 'a::len word) n) i \<longleftrightarrow>
     i < LENGTH('a) \<and> (bit v i \<or> (bit v n \<and> n \<le> i))"
  using bit_not_exp_minus_one [of n i, where 'a = 'a]
  by (cases "bit v n") (auto simp: sign_extend_def and_one_of_bit bit_or_iff
      dest: bit_imp_le_length)


lemma bit_sign_extend_ge:
  "take_bit (Suc n) v = v \<Longrightarrow> bit (v :: 'a::len word) i \<Longrightarrow> i \<le> n"
  by (metis bit_take_bit_iff less_Suc_eq_le)

lemma sign_extend_eq_signed_take_bit:
  assumes "take_bit (Suc n) v = (v :: 'a::len word)"
  shows "sign_extend v n = signed_take_bit n v"
proof (rule bit_word_eqI)
  fix i assume "i < LENGTH('a)"
  then show "bit (sign_extend v n) i \<longleftrightarrow> bit (signed_take_bit n v) i"
    using bit_sign_extend_ge [OF assms, of i] assms
    by (auto simp: bit_sign_extend bit_signed_take_bit_iff min_def possible_bit_def
        dest: bit_imp_le_length intro: le_antisym)
qed

lemma and_exp_eq_0_iff [simp]: "(v AND 2 ^ n = (0 :: 'a::len word)) \<longleftrightarrow> \<not> bit v n"
proof
  assume "v AND 2 ^ n = 0"
  then have "\<not> bit (v AND 2 ^ n) n" by simp
  then show "\<not> bit v n"
    by (auto simp: bit_and_iff bit_exp_iff possible_bit_def dest: bit_imp_le_length)
next
  assume "\<not> bit v n"
  then show "v AND 2 ^ n = 0"
    by (intro bit_word_eqI) (auto simp: bit_and_iff bit_exp_iff)
qed

lemma unat_plus_of_nat:
  assumes "unat (a :: 'a::len word) + k < 2 ^ LENGTH('a)"
  shows "unat (a + of_nat k) = unat a + k"
proof -
  have "unat (of_nat k :: 'a word) = k"
    using assms by (simp add: unat_of_nat)
  with assms show ?thesis
    by (simp add: unat_word_ariths)
qed

lemma unat_and_mask: "unat (a AND mask k :: 'a::len word) = unat a mod 2 ^ k"
proof -
  have "unat (a AND mask k) = take_bit k (unat a)"
    by (simp add: unsigned_take_bit_eq flip: take_bit_eq_mask)
  then show ?thesis
    by (simp add: take_bit_eq_mod)
qed

subsection \<open>ALIGN\_DOWN, ALIGN\_UP and ASSEMBLE\_n\<close>

definition align_down :: "'a::len word \<Rightarrow> 'a word \<Rightarrow> 'a word" where
  "align_down v alignment = v AND NOT (alignment - 1)"

definition align_up :: "'a::len word \<Rightarrow> 'a word \<Rightarrow> 'a word" where
  "align_up v alignment = align_down (v + alignment - 1) alignment"

text \<open>
  \<open>assemble data i [r\<^sub>0, r\<^sub>1, \<dots>]\<close> moves bit \<open>i\<close> of \<open>data\<close> to \<open>r\<^sub>0\<close>, bit \<open>i + 1\<close> to \<open>r\<^sub>1\<close> and so
  on; \<^verbatim>\<open>ASSEMBLE_11\<close>, \<^verbatim>\<open>ASSEMBLE_12\<close> and \<^verbatim>\<open>ASSEMBLE_20\<close> are its instances at \<open>i = 0\<close> with
  11, 12 and 20 targets.
\<close>

primrec assemble :: "'a::len word \<Rightarrow> nat \<Rightarrow> nat list \<Rightarrow> 'a word" where
  "assemble data i [] = 0"
| "assemble data i (r # rs) = push_bit r (drop_bit i data AND 1) OR assemble data (Suc i) rs"

lemma bit_assemble:
  "bit (assemble (data :: 'a::len word) i rs) k \<longleftrightarrow>
     k < LENGTH('a) \<and> (\<exists>j < length rs. rs ! j = k \<and> bit data (i + j))"
proof (induction rs arbitrary: i)
  case Nil
  then show ?case by simp
next
  case (Cons r rs)
  have "bit (push_bit r (drop_bit i data AND 1)) k \<longleftrightarrow> k < LENGTH('a) \<and> r = k \<and> bit data i"
    by (auto simp: and_one_of_bit bit_push_bit_iff possible_bit_def bit_1_iff)
  moreover have "(\<exists>j < length (r # rs). (r # rs) ! j = k \<and> bit data (i + j)) \<longleftrightarrow>
      r = k \<and> bit data i \<or> (\<exists>j < length rs. rs ! j = k \<and> bit data (Suc i + j))"
    by (auto simp: less_Suc_eq_0_disj)
  ultimately show ?case
    using Cons.IH [of "Suc i"] by (auto simp: bit_or_iff)
qed

subsection \<open>Bytes of a word\<close>

definition get_byte :: "'a::len word \<Rightarrow> nat \<Rightarrow> byte" where
  "get_byte w k = ucast (drop_bit (8 * k) w)"

definition put_byte :: "'a::len word \<Rightarrow> nat \<Rightarrow> byte \<Rightarrow> 'a word" where
  "put_byte w k b = (w AND NOT (push_bit (8 * k) 0xFF)) OR push_bit (8 * k) (ucast b)"

definition le_bytes :: "nat \<Rightarrow> 'a::len word \<Rightarrow> byte list" where
  "le_bytes n w = map (get_byte w) [0..<n]"

primrec le_word :: "byte list \<Rightarrow> 'a::len word" where
  "le_word [] = 0"
| "le_word (b # bs) = ucast b OR push_bit 8 (le_word bs)"

lemma length_le_bytes [simp]: "length (le_bytes n w) = n"
  by (simp add: le_bytes_def)

lemma nth_le_bytes [simp]: "k < n \<Longrightarrow> le_bytes n w ! k = get_byte w k"
  by (simp add: le_bytes_def)

lemma bit_get_byte: "bit (get_byte (w :: 'a::len word) k) i \<longleftrightarrow> i < 8 \<and> bit w (8 * k + i)"
  by (auto simp: get_byte_def bit_simps add.commute)

lemma bit_255 [simp]: "bit (255 :: int) i \<longleftrightarrow> i < 8"
  using bit_mask_iff [of 8 i, where 'a = int] by (simp add: mask_eq_exp_minus_1)

lemma bit_low_masks:
  "bit (3 :: int) i \<longleftrightarrow> i < 2" "bit (7 :: int) i \<longleftrightarrow> i < 3" "bit (15 :: int) i \<longleftrightarrow> i < 4"
  "bit (31 :: int) i \<longleftrightarrow> i < 5" "bit (63 :: int) i \<longleftrightarrow> i < 6" "bit (127 :: int) i \<longleftrightarrow> i < 7"
  "bit (0x3FF :: int) i \<longleftrightarrow> i < 10" "bit (0x7FF :: int) i \<longleftrightarrow> i < 11"
  "bit (0xFFF :: int) i \<longleftrightarrow> i < 12" "bit (0x7FFF :: int) i \<longleftrightarrow> i < 15"
  "bit (0xFFFF :: int) i \<longleftrightarrow> i < 16" "bit (0x1FFFFFFF :: int) i \<longleftrightarrow> i < 29"
  "bit (0xFFFFFFFF :: int) i \<longleftrightarrow> i < 32"
  using bit_mask_iff [of 2 i, where 'a = int] bit_mask_iff [of 3 i, where 'a = int]
    bit_mask_iff [of 4 i, where 'a = int] bit_mask_iff [of 5 i, where 'a = int]
    bit_mask_iff [of 6 i, where 'a = int] bit_mask_iff [of 7 i, where 'a = int]
    bit_mask_iff [of 10 i, where 'a = int] bit_mask_iff [of 11 i, where 'a = int]
    bit_mask_iff [of 12 i, where 'a = int] bit_mask_iff [of 15 i, where 'a = int]
    bit_mask_iff [of 16 i, where 'a = int] bit_mask_iff [of 29 i, where 'a = int]
    bit_mask_iff [of 32 i, where 'a = int]
  by (simp_all add: mask_eq_exp_minus_1)

lemma bit_put_byte:
  "bit (put_byte (w :: 'a::len word) k b) i \<longleftrightarrow>
     i < LENGTH('a) \<and> (if 8 * k \<le> i \<and> i < 8 * k + 8 then bit b (i - 8 * k) else bit w i)"
proof -
  have "bit (push_bit (8 * k) 0xFF :: 'a word) i \<longleftrightarrow> i < LENGTH('a) \<and> 8 * k \<le> i \<and> i < 8 * k + 8"
    by (auto simp: bit_push_bit_iff possible_bit_def)
  moreover have "bit (push_bit (8 * k) (ucast b) :: 'a word) i \<longleftrightarrow>
      i < LENGTH('a) \<and> 8 * k \<le> i \<and> bit b (i - 8 * k)"
    by (auto simp: bit_simps)
  ultimately show ?thesis
    by (auto simp: put_byte_def bit_or_iff bit_and_iff bit_not_iff possible_bit_def
        dest: bit_imp_le_length)
qed

lemma get_put_byte:
  assumes "8 * k + 8 \<le> LENGTH('a)"
  shows "get_byte (put_byte (w :: 'a::len word) k b) j = (if j = k then b else get_byte w j)"
proof (rule bit_word_eqI)
  fix i assume "i < LENGTH(8)"
  then have i: "i < 8" by simp
  have "8 * k \<le> 8 * j + i \<and> 8 * j + i < 8 * k + 8 \<longleftrightarrow> j = k"
    using i by auto
  with i assms show "bit (get_byte (put_byte w k b) j) i = bit (if j = k then b else get_byte w j) i"
    by (auto simp: bit_get_byte bit_put_byte dest: bit_imp_le_length)
qed

lemma bit_le_word:
  "bit (le_word bs :: 'a::len word) i \<longleftrightarrow>
     i < LENGTH('a) \<and> i div 8 < length bs \<and> bit (bs ! (i div 8)) (i mod 8)"
proof (induction bs arbitrary: i)
  case Nil
  then show ?case by simp
next
  case (Cons b bs)
  show ?case
  proof (cases "i < 8")
    case True
    then show ?thesis by (auto simp: bit_simps)
  next
    case False
    then have d: "i div 8 = Suc ((i - 8) div 8)" and m: "i mod 8 = (i - 8) mod 8"
      by (auto simp: le_div_geq le_mod_geq)
    have "\<not> bit b i"
      using False by (auto dest: bit_imp_le_length)
    with False show ?thesis
      by (auto simp: bit_simps Cons.IH d m)
  qed
qed

lemma le_word_le_bytes: "le_word (le_bytes n w) = take_bit (8 * n) (w :: 'a::len word)"
proof (rule bit_word_eqI)
  fix i assume "i < LENGTH('a)"
  have "i div 8 < n \<longleftrightarrow> i < 8 * n"
    by (simp add: div_less_iff_less_mult mult.commute)
  then show "bit (le_word (le_bytes n w) :: 'a word) i = bit (take_bit (8 * n) w) i"
    using \<open>i < LENGTH('a)\<close> by (auto simp: bit_le_word bit_get_byte bit_take_bit_iff)
qed

lemma get_byte_le_word:
  assumes "k < length bs" "8 * k + 8 \<le> LENGTH('a)"
  shows "get_byte (le_word bs :: 'a::len word) k = bs ! k"
proof (rule bit_word_eqI)
  fix i assume "i < LENGTH(8)"
  then have i: "i < 8" by simp
  then have "(8 * k + i) div 8 = k" "(8 * k + i) mod 8 = i" by auto
  with assms i show "bit (get_byte (le_word bs :: 'a word) k) i = bit (bs ! k) i"
    by (auto simp: bit_get_byte bit_le_word)
qed

lemma le_bytes_le_word:
  assumes "8 * length bs \<le> LENGTH('a)"
  shows "le_bytes (length bs) (le_word bs :: 'a::len word) = bs"
  using assms by (intro nth_equalityI) (auto intro!: get_byte_le_word)

subsection \<open>Arrays of words seen through a byte pointer\<close>

definition sizeof :: "'a::len word list \<Rightarrow> nat" where
  "sizeof ws = LENGTH('a) div 8 * length ws"

definition arr_get_byte :: "'a::len word list \<Rightarrow> nat \<Rightarrow> byte" where
  "arr_get_byte ws k = get_byte (ws ! (k div (LENGTH('a) div 8))) (k mod (LENGTH('a) div 8))"

definition arr_put_byte :: "'a::len word list \<Rightarrow> nat \<Rightarrow> byte \<Rightarrow> 'a word list" where
  "arr_put_byte ws k b =
     (let i = k div (LENGTH('a) div 8)
      in ws[i := put_byte (ws ! i) (k mod (LENGTH('a) div 8)) b])"

lemma length_arr_put_byte [simp]: "length (arr_put_byte ws k b) = length ws"
  by (simp add: arr_put_byte_def Let_def)

lemma sizeof_arr_put_byte [simp]: "sizeof (arr_put_byte ws k b) = sizeof ws"
  by (simp add: sizeof_def)

lemma arr_get_put_byte:
  assumes "8 dvd LENGTH('a)" "k < sizeof (ws :: 'a::len word list)" "j < sizeof ws"
  shows "arr_get_byte (arr_put_byte ws k b) j = (if j = k then b else arr_get_byte ws j)"
proof -
  define m where "m = LENGTH('a) div 8"
  have l: "LENGTH('a) = 8 * m"
    using assms(1) by (simp add: m_def)
  with len_gt_0 [where 'a = 'a] have m: "0 < m"
    by (cases m) auto
  have k: "k div m < length ws"
    using assms(2) m by (simp add: sizeof_def m_def [symmetric] less_mult_imp_div_less mult.commute)
  have "k mod m < m"
    using m by simp
  then have b: "8 * (k mod m) + 8 \<le> LENGTH('a)"
    by (simp add: l)
  have "j = k" if "j div m = k div m" "j mod m = k mod m"
    using that by (metis div_mult_mod_eq)
  with k show ?thesis
    by (auto simp: arr_get_byte_def arr_put_byte_def Let_def m_def [symmetric] get_put_byte [OF b]
        nth_list_update)
qed

text \<open>An access through the pointer, with whether it stays inside the object.\<close>

definition arr_read :: "'a::len word list \<Rightarrow> nat \<Rightarrow> byte \<times> bool" where
  "arr_read ws k = (arr_get_byte ws k, k < sizeof ws)"

definition arr_write :: "'a::len word list \<Rightarrow> nat \<Rightarrow> byte \<Rightarrow> 'a word list \<times> bool" where
  "arr_write ws k b = (arr_put_byte ws k b, k < sizeof ws)"

definition word_read :: "'a::len word \<Rightarrow> nat \<Rightarrow> byte \<times> bool" where
  "word_read w k = (get_byte w k, k < LENGTH('a) div 8)"

definition word_write :: "'a::len word \<Rightarrow> nat \<Rightarrow> byte \<Rightarrow> 'a word \<times> bool" where
  "word_write w k b = (put_byte w k b, k < LENGTH('a) div 8)"

lemmas access_defs = arr_read_def arr_write_def word_read_def word_write_def

section \<open>Copying byte ranges (memcpy)\<close>

definition slice_at :: "nat \<Rightarrow> nat \<Rightarrow> 'b list \<Rightarrow> 'b list" where
  "slice_at off n xs = take n (drop off xs)"

definition splice_at :: "nat \<Rightarrow> 'b list \<Rightarrow> 'b list \<Rightarrow> 'b list" where
  "splice_at off ys xs = take off xs @ ys @ drop (off + length ys) xs"

lemma length_slice [simp]: "off + n \<le> length xs \<Longrightarrow> length (slice_at off n xs) = n"
  by (simp add: slice_at_def)

lemma nth_slice [simp]: "off + n \<le> length xs \<Longrightarrow> i < n \<Longrightarrow> slice_at off n xs ! i = xs ! (off + i)"
  by (simp add: slice_at_def)

lemma length_splice [simp]: "off + length ys \<le> length xs \<Longrightarrow> length (splice_at off ys xs) = length xs"
  by (simp add: splice_at_def)

lemma nth_splice:
  assumes "off + length ys \<le> length xs" "i < length xs"
  shows "splice_at off ys xs ! i =
    (if off \<le> i \<and> i < off + length ys then ys ! (i - off) else xs ! i)"
  using assms by (auto simp: splice_at_def nth_append min_def)

lemma slice_splice_same [simp]:
  "off + length ys \<le> length xs \<Longrightarrow> slice_at off (length ys) (splice_at off ys xs) = ys"
  by (simp add: slice_at_def splice_at_def)

lemma slice_splice_disjoint:
  assumes "off + length ys \<le> length xs" "o' + n \<le> length xs"
    and "o' + n \<le> off \<or> off + length ys \<le> o'"
  shows "slice_at o' n (splice_at off ys xs) = slice_at o' n xs"
  using assms by (intro nth_equalityI) (auto simp: nth_splice)

end
