(* ===== verification/RV_Types.thy ===== *)
theory RV_Types
  imports RV_Prelude
begin

text \<open>
  The types and constants of \<^verbatim>\<open>src/src/cpu/rv_types.h\<close>. The C sources pick the width of
  \<^verbatim>\<open>cpu_word_t\<close> with a \<^verbatim>\<open>typedef\<close> under \<^verbatim>\<open>CONFIG_RV64\<close>; here that width is the type
  variable \<open>'x\<close>: a \<^verbatim>\<open>cpu_word_t\<close> is an \<open>'x word\<close>, the build without \<^verbatim>\<open>CONFIG_RV64\<close> (the one the
  repository's CMake files select) is the instance at 32, the \<^verbatim>\<open>CONFIG_RV64\<close> build the instance
  at 64, and \<open>CONFIG_RV64 TYPE('x)\<close> stands for the preprocessor test. Addresses have the width of
  registers (\<^verbatim>\<open>CONFIG_RV64_32BIT_ADDR\<close> is never defined by the build and is left out).
\<close>

definition CONFIG_RV64 :: "'x::len itself \<Rightarrow> bool" where
  "CONFIG_RV64 T \<longleftrightarrow> LENGTH('x) = 64"

text \<open>The widths the sources can be compiled for.\<close>

definition valid_xlen :: "'x::len itself \<Rightarrow> bool" where
  "valid_xlen T \<longleftrightarrow> LENGTH('x) = 32 \<or> LENGTH('x) = 64"

lemma CONFIG_RV64_simps [simp]: "\<not> CONFIG_RV64 TYPE(32)" "CONFIG_RV64 TYPE(64)"
  by (simp_all add: CONFIG_RV64_def)

lemma valid_xlen_simps [simp]: "valid_xlen TYPE(32)" "valid_xlen TYPE(64)"
  by (simp_all add: valid_xlen_def)

lemma valid_xlen_ge: "valid_xlen TYPE('x::len) \<Longrightarrow> 32 \<le> LENGTH('x)"
  by (auto simp: valid_xlen_def)

definition sizeof_word :: "'x::len itself \<Rightarrow> nat" where
  "sizeof_word T = LENGTH('x) div 8"

definition CPU_SIGN_BIT :: "'x::len word" where
  "CPU_SIGN_BIT = push_bit (LENGTH('x) - 1) 1"

definition CPU_UINT_MAX :: "'x::len word" where
  "CPU_UINT_MAX = NOT 0"

definition CPU_ADDR_MAX :: "'x::len word" where
  "CPU_ADDR_MAX = NOT 0"

definition CPU_SHIFT_MASK :: "'x::len word" where
  "CPU_SHIFT_MASK = of_nat (LENGTH('x) - 1)"

lemma bit_CPU_SIGN_BIT [mask_bits]:
  "bit (CPU_SIGN_BIT :: 'x::len word) n \<longleftrightarrow> n = LENGTH('x) - 1"
  by (auto simp: CPU_SIGN_BIT_def bit_exp_iff possible_bit_def)

lemma bit_CPU_UINT_MAX [mask_bits]: "bit (CPU_UINT_MAX :: 'x::len word) n \<longleftrightarrow> n < LENGTH('x)"
  by (simp add: CPU_UINT_MAX_def)

section \<open>Registers\<close>

definition CPU_REG_ZERO :: nat where "CPU_REG_ZERO = 0"
definition CPU_REG_RA :: nat where "CPU_REG_RA = 1"
definition CPU_REG_SP :: nat where "CPU_REG_SP = 2"
definition CPU_REG_A0 :: nat where "CPU_REG_A0 = 10"
definition CPU_REG_A1 :: nat where "CPU_REG_A1 = 11"
definition CPU_REG_A6 :: nat where "CPU_REG_A6 = 16"
definition CPU_REG_A7 :: nat where "CPU_REG_A7 = 17"

lemmas cpu_reg_defs = CPU_REG_ZERO_def CPU_REG_RA_def CPU_REG_SP_def CPU_REG_A0_def
  CPU_REG_A1_def CPU_REG_A6_def CPU_REG_A7_def

section \<open>Trap causes, interrupt causes, privilege modes\<close>

datatype RV_TrapCause =
    TRAP_INST_ALLIGN | TRAP_INST_AF | TRAP_INST_ILL | TRAP_BREAKPOINT
  | TRAP_LD_ALLIGN | TRAP_LD_AF | TRAP_ST_ALLIGN | TRAP_ST_AF
  | TRAP_CALL_U | TRAP_CALL_S | TRAP_CALL_M
  | TRAP_INST_PF | TRAP_LD_PF | TRAP_ST_PF
  | TRAP_DOUBLE_TRAP | TRAP_SW_CHECK | TRAP_HW_ERR

primrec trap_code :: "RV_TrapCause \<Rightarrow> nat" where
  "trap_code TRAP_INST_ALLIGN = 0"
| "trap_code TRAP_INST_AF = 1"
| "trap_code TRAP_INST_ILL = 2"
| "trap_code TRAP_BREAKPOINT = 3"
| "trap_code TRAP_LD_ALLIGN = 4"
| "trap_code TRAP_LD_AF = 5"
| "trap_code TRAP_ST_ALLIGN = 6"
| "trap_code TRAP_ST_AF = 7"
| "trap_code TRAP_CALL_U = 8"
| "trap_code TRAP_CALL_S = 9"
| "trap_code TRAP_CALL_M = 11"
| "trap_code TRAP_INST_PF = 12"
| "trap_code TRAP_LD_PF = 13"
| "trap_code TRAP_ST_PF = 15"
| "trap_code TRAP_DOUBLE_TRAP = 16"
| "trap_code TRAP_SW_CHECK = 18"
| "trap_code TRAP_HW_ERR = 19"

datatype RV_IrqCause =
    IRQ_SUPERVISOR_SW_INT | IRQ_MACHINE_SW_INT | IRQ_SUPERVISOR_TMR_INT
  | IRQ_MACHINE_TMR_INT | IRQ_SUPERVISOR_EXT_INT | IRQ_MACHINE_EXT_INT | IRQ_CTR_OVF_INT

primrec irq_code :: "RV_IrqCause \<Rightarrow> nat" where
  "irq_code IRQ_SUPERVISOR_SW_INT = 1"
| "irq_code IRQ_MACHINE_SW_INT = 3"
| "irq_code IRQ_SUPERVISOR_TMR_INT = 5"
| "irq_code IRQ_MACHINE_TMR_INT = 7"
| "irq_code IRQ_SUPERVISOR_EXT_INT = 9"
| "irq_code IRQ_MACHINE_EXT_INT = 11"
| "irq_code IRQ_CTR_OVF_INT = 13"

lemma trap_code_less: "trap_code c < 20"
  by (cases c) auto

lemma irq_code_less: "irq_code c < 14"
  by (cases c) auto

lemma irq_code_inject: "irq_code a = irq_code b \<longleftrightarrow> a = b"
  by (cases a; cases b) auto

definition trap_mask :: "RV_TrapCause \<Rightarrow> 'x::len word" where
  "trap_mask c = push_bit (trap_code c) 1"

definition irq_mask :: "RV_IrqCause \<Rightarrow> 'x::len word" where
  "irq_mask c = push_bit (irq_code c) 1"

datatype RV_PrivMode =
  RV_PRIV_MODE_USER | RV_PRIV_MODE_SUPERVISOR | RV_PRIV_MODE_RESERVED | RV_PRIV_MODE_MACHINE

primrec priv_code :: "RV_PrivMode \<Rightarrow> nat" where
  "priv_code RV_PRIV_MODE_USER = 0"
| "priv_code RV_PRIV_MODE_SUPERVISOR = 1"
| "priv_code RV_PRIV_MODE_RESERVED = 2"
| "priv_code RV_PRIV_MODE_MACHINE = 3"

text \<open>The C enumeration is compared with \<^verbatim>\<open><\<close> and \<^verbatim>\<open><=\<close>: its numeric order is a linear order.\<close>

lemma priv_code_inject: "priv_code a = priv_code b \<longleftrightarrow> a = b"
  by (cases a; cases b) auto

instantiation RV_PrivMode :: linorder
begin

definition less_eq_RV_PrivMode :: "RV_PrivMode \<Rightarrow> RV_PrivMode \<Rightarrow> bool" where
  "less_eq_RV_PrivMode a b \<longleftrightarrow> priv_code a \<le> priv_code b"

definition less_RV_PrivMode :: "RV_PrivMode \<Rightarrow> RV_PrivMode \<Rightarrow> bool" where
  "less_RV_PrivMode a b \<longleftrightarrow> priv_code a < priv_code b"

instance
  by standard (auto simp: less_eq_RV_PrivMode_def less_RV_PrivMode_def priv_code_inject)

end

lemmas priv_order = less_eq_RV_PrivMode_def less_RV_PrivMode_def

text \<open>The cast of a two-bit field to \<^verbatim>\<open>RV_PrivMode\<close>.\<close>

definition privMode_of :: "'x::len word \<Rightarrow> RV_PrivMode" where
  "privMode_of v = (if v = 0 then RV_PRIV_MODE_USER else if v = 1 then RV_PRIV_MODE_SUPERVISOR
     else if v = 2 then RV_PRIV_MODE_RESERVED else RV_PRIV_MODE_MACHINE)"

definition word_of_priv :: "RV_PrivMode \<Rightarrow> 'x::len word" where
  "word_of_priv m = of_nat (priv_code m)"

section \<open>Register masks\<close>

definition MISA_EXT_BIT :: "nat \<Rightarrow> 'x::len word" where
  "MISA_EXT_BIT letter = push_bit (letter - 97) 1"

definition MIP_RW_MASK :: "'x::len word" where
  "MIP_RW_MASK = irq_mask IRQ_SUPERVISOR_SW_INT OR irq_mask IRQ_MACHINE_SW_INT
     OR irq_mask IRQ_SUPERVISOR_TMR_INT OR irq_mask IRQ_MACHINE_TMR_INT
     OR irq_mask IRQ_SUPERVISOR_EXT_INT OR irq_mask IRQ_MACHINE_EXT_INT
     OR irq_mask IRQ_CTR_OVF_INT"

definition MIE_RW_MASK :: "'x::len word" where
  "MIE_RW_MASK = irq_mask IRQ_SUPERVISOR_SW_INT OR irq_mask IRQ_MACHINE_SW_INT
     OR irq_mask IRQ_SUPERVISOR_TMR_INT OR irq_mask IRQ_MACHINE_TMR_INT
     OR irq_mask IRQ_SUPERVISOR_EXT_INT OR irq_mask IRQ_MACHINE_EXT_INT
     OR irq_mask IRQ_CTR_OVF_INT OR NOT 0xFFFF"

definition SIP_RW_MASK :: "'x::len word" where
  "SIP_RW_MASK = irq_mask IRQ_SUPERVISOR_SW_INT OR irq_mask IRQ_SUPERVISOR_TMR_INT
     OR irq_mask IRQ_SUPERVISOR_EXT_INT OR irq_mask IRQ_CTR_OVF_INT"

definition SIE_RW_MASK :: "'x::len word" where
  "SIE_RW_MASK = irq_mask IRQ_SUPERVISOR_SW_INT OR irq_mask IRQ_SUPERVISOR_TMR_INT
     OR irq_mask IRQ_SUPERVISOR_EXT_INT OR irq_mask IRQ_CTR_OVF_INT OR NOT 0xFFFF"

definition MEDELEG_RW_MASK :: "'x::len word" where
  "MEDELEG_RW_MASK = trap_mask TRAP_INST_ALLIGN OR trap_mask TRAP_INST_AF
     OR trap_mask TRAP_INST_ILL OR trap_mask TRAP_BREAKPOINT OR trap_mask TRAP_LD_AF
     OR trap_mask TRAP_ST_ALLIGN OR trap_mask TRAP_ST_AF OR trap_mask TRAP_CALL_U
     OR trap_mask TRAP_CALL_S OR trap_mask TRAP_INST_PF OR trap_mask TRAP_LD_PF
     OR trap_mask TRAP_ST_PF OR trap_mask TRAP_SW_CHECK OR trap_mask TRAP_HW_ERR"

definition MIDELEG_RW_MASK :: "'x::len word" where
  "MIDELEG_RW_MASK = irq_mask IRQ_SUPERVISOR_SW_INT OR irq_mask IRQ_SUPERVISOR_TMR_INT
     OR irq_mask IRQ_SUPERVISOR_EXT_INT OR irq_mask IRQ_CTR_OVF_INT"

definition MSTATUS_UBE_MASK :: "'x::len word" where "MSTATUS_UBE_MASK = push_bit 6 1"
definition MSTATUS_VS_MASK :: "'x::len word" where "MSTATUS_VS_MASK = push_bit 9 1 OR push_bit 10 1"
definition MSTATUS_FS_MASK :: "'x::len word" where "MSTATUS_FS_MASK = push_bit 13 1 OR push_bit 14 1"
definition MSTATUS_XS_MASK :: "'x::len word" where "MSTATUS_XS_MASK = push_bit 15 1 OR push_bit 16 1"
definition MSTATUS_SIE_MASK :: "'x::len word" where "MSTATUS_SIE_MASK = push_bit 1 1"
definition MSTATUS_MIE_MASK :: "'x::len word" where "MSTATUS_MIE_MASK = push_bit 3 1"
definition MSTATUS_SPIE_MASK :: "'x::len word" where "MSTATUS_SPIE_MASK = push_bit 5 1"
definition MSTATUS_MPIE_MASK :: "'x::len word" where "MSTATUS_MPIE_MASK = push_bit 7 1"
definition MSTATUS_SPP_MASK :: "'x::len word" where "MSTATUS_SPP_MASK = push_bit 8 1"
definition MSTATUS_MPP_MASK :: "'x::len word" where "MSTATUS_MPP_MASK = push_bit 11 1 OR push_bit 12 1"
definition MSTATUS_MPRV_MASK :: "'x::len word" where "MSTATUS_MPRV_MASK = push_bit 17 1"
definition MSTATUS_TW_MASK :: "'x::len word" where "MSTATUS_TW_MASK = push_bit 21 1"
definition MSTATUS_TSR_MASK :: "'x::len word" where "MSTATUS_TSR_MASK = push_bit 22 1"

definition MSTATUS_WPRI_MASK :: "'x::len word" where
  "MSTATUS_WPRI_MASK =
     (if CONFIG_RV64 TYPE('x)
      then push_bit 0 1 OR push_bit 2 1 OR push_bit 4 1 OR push_bit 25 0x7F OR push_bit 40 1
        OR push_bit 43 0x1F OR push_bit 48 0x7FFF
      else push_bit 0 1 OR push_bit 2 1 OR push_bit 4 1 OR push_bit 25 0x3F)"

definition MSTATUS_SD_MASK :: "'x::len word" where
  "MSTATUS_SD_MASK = (if CONFIG_RV64 TYPE('x) then push_bit 63 1 else push_bit 31 1)"

definition MSTATUS_SBE_MASK :: "'x::len word" where "MSTATUS_SBE_MASK = push_bit 36 1"
definition MSTATUS_MBE_MASK :: "'x::len word" where "MSTATUS_MBE_MASK = push_bit 37 1"
definition MSTATUS_UXL_MASK :: "'x::len word" where "MSTATUS_UXL_MASK = push_bit 32 1 OR push_bit 33 1"
definition MSTATUS_UXL_64 :: "'x::len word" where "MSTATUS_UXL_64 = push_bit 33 1"
definition MSTATUS_SXL_MASK :: "'x::len word" where "MSTATUS_SXL_MASK = push_bit 34 1 OR push_bit 35 1"
definition MSTATUS_SXL_64 :: "'x::len word" where "MSTATUS_SXL_64 = push_bit 35 1"

definition MSTATUS_WR_VAL :: "'x::len word \<Rightarrow> 'x word" where
  "MSTATUS_WR_VAL v =
     (if CONFIG_RV64 TYPE('x)
      then (v AND NOT (MSTATUS_WPRI_MASK OR MSTATUS_UBE_MASK OR MSTATUS_SBE_MASK
              OR MSTATUS_MBE_MASK OR MSTATUS_VS_MASK OR MSTATUS_FS_MASK OR MSTATUS_XS_MASK
              OR MSTATUS_SD_MASK OR MSTATUS_UXL_MASK OR MSTATUS_SXL_MASK))
           OR MSTATUS_UXL_64 OR MSTATUS_SXL_64
      else v AND NOT (MSTATUS_WPRI_MASK OR MSTATUS_UBE_MASK OR MSTATUS_VS_MASK
              OR MSTATUS_FS_MASK OR MSTATUS_XS_MASK OR MSTATUS_SD_MASK))"

definition MSTATUSH_WPRI_MASK :: "'x::len word" where
  "MSTATUSH_WPRI_MASK = push_bit 0 0xF OR push_bit 8 1 OR push_bit 11 0x1F OR push_bit 16 0xFFFF"
definition MSTATUSH_SBE_MASK :: "'x::len word" where "MSTATUSH_SBE_MASK = push_bit 4 1"
definition MSTATUSH_MBE_MASK :: "'x::len word" where "MSTATUSH_MBE_MASK = push_bit 5 1"

definition MSTATUSH_WR_VAL :: "'x::len word \<Rightarrow> 'x word" where
  "MSTATUSH_WR_VAL v = v AND NOT (MSTATUSH_WPRI_MASK OR MSTATUSH_SBE_MASK OR MSTATUSH_MBE_MASK)"

definition MSTATUS_SPP :: "RV_PrivMode \<Rightarrow> 'x::len word" where
  "MSTATUS_SPP m = push_bit 8 (word_of_priv m AND 1)"

definition MSTATUS_GET_SPP :: "'x::len word \<Rightarrow> RV_PrivMode" where
  "MSTATUS_GET_SPP v = privMode_of (drop_bit 8 v AND 1)"

definition MSTATUS_MPP :: "RV_PrivMode \<Rightarrow> 'x::len word" where
  "MSTATUS_MPP m = push_bit 11 (word_of_priv m AND 3)"

definition MSTATUS_GET_MPP :: "'x::len word \<Rightarrow> RV_PrivMode" where
  "MSTATUS_GET_MPP v = privMode_of (drop_bit 11 v AND 3)"

definition MENVCFG_CBZE_MASK :: "'x::len word" where "MENVCFG_CBZE_MASK = push_bit 7 1"
definition SENVCFG_CBZE_MASK :: "'x::len word" where "SENVCFG_CBZE_MASK = push_bit 7 1"

definition SSTATUS_WPRI_MASK :: "'x::len word" where
  "SSTATUS_WPRI_MASK =
     (if CONFIG_RV64 TYPE('x)
      then push_bit 0 1 OR push_bit 2 7 OR push_bit 7 1 OR push_bit 11 3 OR push_bit 17 1
        OR push_bit 20 7 OR push_bit 25 0x7F OR push_bit 34 0x1FFFFFFF
      else push_bit 0 1 OR push_bit 2 7 OR push_bit 7 1 OR push_bit 11 3 OR push_bit 17 1
        OR push_bit 20 7 OR push_bit 25 0x3F)"

definition COUNTEREN_CY_MASK :: "'x::len word" where "COUNTEREN_CY_MASK = push_bit 0 1"
definition COUNTEREN_TM_MASK :: "'x::len word" where "COUNTEREN_TM_MASK = push_bit 1 1"
definition COUNTEREN_IR_MASK :: "'x::len word" where "COUNTEREN_IR_MASK = push_bit 2 1"
definition COUNTEREN_WR_MASK :: "'x::len word" where
  "COUNTEREN_WR_MASK = COUNTEREN_CY_MASK OR COUNTEREN_TM_MASK OR COUNTEREN_IR_MASK"

lemma bit_irq_mask [mask_bits]:
  "bit (irq_mask c :: 'x::len word) n \<longleftrightarrow> n < LENGTH('x) \<and> n = irq_code c"
  by (auto simp: irq_mask_def bit_exp_iff possible_bit_def)

lemma bit_trap_mask [mask_bits]:
  "bit (trap_mask c :: 'x::len word) n \<longleftrightarrow> n < LENGTH('x) \<and> n = trap_code c"
  by (auto simp: trap_mask_def bit_exp_iff possible_bit_def)

lemma and_irq_mask_eq_0 [simp]: "v AND irq_mask c = 0 \<longleftrightarrow> \<not> bit v (irq_code c)"
  by (simp add: irq_mask_def)

lemma irq_mask_and_eq_0 [simp]: "irq_mask c AND v = 0 \<longleftrightarrow> \<not> bit v (irq_code c)"
  by (simp add: and.commute)

lemma and_trap_mask_eq_0 [simp]: "v AND trap_mask c = 0 \<longleftrightarrow> \<not> bit v (trap_code c)"
  by (simp add: trap_mask_def)

lemmas mstatus_bit_masks = MSTATUS_UBE_MASK_def MSTATUS_VS_MASK_def MSTATUS_FS_MASK_def
  MSTATUS_XS_MASK_def MSTATUS_SIE_MASK_def MSTATUS_MIE_MASK_def MSTATUS_SPIE_MASK_def
  MSTATUS_MPIE_MASK_def MSTATUS_SPP_MASK_def MSTATUS_MPP_MASK_def MSTATUS_MPRV_MASK_def
  MSTATUS_TW_MASK_def MSTATUS_TSR_MASK_def MSTATUS_SBE_MASK_def MSTATUS_MBE_MASK_def
  MSTATUS_UXL_MASK_def MSTATUS_UXL_64_def MSTATUS_SXL_MASK_def MSTATUS_SXL_64_def

text \<open>How a mask of the source selects bits: bit extensionality over these facts settles
  every equation between status words.\<close>

lemmas bitwise = bit_and_iff bit_or_iff bit_not_iff bit_xor_iff bit_push_bit_iff
  bit_drop_bit_eq bit_exp_iff bit_1_iff possible_bit_def bit_low_masks

text \<open>Writing \<^verbatim>\<open>mstatus\<close> through \<^verbatim>\<open>MSTATUS_WR_VAL\<close>: which bits a written value keeps.\<close>

definition mstatus_writable :: "'x::len itself \<Rightarrow> nat \<Rightarrow> bool" where
  "mstatus_writable T n \<longleftrightarrow>
     n \<in> {1, 3, 5, 7, 8, 11, 12, 17, 18, 19, 20, 21, 22, 23, 24} \<or>
     (CONFIG_RV64 TYPE('x) \<and> n \<in> {38, 39, 41, 42})"

lemma less_numeral_cases:
  "(n::nat) < numeral k \<longleftrightarrow> n = pred_numeral k \<or> n < pred_numeral k"
  by (auto simp: numeral_eq_Suc)

section \<open>The previous-mode fields\<close>

lemma and_three:
  assumes "2 \<le> LENGTH('x)"
  shows "(w AND 3 :: 'x::len word) = of_bool (bit w 0) + 2 * of_bool (bit w 1)"
proof -
  have "w AND 3 = w AND mask 2"
    by (simp add: mask_eq_exp_minus_1)
  also have "\<dots> = take_bit 2 w"
    by (simp add: take_bit_eq_mask)
  also have "\<dots> = of_bool (bit w 0) + 2 * of_bool (bit w 1)"
    by (simp add: numeral_2_eq_2 take_bit_Suc bit_Suc bit_0 mod_2_eq_odd ac_simps)
  finally show ?thesis .
qed

lemma MSTATUS_GET_SPP_bit:
  assumes "valid_xlen TYPE('x::len)"
  shows "MSTATUS_GET_SPP (v :: 'x word) =
    (if bit v 8 then RV_PRIV_MODE_SUPERVISOR else RV_PRIV_MODE_USER)"
  by (simp add: MSTATUS_GET_SPP_def and_one_of_bit privMode_of_def)

lemma MSTATUS_GET_MPP_bit:
  assumes "valid_xlen TYPE('x::len)"
  shows "MSTATUS_GET_MPP (v :: 'x word) =
    (if bit v 12 then if bit v 11 then RV_PRIV_MODE_MACHINE else RV_PRIV_MODE_RESERVED
     else if bit v 11 then RV_PRIV_MODE_SUPERVISOR else RV_PRIV_MODE_USER)"
proof -
  have l: "32 \<le> LENGTH('x)"
    by (rule valid_xlen_ge [OF assms])
  have n: "(3 :: 'x word) \<noteq> 0" "(3 :: 'x word) \<noteq> 1" "(3 :: 'x word) \<noteq> 2" "(2 :: 'x word) \<noteq> 0"
    "(2 :: 'x word) \<noteq> 1"
    using assms by (auto simp: valid_xlen_def word_eq_iff_unsigned)
  then show ?thesis
    using l by (auto simp: MSTATUS_GET_MPP_def and_three bit_drop_bit_eq privMode_of_def)
qed

end
