(* ===== verification/VM_State.thy ===== *)
theory VM_State
  imports RV_Types
begin

text \<open>
  The state of the virtual machine: one record per C structure (\<^verbatim>\<open>RV_Cpu\<close>, \<^verbatim>\<open>Bus\<close>, \<^verbatim>\<open>Memory\<close>,
  \<^verbatim>\<open>Aclint\<close>, \<^verbatim>\<open>Plic\<close>, \<^verbatim>\<open>Ns16550a\<close>, \<^verbatim>\<open>Device\<close>) and the record \<open>vm\<close> for the static structure
  \<^verbatim>\<open>_vm\<close> of \<^verbatim>\<open>main.c\<close> that holds one of each. The structures point at each other
  (\<^verbatim>\<open>cpu.bus\<close>, \<^verbatim>\<open>cpu.aclint\<close>, \<^verbatim>\<open>aclint.harts[0]\<close>, \<^verbatim>\<open>plic.harts[0]\<close>, \<^verbatim>\<open>uart0.plic\<close>, the device
  pointers of the bus), so every operation takes and returns the whole \<open>vm\<close> and a pointer is the
  name of the component it leads to.

  Beside the C state a \<open>vm\<close> records what the C program does to its host: the bytes written to
  standard output, whether an \<^verbatim>\<open>assert\<close> was reached with a false condition
  (\<open>assert_failed\<close>; the released build defines \<^verbatim>\<open>NDEBUG\<close> and goes on, a debug build
  stops there), and whether an access outside an object, a call through a null pointer or a shift
  by too many bits has happened (\<open>host_ub\<close>; from then on the C program has no defined
  behaviour and the model's further states mean nothing).
\<close>

section \<open>Devices\<close>

text \<open>A \<^verbatim>\<open>Device\<close> is its size and its callbacks with their \<^verbatim>\<open>opaque\<close> argument; the four pairs of
  callbacks of the sources are named by the component they belong to. \<open>None\<close> is the null pointer.\<close>

datatype dev_id = RAM | ACLINT | PLIC | UART0

record (overloaded) 'x device =
  dev_size :: "'x::len word"
  dev_cb :: "dev_id option"

section \<open>The structures\<close>

record (overloaded) 'x csrs =
  mhartid :: "'x::len word"
  mip :: "'x::len word"
  mie :: "'x::len word"
  mscratch :: "'x::len word"
  mstatus :: "'x::len word"
  mstatush :: "'x::len word"
  mtvec :: "'x::len word"
  mcause :: "'x::len word"
  mepc :: "'x::len word"
  mtval :: "'x::len word"
  menvcfg :: "'x::len word"
  medeleg :: "'x::len word"
  mideleg :: "'x::len word"
  mcounteren :: "'x::len word"
  sscratch :: "'x::len word"
  stvec :: "'x::len word"
  scause :: "'x::len word"
  sepc :: "'x::len word"
  stval :: "'x::len word"
  senvcfg :: "'x::len word"
  scounteren :: "'x::len word"

record (overloaded) 'x icache_t =
  ic_base :: "'x::len word"
  ic_line :: "byte list"

record (overloaded) 'x rv_cpu =
  Rx :: "'x::len word list"
  PC :: "'x::len word"
  csr :: "'x::len csrs"
  cpu_trap :: bool
  trapCause :: "'x::len word"
  trapDelegate :: bool
  cpu_irq :: bool
  cpu_wfi :: bool
  icache :: "'x::len icache_t"
  cpu_mode :: RV_PrivMode
  virtualSBI :: bool

record (overloaded) 'x bus_device =
  bd_dev :: "dev_id option"
  bd_base :: "'x::len word"

record (overloaded) 'x reservation_t =
  res_addr :: "'x::len word"
  res_size :: nat
  res_valid :: bool

record (overloaded) 'x bus_t =
  devices :: "'x::len bus_device list"
  reservation :: "'x::len reservation_t"

record (overloaded) 'x memory =
  mem_data :: "byte list"
  mem_dev :: "'x::len device"

record (overloaded) 'x aclint_t =
  aclint_dev :: "'x::len device"
  msip :: "32 word list"
  mtimecmp :: "64 word list"
  mtime :: "64 word"
  pindingIrq :: "bool list"

record plic_context =
  enable :: "32 word list"
  threshold :: "32 word"
  claim :: "32 word"
  pendingClaims :: "32 word list"

record (overloaded) 'x plic_t =
  plic_dev :: "'x::len device"
  priority :: "32 word list"
  pending :: "32 word list"
  contexts :: "plic_context list"

record ring_buffer =
  rb_buf :: "byte list"
  rdIdx :: nat
  wrIdx :: nat
  rb_len :: nat

record (overloaded) 'x uart_t =
  uart_dev :: "'x::len device"
  ringBuffer :: ring_buffer
  ier :: "8 word"
  lcr :: "8 word"

record (overloaded) 'x vm =
  bus :: "'x::len bus_t"
  cpu :: "'x::len rv_cpu"
  ram :: "'x::len memory"
  aclint :: "'x::len aclint_t"
  plic :: "'x::len plic_t"
  uart0 :: "'x::len uart_t"
  vm_stdout :: "byte list"
  uninit :: byte
  assert_failed :: bool
  host_ub :: bool

text \<open>\<open>uninit\<close> is the value an uninitialised local \<^verbatim>\<open>char\<close> happens to hold.\<close>

abbreviation csr_of :: "'x::len vm \<Rightarrow> 'x csrs" where
  "csr_of s \<equiv> csr (cpu s)"

abbreviation upd_csr :: "('x csrs \<Rightarrow> 'x csrs) \<Rightarrow> 'x::len vm \<Rightarrow> 'x vm" where
  "upd_csr f s \<equiv> cpu_update (csr_update f) s"

abbreviation trapped :: "'x::len vm \<Rightarrow> bool" where
  "trapped s \<equiv> cpu_trap (cpu s)"

abbreviation mode_of :: "'x::len vm \<Rightarrow> RV_PrivMode" where
  "mode_of s \<equiv> cpu_mode (cpu s)"

abbreviation pc_of :: "'x::len vm \<Rightarrow> 'x word" where
  "pc_of s \<equiv> PC (cpu s)"

section \<open>Host effects\<close>

definition c_assert :: "bool \<Rightarrow> 'x::len vm \<Rightarrow> 'x vm" where
  "c_assert b s = (if b then s else s\<lparr>assert_failed := True\<rparr>)"

definition c_undefined :: "'x::len vm \<Rightarrow> 'x vm" where
  "c_undefined s = s\<lparr>host_ub := True\<rparr>"

text \<open>An access that is in bounds or undefined.\<close>

definition c_access :: "bool \<Rightarrow> 'x::len vm \<Rightarrow> 'x vm" where
  "c_access ok s = (if ok then s else c_undefined s)"

lemma c_access_True [simp]: "c_access True s = s"
  by (simp add: c_access_def)

lemma c_access_frame [simp]:
  "cpu (c_access ok s) = cpu s" "bus (c_access ok s) = bus s" "ram (c_access ok s) = ram s"
  "aclint (c_access ok s) = aclint s" "plic (c_access ok s) = plic s" "uart0 (c_access ok s) = uart0 s"
  "vm_stdout (c_access ok s) = vm_stdout s" "uninit (c_access ok s) = uninit s"
  "assert_failed (c_access ok s) = assert_failed s" "host_ub (c_access ok s) \<longleftrightarrow> host_ub s \<or> \<not> ok"
  by (simp_all add: c_access_def c_undefined_def)

text \<open>\<^verbatim>\<open>ui_putch\<close> writes the character to standard output (and repaints the status line of the
  DOS screen, which is not modelled).\<close>

definition ui_putch :: "byte \<Rightarrow> 'x::len vm \<Rightarrow> 'x vm" where
  "ui_putch c s = s\<lparr>vm_stdout := vm_stdout s @ [c]\<rparr>"

section \<open>Interrupt lines of the hart (rv.c, rv\_internal.h)\<close>

definition pendingIRQ :: "'x::len vm \<Rightarrow> 'x vm" where
  "pendingIRQ s = s\<lparr>cpu := (cpu s)\<lparr>cpu_irq := True, cpu_wfi := False\<rparr>\<rparr>"

definition rv_setInterrupt :: "RV_IrqCause \<Rightarrow> 'x::len vm \<Rightarrow> 'x vm" where
  "rv_setInterrupt n s =
     (let mask = irq_mask n
      in pendingIRQ (upd_csr (mip_update (\<lambda>v. v OR mask)) s))"

definition rv_clearInterrupt :: "RV_IrqCause \<Rightarrow> 'x::len vm \<Rightarrow> 'x vm" where
  "rv_clearInterrupt n s =
     (let mask = irq_mask n
      in upd_csr (mip_update (\<lambda>v. v AND NOT mask)) s)"

lemmas irq_line_defs = pendingIRQ_def rv_setInterrupt_def rv_clearInterrupt_def

lemma bit_mip_setInterrupt:
  "valid_xlen TYPE('x::len) \<Longrightarrow>
   bit (mip (csr_of (rv_setInterrupt n (s :: 'x vm)))) i \<longleftrightarrow> bit (mip (csr_of s)) i \<or> i = irq_code n"
  using irq_code_less [of n] by (auto simp: irq_line_defs bit_or_iff mask_bits valid_xlen_def)

lemma bit_mip_clearInterrupt:
  "bit (mip (csr_of (rv_clearInterrupt n (s :: 'x::len vm)))) i \<longleftrightarrow> bit (mip (csr_of s)) i \<and> i \<noteq> irq_code n"
  by (auto simp: irq_line_defs bit_and_iff bit_not_iff mask_bits possible_bit_def
      dest: bit_imp_le_length)

text \<open>Raising or lowering a line touches the pending word and the two wake-up flags of the hart
  and nothing else: the states agree once these are erased.\<close>

definition strip_irq :: "'x::len vm \<Rightarrow> 'x vm" where
  "strip_irq s = s\<lparr>cpu := (cpu s)\<lparr>csr := (csr_of s)\<lparr>mip := 0\<rparr>, cpu_irq := False, cpu_wfi := False\<rparr>\<rparr>"

definition irq_frame :: "'x::len vm \<Rightarrow> 'x vm \<Rightarrow> bool" where
  "irq_frame s t \<longleftrightarrow> strip_irq s = strip_irq t"

lemma irq_frame_refl [simp, intro]: "irq_frame s s"
  by (simp add: irq_frame_def)

lemma irq_frame_trans: "irq_frame s t \<Longrightarrow> irq_frame t u \<Longrightarrow> irq_frame s u"
  by (simp add: irq_frame_def)

lemma irq_frame_set [simp, intro]: "irq_frame s (rv_setInterrupt n s)"
  by (simp add: irq_frame_def irq_line_defs strip_irq_def)

lemma irq_frame_clear [simp, intro]: "irq_frame s (rv_clearInterrupt n s)"
  by (simp add: irq_frame_def irq_line_defs strip_irq_def)

lemma irq_frame_vm:
  assumes "irq_frame s t"
  shows "bus t = bus s" "ram t = ram s" "aclint t = aclint s" "plic t = plic s"
    "uart0 t = uart0 s" "vm_stdout t = vm_stdout s" "uninit t = uninit s"
    "assert_failed t = assert_failed s" "host_ub t = host_ub s"
proof -
  from assms have e: "strip_irq s = strip_irq t"
    by (simp add: irq_frame_def)
  show "bus t = bus s" "ram t = ram s" "aclint t = aclint s" "plic t = plic s"
    "uart0 t = uart0 s" "vm_stdout t = vm_stdout s" "uninit t = uninit s"
    "assert_failed t = assert_failed s" "host_ub t = host_ub s"
  using arg_cong [OF e, of bus]
    arg_cong [OF e, of ram]
    arg_cong [OF e, of aclint]
    arg_cong [OF e, of plic]
    arg_cong [OF e, of uart0]
    arg_cong [OF e, of vm_stdout]
    arg_cong [OF e, of uninit]
    arg_cong [OF e, of assert_failed]
    arg_cong [OF e, of host_ub]
  by (simp_all add: strip_irq_def)
qed

text \<open>The part of the hart that the interrupt lines cannot reach.\<close>

definition core :: "'x::len rv_cpu \<Rightarrow> 'x rv_cpu" where
  "core c = c\<lparr>csr := (csr c)\<lparr>mip := 0\<rparr>, cpu_irq := False, cpu_wfi := False\<rparr>"

lemma irq_frame_core:
  assumes "irq_frame s t"
  shows "core (cpu t) = core (cpu s)"
  using arg_cong [OF assms [unfolded irq_frame_def], of cpu] by (simp add: strip_irq_def core_def)

text \<open>What a device operation leaves alone whatever the device: the core of the hart, the bus
  and the contents of memory.\<close>

definition dev_frame :: "'x::len vm \<Rightarrow> 'x vm \<Rightarrow> bool" where
  "dev_frame s t \<longleftrightarrow> core (cpu t) = core (cpu s) \<and> bus t = bus s \<and> ram t = ram s \<and> uninit t = uninit s"

lemma dev_frame_refl [simp, intro]: "dev_frame s s"
  by (simp add: dev_frame_def)

lemma dev_frame_trans: "dev_frame s t \<Longrightarrow> dev_frame t u \<Longrightarrow> dev_frame s u"
  by (simp add: dev_frame_def)

lemma dev_frame_irq: "irq_frame s t \<Longrightarrow> dev_frame s t"
  by (simp add: dev_frame_def irq_frame_core irq_frame_vm)

lemma dev_frame_upd [simp]:
  "dev_frame s (s\<lparr>aclint := a\<rparr>)" "dev_frame s (s\<lparr>plic := p\<rparr>)" "dev_frame s (s\<lparr>uart0 := u\<rparr>)"
  "dev_frame s (s\<lparr>vm_stdout := out\<rparr>)" "dev_frame s (s\<lparr>host_ub := b\<rparr>)"
  "dev_frame s (s\<lparr>assert_failed := b\<rparr>)" "dev_frame s (c_access ok s)"
  by (simp_all add: dev_frame_def)

text \<open>The fields of the hart that make up its core.\<close>

lemma core_fields:
  assumes "core c = core d"
  shows "Rx c = Rx d" "PC c = PC d" "cpu_trap c = cpu_trap d" "trapCause c = trapCause d"
    "trapDelegate c = trapDelegate d" "icache c = icache d" "cpu_mode c = cpu_mode d"
    "virtualSBI c = virtualSBI d" "(csr c)\<lparr>mip := 0\<rparr> = (csr d)\<lparr>mip := 0\<rparr>"
  using arg_cong [OF assms, of Rx] arg_cong [OF assms, of PC] arg_cong [OF assms, of cpu_trap]
    arg_cong [OF assms, of trapCause] arg_cong [OF assms, of trapDelegate]
    arg_cong [OF assms, of icache] arg_cong [OF assms, of cpu_mode]
    arg_cong [OF assms, of virtualSBI] arg_cong [OF assms, of csr]
  by (simp_all add: core_def)

lemma core_csr_fields:
  assumes "(c :: 'x::len csrs)\<lparr>mip := 0\<rparr> = d\<lparr>mip := 0\<rparr>"
  shows "mhartid c = mhartid d" "mie c = mie d" "mstatus c = mstatus d" "mtvec c = mtvec d"
    "mcause c = mcause d" "mepc c = mepc d" "mtval c = mtval d" "medeleg c = medeleg d"
    "mideleg c = mideleg d" "stvec c = stvec d" "scause c = scause d" "sepc c = sepc d"
    "stval c = stval d" "mstatush c = mstatush d"
  using arg_cong [OF assms, of mhartid] arg_cong [OF assms, of mie] arg_cong [OF assms, of mstatus]
    arg_cong [OF assms, of mtvec] arg_cong [OF assms, of mcause] arg_cong [OF assms, of mepc]
    arg_cong [OF assms, of mtval] arg_cong [OF assms, of medeleg] arg_cong [OF assms, of mideleg]
    arg_cong [OF assms, of stvec] arg_cong [OF assms, of scause] arg_cong [OF assms, of sepc]
    arg_cong [OF assms, of stval] arg_cong [OF assms, of mstatush]
  by simp_all

end
