(* ===== verification/Aclint.thy ===== *)
theory Aclint
  imports VM_State
begin

text \<open>
  The core-local interruptor, \<^verbatim>\<open>src/src/dev/aclint.c\<close> and \<^verbatim>\<open>aclint.h\<close>: the machine timer
  (\<open>mtime\<close>, one \<open>mtimecmp\<close> per hart) and the machine software interrupt registers (\<open>msip\<close>), their
  memory-mapped window, and the interrupt lines they drive. The field \<open>pindingIrq\<close> keeps the
  source's spelling.
\<close>

definition ACLINT_HARTS :: nat where "ACLINT_HARTS = 1"

definition ACLINT_FREQENCY :: nat where "ACLINT_FREQENCY = 10000000"

section \<open>Operations\<close>

definition updateMtimer_hart :: "nat \<Rightarrow> 'x::len vm \<Rightarrow> 'x vm" where
  "updateMtimer_hart i s =
     (let a = aclint s; t = c_access (i < length (mtimecmp a) \<and> i < length (pindingIrq a)) s in
      if mtimecmp a ! i \<le> mtime a then
        if \<not> pindingIrq a ! i
        then rv_setInterrupt IRQ_MACHINE_TMR_INT (t\<lparr>aclint := a\<lparr>pindingIrq := (pindingIrq a)[i := True]\<rparr>\<rparr>)
        else t
      else
        if pindingIrq a ! i
        then rv_clearInterrupt IRQ_MACHINE_TMR_INT (t\<lparr>aclint := a\<lparr>pindingIrq := (pindingIrq a)[i := False]\<rparr>\<rparr>)
        else t)"

definition updateMtimer :: "'x::len vm \<Rightarrow> 'x vm" where
  "updateMtimer s = fold updateMtimer_hart [0..<ACLINT_HARTS] s"

definition updateMswi_hart :: "nat \<Rightarrow> 'x::len vm \<Rightarrow> 'x vm" where
  "updateMswi_hart i s =
     (let t = c_access (i < length (msip (aclint s))) s in
      if msip (aclint s) ! i \<noteq> 0
      then rv_setInterrupt IRQ_MACHINE_SW_INT t
      else rv_clearInterrupt IRQ_MACHINE_SW_INT t)"

definition updateMswi :: "'x::len vm \<Rightarrow> 'x vm" where
  "updateMswi s = fold updateMswi_hart [0..<ACLINT_HARTS] s"

text \<open>One byte of a read, and whether it lies in the object it is read from.\<close>

definition aclint_readByte :: "'x::len aclint_t \<Rightarrow> 'x word \<Rightarrow> byte \<times> bool" where
  "aclint_readByte a addr =
     (let n = unat addr in
      if n < sizeof (msip a) then arr_read (msip a) n
      else if 0x4000 \<le> n \<and> n < 0x4000 + sizeof (mtimecmp a) then arr_read (mtimecmp a) (n - 0x4000)
      else if 0xBFF8 \<le> n \<and> n < 0xBFF8 + 8 then word_read (mtime a) (n - 0xBFF8)
      else (0, True))"

primrec aclint_readLoop :: "'x::len aclint_t \<Rightarrow> 'x word \<Rightarrow> byte list \<Rightarrow> (byte \<times> bool) list" where
  "aclint_readLoop a addr [] = []"
| "aclint_readLoop a addr (b # bs) = aclint_readByte a addr # aclint_readLoop a (addr + 1) bs"

definition aclint_cbRead :: "'x::len vm \<Rightarrow> 'x word \<Rightarrow> byte list \<Rightarrow> 'x vm \<times> byte list" where
  "aclint_cbRead s addr buf =
     (let rs = aclint_readLoop (aclint s) addr buf in (c_access (list_all snd rs) s, map fst rs))"

definition aclint_writeByte :: "'x::len aclint_t \<Rightarrow> 'x word \<Rightarrow> byte \<Rightarrow> 'x aclint_t \<times> bool" where
  "aclint_writeByte a addr b =
     (let n = unat addr in
      if n < sizeof (msip a) then map_prod (\<lambda>v. a\<lparr>msip := v\<rparr>) id (arr_write (msip a) n b)
      else if 0x4000 \<le> n \<and> n < 0x4000 + sizeof (mtimecmp a)
        then map_prod (\<lambda>v. a\<lparr>mtimecmp := v\<rparr>) id (arr_write (mtimecmp a) (n - 0x4000) b)
      else if 0xBFF8 \<le> n \<and> n < 0xBFF8 + 8
        then map_prod (\<lambda>v. a\<lparr>mtime := v\<rparr>) id (word_write (mtime a) (n - 0xBFF8) b)
      else (a, True))"

primrec aclint_writeLoop :: "'x::len aclint_t \<times> bool \<Rightarrow> 'x word \<Rightarrow> byte list \<Rightarrow> 'x aclint_t \<times> bool" where
  "aclint_writeLoop st addr [] = st"
| "aclint_writeLoop st addr (b # bs) =
     (case aclint_writeByte (fst st) addr b of (a, ok) \<Rightarrow> aclint_writeLoop (a, snd st \<and> ok) (addr + 1) bs)"

definition aclint_cbWrite :: "'x::len vm \<Rightarrow> 'x word \<Rightarrow> byte list \<Rightarrow> 'x vm" where
  "aclint_cbWrite s addr buf =
     (case aclint_writeLoop (aclint s, True) addr buf of (a, ok) \<Rightarrow>
        updateMswi (updateMtimer (c_access ok (s\<lparr>aclint := a\<rparr>))))"

definition aclint_init :: "'x::len vm \<Rightarrow> bool \<times> 'x vm" where
  "aclint_init s =
     (True, s\<lparr>aclint := \<lparr>aclint_dev = \<lparr>dev_size = 0x10000, dev_cb = Some ACLINT\<rparr>,
        msip = replicate ACLINT_HARTS 0, mtimecmp = replicate ACLINT_HARTS 0, mtime = 0,
        pindingIrq = replicate ACLINT_HARTS False\<rparr>\<rparr>)"

definition aclint_tick :: "32 word \<Rightarrow> 'x::len vm \<Rightarrow> 'x vm" where
  "aclint_tick cycles s =
     updateMtimer (s\<lparr>aclint := (aclint s)\<lparr>mtime := mtime (aclint s) + ucast cycles\<rparr>\<rparr>)"

definition aclint_getMtime :: "'x::len vm \<Rightarrow> 64 word" where
  "aclint_getMtime s = mtime (aclint s)"

definition aclint_mtimeRemains :: "'x::len vm \<Rightarrow> nat \<Rightarrow> 64 word" where
  "aclint_mtimeRemains s hart = mtimecmp (aclint s) ! hart - mtime (aclint s)"

definition aclint_setMtimecmp :: "nat \<Rightarrow> 64 word \<Rightarrow> 'x::len vm \<Rightarrow> 'x vm" where
  "aclint_setMtimecmp hart val s =
     updateMtimer (c_access (hart < length (mtimecmp (aclint s)))
       (s\<lparr>aclint := (aclint s)\<lparr>mtimecmp := (mtimecmp (aclint s))[hart := val]\<rparr>\<rparr>))"

section \<open>The shape of the device state\<close>

definition wf_aclint :: "'x::len aclint_t \<Rightarrow> bool" where
  "wf_aclint a \<longleftrightarrow> length (msip a) = ACLINT_HARTS \<and> length (mtimecmp a) = ACLINT_HARTS \<and>
     length (pindingIrq a) = ACLINT_HARTS \<and>
     aclint_dev a = \<lparr>dev_size = 0x10000, dev_cb = Some ACLINT\<rparr>"

text \<open>The timer line is up exactly when the comparator has been reached.\<close>

definition timer_settled :: "'x::len aclint_t \<Rightarrow> bool" where
  "timer_settled a \<longleftrightarrow> (\<forall>i < ACLINT_HARTS. pindingIrq a ! i \<longleftrightarrow> mtimecmp a ! i \<le> mtime a)"

lemma updateMtimer_unfold: "updateMtimer s = updateMtimer_hart 0 s"
  by (simp add: updateMtimer_def ACLINT_HARTS_def)

lemma updateMswi_unfold: "updateMswi s = updateMswi_hart 0 s"
  by (simp add: updateMswi_def ACLINT_HARTS_def)

lemma length_aclint_readLoop [simp]: "length (aclint_readLoop a addr bs) = length bs"
  by (induction bs arbitrary: addr) auto

lemma nth_aclint_readLoop:
  "k < length bs \<Longrightarrow> aclint_readLoop a addr bs ! k = aclint_readByte a (addr + of_nat k)"
  by (induction bs arbitrary: addr k) (auto simp: nth_Cons' ac_simps of_nat_diff)

lemma aclint_writeByte_frame [simp]:
  "length (msip (fst (aclint_writeByte a addr b))) = length (msip a)"
  "length (mtimecmp (fst (aclint_writeByte a addr b))) = length (mtimecmp a)"
  "pindingIrq (fst (aclint_writeByte a addr b)) = pindingIrq a"
  "aclint_dev (fst (aclint_writeByte a addr b)) = aclint_dev a"
  by (auto simp: aclint_writeByte_def Let_def access_defs)

lemma aclint_writeLoop_frame [simp]:
  "length (msip (fst (aclint_writeLoop st addr bs))) = length (msip (fst st))"
  "length (mtimecmp (fst (aclint_writeLoop st addr bs))) = length (mtimecmp (fst st))"
  "pindingIrq (fst (aclint_writeLoop st addr bs)) = pindingIrq (fst st)"
  "aclint_dev (fst (aclint_writeLoop st addr bs)) = aclint_dev (fst st)"
  by (induction bs arbitrary: st addr) (auto simp: split_def)

text \<open>The bounds the code tests keep every access inside its object.\<close>

lemma aclint_byte_inside: "snd (aclint_readByte a addr)" "snd (aclint_writeByte a addr b)"
  by (auto simp: aclint_readByte_def aclint_writeByte_def Let_def access_defs)

lemma aclint_loop_inside:
  "list_all snd (aclint_readLoop a addr bs)" "snd (aclint_writeLoop st addr bs) \<longleftrightarrow> snd st"
  by (induction bs arbitrary: st addr) (auto simp: aclint_byte_inside split_def)

section \<open>What the operations do to the rest of the machine\<close>

text \<open>A device operation changes its own structure and, through the interrupt lines, the pending
  word and the wake-up flags of the hart; it may set the undefined-behaviour mark.\<close>

definition aclint_frame :: "'x::len vm \<Rightarrow> 'x vm \<Rightarrow> bool" where
  "aclint_frame s t \<longleftrightarrow> dev_frame s t \<and> plic t = plic s \<and> uart0 t = uart0 s \<and> vm_stdout t = vm_stdout s \<and>
     assert_failed t = assert_failed s"

lemma aclint_frame_upd [simp]: "aclint_frame s (s\<lparr>aclint := a\<rparr>)" "aclint_frame s (c_access ok s)"
  by (simp_all add: aclint_frame_def)

lemma aclint_frame_trans: "aclint_frame s t \<Longrightarrow> aclint_frame t u \<Longrightarrow> aclint_frame s u"
  by (auto simp: aclint_frame_def elim: dev_frame_trans)

lemma aclint_frame_irq: "irq_frame s t \<Longrightarrow> aclint_frame s t"
  by (simp add: aclint_frame_def dev_frame_irq irq_frame_vm)

lemma updateMtimer_frame: "aclint_frame s (updateMtimer s)"
  unfolding updateMtimer_unfold updateMtimer_hart_def Let_def
  by (simp add: aclint_frame_def dev_frame_def core_def irq_line_defs)

lemma updateMswi_frame: "aclint_frame s (updateMswi s)"
  unfolding updateMswi_unfold updateMswi_hart_def Let_def
  by (auto intro: aclint_frame_trans [OF aclint_frame_upd(2)] aclint_frame_irq)

lemmas aclint_frame_updates = aclint_frame_trans [OF aclint_frame_trans [OF aclint_frame_upd(1) aclint_frame_upd(2)]]

lemma aclint_cbWrite_frame: "aclint_frame s (aclint_cbWrite s addr buf)"
  unfolding aclint_cbWrite_def split_def
  by (rule aclint_frame_trans [OF aclint_frame_updates [OF updateMtimer_frame] updateMswi_frame])

lemma aclint_cbRead_frame: "aclint_frame s (fst (aclint_cbRead s addr buf))"
  by (simp add: aclint_cbRead_def Let_def)

lemma aclint_tick_frame: "aclint_frame s (aclint_tick c s)"
  unfolding aclint_tick_def by (rule aclint_frame_trans [OF aclint_frame_upd(1) updateMtimer_frame])

lemma aclint_setMtimecmp_frame: "aclint_frame s (aclint_setMtimecmp h v s)"
  unfolding aclint_setMtimecmp_def by (rule aclint_frame_updates [OF updateMtimer_frame])

text \<open>So the core of the hart, the bus and the other devices are as before.\<close>

lemma aclint_frame_dev:
  assumes "aclint_frame s t"
  shows "dev_frame s t" "plic t = plic s" "uart0 t = uart0 s" "vm_stdout t = vm_stdout s"
    "assert_failed t = assert_failed s"
  using assms by (simp_all add: aclint_frame_def)

section \<open>Well-formedness is kept\<close>

lemma aclint_of_irq_ops [simp]:
  "aclint (rv_setInterrupt n s) = aclint s" "aclint (rv_clearInterrupt n s) = aclint s"
  by (simp_all add: irq_line_defs)

lemma wf_aclint_updateMtimer: "wf_aclint (aclint s) \<Longrightarrow> wf_aclint (aclint (updateMtimer s))"
  by (auto simp: wf_aclint_def updateMtimer_unfold updateMtimer_hart_def Let_def)

lemma wf_aclint_updateMswi: "wf_aclint (aclint s) \<Longrightarrow> wf_aclint (aclint (updateMswi s))"
  by (auto simp: wf_aclint_def updateMswi_unfold updateMswi_hart_def Let_def)

lemma wf_aclint_cbWrite: "wf_aclint (aclint s) \<Longrightarrow> wf_aclint (aclint (aclint_cbWrite s addr buf))"
  unfolding aclint_cbWrite_def split_def
  by (intro wf_aclint_updateMswi wf_aclint_updateMtimer) (simp add: wf_aclint_def)

lemma wf_aclint_tick: "wf_aclint (aclint s) \<Longrightarrow> wf_aclint (aclint (aclint_tick c s))"
  unfolding aclint_tick_def by (intro wf_aclint_updateMtimer) (simp add: wf_aclint_def)

lemma wf_aclint_setMtimecmp:
  "wf_aclint (aclint s) \<Longrightarrow> wf_aclint (aclint (aclint_setMtimecmp h v s))"
  unfolding aclint_setMtimecmp_def by (intro wf_aclint_updateMtimer) (simp add: wf_aclint_def)

text \<open>A well-formed device is never indexed out of its arrays.\<close>

lemma updateMtimer_ub: "wf_aclint (aclint s) \<Longrightarrow> host_ub (updateMtimer s) = host_ub s"
  by (auto simp: wf_aclint_def updateMtimer_unfold updateMtimer_hart_def Let_def irq_line_defs ACLINT_HARTS_def)

lemma updateMswi_ub: "wf_aclint (aclint s) \<Longrightarrow> host_ub (updateMswi s) = host_ub s"
  by (auto simp: wf_aclint_def updateMswi_unfold updateMswi_hart_def Let_def irq_line_defs ACLINT_HARTS_def)

lemma aclint_cb_ub:
  "host_ub (fst (aclint_cbRead s addr buf)) = host_ub s"
  "wf_aclint (aclint s) \<Longrightarrow> host_ub (aclint_cbWrite s addr buf) = host_ub s"
proof -
  show "host_ub (fst (aclint_cbRead s addr buf)) = host_ub s"
    by (simp add: aclint_cbRead_def Let_def aclint_loop_inside)
  define t where "t = s\<lparr>aclint := fst (aclint_writeLoop (aclint s, True) addr buf)\<rparr>"
  assume "wf_aclint (aclint s)"
  then have "wf_aclint (aclint t)"
    by (simp add: t_def wf_aclint_def)
  then show "host_ub (aclint_cbWrite s addr buf) = host_ub s"
    by (simp add: aclint_cbWrite_def split_def aclint_loop_inside t_def [symmetric] updateMswi_ub updateMtimer_ub
        wf_aclint_updateMtimer) (simp add: t_def)
qed

lemma aclint_tick_ub: "wf_aclint (aclint s) \<Longrightarrow> host_ub (aclint_tick n s) = host_ub s"
  by (simp add: aclint_tick_def updateMtimer_ub wf_aclint_def)

lemma wf_aclint_init: "wf_aclint (aclint (snd (aclint_init s)))"
  by (simp add: aclint_init_def wf_aclint_def)

section \<open>The timer\<close>

lemma updateMtimer_regs [simp]:
  "mtime (aclint (updateMtimer s)) = mtime (aclint s)"
  "mtimecmp (aclint (updateMtimer s)) = mtimecmp (aclint s)"
  "msip (aclint (updateMtimer s)) = msip (aclint s)"
  by (simp_all add: updateMtimer_unfold updateMtimer_hart_def Let_def)

lemma updateMswi_aclint [simp]: "aclint (updateMswi s) = aclint s"
  by (simp add: updateMswi_unfold updateMswi_hart_def Let_def)

lemma updateMtimer_settles:
  "wf_aclint (aclint s) \<Longrightarrow> timer_settled (aclint (updateMtimer s))"
  by (auto simp: timer_settled_def wf_aclint_def updateMtimer_unfold updateMtimer_hart_def Let_def
      ACLINT_HARTS_def)

text \<open>The line follows the comparator: it is raised on the step that reaches it, lowered on the
  step that moves it into the future, and left alone otherwise.\<close>

lemma updateMtimer_mip:
  assumes "valid_xlen TYPE('x::len)"
  shows "bit (mip (csr_of (updateMtimer (s :: 'x vm)))) i \<longleftrightarrow>
    (if i = irq_code IRQ_MACHINE_TMR_INT then
       (if mtimecmp (aclint s) ! 0 \<le> mtime (aclint s)
        then \<not> pindingIrq (aclint s) ! 0 \<or> bit (mip (csr_of s)) i
        else \<not> pindingIrq (aclint s) ! 0 \<and> bit (mip (csr_of s)) i)
     else bit (mip (csr_of s)) i)"
  using bit_mip_setInterrupt [OF assms]
  by (auto simp: updateMtimer_unfold updateMtimer_hart_def Let_def bit_mip_clearInterrupt)

section \<open>Registers read back what was written\<close>

text \<open>The bytes of the window that belong to a register.\<close>

definition aclint_register :: "nat \<Rightarrow> bool" where
  "aclint_register n \<longleftrightarrow> n < 4 \<or> 0x4000 \<le> n \<and> n < 0x4008 \<or> 0xBFF8 \<le> n \<and> n < 0xC000"

lemma aclint_read_write_byte:
  assumes "wf_aclint a"
  shows "fst (aclint_readByte (fst (aclint_writeByte a x b)) y) =
    (if y = x \<and> aclint_register (unat x) then b else fst (aclint_readByte a y))"
proof -
  have [simp]: "sizeof (msip a) = 4" "sizeof (mtimecmp a) = 8"
    using assms by (simp_all add: wf_aclint_def ACLINT_HARTS_def sizeof_def)
  show ?thesis
  proof (cases "y = x")
    case True
    then show ?thesis
      by (auto simp: aclint_readByte_def aclint_writeByte_def Let_def access_defs aclint_register_def
          arr_get_put_byte get_put_byte)
  next
    case False
    then have "unat y \<noteq> unat x"
      by (simp add: word_unat_eq_iff)
    with False show ?thesis
      by (auto simp: aclint_readByte_def aclint_writeByte_def Let_def access_defs arr_get_put_byte get_put_byte)
  qed
qed

lemma wf_aclint_writeByte [simp]: "wf_aclint a \<Longrightarrow> wf_aclint (fst (aclint_writeByte a x b))"
  by (simp add: wf_aclint_def)

lemma aclint_read_writeLoop:
  assumes "wf_aclint a" "unat addr + length bs \<le> 2 ^ LENGTH('x)"
  shows "fst (aclint_readByte (fst (aclint_writeLoop (a, ok) addr bs)) (y :: 'x::len word)) =
    (if addr \<le> y \<and> unat y < unat addr + length bs \<and> aclint_register (unat y)
     then bs ! (unat y - unat addr) else fst (aclint_readByte a y))"
  using assms
proof (induction bs arbitrary: a ok addr)
  case Nil
  then show ?case
    by (auto simp: word_le_nat_alt)
next
  case (Cons b bs)
  show ?case
  proof (cases "bs = []")
    case True
    with Cons.prems show ?thesis
      by (auto simp: split_def aclint_read_write_byte word_le_nat_alt less_Suc_eq_le word_unat_eq_iff [of y])
  next
    case False
    then have "unat addr + 1 < 2 ^ LENGTH('x)"
      using Cons.prems by (cases bs) auto
    then have u: "unat (addr + 1) = unat addr + 1"
      using unat_plus_of_nat [of addr 1] by simp
    have "fst (aclint_readByte (fst (aclint_writeLoop (fst (aclint_writeByte a addr b), ok \<and> snd (aclint_writeByte a addr b))
        (addr + 1) bs)) y) =
      (if addr + 1 \<le> y \<and> unat y < unat (addr + 1) + length bs \<and> aclint_register (unat y)
       then bs ! (unat y - unat (addr + 1)) else fst (aclint_readByte (fst (aclint_writeByte a addr b)) y))"
      using Cons.prems u by (intro Cons.IH) auto
    then show ?thesis
      using Cons.prems(1)
      by (auto simp: split_def aclint_read_write_byte u word_le_nat_alt nth_Cons' word_unat_eq_iff [of y])
  qed
qed

end
