(* ===== verification/Plic.thy ===== *)
theory Plic
  imports VM_State
begin

text \<open>
  The platform-level interrupt controller, \<^verbatim>\<open>src/src/dev/plic.c\<close> and \<^verbatim>\<open>plic.h\<close>: source priorities,
  pending bits, and per context an enable word, a threshold, the interrupt offered for claiming
  and the claims in progress. The source files an interrupt number \<open>n\<close> under word \<open>n / 4\<close>, bit
  \<open>n mod 4\<close> (it divides by \<^verbatim>\<open>sizeof(uint32_t)\<close>, not by the 32 bits of a word), and the arrays
  have the length of a packing by 32. Every access to an array carries its bounds check: an index
  beyond the array is undefined behaviour of the host.
\<close>

definition PLIC_HARTS :: nat where "PLIC_HARTS = 1"
definition PLIC_INTERRUPTS :: nat where "PLIC_INTERRUPTS = 1"
definition PLIC_CONTEXTS_PER_HART :: nat where "PLIC_CONTEXTS_PER_HART = 2"
definition PLIC_CONTEXTS :: nat where "PLIC_CONTEXTS = PLIC_HARTS * PLIC_CONTEXTS_PER_HART"

definition PLIC_INTERRUPT_WORDS :: nat where
  "PLIC_INTERRUPT_WORDS =
     (PLIC_INTERRUPTS + 1) div 32 + (if (PLIC_INTERRUPTS + 1) mod 32 \<noteq> 0 then 1 else 0)"

lemmas plic_consts = PLIC_HARTS_def PLIC_INTERRUPTS_def PLIC_CONTEXTS_PER_HART_def
  PLIC_CONTEXTS_def PLIC_INTERRUPT_WORDS_def

section \<open>Choosing the interrupt to offer\<close>

type_synonym plic_choice = "nat \<times> nat \<times> 32 word \<times> 32 word"

definition plic_irqWord :: "nat \<Rightarrow> nat" where "plic_irqWord n = n div 4"
definition plic_irqMask :: "nat \<Rightarrow> 32 word" where "plic_irqMask n = push_bit (n mod 4) 1"

definition plic_select :: "'x::len plic_t \<Rightarrow> nat \<Rightarrow> plic_choice \<times> bool \<Rightarrow> plic_choice \<times> bool" where
  "plic_select p i st =
     (case st of ((irq, irqWord, irqMask, prio), ok) \<Rightarrow>
        let word = plic_irqWord i; mask = plic_irqMask i in
        if (pending p ! word AND mask) \<noteq> 0
        then (if prio < priority p ! (i - 1) then (i, word, mask, priority p ! (i - 1)) else (irq, irqWord, irqMask, prio),
              ok \<and> word < length (pending p) \<and> i - 1 < length (priority p))
        else ((irq, irqWord, irqMask, prio), ok \<and> word < length (pending p)))"

text \<open>The interrupt to offer, and whether the search stayed inside the arrays.\<close>

definition plic_best :: "'x::len plic_t \<Rightarrow> plic_choice \<times> bool" where
  "plic_best p = fold (plic_select p) [1..<Suc PLIC_INTERRUPTS] ((0, 0, 0, 0), True)"

definition set_claim :: "nat \<Rightarrow> 32 word \<Rightarrow> 'x::len plic_t \<Rightarrow> 'x plic_t" where
  "set_claim i v p = p\<lparr>contexts := (contexts p)[i := (contexts p ! i)\<lparr>claim := v\<rparr>]\<rparr>"

definition plic_cause :: "nat \<Rightarrow> RV_IrqCause" where
  "plic_cause i = (if i mod PLIC_CONTEXTS_PER_HART \<noteq> 0
     then IRQ_SUPERVISOR_EXT_INT else IRQ_MACHINE_EXT_INT)"

text \<open>The accesses of the test below, in the order of its conjunctions.\<close>

definition context_access :: "plic_choice \<Rightarrow> nat \<Rightarrow> 'x::len plic_t \<Rightarrow> bool" where
  "context_access best i p =
     (case best of (irq, irqWord, irqMask, prio) \<Rightarrow>
        let c = contexts p ! i in
        i < length (contexts p) \<and>
        (threshold c < prio \<longrightarrow> irqWord < length (pendingClaims c) \<and>
          ((pendingClaims c ! irqWord AND irqMask) = 0 \<longrightarrow> irqWord < length (enable c))))"

definition processContext :: "plic_choice \<Rightarrow> nat \<Rightarrow> 'x::len vm \<Rightarrow> 'x vm" where
  "processContext best i s =
     (case best of (irq, irqWord, irqMask, prio) \<Rightarrow>
        let c = contexts (plic s) ! i; cause = plic_cause i; t = c_access (context_access best i (plic s)) s in
        if threshold c < prio \<and> (pendingClaims c ! irqWord AND irqMask) = 0
           \<and> (enable c ! irqWord AND irqMask) \<noteq> 0
        then rv_setInterrupt cause (t\<lparr>plic := set_claim i (of_nat irq) (plic s)\<rparr>)
        else rv_clearInterrupt cause (t\<lparr>plic := set_claim i 0 (plic s)\<rparr>))"

definition processInterrupts :: "'x::len vm \<Rightarrow> 'x vm" where
  "processInterrupts s =
     (case plic_best (plic s) of (best, ok) \<Rightarrow> fold (processContext best) [0..<PLIC_CONTEXTS] (c_access ok s))"

section \<open>Claiming and completing\<close>

definition claimInterrupts :: "nat option \<Rightarrow> 'x::len vm \<Rightarrow> 'x vm" where
  "claimInterrupts context s =
     (case context of
        None \<Rightarrow> s
      | Some i \<Rightarrow>
          let p = plic s; c = contexts p ! i; n = unat (claim c);
              word = plic_irqWord n; mask = plic_irqMask n;
              ok = i < length (contexts p) \<and> word < length (pendingClaims c) \<and> word < length (pending p) in
          processInterrupts
            ((c_access ok s)\<lparr>plic := p\<lparr>
                contexts := (contexts p)[i := c\<lparr>pendingClaims :=
                  (pendingClaims c)[word := pendingClaims c ! word OR mask]\<rparr>],
                pending := (pending p)[word := pending p ! word AND NOT mask]\<rparr>\<rparr>))"

definition completeInterrupts :: "nat option \<Rightarrow> 32 word \<Rightarrow> 'x::len vm \<Rightarrow> 'x vm" where
  "completeInterrupts context irq s =
     (case context of
        None \<Rightarrow> processInterrupts s
      | Some i \<Rightarrow>
          let p = plic s; c = contexts p ! i; n = unat irq;
              word = plic_irqWord n; mask = plic_irqMask n;
              ok = i < length (contexts p) \<and> word < length (enable c) \<and>
                ((enable c ! word AND mask) \<noteq> 0 \<longrightarrow> word < length (pendingClaims c)) in
          processInterrupts
            (if (enable c ! word AND mask) \<noteq> 0
             then (c_access ok s)\<lparr>plic := p\<lparr>contexts := (contexts p)[i := c\<lparr>pendingClaims :=
                (pendingClaims c)[word := pendingClaims c ! word AND NOT mask]\<rparr>]\<rparr>\<rparr>
             else c_access ok s))"

section \<open>The memory-mapped window\<close>

text \<open>An access to a field of a context.\<close>

definition in_context :: "'x::len plic_t \<Rightarrow> nat \<Rightarrow> 'b \<times> bool \<Rightarrow> 'b \<times> bool" where
  "in_context p context r = (fst r, snd r \<and> context < length (contexts p))"

text \<open>One byte of a read with whether it lies in the object it is read from, and the context whose
  claim register it belongs to.\<close>

definition plic_readByte :: "'x::len plic_t \<Rightarrow> 'x word \<Rightarrow> (byte \<times> bool) \<times> nat option" where
  "plic_readByte p addr =
     (let n = unat addr in
      if 4 \<le> n \<and> n < sizeof (priority p) + 4 then (arr_read (priority p) (n - 4), None)
      else if 0x1000 \<le> n \<and> n < 0x1000 + sizeof (pending p)
        then (arr_read (pending p) (n - 0x1000), None)
      else if 0x2000 \<le> n \<and> n < 0x200000 then
        let a = n - 0x2000; context = a div 0x80; ca = a mod 0x80 in
        if context < PLIC_CONTEXTS then
          if ca < sizeof (enable (contexts p ! context))
          then (in_context p context (arr_read (enable (contexts p ! context)) ca), None)
          else ((0, True), None)
        else ((0, True), None)
      else if 0x200000 \<le> n \<and> n < 0x400000 then
        let a = n - 0x200000; context = a div 0x1000; ca = a mod 0x1000 in
        if context < PLIC_CONTEXTS then
          if ca < 4 then (in_context p context (word_read (threshold (contexts p ! context)) ca), None)
          else if 4 \<le> ca \<and> ca < 4 + 4
            then (in_context p context (word_read (claim (contexts p ! context)) (ca - 4)), Some context)
          else ((0, True), None)
        else ((0, True), None)
      else ((0, True), None))"

primrec plic_readLoop ::
  "'x::len plic_t \<Rightarrow> 'x word \<Rightarrow> nat option \<Rightarrow> byte list \<Rightarrow> (byte \<times> bool) list \<times> nat option" where
  "plic_readLoop p addr claimContext [] = ([], claimContext)"
| "plic_readLoop p addr claimContext (_ # bs) =
     (case plic_readByte p addr of (r, c) \<Rightarrow>
        case plic_readLoop p (addr + 1) (case c of None \<Rightarrow> claimContext | Some i \<Rightarrow> Some i) bs of
          (rs, cc) \<Rightarrow> (r # rs, cc))"

definition plic_cbRead :: "'x::len vm \<Rightarrow> 'x word \<Rightarrow> byte list \<Rightarrow> 'x vm \<times> byte list" where
  "plic_cbRead s addr buf =
     (case plic_readLoop (plic s) addr None buf of (rs, claimContext) \<Rightarrow>
        (claimInterrupts claimContext (c_access (list_all snd rs) s), map fst rs))"

text \<open>One byte of a write: the registers, whether all accesses were in bounds, and the completion being
  collected.\<close>

type_synonym 'x plic_write = "'x plic_t \<times> bool \<times> nat option \<times> 32 word"

definition plic_writeByte :: "'x::len word \<Rightarrow> byte \<Rightarrow> 'x plic_write \<Rightarrow> 'x plic_write" where
  "plic_writeByte addr b st =
     (case st of (p, ok, completeContext, completeIrq) \<Rightarrow>
      let n = unat addr in
      if 4 \<le> n \<and> n < sizeof (priority p) + 4
        then (case arr_write (priority p) (n - 4) b of (v, k) \<Rightarrow>
          (p\<lparr>priority := v\<rparr>, ok \<and> k, completeContext, completeIrq))
      else if 0x2000 \<le> n \<and> n < 0x200000 then
        let a = n - 0x2000; context = a div 0x80; ca = a mod 0x80 in
        if context < PLIC_CONTEXTS then
          if ca < sizeof (enable (contexts p ! context))
          then (case in_context p context (arr_write (enable (contexts p ! context)) ca b) of (v, k) \<Rightarrow>
            (p\<lparr>contexts := (contexts p)[context := (contexts p ! context)\<lparr>enable := v\<rparr>]\<rparr>,
             ok \<and> k, completeContext, completeIrq))
          else (p, ok, completeContext, completeIrq)
        else (p, ok, completeContext, completeIrq)
      else if 0x200000 \<le> n \<and> n < 0x400000 then
        let a = n - 0x200000; context = a div 0x1000; ca = a mod 0x1000 in
        if context < PLIC_CONTEXTS then
          if ca < 4
          then (case in_context p context (word_write (threshold (contexts p ! context)) ca b) of (v, k) \<Rightarrow>
            (p\<lparr>contexts := (contexts p)[context := (contexts p ! context)\<lparr>threshold := v\<rparr>]\<rparr>,
             ok \<and> k, completeContext, completeIrq))
          else if 4 \<le> ca \<and> ca < 4 + 4
            then (case word_write completeIrq (ca - 4) b of (v, k) \<Rightarrow> (p, ok \<and> k, Some context, v))
          else (p, ok, completeContext, completeIrq)
        else (p, ok, completeContext, completeIrq)
      else (p, ok, completeContext, completeIrq))"

primrec plic_writeLoop :: "'x::len word \<Rightarrow> byte list \<Rightarrow> 'x plic_write \<Rightarrow> 'x plic_write" where
  "plic_writeLoop addr [] st = st"
| "plic_writeLoop addr (b # bs) st = plic_writeLoop (addr + 1) bs (plic_writeByte addr b st)"

definition plic_cbWrite :: "'x::len vm \<Rightarrow> 'x word \<Rightarrow> byte list \<Rightarrow> 'x vm" where
  "plic_cbWrite s addr buf =
     (case plic_writeLoop addr buf (plic s, True, None, 0) of (p, ok, completeContext, completeIrq) \<Rightarrow>
        completeInterrupts completeContext completeIrq (c_access ok (s\<lparr>plic := p\<rparr>)))"

definition plic_init :: "'x::len vm \<Rightarrow> bool \<times> 'x vm" where
  "plic_init s =
     (True, s\<lparr>plic := \<lparr>plic_dev = \<lparr>dev_size = 0x400000, dev_cb = Some PLIC\<rparr>,
        priority = replicate PLIC_INTERRUPTS 0,
        pending = replicate PLIC_INTERRUPT_WORDS 0,
        contexts = replicate PLIC_CONTEXTS
          \<lparr>enable = replicate PLIC_INTERRUPT_WORDS 0, threshold = 0, claim = 0,
           pendingClaims = replicate PLIC_INTERRUPT_WORDS 0\<rparr>\<rparr>\<rparr>)"

definition plic_interrupt :: "nat \<Rightarrow> 'x::len vm \<Rightarrow> 'x vm" where
  "plic_interrupt n s =
     (if n = 0 \<or> PLIC_INTERRUPTS < n then s
      else
        let word = plic_irqWord n; p = plic s in
        processInterrupts
          ((c_access (word < length (pending p)) s)\<lparr>plic := p\<lparr>pending := (pending p)[word := pending p ! word OR plic_irqMask n]\<rparr>\<rparr>))"

section \<open>The shape of the device state\<close>

definition wf_context :: "plic_context \<Rightarrow> bool" where
  "wf_context c \<longleftrightarrow> length (enable c) = PLIC_INTERRUPT_WORDS \<and>
     length (pendingClaims c) = PLIC_INTERRUPT_WORDS \<and> unat (claim c) \<le> PLIC_INTERRUPTS"

definition wf_plic :: "'x::len plic_t \<Rightarrow> bool" where
  "wf_plic p \<longleftrightarrow> length (priority p) = PLIC_INTERRUPTS \<and> length (pending p) = PLIC_INTERRUPT_WORDS \<and>
     length (contexts p) = PLIC_CONTEXTS \<and> (\<forall>i < PLIC_CONTEXTS. wf_context (contexts p ! i)) \<and>
     plic_dev p = \<lparr>dev_size = 0x400000, dev_cb = Some PLIC\<rparr>"

lemma wf_plicD:
  "wf_plic p \<Longrightarrow> i < PLIC_CONTEXTS \<Longrightarrow> wf_context (contexts p ! i)"
  "wf_plic p \<Longrightarrow> length (contexts p) = PLIC_CONTEXTS"
  "wf_plic p \<Longrightarrow> length (priority p) = PLIC_INTERRUPTS"
  "wf_plic p \<Longrightarrow> length (pending p) = PLIC_INTERRUPT_WORDS"
  by (auto simp: wf_plic_def)

lemma wf_plic_context_upd:
  "wf_plic p \<Longrightarrow> wf_context c \<Longrightarrow> wf_plic (p\<lparr>contexts := (contexts p)[i := c]\<rparr>)"
  by (cases "i < length (contexts p)") (auto simp: wf_plic_def nth_list_update list_update_beyond)

lemma wf_plic_reg_upd:
  "wf_plic p \<Longrightarrow> wf_plic (p\<lparr>pending := (pending p)[i := v]\<rparr>)"
  "wf_plic p \<Longrightarrow> wf_plic (p\<lparr>priority := arr_put_byte (priority p) k b\<rparr>)"
  by (simp_all add: wf_plic_def)

lemma wf_context_upd:
  "wf_context c \<Longrightarrow> wf_context (c\<lparr>pendingClaims := (pendingClaims c)[i := v]\<rparr>)"
  "wf_context c \<Longrightarrow> wf_context (c\<lparr>enable := arr_put_byte (enable c) k b\<rparr>)"
  "wf_context c \<Longrightarrow> wf_context (c\<lparr>threshold := t\<rparr>)"
  by (simp_all add: wf_context_def)

lemmas wf_plic_upds = wf_plic_context_upd wf_plic_reg_upd wf_context_upd

lemma processInterrupts_unfold:
  "processInterrupts s = processContext (fst (plic_best (plic s))) 1
     (processContext (fst (plic_best (plic s))) 0 (c_access (snd (plic_best (plic s))) s))"
  by (simp add: processInterrupts_def plic_consts numeral_2_eq_2 split_def)

text \<open>With a single source the winner is source 1 or nothing.\<close>

lemma plic_best_eq:
  "fst (plic_best p) =
     (if bit (pending p ! 0) 1 \<and> 0 < priority p ! 0 then (1, 0, 2, priority p ! 0) else (0, 0, 0, 0))"
  using and_exp_eq_0_iff [of "pending p ! 0" 1]
  by (simp add: plic_best_def plic_select_def plic_consts plic_irqWord_def plic_irqMask_def
      push_bit_eq_mult)

lemma plic_best_inside: "wf_plic p \<Longrightarrow> snd (plic_best p)"
  by (simp add: plic_best_def plic_select_def plic_consts plic_irqWord_def wf_plic_def Let_def)

text \<open>What a context is offered: source 1 when it is pending, its priority exceeds the
  threshold, the context enables it and has no claim of it in progress.\<close>

definition offers_to :: "'x::len plic_t \<Rightarrow> plic_context \<Rightarrow> bool" where
  "offers_to p c \<longleftrightarrow>
     bit (pending p ! 0) 1 \<and> threshold c < priority p ! 0 \<and> \<not> bit (pendingClaims c ! 0) 1
       \<and> bit (enable c ! 0) 1"

definition plic_offers :: "'x::len plic_t \<Rightarrow> nat \<Rightarrow> bool" where
  "plic_offers p i \<longleftrightarrow> offers_to p (contexts p ! i)"

lemma processContext_eq:
  "processContext (fst (plic_best p)) i s =
     (let t = c_access (context_access (fst (plic_best p)) i (plic s)) s in
      if offers_to p (contexts (plic s) ! i)
      then rv_setInterrupt (plic_cause i) (t\<lparr>plic := set_claim i 1 (plic s)\<rparr>)
      else rv_clearInterrupt (plic_cause i) (t\<lparr>plic := set_claim i 0 (plic s)\<rparr>))"
proof -
  have b: "w AND 2 = 0 \<longleftrightarrow> \<not> bit w 1" for w :: "32 word"
    using and_exp_eq_0_iff [of w 1] by simp
  have z: "(0::32 word) < q" if "t < q" for t q :: "32 word"
    using that by (metis word_gt_0 not_less word_zero_le leD)
  show ?thesis
    by (auto simp: processContext_def plic_best_eq offers_to_def Let_def b dest: z)
qed

lemma plic_of_irq_ops [simp]:
  "plic (rv_setInterrupt n s) = plic s" "plic (rv_clearInterrupt n s) = plic s"
  by (simp_all add: irq_line_defs)

lemma plic_processContext:
  "plic (processContext (fst (plic_best p)) i s) =
     set_claim i (of_bool (offers_to p (contexts (plic s) ! i))) (plic s)"
  by (simp add: processContext_eq Let_def)

lemma nth_set_claim:
  "length (contexts p) = PLIC_CONTEXTS \<Longrightarrow> i < PLIC_CONTEXTS \<Longrightarrow>
   contexts (set_claim i v p) ! j = (if j = i then (contexts p ! i)\<lparr>claim := v\<rparr> else contexts p ! j)"
  by (simp add: set_claim_def nth_list_update)

lemma set_claim_frame [simp]:
  "pending (set_claim i v p) = pending p" "priority (set_claim i v p) = priority p"
  "plic_dev (set_claim i v p) = plic_dev p" "length (contexts (set_claim i v p)) = length (contexts p)"
  by (simp_all add: set_claim_def)

lemma plic_processInterrupts:
  assumes "length (contexts (plic s)) = PLIC_CONTEXTS"
  shows "plic (processInterrupts s) =
     set_claim 1 (of_bool (plic_offers (plic s) 1))
       (set_claim 0 (of_bool (plic_offers (plic s) 0)) (plic s))"
  using assms nth_set_claim [OF assms, of 0]
  by (simp add: processInterrupts_unfold plic_processContext plic_offers_def plic_consts)

lemma contexts_processInterrupts:
  assumes "length (contexts (plic s)) = PLIC_CONTEXTS" "i < PLIC_CONTEXTS"
  shows "contexts (plic (processInterrupts s)) ! i =
     (contexts (plic s) ! i)\<lparr>claim := of_bool (plic_offers (plic s) i)\<rparr>"
  using assms by (auto simp: plic_processInterrupts nth_set_claim plic_consts less_Suc_eq numeral_2_eq_2)

lemma processInterrupts_regs [simp]:
  "pending (plic (processInterrupts s)) = pending (plic s)"
  "priority (plic (processInterrupts s)) = priority (plic s)"
  "plic_dev (plic (processInterrupts s)) = plic_dev (plic s)"
  "length (contexts (plic (processInterrupts s))) = length (contexts (plic s))"
  by (simp_all add: processInterrupts_unfold plic_processContext)

lemma wf_plic_processInterrupts:
  assumes "wf_plic (plic s)"
  shows "wf_plic (plic (processInterrupts s))"
  using assms contexts_processInterrupts [OF wf_plicD(2) [OF assms]]
  by (simp add: wf_plic_def wf_context_def plic_consts)

section \<open>The interrupt line follows the offer\<close>

lemma plic_cause_01 [simp]:
  "plic_cause 0 = IRQ_MACHINE_EXT_INT" "plic_cause (Suc 0) = IRQ_SUPERVISOR_EXT_INT"
  by (simp_all add: plic_cause_def plic_consts)

lemma mip_processContext:
  assumes "valid_xlen TYPE('x::len)"
  shows "bit (mip (csr_of (processContext (fst (plic_best p)) i (s :: 'x vm)))) n \<longleftrightarrow>
    (if n = irq_code (plic_cause i) then offers_to p (contexts (plic s) ! i)
     else bit (mip (csr_of s)) n)"
  using bit_mip_setInterrupt [OF assms]
  by (auto simp: processContext_eq Let_def bit_mip_clearInterrupt)

lemma processInterrupts_mip:
  assumes "valid_xlen TYPE('x::len)" "wf_plic (plic s)"
  shows "bit (mip (csr_of (processInterrupts (s :: 'x vm)))) n \<longleftrightarrow>
    (if n = irq_code IRQ_MACHINE_EXT_INT then plic_offers (plic s) 0
     else if n = irq_code IRQ_SUPERVISOR_EXT_INT then plic_offers (plic s) 1
     else bit (mip (csr_of s)) n)"
  using wf_plicD(2) [OF assms(2)]
  by (simp add: processInterrupts_unfold mip_processContext [OF assms(1)] plic_processContext
      nth_set_claim plic_offers_def plic_consts)

section \<open>What the operations do to the rest of the machine\<close>

text \<open>Everything outside the controller and the interrupt lines is as before; only the
  undefined-behaviour mark may be set.\<close>

definition plic_frame :: "'x::len vm \<Rightarrow> 'x vm \<Rightarrow> bool" where
  "plic_frame s t \<longleftrightarrow> dev_frame s t \<and> aclint t = aclint s \<and> uart0 t = uart0 s \<and>
     vm_stdout t = vm_stdout s \<and> assert_failed t = assert_failed s"

lemma plic_frame_refl [simp]: "plic_frame s s"
  by (simp add: plic_frame_def)

lemma plic_frame_trans: "plic_frame s t \<Longrightarrow> plic_frame t u \<Longrightarrow> plic_frame s u"
  by (auto simp: plic_frame_def elim: dev_frame_trans)

lemma plic_frame_upd [simp]: "plic_frame s (s\<lparr>plic := p\<rparr>)" "plic_frame s (c_access ok s)"
  "plic_frame s ((c_access ok s)\<lparr>plic := p\<rparr>)" "plic_frame s (c_access ok (s\<lparr>plic := p\<rparr>))"
  by (simp_all add: plic_frame_def dev_frame_def)

lemma plic_frame_irq: "irq_frame s t \<Longrightarrow> plic_frame s t"
  by (simp add: plic_frame_def dev_frame_irq irq_frame_vm)

lemma processContext_frame: "plic_frame s (processContext b i s)"
  by (auto simp: processContext_def Let_def split: prod.split
      intro: plic_frame_trans [OF plic_frame_upd(3)] plic_frame_irq)

lemma processInterrupts_frame: "plic_frame s (processInterrupts s)"
  unfolding processInterrupts_unfold
  by (rule plic_frame_trans [OF plic_frame_upd(2) plic_frame_trans [OF processContext_frame processContext_frame]])

lemmas plic_frames = plic_frame_upd [THEN plic_frame_trans, OF processInterrupts_frame]

lemma claimInterrupts_frame: "plic_frame s (claimInterrupts c s)"
  by (auto simp: claimInterrupts_def Let_def split: option.split intro: plic_frames)

lemma completeInterrupts_frame: "plic_frame s (completeInterrupts c n s)"
  by (auto simp: completeInterrupts_def Let_def split: option.split intro: plic_frames processInterrupts_frame)

lemma plic_cbRead_frame: "plic_frame s (fst (plic_cbRead s a b))"
  by (auto simp: plic_cbRead_def split: prod.split intro: plic_frame_trans [OF plic_frame_upd(2) claimInterrupts_frame])

lemma plic_cbWrite_frame: "plic_frame s (plic_cbWrite s a b)"
  unfolding plic_cbWrite_def
  by (auto split: prod.split intro: plic_frame_trans [OF plic_frame_upd(4) completeInterrupts_frame])

lemma plic_interrupt_frame: "plic_frame s (plic_interrupt n s)"
  unfolding plic_interrupt_def Let_def by (auto intro: plic_frames)

section \<open>Well-formedness is kept\<close>

lemma wf_plic_claimInterrupts:
  assumes "wf_plic (plic s)" "\<And>i. c = Some i \<Longrightarrow> i < PLIC_CONTEXTS"
  shows "wf_plic (plic (claimInterrupts c s))"
proof (cases c)
  case (Some i)
  with assms have c: "wf_context (contexts (plic s) ! i)"
    by (simp add: wf_plicD)
  define p where "p = (plic s)\<lparr>contexts := (contexts (plic s))[i := (contexts (plic s) ! i)
    \<lparr>pendingClaims := (pendingClaims (contexts (plic s) ! i))
       [plic_irqWord (unat (claim (contexts (plic s) ! i))) :=
          pendingClaims (contexts (plic s) ! i) ! plic_irqWord (unat (claim (contexts (plic s) ! i)))
          OR plic_irqMask (unat (claim (contexts (plic s) ! i)))]\<rparr>]\<rparr>"
  have "wf_plic p"
    unfolding p_def by (intro wf_plic_upds assms c)
  with Some assms(1) show ?thesis
    unfolding claimInterrupts_def Let_def
    using wf_plic_reg_upd(1) [of p] by (simp add: wf_plic_processInterrupts p_def)
qed (use assms in \<open>simp add: claimInterrupts_def\<close>)

lemma wf_plic_completeInterrupts:
  assumes "wf_plic (plic s)" "\<And>i. c = Some i \<Longrightarrow> i < PLIC_CONTEXTS"
  shows "wf_plic (plic (completeInterrupts c n s))"
proof (cases c)
  case (Some i)
  with assms have "wf_context (contexts (plic s) ! i)"
    by (simp add: wf_plicD)
  then show ?thesis
    using Some assms(1) unfolding completeInterrupts_def Let_def
    by (simp add: wf_plic_processInterrupts wf_plic_upds)
qed (use assms in \<open>simp add: completeInterrupts_def wf_plic_processInterrupts\<close>)

lemma plic_readByte_context: "plic_readByte p a = (r, Some i) \<Longrightarrow> i < PLIC_CONTEXTS"
  by (auto simp: plic_readByte_def Let_def split: if_splits)

lemma plic_readLoop_context:
  "plic_readLoop p a c bs = (rs, Some i) \<Longrightarrow> (\<And>j. c = Some j \<Longrightarrow> j < PLIC_CONTEXTS) \<Longrightarrow> i < PLIC_CONTEXTS"
proof (induction bs arbitrary: a c rs)
  case (Cons b bs)
  then show ?case
    by (fastforce split: prod.splits option.splits dest: plic_readByte_context)
qed simp

lemma length_plic_readLoop: "plic_readLoop p a c bs = (rs, d) \<Longrightarrow> length rs = length bs"
  by (induction bs arbitrary: a c rs) (auto split: prod.splits)

lemma plic_cbRead_length: "length (snd (plic_cbRead s a buf)) = length buf"
  by (auto simp: plic_cbRead_def split: prod.split dest: length_plic_readLoop)

lemma wf_plic_cbRead:
  "wf_plic (plic s) \<Longrightarrow> wf_plic (plic (fst (plic_cbRead s a buf)))"
  by (auto simp: plic_cbRead_def split: prod.split intro!: wf_plic_claimInterrupts
      dest: plic_readLoop_context)

definition wf_write_st :: "'x::len plic_write \<Rightarrow> bool" where
  "wf_write_st st \<longleftrightarrow> (case st of (p, ok, c, n) \<Rightarrow> wf_plic p \<and> (\<forall>i. c = Some i \<longrightarrow> i < PLIC_CONTEXTS))"

lemma wf_plic_writeByte:
  assumes "wf_write_st st"
  shows "wf_write_st (plic_writeByte a b st)"
proof (cases st)
  case (fields p ok c n)
  with assms have p: "wf_plic p" "\<And>i. c = Some i \<Longrightarrow> i < PLIC_CONTEXTS"
    by (auto simp: wf_write_st_def)
  then show ?thesis
    unfolding plic_writeByte_def Let_def wf_write_st_def fields prod.case
    by (simp add: access_defs in_context_def wf_plic_upds wf_plicD(1))
qed

lemma wf_plic_writeLoop: "wf_write_st st \<Longrightarrow> wf_write_st (plic_writeLoop a bs st)"
proof (induction bs arbitrary: a st)
  case (Cons b bs)
  from Cons.IH [OF wf_plic_writeByte [OF Cons.prems]] show ?case
    by simp
qed simp

lemma wf_plic_cbWrite:
  assumes "wf_plic (plic s)"
  shows "wf_plic (plic (plic_cbWrite s a buf))"
  using assms wf_plic_writeLoop [of "(plic s, True, None, 0)" a buf]
  by (auto simp: plic_cbWrite_def wf_write_st_def split: prod.split intro!: wf_plic_completeInterrupts)

lemma wf_plic_interrupt: "wf_plic (plic s) \<Longrightarrow> wf_plic (plic (plic_interrupt n s))"
  unfolding plic_interrupt_def Let_def
  by (simp add: wf_plic_processInterrupts wf_plic_reg_upd)

lemma wf_plic_init: "wf_plic (plic (snd (plic_init s)))"
  by (simp add: plic_init_def wf_plic_def wf_context_def)

section \<open>Claiming and completing\<close>

text \<open>Once the registers are settled, the claim register of a context holds what the context
  is offered; \<open>processInterrupts\<close> settles them.\<close>

definition plic_settled :: "'x::len plic_t \<Rightarrow> bool" where
  "plic_settled p \<longleftrightarrow> (\<forall>i < PLIC_CONTEXTS. claim (contexts p ! i) = of_bool (plic_offers p i))"

lemma plic_offers_processInterrupts:
  assumes "wf_plic (plic s)" "i < PLIC_CONTEXTS"
  shows "plic_offers (plic (processInterrupts s)) i \<longleftrightarrow> plic_offers (plic s) i"
  using contexts_processInterrupts [OF wf_plicD(2) [OF assms(1)] assms(2)]
  by (simp add: plic_offers_def offers_to_def)

lemma processInterrupts_settles:
  assumes "wf_plic (plic s)"
  shows "plic_settled (plic (processInterrupts s))"
  using contexts_processInterrupts [OF wf_plicD(2) [OF assms]] plic_offers_processInterrupts [OF assms]
  by (simp add: plic_settled_def)

text \<open>The address of the claim register of a context.\<close>

definition claim_addr :: "nat \<Rightarrow> 'x::len word" where
  "claim_addr i = of_nat (0x200004 + 0x1000 * i)"

lemma unat_claim_addr:
  assumes "valid_xlen TYPE('x::len)" "i < PLIC_CONTEXTS" "k < 4"
  shows "unat (claim_addr i + of_nat k :: 'x word) = 0x200004 + 0x1000 * i + k"
proof -
  have b: "0x200004 + 0x1000 * i + k < 2 ^ 32"
    using assms by (simp add: plic_consts)
  also have "(2::nat) ^ 32 \<le> 2 ^ LENGTH('x)"
    using valid_xlen_ge [OF assms(1)] by (rule power_increasing) simp
  finally have l: "0x200004 + 0x1000 * i + k < 2 ^ LENGTH('x)" .
  have "claim_addr i + of_nat k = (of_nat (0x200004 + 0x1000 * i + k) :: 'x word)"
    by (simp add: claim_addr_def)
  with l show ?thesis
    by (simp only: unat_of_nat mod_less)
qed

lemma plic_readByte_claim:
  assumes "valid_xlen TYPE('x::len)" "i < PLIC_CONTEXTS" "k < 4" "wf_plic p"
  shows "plic_readByte p (claim_addr i + of_nat k :: 'x word) =
    ((get_byte (claim (contexts p ! i)) k, True), Some i)"
proof -
  have e: "0x200004 + 0x1000 * i + k - 0x200000 = 0x1000 * i + (4 + k)"
    by simp
  have "(0x200004 + 0x1000 * i + k - 0x200000) div 0x1000 = i"
    "(0x200004 + 0x1000 * i + k - 0x200000) mod 0x1000 = 4 + k"
    using assms(3) unfolding e by (simp_all del: add.assoc)
  moreover have "sizeof (priority p) = 4" "sizeof (pending p) = 4"
    using assms(4) by (auto simp: wf_plic_def sizeof_def plic_consts)
  moreover have "0x200004 + 0x1000 * i + k < 0x400000"
    using assms(2,3) by (simp add: plic_consts)
  ultimately show ?thesis
    using assms(2,3) wf_plicD(2) [OF assms(4)]
    by (simp add: plic_readByte_def Let_def access_defs in_context_def unat_claim_addr [OF assms(1-3)])
qed

lemma plic_readLoop_claim:
  assumes "valid_xlen TYPE('x::len)" "i < PLIC_CONTEXTS" "wf_plic p" "length buf = 4"
  shows "plic_readLoop p (claim_addr i :: 'x word) None buf =
    (map (\<lambda>b. (b, True)) (le_bytes 4 (claim (contexts p ! i))), Some i)"
proof -
  obtain a b c d where buf: "buf = [a, b, c, d]"
    using assms(4) by (auto simp: length_Suc_conv numeral_eq_Suc)
  note r = plic_readByte_claim [OF assms(1,2) _ assms(3)]
  have "le_bytes 4 w = [get_byte w 0, get_byte w 1, get_byte w 2, get_byte w 3]" for w :: "32 word"
    by (simp add: le_bytes_def upt_conv_Cons numeral_eq_Suc)
  then show ?thesis
    using r [of 0] r [of 1] r [of 2] r [of 3] by (simp add: buf add.assoc)
qed

text \<open>The state of the controller after a claim of source 1: the source is no longer pending
  and the claim is marked as in progress.\<close>

definition mark_claimed :: "nat \<Rightarrow> 'x::len plic_t \<Rightarrow> 'x plic_t" where
  "mark_claimed i p = p\<lparr>
     contexts := (contexts p)[i := (contexts p ! i)\<lparr>pendingClaims :=
       (pendingClaims (contexts p ! i))[0 := pendingClaims (contexts p ! i) ! 0 OR 2]\<rparr>],
     pending := (pending p)[0 := pending p ! 0 AND NOT 2]\<rparr>"

lemma claimInterrupts_eq:
  assumes "claim (contexts (plic s) ! i) = 1" "wf_plic (plic s)" "i < PLIC_CONTEXTS"
  shows "claimInterrupts (Some i) s = processInterrupts (s\<lparr>plic := mark_claimed i (plic s)\<rparr>)"
  using wf_plicD(1) [OF assms(2,3)] wf_plicD(2,4) [OF assms(2)] assms(3)
  unfolding claimInterrupts_def option.case Let_def assms(1) mark_claimed_def wf_context_def
  by (simp add: plic_irqWord_def plic_irqMask_def plic_consts push_bit_eq_mult)

lemma wf_mark_claimed:
  assumes "wf_plic p" "i < PLIC_CONTEXTS"
  shows "wf_plic (mark_claimed i p)"
  using wf_plic_reg_upd(1) [OF wf_plic_context_upd [OF assms(1)
      wf_context_upd(1) [OF wf_plicD(1) [OF assms]]]]
  by (simp add: mark_claimed_def)

lemma bit_1_two: "bit (2 :: 32 word) (Suc 0)" "\<not> bit (- 3 :: 32 word) (Suc 0)"
  by code_simp+

lemma mark_claimed_bits:
  assumes w: "wf_plic p" and i: "i < PLIC_CONTEXTS"
  shows "\<not> bit (pending (mark_claimed i p) ! 0) 1"
    "bit (pendingClaims (contexts (mark_claimed i p) ! i) ! 0) 1"
proof -
  have "length (contexts p) = PLIC_CONTEXTS" "length (pending p) = Suc 0"
    "length (pendingClaims (contexts p ! i)) = Suc 0"
    using w wf_plicD(1) [OF w i] by (auto simp: wf_plic_def wf_context_def plic_consts)
  with i show "\<not> bit (pending (mark_claimed i p) ! 0) 1"
    "bit (pendingClaims (contexts (mark_claimed i p) ! i) ! 0) 1"
    unfolding mark_claimed_def by (simp_all add: bit_1_two bit_or_iff bit_and_iff)
qed

text \<open>Nothing is offered while no source is pending, so both lines are down.\<close>

lemma not_offered: "\<not> bit (pending p ! 0) 1 \<Longrightarrow> \<not> plic_offers p i"
  by (simp add: plic_offers_def offers_to_def)

lemma claimInterrupts_mip:
  assumes v: "valid_xlen TYPE('x::len)" and w: "wf_plic (plic (s :: 'x vm))" and i: "i < PLIC_CONTEXTS"
    and c: "claim (contexts (plic s) ! i) = 1"
  shows "\<not> bit (mip (csr_of (claimInterrupts (Some i) s))) (irq_code (plic_cause j))"
  using processInterrupts_mip [OF v, of "s\<lparr>plic := mark_claimed i (plic s)\<rparr>"]
    wf_mark_claimed [OF w i] not_offered [OF mark_claimed_bits(1) [OF w i]]
  by (auto simp: claimInterrupts_eq [OF c w i] plic_cause_def)

text \<open>The accesses are in bounds: of the search and the contexts, of the registers by the tests the code
  makes, and of a claim, because a context is only ever offered a source there is. A completion is the
  exception: it leaves the arrays exactly when the guest names a number whose word lies beyond them.\<close>

lemma context_access_inside:
  "wf_plic p \<Longrightarrow> i < PLIC_CONTEXTS \<Longrightarrow> context_access (fst (plic_best q)) i p"
  using wf_plicD(1,2) [of p]
  by (auto simp: context_access_def plic_best_eq wf_context_def plic_consts Let_def)

lemma host_ub_irq_ops [simp]:
  "host_ub (rv_setInterrupt n s) = host_ub s" "host_ub (rv_clearInterrupt n s) = host_ub s"
  by (simp_all add: irq_line_defs)

lemma processContext_ub:
  "wf_plic (plic s) \<Longrightarrow> i < PLIC_CONTEXTS \<Longrightarrow> host_ub (processContext (fst (plic_best q)) i s) = host_ub s"
  by (simp add: processContext_eq Let_def context_access_inside)

lemma wf_set_claim: "wf_plic p \<Longrightarrow> i < PLIC_CONTEXTS \<Longrightarrow> unat v \<le> 1 \<Longrightarrow> wf_plic (set_claim i v p)"
  using wf_plicD(1) [of p i] unfolding set_claim_def
  by (intro wf_plic_context_upd) (simp_all add: wf_context_def plic_consts)

lemma processInterrupts_ub:
  assumes "wf_plic (plic s)"
  shows "host_ub (processInterrupts s) = host_ub s"
proof -
  let ?b = "fst (plic_best (plic s))"
  have "wf_plic (plic (processContext ?b 0 s))"
    using assms by (simp add: plic_processContext wf_set_claim plic_consts)
  then have "host_ub (processContext ?b 1 (processContext ?b 0 s)) = host_ub (processContext ?b 0 s)"
    by (rule processContext_ub) (simp add: plic_consts)
  also have "\<dots> = host_ub s"
    using assms by (rule processContext_ub) (simp add: plic_consts)
  finally show ?thesis
    by (simp add: processInterrupts_unfold plic_best_inside [OF assms])
qed

lemma plic_interrupt_ub: "wf_plic (plic s) \<Longrightarrow> host_ub (plic_interrupt n s) = host_ub s"
  by (auto simp: plic_interrupt_def Let_def processInterrupts_ub wf_plic_reg_upd plic_irqWord_def wf_plicD(4) plic_consts)

lemma inside_if:
  "(P \<Longrightarrow> snd (fst x)) \<Longrightarrow> (\<not> P \<Longrightarrow> snd (fst y)) \<Longrightarrow> snd (fst (if P then x else y))"
  "(P \<Longrightarrow> fst (snd u) = ok) \<Longrightarrow> (\<not> P \<Longrightarrow> fst (snd v) = ok) \<Longrightarrow> fst (snd (if P then u else v)) = ok"
  by simp_all

lemma plic_readByte_inside: "wf_plic p \<Longrightarrow> snd (fst (plic_readByte p addr))"
  unfolding plic_readByte_def Let_def
  by (intro inside_if) (simp_all add: access_defs in_context_def wf_plicD(2) less_diff_conv2 add.commute)

lemma plic_readLoop_inside: "wf_plic p \<Longrightarrow> list_all snd (fst (plic_readLoop p addr c bs))"
  by (induction bs arbitrary: addr c) (simp_all add: split_def plic_readByte_inside)

lemma plic_writeByte_inside:
  "wf_write_st st \<Longrightarrow> fst (snd (plic_writeByte addr b st)) = fst (snd st)"
  unfolding plic_writeByte_def Let_def
  by (cases st, simp only: prod.case, intro inside_if)
    (simp_all add: access_defs in_context_def wf_write_st_def wf_plicD(2) less_diff_conv2 add.commute)

lemma plic_writeLoop_inside:
  "wf_write_st st \<Longrightarrow> fst (snd (plic_writeLoop addr bs st)) = fst (snd st)"
  by (induction bs arbitrary: addr st) (simp_all add: plic_writeByte_inside wf_plic_writeByte)

lemma claimInterrupts_ub:
  assumes "wf_plic (plic s)" "\<And>i. c = Some i \<Longrightarrow> i < PLIC_CONTEXTS"
  shows "host_ub (claimInterrupts c s) = host_ub s"
proof (cases c)
  case (Some i)
  with assms have c: "wf_context (contexts (plic s) ! i)" and i: "i < PLIC_CONTEXTS"
    by (simp_all add: wf_plicD)
  then have w: "unat (claim (contexts (plic s) ! i)) div 4 = 0" "length (pendingClaims (contexts (plic s) ! i)) = 1"
    by (auto simp: wf_context_def plic_consts)
  define p where "p = plic s"
  let ?w = "plic_irqWord (unat (claim (contexts p ! i)))" and ?m = "plic_irqMask (unat (claim (contexts p ! i)))"
  have "wf_plic (p\<lparr>contexts := (contexts p)[i := (contexts p ! i)\<lparr>pendingClaims :=
      (pendingClaims (contexts p ! i))[?w := pendingClaims (contexts p ! i) ! ?w OR ?m]\<rparr>]\<rparr>)"
    using assms(1) c unfolding p_def by (intro wf_plic_upds)
  from wf_plic_reg_upd(1) [OF this] show ?thesis
    using Some w i wf_plicD(2,4) [OF assms(1)]
    by (simp add: claimInterrupts_def Let_def processInterrupts_ub p_def plic_irqWord_def plic_consts)
qed (simp add: claimInterrupts_def)

lemma plic_cbRead_ub:
  "wf_plic (plic s) \<Longrightarrow> host_ub (fst (plic_cbRead s a buf)) = host_ub s"
  using plic_readLoop_inside [of "plic s" a None buf] plic_readLoop_context [of "plic s" a None buf]
  by (cases "plic_readLoop (plic s) a None buf") (simp add: plic_cbRead_def claimInterrupts_ub)

lemma completeInterrupts_ub:
  assumes "wf_plic (plic s)" "\<And>i. c = Some i \<Longrightarrow> i < PLIC_CONTEXTS"
  shows "host_ub (completeInterrupts c n s) \<longleftrightarrow> host_ub s \<or> c \<noteq> None \<and> 4 \<le> unat n"
proof (cases c)
  case (Some i)
  with assms have c: "wf_context (contexts (plic s) ! i)" and i: "i < PLIC_CONTEXTS"
    by (simp_all add: wf_plicD)
  then have l: "length (enable (contexts (plic s) ! i)) = 1" "length (pendingClaims (contexts (plic s) ! i)) = 1"
    by (simp_all add: wf_context_def plic_consts)
  show ?thesis
    using Some i l wf_plicD(2) [OF assms(1)] assms(1) c
    by (auto simp: completeInterrupts_def Let_def processInterrupts_ub wf_plic_upds plic_irqWord_def)
qed (use assms in \<open>simp add: completeInterrupts_def processInterrupts_ub\<close>)

lemma plic_cbWrite_ub:
  assumes "wf_plic (plic s)"
  shows "host_ub (plic_cbWrite s a buf) \<longleftrightarrow>
     host_ub s \<or> (case plic_writeLoop a buf (plic s, True, None, 0) of (p, ok, c, n) \<Rightarrow> c \<noteq> None \<and> 4 \<le> unat n)"
proof -
  obtain p ok c n where l: "plic_writeLoop a buf (plic s, True, None, 0) = (p, ok, c, n)"
    by (cases "plic_writeLoop a buf (plic s, True, None, 0)")
  have i: "wf_write_st (plic s, True, None, 0)"
    using assms by (simp add: wf_write_st_def)
  have "wf_plic p" "\<And>i. c = Some i \<Longrightarrow> i < PLIC_CONTEXTS" ok
    using wf_plic_writeLoop [OF i, of a buf] plic_writeLoop_inside [OF i, of a buf] by (auto simp: l wf_write_st_def)
  then show ?thesis
    by (simp add: plic_cbWrite_def l completeInterrupts_ub)
qed

end
