(* ===== verification/Ns16550a.thy ===== *)
theory Ns16550a
  imports Plic
begin

text \<open>
  The serial port, \<^verbatim>\<open>src/src/dev/ns16550a.c\<close> and \<^verbatim>\<open>ns16550a.h\<close>: a ring buffer of received
  characters, the interrupt enable and line control registers, and the register window. A byte of
  a read that the source leaves alone (the divisor latch, when \<^verbatim>\<open>DLAB\<close> is set) keeps what the
  caller's buffer held. The ring buffer is shown to implement a bounded first-in first-out queue,
  whose laws are the locale \<open>bounded_queue\<close>.
\<close>

definition NS16550A_BUF_SIZE :: nat where "NS16550A_BUF_SIZE = 256"
definition NS16550A_IRQ :: nat where "NS16550A_IRQ = 1"
definition NS16550A_LCR_DLAB :: byte where "NS16550A_LCR_DLAB = push_bit 7 1"
definition NS16550A_LSR_TXE :: byte where "NS16550A_LSR_TXE = push_bit 6 1"
definition NS16550A_LSR_THRE :: byte where "NS16550A_LSR_THRE = push_bit 5 1"
definition NS16550A_LSR_DR :: byte where "NS16550A_LSR_DR = push_bit 0 1"
definition NS16550A_IER_DR :: byte where "NS16550A_IER_DR = push_bit 0 1"
definition NS16550A_IER_THRE :: byte where "NS16550A_IER_THRE = push_bit 1 1"
definition NS16550A_ISR_IS :: byte where "NS16550A_ISR_IS = push_bit 0 1"
definition NS16550A_ISR_IIC_OFFSET :: nat where "NS16550A_ISR_IIC_OFFSET = 1"
definition NS16550A_ISR_IIC_NO :: byte where "NS16550A_ISR_IIC_NO = 1"
definition NS16550A_ISR_IIC_RDR :: byte where "NS16550A_ISR_IIC_RDR = 4"
definition NS16550A_ISR_IIC_THRE :: byte where "NS16550A_ISR_IIC_THRE = 2"

lemmas uart_consts = NS16550A_LCR_DLAB_def NS16550A_LSR_TXE_def NS16550A_LSR_THRE_def
  NS16550A_LSR_DR_def NS16550A_IER_DR_def NS16550A_IER_THRE_def NS16550A_ISR_IS_def
  NS16550A_ISR_IIC_OFFSET_def NS16550A_ISR_IIC_NO_def NS16550A_ISR_IIC_RDR_def
  NS16550A_ISR_IIC_THRE_def

section \<open>Operations\<close>

definition uart_irq_cond :: "'x::len uart_t \<Rightarrow> bool" where
  "uart_irq_cond u \<longleftrightarrow> (ier u AND NS16550A_IER_DR) \<noteq> 0 \<and> rb_len (ringBuffer u) \<noteq> 0
     \<or> (ier u AND NS16550A_IER_THRE) \<noteq> 0"

definition uart_irq :: "'x::len vm \<Rightarrow> 'x vm" where
  "uart_irq s = (if uart_irq_cond (uart0 s) then plic_interrupt NS16550A_IRQ s else s)"

definition incBufIdx :: "nat \<Rightarrow> nat" where
  "incBufIdx idx = (idx + 1) mod NS16550A_BUF_SIZE"

text \<open>The two operations on the ring buffer, with whether the index used lies in the buffer.\<close>

definition popChar :: "ring_buffer \<Rightarrow> byte \<times> bool \<times> ring_buffer" where
  "popChar rb =
     (if rb_len rb = 0 then (0, True, rb)
      else (rb_buf rb ! rdIdx rb, rdIdx rb < length (rb_buf rb),
            rb\<lparr>rdIdx := incBufIdx (rdIdx rb), rb_len := rb_len rb - 1\<rparr>))"

definition pushChar :: "byte \<Rightarrow> ring_buffer \<Rightarrow> bool \<times> bool \<times> ring_buffer" where
  "pushChar ch rb =
     (if NS16550A_BUF_SIZE \<le> rb_len rb then (False, True, rb)
      else (True, wrIdx rb < length (rb_buf rb),
            rb\<lparr>rb_buf := (rb_buf rb)[wrIdx rb := ch], wrIdx := incBufIdx (wrIdx rb),
               rb_len := rb_len rb + 1\<rparr>))"

definition uart_readIsr :: "'x::len uart_t \<Rightarrow> byte" where
  "uart_readIsr u =
     (let iic = if rb_len (ringBuffer u) \<noteq> 0 \<and> (ier u AND NS16550A_IER_DR) \<noteq> 0
                then NS16550A_ISR_IIC_RDR
                else if (ier u AND NS16550A_IER_THRE) \<noteq> 0 then NS16550A_ISR_IIC_THRE
                else NS16550A_ISR_IIC_NO
      in push_bit NS16550A_ISR_IIC_OFFSET iic
         OR (if iic = NS16550A_ISR_IIC_NO then NS16550A_ISR_IS else 0))"

definition uart_readByte :: "64 word \<Rightarrow> byte \<Rightarrow> 'x::len uart_t \<Rightarrow> (byte \<times> bool) \<times> 'x uart_t" where
  "uart_readByte n old u =
     (if n = 0 then
        if (lcr u AND NS16550A_LCR_DLAB) = 0
        then (case popChar (ringBuffer u) of (ch, ok, rb) \<Rightarrow> ((ch, ok), u\<lparr>ringBuffer := rb\<rparr>))
        else ((old, True), u)
      else if n = 1 then
        if (lcr u AND NS16550A_LCR_DLAB) = 0 then ((ier u, True), u) else ((old, True), u)
      else if n = 2 then ((uart_readIsr u, True), u)
      else if n = 3 then ((lcr u, True), u)
      else if n = 5 then
        ((NS16550A_LSR_TXE OR NS16550A_LSR_THRE
          OR (if rb_len (ringBuffer u) \<noteq> 0 then NS16550A_LSR_DR else 0), True), u)
      else ((0, True), u))"

primrec uart_readLoop :: "64 word \<Rightarrow> byte list \<Rightarrow> 'x::len uart_t \<Rightarrow> (byte \<times> bool) list \<times> 'x uart_t" where
  "uart_readLoop n [] u = ([], u)"
| "uart_readLoop n (b # bs) u =
     (case uart_readByte n b u of (r, u') \<Rightarrow>
        case uart_readLoop (n + 1) bs u' of (rs, u'') \<Rightarrow> (r # rs, u''))"

definition uart_cbRead :: "'x::len vm \<Rightarrow> 'x word \<Rightarrow> byte list \<Rightarrow> 'x vm \<times> byte list" where
  "uart_cbRead s addr buf =
     (case uart_readLoop (ucast addr) buf (uart0 s) of (rs, u) \<Rightarrow>
        (c_access (list_all snd rs) (s\<lparr>uart0 := u\<rparr>), map fst rs))"

definition uart_writeByte :: "64 word \<Rightarrow> byte \<Rightarrow> 'x::len vm \<Rightarrow> 'x vm" where
  "uart_writeByte n b s =
     (let u = uart0 s in
      if n = 0 then
        if (lcr u AND NS16550A_LCR_DLAB) = 0 then ui_putch b s else s
      else if n = 1 then
        if (lcr u AND NS16550A_LCR_DLAB) = 0 then uart_irq (s\<lparr>uart0 := u\<lparr>ier := b\<rparr>\<rparr>) else s
      else if n = 3 then s\<lparr>uart0 := u\<lparr>lcr := b\<rparr>\<rparr>
      else s)"

primrec uart_writeLoop :: "64 word \<Rightarrow> byte list \<Rightarrow> 'x::len vm \<Rightarrow> 'x vm" where
  "uart_writeLoop n [] s = s"
| "uart_writeLoop n (b # bs) s = uart_writeLoop (n + 1) bs (uart_writeByte n b s)"

definition uart_cbWrite :: "'x::len vm \<Rightarrow> 'x word \<Rightarrow> byte list \<Rightarrow> 'x vm" where
  "uart_cbWrite s addr buf = uart_writeLoop (ucast addr) buf s"

definition ns16550a_init :: "'x::len vm \<Rightarrow> bool \<times> 'x vm" where
  "ns16550a_init s =
     (True, s\<lparr>uart0 := \<lparr>uart_dev = \<lparr>dev_size = 8, dev_cb = Some UART0\<rparr>,
        ringBuffer = \<lparr>rb_buf = replicate NS16550A_BUF_SIZE 0, rdIdx = 0, wrIdx = 0, rb_len = 0\<rparr>,
        ier = 0, lcr = 0\<rparr>\<rparr>)"

definition ns16550_push :: "byte \<Rightarrow> 'x::len vm \<Rightarrow> bool \<times> 'x vm" where
  "ns16550_push ch s =
     (case pushChar ch (ringBuffer (uart0 s)) of (stored, ok, rb) \<Rightarrow>
        if stored then (True, uart_irq (c_access ok (s\<lparr>uart0 := (uart0 s)\<lparr>ringBuffer := rb\<rparr>\<rparr>)))
        else (False, s))"

section \<open>Bounded queues\<close>

text \<open>What a client of a bounded queue relies on, and what follows for runs of insertions and
  removals.\<close>

locale bounded_queue =
  fixes wf :: "'q \<Rightarrow> bool"
    and contents :: "'q \<Rightarrow> 'a list"
    and push :: "'a \<Rightarrow> 'q \<Rightarrow> bool \<times> 'q"
    and pop :: "'q \<Rightarrow> 'a \<times> 'q"
    and capacity :: nat
    and nothing :: 'a
  assumes bound: "wf q \<Longrightarrow> length (contents q) \<le> capacity"
    and push_full: "wf q \<Longrightarrow> length (contents q) = capacity \<Longrightarrow> push x q = (False, q)"
    and push_room: "wf q \<Longrightarrow> length (contents q) < capacity \<Longrightarrow>
      \<exists>q'. push x q = (True, q') \<and> wf q' \<and> contents q' = contents q @ [x]"
    and pop_empty: "wf q \<Longrightarrow> contents q = [] \<Longrightarrow> pop q = (nothing, q)"
    and pop_Cons: "wf q \<Longrightarrow> contents q = y # ys \<Longrightarrow>
      \<exists>q'. pop q = (y, q') \<and> wf q' \<and> contents q' = ys"
begin

lemma wf_push: "wf q \<Longrightarrow> wf (snd (push x q))"
  using push_full [of q x] push_room [of q x] bound [of q] by (metis le_neq_implies_less snd_conv)

lemma wf_pop: "wf q \<Longrightarrow> wf (snd (pop q))"
  using pop_empty [of q] pop_Cons [of q] by (cases "contents q") auto

lemma contents_push:
  "wf q \<Longrightarrow> contents (snd (push x q)) = contents q @ (if length (contents q) < capacity then [x] else [])"
  using push_full [of q x] push_room [of q x] bound [of q] by fastforce

lemma contents_pop: "wf q \<Longrightarrow> contents (snd (pop q)) = tl (contents q)"
  using pop_empty [of q] pop_Cons [of q] by (cases "contents q") auto

lemma push_many:
  assumes "wf q"
  shows "wf (fold (\<lambda>x q. snd (push x q)) xs q)"
    "contents (fold (\<lambda>x q. snd (push x q)) xs q) =
      contents q @ take (capacity - length (contents q)) xs"
proof -
  have "wf (fold (\<lambda>x q. snd (push x q)) xs q) \<and>
    contents (fold (\<lambda>x q. snd (push x q)) xs q) =
      contents q @ take (capacity - length (contents q)) xs"
    using assms
  proof (induction xs arbitrary: q)
    case (Cons x xs)
    have "wf (snd (push x q))"
      using Cons.prems by (rule wf_push)
    from Cons.IH [OF this] show ?case
      using contents_push [OF Cons.prems, of x] bound [OF Cons.prems]
      by (cases "length (contents q) < capacity") (auto simp: take_Cons' diff_diff_left)
  qed simp
  then show "wf (fold (\<lambda>x q. snd (push x q)) xs q)"
    "contents (fold (\<lambda>x q. snd (push x q)) xs q) =
      contents q @ take (capacity - length (contents q)) xs"
    by blast+
qed

text \<open>Removing one element after the other yields the contents in order.\<close>

lemma pop_nth:
  assumes "wf q" "n < length (contents q)"
  shows "fst (pop (((\<lambda>q. snd (pop q)) ^^ n) q)) = contents q ! n"
  using assms
proof (induction n arbitrary: q)
  case 0
  then show ?case
    using pop_Cons [of q] by (cases "contents q") auto
next
  case (Suc n)
  have "fst (pop (((\<lambda>q. snd (pop q)) ^^ n) (snd (pop q)))) = contents (snd (pop q)) ! n"
    using Suc.prems by (intro Suc.IH wf_pop) (auto simp: contents_pop)
  then show ?case
    using Suc.prems by (simp add: contents_pop nth_tl funpow_Suc_right del: funpow.simps)
qed

text \<open>First in, first out: what fits of a burst comes back in the order it went in.\<close>

lemma fifo:
  assumes "wf q" "contents q = []" "n < length xs" "n < capacity"
  shows "fst (pop (((\<lambda>q. snd (pop q)) ^^ n) (fold (\<lambda>x q. snd (push x q)) xs q))) = xs ! n"
  using assms push_many [OF assms(1), of xs] by (subst pop_nth) simp_all

end

section \<open>The ring buffer is a bounded queue\<close>

definition wf_ring :: "ring_buffer \<Rightarrow> bool" where
  "wf_ring rb \<longleftrightarrow> length (rb_buf rb) = NS16550A_BUF_SIZE \<and> rb_len rb \<le> NS16550A_BUF_SIZE \<and>
     rdIdx rb < NS16550A_BUF_SIZE \<and> wrIdx rb = (rdIdx rb + rb_len rb) mod NS16550A_BUF_SIZE"

text \<open>The operations without the bounds, as a queue has them.\<close>

definition push_char :: "byte \<Rightarrow> ring_buffer \<Rightarrow> bool \<times> ring_buffer" where
  "push_char ch rb = (case pushChar ch rb of (stored, ok, rb') \<Rightarrow> (stored, rb'))"

definition pop_char :: "ring_buffer \<Rightarrow> byte \<times> ring_buffer" where
  "pop_char rb = (case popChar rb of (ch, ok, rb') \<Rightarrow> (ch, rb'))"

lemma ring_access_inside:
  assumes "wf_ring rb"
  shows "fst (snd (pushChar ch rb))" "fst (snd (popChar rb))"
  using assms by (simp_all add: pushChar_def popChar_def wf_ring_def NS16550A_BUF_SIZE_def)

definition rb_contents :: "ring_buffer \<Rightarrow> byte list" where
  "rb_contents rb = map (\<lambda>k. rb_buf rb ! ((rdIdx rb + k) mod NS16550A_BUF_SIZE)) [0..<rb_len rb]"

lemma length_rb_contents [simp]: "length (rb_contents rb) = rb_len rb"
  by (simp add: rb_contents_def)

lemma ring_index_neq:
  fixes r :: nat
  assumes "k < l" "l < n"
  shows "(r + k) mod n \<noteq> (r + l) mod n"
proof
  assume "(r + k) mod n = (r + l) mod n"
  then have "n dvd (r + l) - (r + k)"
    using mod_eq_dvd_iff_nat [of "r + k" "r + l" n] assms by simp
  then show False
    using assms by (auto dest: dvd_imp_le)
qed

lemma pushChar_room:
  assumes w: "wf_ring rb" and l: "rb_len rb < NS16550A_BUF_SIZE"
  shows "\<exists>rb'. push_char ch rb = (True, rb') \<and> wf_ring rb' \<and> rb_contents rb' = rb_contents rb @ [ch]"
proof -
  define rb' where "rb' = rb\<lparr>rb_buf := (rb_buf rb)[wrIdx rb := ch], wrIdx := incBufIdx (wrIdx rb),
    rb_len := rb_len rb + 1\<rparr>"
  have p: "push_char ch rb = (True, rb')"
    using l by (simp add: push_char_def pushChar_def rb'_def)
  have w': "wf_ring rb'"
    using w l by (simp add: wf_ring_def rb'_def incBufIdx_def mod_Suc_eq)
  have "rb_contents rb' ! k = (rb_contents rb @ [ch]) ! k" if k: "k < rb_len rb + 1" for k
  proof (cases "k = rb_len rb")
    case True
    then show ?thesis
      using w by (simp add: rb_contents_def rb'_def wf_ring_def nth_append)
  next
    case False
    with k have k': "k < rb_len rb" by simp
    then show ?thesis
      using w ring_index_neq [OF k' l, of "rdIdx rb"] k
      by (simp add: rb_contents_def rb'_def wf_ring_def nth_append)
  qed
  then have "rb_contents rb' = rb_contents rb @ [ch]"
    by (intro nth_equalityI) (simp_all add: rb'_def)
  with p w' show ?thesis by blast
qed

lemma popChar_Cons:
  assumes w: "wf_ring rb" and c: "rb_contents rb = y # ys"
  shows "\<exists>rb'. pop_char rb = (y, rb') \<and> wf_ring rb' \<and> rb_contents rb' = ys"
proof -
  define rb' where "rb' = rb\<lparr>rdIdx := incBufIdx (rdIdx rb), rb_len := rb_len rb - 1\<rparr>"
  have l: "rb_len rb = Suc (length ys)"
    using c length_rb_contents [of rb] by simp
  have "y = rb_contents rb ! 0"
    by (simp add: c)
  then have "y = rb_buf rb ! rdIdx rb"
    using w l by (simp add: rb_contents_def wf_ring_def del: upt_Suc)
  then have p: "pop_char rb = (y, rb')"
    using l by (simp add: pop_char_def popChar_def rb'_def)
  have w': "wf_ring rb'"
    using w l by (simp add: wf_ring_def rb'_def incBufIdx_def NS16550A_BUF_SIZE_def mod_simps)
  have "rb_contents rb' ! k = ys ! k" if "k < length ys" for k
  proof -
    have "ys ! k = rb_contents rb ! Suc k"
      by (simp add: c)
    with that l show ?thesis
      by (simp add: rb_contents_def rb'_def incBufIdx_def mod_simps del: upt_Suc)
  qed
  then have "rb_contents rb' = ys"
    using l by (intro nth_equalityI) (simp_all add: rb'_def)
  with p w' show ?thesis by blast
qed

interpretation ring: bounded_queue wf_ring rb_contents push_char pop_char NS16550A_BUF_SIZE 0
proof
  fix q :: ring_buffer and x :: byte
  show "wf_ring q \<Longrightarrow> length (rb_contents q) \<le> NS16550A_BUF_SIZE"
    by (simp add: wf_ring_def)
  show "wf_ring q \<Longrightarrow> length (rb_contents q) = NS16550A_BUF_SIZE \<Longrightarrow> push_char x q = (False, q)"
    by (simp add: push_char_def pushChar_def)
  show "wf_ring q \<Longrightarrow> rb_contents q = [] \<Longrightarrow> pop_char q = (0, q)"
    by (simp add: pop_char_def popChar_def rb_contents_def)
qed (simp_all add: pushChar_room popChar_Cons)

section \<open>Frame and well-formedness\<close>

definition wf_uart :: "'x::len uart_t \<Rightarrow> bool" where
  "wf_uart u \<longleftrightarrow> wf_ring (ringBuffer u) \<and> uart_dev u = \<lparr>dev_size = 8, dev_cb = Some UART0\<rparr>"

lemma uart_readByte_wf: "wf_uart u \<Longrightarrow> wf_uart (snd (uart_readByte n b u))"
  using ring.wf_pop [of "ringBuffer u"]
  by (auto simp: uart_readByte_def wf_uart_def pop_char_def split: prod.splits)

lemma uart_readByte_inside: "wf_uart u \<Longrightarrow> snd (fst (uart_readByte n b u))"
  using ring_access_inside(2) [of "ringBuffer u"] by (auto simp: uart_readByte_def wf_uart_def split: prod.splits)

lemma uart_readLoop_wf: "wf_uart u \<Longrightarrow> wf_uart (snd (uart_readLoop n bs u))"
proof (induction bs arbitrary: n u)
  case (Cons b bs)
  from Cons.IH [OF uart_readByte_wf [OF Cons.prems, of n b]] show ?case
    by (simp add: split_def)
qed simp

lemma uart_readLoop_inside: "wf_uart u \<Longrightarrow> list_all snd (fst (uart_readLoop n bs u))"
  by (induction bs arbitrary: n u) (simp_all add: split_def uart_readByte_inside uart_readByte_wf)

lemma uart_readLoop_length: "length (fst (uart_readLoop n bs u)) = length bs"
  by (induction bs arbitrary: n u) (simp_all add: split_def)

lemma uart_cbRead_length: "length (snd (uart_cbRead s a buf)) = length buf"
  by (simp add: uart_cbRead_def split_def uart_readLoop_length)

definition uart_frame :: "'x::len vm \<Rightarrow> 'x vm \<Rightarrow> bool" where
  "uart_frame s t \<longleftrightarrow> dev_frame s t \<and> aclint t = aclint s \<and> assert_failed t = assert_failed s \<and>
     (wf_plic (plic s) \<longrightarrow> wf_plic (plic t)) \<and> (wf_uart (uart0 s) \<longrightarrow> wf_uart (uart0 t)) \<and>
     (wf_plic (plic s) \<and> wf_uart (uart0 s) \<longrightarrow> host_ub t = host_ub s)"

lemma uart_frame_refl [simp]: "uart_frame s s"
  by (simp add: uart_frame_def)

lemma uart_frame_trans: "uart_frame s t \<Longrightarrow> uart_frame t u \<Longrightarrow> uart_frame s u"
  using dev_frame_trans [of s t u] by (simp add: uart_frame_def)

lemma uart_irq_frame: "uart_frame s (uart_irq s)"
  using plic_interrupt_frame [of s NS16550A_IRQ] wf_plic_interrupt [of s NS16550A_IRQ]
  by (simp add: uart_frame_def uart_irq_def plic_frame_def plic_interrupt_ub)

lemma uart_frame_upd:
  "(wf_uart (uart0 s) \<Longrightarrow> wf_uart u) \<Longrightarrow> uart_frame s (s\<lparr>uart0 := u\<rparr>)"
  "(wf_uart (uart0 s) \<Longrightarrow> wf_uart u \<and> ok) \<Longrightarrow> uart_frame s (c_access ok (s\<lparr>uart0 := u\<rparr>))"
  by (auto simp: uart_frame_def dev_frame_def)

lemma uart_frame_putch: "uart_frame s (ui_putch c s)"
  by (simp add: uart_frame_def ui_putch_def)

lemma uart_writeByte_frame: "uart_frame s (uart_writeByte n b s)"
  unfolding uart_writeByte_def Let_def
  by (auto intro: uart_frame_trans [OF uart_frame_upd(1) uart_irq_frame] uart_frame_upd(1)
      uart_frame_putch simp: wf_uart_def)

lemma uart_writeLoop_frame: "uart_frame s (uart_writeLoop n bs s)"
  by (induction bs arbitrary: n s) (auto intro: uart_frame_trans [OF uart_writeByte_frame])

lemma uart_cbWrite_frame: "uart_frame s (uart_cbWrite s a bs)"
  by (simp add: uart_cbWrite_def uart_writeLoop_frame)

lemma uart_cbRead_frame: "uart_frame s (fst (uart_cbRead s a bs))"
  by (auto simp: uart_cbRead_def split_def intro!: uart_frame_upd(2) uart_readLoop_wf uart_readLoop_inside)

lemma ns16550_push_frame: "uart_frame s (snd (ns16550_push ch s))"
  using ring.wf_push [of "ringBuffer (uart0 s)" ch] ring_access_inside(1) [of "ringBuffer (uart0 s)" ch]
  by (auto simp: ns16550_push_def push_char_def split_def wf_uart_def
      intro: uart_frame_trans [OF uart_frame_upd(2) uart_irq_frame])

lemma wf_uart_init: "wf_uart (uart0 (snd (ns16550a_init s)))"
  by (simp add: ns16550a_init_def wf_uart_def wf_ring_def NS16550A_BUF_SIZE_def)

end
