(* ===== verification/Flat_Memory.thy ===== *)
theory Flat_Memory
  imports VM_State
begin

text \<open>
  Guest memory of the host build, \<^verbatim>\<open>src/src/memory.c\<close> and \<^verbatim>\<open>memory.h\<close> without \<^verbatim>\<open>CONFIG_DOS\<close>: one
  zeroed allocation, read and written with \<^verbatim>\<open>memcpy\<close>. The bounds are stated with \<^verbatim>\<open>assert\<close>, which
  the released build compiles away; an access outside the allocation is then undefined behaviour
  of the host. The answers of the C library (whether \<^verbatim>\<open>calloc\<close> and \<^verbatim>\<open>fopen\<close> succeed) are
  arguments.
\<close>

section \<open>Operations\<close>

definition mem_init :: "bool \<Rightarrow> 'x::len word \<Rightarrow> 'x vm \<Rightarrow> bool \<times> 'x vm" where
  "mem_init calloc_ok sz s =
     (if \<not> calloc_ok
      then (False, s\<lparr>ram := \<lparr>mem_data = [], mem_dev = \<lparr>dev_size = 0, dev_cb = None\<rparr>\<rparr>\<rparr>)
      else (True, s\<lparr>ram := \<lparr>mem_data = replicate (unat sz) 0,
              mem_dev = \<lparr>dev_size = sz, dev_cb = Some RAM\<rparr>\<rparr>\<rparr>))"

text \<open>The two assertions in front of each access.\<close>

definition mem_asserts :: "'x::len word \<Rightarrow> nat \<Rightarrow> 'x vm \<Rightarrow> 'x vm" where
  "mem_asserts addr sz s =
     (let devSize = dev_size (mem_dev (ram s))
      in c_assert (sz \<le> unat (devSize - addr)) (c_assert (addr < devSize) s))"

definition mem_read :: "'x::len vm \<Rightarrow> 'x word \<Rightarrow> byte list \<Rightarrow> 'x vm \<times> byte list" where
  "mem_read s addr buf =
     (let t = mem_asserts addr (length buf) s; m = mem_data (ram s) in
      if unat addr + length buf \<le> length m
      then (t, slice_at (unat addr) (length buf) m)
      else (c_undefined t, buf))"

definition mem_write :: "'x::len vm \<Rightarrow> 'x word \<Rightarrow> byte list \<Rightarrow> 'x vm" where
  "mem_write s addr buf =
     (let t = mem_asserts addr (length buf) s; m = mem_data (ram s) in
      if unat addr + length buf \<le> length m
      then t\<lparr>ram := (ram s)\<lparr>mem_data := splice_at (unat addr) buf m\<rparr>\<rparr>
      else c_undefined t)"

text \<open>\<^verbatim>\<open>memcmp\<close>: only the sign of its result is specified.\<close>

fun memcmp :: "byte list \<Rightarrow> byte list \<Rightarrow> int" where
  "memcmp (a # as) (b # bs) = (if a = b then memcmp as bs else if a < b then - 1 else 1)"
| "memcmp _ _ = 0"

definition mem_cmp :: "'x::len vm \<Rightarrow> 'x word \<Rightarrow> byte list \<Rightarrow> 'x vm \<times> int" where
  "mem_cmp s addr buf =
     (let t = mem_asserts addr (length buf) s; m = mem_data (ram s) in
      if unat addr + length buf \<le> length m
      then (t, memcmp (slice_at (unat addr) (length buf) m) buf)
      else (c_undefined t, 0))"

text \<open>\<^verbatim>\<open>mem_dumpImage\<close>: the loop of 4096-byte chunks and the bytes it writes to the file.\<close>

function dumpLoop :: "'x::len word \<Rightarrow> 'x vm \<Rightarrow> byte list \<Rightarrow> 'x vm \<times> byte list" where
  "dumpLoop pos s out =
     (if pos < dev_size (mem_dev (ram s)) then
        let chunkSize = min 0x1000 (unat (dev_size (mem_dev (ram s)) - pos));
            (t, buf) = mem_read s pos (replicate chunkSize 0)
        in dumpLoop (pos + of_nat chunkSize) t (out @ buf)
      else (s, out))"
  by pat_completeness auto

definition mem_dumpImage :: "bool \<Rightarrow> 'x::len vm \<Rightarrow> bool \<times> 'x vm \<times> byte list" where
  "mem_dumpImage fopen_ok s =
     (if \<not> fopen_ok then (False, s, []) else (case dumpLoop 0 s [] of (t, out) \<Rightarrow> (True, t, out)))"

section \<open>Frame\<close>

lemma mem_asserts_frame [simp]:
  "dev_frame s (mem_asserts a n s)" "ram (mem_asserts a n s) = ram s"
  "aclint (mem_asserts a n s) = aclint s" "plic (mem_asserts a n s) = plic s"
  "uart0 (mem_asserts a n s) = uart0 s" "host_ub (mem_asserts a n s) = host_ub s"
  "cpu (mem_asserts a n s) = cpu s" "bus (mem_asserts a n s) = bus s"
  "uninit (mem_asserts a n s) = uninit s" "vm_stdout (mem_asserts a n s) = vm_stdout s"
  by (simp_all add: mem_asserts_def c_assert_def Let_def dev_frame_def)

lemma ram_mem_read [simp]: "ram (fst (mem_read s a buf)) = ram s"
  by (simp add: mem_read_def Let_def c_undefined_def)

lemma mem_dev_mem_write [simp]: "mem_dev (ram (mem_write s a buf)) = mem_dev (ram s)"
  by (simp add: mem_write_def Let_def c_undefined_def)

lemma length_mem_write [simp]:
  "length (mem_data (ram (mem_write s a buf))) = length (mem_data (ram s))"
  by (simp add: mem_write_def Let_def c_undefined_def)

lemma mem_read_length [simp]: "length (snd (mem_read s a buf)) = length buf"
  by (simp add: mem_read_def Let_def)

lemma mem_read_frame:
  "dev_frame s (fst (mem_read s a buf))" "aclint (fst (mem_read s a buf)) = aclint s"
  "plic (fst (mem_read s a buf)) = plic s" "uart0 (fst (mem_read s a buf)) = uart0 s"
  by (simp_all add: mem_read_def Let_def c_undefined_def dev_frame_def)

lemma mem_write_frame:
  "core (cpu (mem_write s a buf)) = core (cpu s)" "bus (mem_write s a buf) = bus s"
  "uninit (mem_write s a buf) = uninit s" "aclint (mem_write s a buf) = aclint s"
  "plic (mem_write s a buf) = plic s" "uart0 (mem_write s a buf) = uart0 s"
  "cpu (mem_write s a buf) = cpu s"
  by (simp_all add: mem_write_def Let_def c_undefined_def)

section \<open>Well-formedness, safety and round trips\<close>

definition wf_ram :: "'x::len memory \<Rightarrow> bool" where
  "wf_ram m \<longleftrightarrow> length (mem_data m) = unat (dev_size (mem_dev m)) \<and> dev_cb (mem_dev m) = Some RAM"

lemma wf_ram_init: "wf_ram (ram (snd (mem_init True sz s)))"
  by (simp add: mem_init_def wf_ram_def)

lemma wf_ram_mem_write: "wf_ram (ram s) \<Longrightarrow> wf_ram (ram (mem_write s a buf))"
  by (simp add: wf_ram_def)

text \<open>An access inside the memory: no assertion fails and nothing undefined happens.\<close>

lemma mem_asserts_ok:
  assumes "wf_ram (ram s)" "unat addr + n \<le> length (mem_data (ram s))" "0 < n"
  shows "mem_asserts addr n s = s"
proof -
  define d where "d = dev_size (mem_dev (ram s))"
  have l: "unat addr + n \<le> unat d"
    using assms by (simp add: wf_ram_def d_def)
  then have "addr < d"
    using assms(3) by (simp add: word_less_nat_alt)
  moreover from this have "unat (d - addr) = unat d - unat addr"
    by (simp add: unat_sub less_imp_le)
  ultimately show ?thesis
    using l by (simp add: mem_asserts_def d_def [symmetric] c_assert_def)
qed

lemma mem_read_ok:
  assumes "wf_ram (ram s)" "unat addr + length buf \<le> length (mem_data (ram s))" "buf \<noteq> []"
  shows "mem_read s addr buf = (s, slice_at (unat addr) (length buf) (mem_data (ram s)))"
  using assms mem_asserts_ok [OF assms(1,2)] by (simp add: mem_read_def Let_def)

lemma mem_write_ok:
  assumes "wf_ram (ram s)" "unat addr + length buf \<le> length (mem_data (ram s))" "buf \<noteq> []"
  shows "mem_write s addr buf =
    s\<lparr>ram := (ram s)\<lparr>mem_data := splice_at (unat addr) buf (mem_data (ram s))\<rparr>\<rparr>"
  using assms mem_asserts_ok [OF assms(1,2)] by (simp add: mem_write_def Let_def)

lemma mem_read_ub:
  "host_ub (fst (mem_read s a buf)) \<longleftrightarrow>
     host_ub s \<or> length (mem_data (ram s)) < unat a + length buf"
  by (auto simp: mem_read_def Let_def c_undefined_def)

lemma mem_write_ub:
  "host_ub (mem_write s a buf) \<longleftrightarrow> host_ub s \<or> length (mem_data (ram s)) < unat a + length buf"
  by (auto simp: mem_write_def Let_def c_undefined_def)

lemma memcmp_eq_0: "length as = length bs \<Longrightarrow> memcmp as bs = 0 \<longleftrightarrow> as = bs"
  by (induction as bs rule: list_induct2) auto

text \<open>The dump loop terminates and writes out the memory from its starting position.\<close>

lemma dump_step:
  fixes sz pos :: "'x::len word"
  assumes "pos < sz"
  shows "unat (pos + of_nat (min 0x1000 (unat (sz - pos)))) =
      unat pos + min 0x1000 (unat (sz - pos))"
    "unat (sz - pos) = unat sz - unat pos"
proof -
  show d: "unat (sz - pos) = unat sz - unat pos"
    using assms by (simp add: unat_sub less_imp_le)
  have "unat pos + min 0x1000 (unat (sz - pos)) \<le> unat sz"
    using assms d unfolding word_less_nat_alt by linarith
  also have "unat sz < 2 ^ LENGTH('x)"
    by simp
  finally have "unat pos + min 0x1000 (unat (sz - pos)) < 2 ^ LENGTH('x)" .
  then show "unat (pos + of_nat (min 0x1000 (unat (sz - pos)))) =
      unat pos + min 0x1000 (unat (sz - pos))"
    by (rule unat_plus_of_nat)
qed

termination dumpLoop
proof (relation "measure (\<lambda>(pos, s, out). unat (dev_size (mem_dev (ram s))) - unat pos)")
  fix pos :: "'x::len word" and s :: "'x vm" and out n x t buf
  assume a: "pos < dev_size (mem_dev (ram s))"
    and n: "n = min 0x1000 (unat (dev_size (mem_dev (ram s)) - pos))"
    and x: "x = mem_read s pos (replicate n 0)" "(t, buf) = x"
  have "ram t = ram s"
    using ram_mem_read [of s pos "replicate n 0"] x by (metis fst_conv)
  moreover have "unat pos < unat (dev_size (mem_dev (ram s)))"
    using a by (simp add: word_less_nat_alt)
  then have "0 < n" "unat (pos + of_nat n) = unat pos + n"
    using dump_step [OF a] unfolding n by simp_all
  ultimately show "((pos + of_nat n, t, out @ buf), (pos, s, out))
      \<in> measure (\<lambda>(pos, s, out). unat (dev_size (mem_dev (ram s))) - unat pos)"
    using a by (simp add: word_less_nat_alt)
qed simp

declare dumpLoop.simps [simp del]

lemma slice_drop: "slice_at i n xs @ drop (i + n) xs = drop i xs"
  by (metis append_take_drop_id drop_drop slice_at_def add.commute)

lemma dumpLoop_eq:
  assumes "wf_ram (ram s)"
  shows "dumpLoop pos s out = (s, out @ drop (unat pos) (mem_data (ram s)))"
  using assms
proof (induction "unat (dev_size (mem_dev (ram s))) - unat pos" arbitrary: pos out rule: less_induct)
  case less
  define d where "d = dev_size (mem_dev (ram s))"
  define n where "n = min 0x1000 (unat (d - pos))"
  have l: "length (mem_data (ram s)) = unat d"
    using less.prems by (simp add: wf_ram_def d_def)
  show ?case
  proof (cases "pos < d")
    case True
    note st = dump_step [OF True, folded n_def]
    have n: "0 < n" "unat pos + n \<le> unat d"
      using True st(2) by (auto simp: n_def word_less_nat_alt)
    have r: "mem_read s pos (replicate n 0) = (s, slice_at (unat pos) n (mem_data (ram s)))"
      using mem_read_ok [OF less.prems, of pos "replicate n 0"] n l by (auto simp: replicate_empty)
    have "dumpLoop pos s out =
        dumpLoop (pos + of_nat n) s (out @ slice_at (unat pos) n (mem_data (ram s)))"
      using True r by (subst dumpLoop.simps) (simp add: d_def [symmetric] n_def [symmetric])
    also have "\<dots> = (s, (out @ slice_at (unat pos) n (mem_data (ram s))) @
        drop (unat pos + n) (mem_data (ram s)))"
      using less.hyps [of "pos + of_nat n"] less.prems n st
      by (simp add: d_def [symmetric])
    finally show ?thesis
      using slice_drop [of "unat pos" n "mem_data (ram s)"] by simp
  next
    case False
    then show ?thesis
      using l by (subst dumpLoop.simps) (simp add: d_def [symmetric] word_less_nat_alt)
  qed
qed

end
