(* ===== verification/Bus.thy ===== *)
theory Bus
  imports Aclint Ns16550a Flat_Memory
begin

text \<open>
  The system bus, \<^verbatim>\<open>src/src/bus.c\<close>, \<^verbatim>\<open>bus.h\<close> and \<^verbatim>\<open>dev/device.h\<close>: a table of four device slots, the
  search for the device that holds an access, dispatch to its callbacks, and the reservation of
  load-reserved/store-conditional. Two interfaces are stated as locales: \<open>mmio_device\<close>, what the
  bus relies on from a device, and \<open>memory_port\<close>, what the processor relies on from the bus.
\<close>

definition BUS_MAX_DEVICES :: nat where "BUS_MAX_DEVICES = 4"

section \<open>Devices behind the bus\<close>

text \<open>The \<^verbatim>\<open>Device\<close> structure a device pointer leads to, and the calls through its callbacks.\<close>

definition device_of :: "'x::len vm \<Rightarrow> dev_id \<Rightarrow> 'x device" where
  "device_of s d = (case d of RAM \<Rightarrow> mem_dev (ram s) | ACLINT \<Rightarrow> aclint_dev (aclint s)
     | PLIC \<Rightarrow> plic_dev (plic s) | UART0 \<Rightarrow> uart_dev (uart0 s))"

definition cbRead :: "dev_id \<Rightarrow> 'x::len vm \<Rightarrow> 'x word \<Rightarrow> byte list \<Rightarrow> 'x vm \<times> byte list" where
  "cbRead d = (case d of RAM \<Rightarrow> mem_read | ACLINT \<Rightarrow> aclint_cbRead
     | PLIC \<Rightarrow> plic_cbRead | UART0 \<Rightarrow> uart_cbRead)"

definition cbWrite :: "dev_id \<Rightarrow> 'x::len vm \<Rightarrow> 'x word \<Rightarrow> byte list \<Rightarrow> 'x vm" where
  "cbWrite d = (case d of RAM \<Rightarrow> mem_write | ACLINT \<Rightarrow> aclint_cbWrite
     | PLIC \<Rightarrow> plic_cbWrite | UART0 \<Rightarrow> uart_cbWrite)"

section \<open>Operations\<close>

definition bus_includes :: "'x::len word \<Rightarrow> 'x word \<Rightarrow> 'x word \<Rightarrow> 'x word \<Rightarrow> bool" where
  "bus_includes base sz a n \<longleftrightarrow> base \<le> a \<and> a + n \<le> base + sz"

primrec findLoop ::
  "'x::len vm \<Rightarrow> 'x bus_device list \<Rightarrow> 'x word \<Rightarrow> nat \<Rightarrow> (dev_id \<times> 'x word) option" where
  "findLoop s [] addr n = None"
| "findLoop s (dev # devs) addr n =
     (case bd_dev dev of
        None \<Rightarrow> findLoop s devs addr n
      | Some d \<Rightarrow>
          if bus_includes (bd_base dev) (dev_size (device_of s d)) addr (of_nat n)
          then Some (d, addr - bd_base dev)
          else findLoop s devs addr n)"

definition findDevice :: "'x::len vm \<Rightarrow> 'x word \<Rightarrow> nat \<Rightarrow> (dev_id \<times> 'x word) option" where
  "findDevice s addr n = findLoop s (devices (bus s)) addr n"

definition bus_init :: "'x::len vm \<Rightarrow> bool \<times> 'x vm" where
  "bus_init s = (True, s\<lparr>bus := \<lparr>devices = replicate BUS_MAX_DEVICES \<lparr>bd_dev = None, bd_base = 0\<rparr>,
     reservation = \<lparr>res_addr = 0, res_size = 0, res_valid = False\<rparr>\<rparr>\<rparr>)"

primrec registerLoop ::
  "'x::len word \<Rightarrow> dev_id \<Rightarrow> 'x bus_device list \<Rightarrow> 'x bus_device list option" where
  "registerLoop base dev [] = None"
| "registerLoop base dev (b # bs) =
     (if bd_dev b = None then Some (b\<lparr>bd_base := base, bd_dev := Some dev\<rparr> # bs)
      else (case registerLoop base dev bs of None \<Rightarrow> None | Some bs' \<Rightarrow> Some (b # bs')))"

definition bus_register :: "'x::len word \<Rightarrow> dev_id \<Rightarrow> 'x vm \<Rightarrow> bool \<times> 'x vm" where
  "bus_register base dev s =
     (case registerLoop base dev (devices (bus s)) of
        None \<Rightarrow> (False, s)
      | Some ds \<Rightarrow> (True, s\<lparr>bus := (bus s)\<lparr>devices := ds\<rparr>\<rparr>))"

definition bus_read :: "'x::len vm \<Rightarrow> 'x word \<Rightarrow> byte list \<Rightarrow> bool \<times> 'x vm \<times> byte list" where
  "bus_read s addr buf =
     (case findDevice s addr (length buf) of
        None \<Rightarrow> (False, s, buf)
      | Some (d, devAddr) \<Rightarrow>
          (case dev_cb (device_of s d) of
             None \<Rightarrow> (True, c_undefined s, buf)
           | Some cb \<Rightarrow> (case cbRead cb s devAddr buf of (t, buf') \<Rightarrow> (True, t, buf'))))"

definition invalidate_on_write :: "'x::len word \<Rightarrow> nat \<Rightarrow> 'x vm \<Rightarrow> 'x vm" where
  "invalidate_on_write addr n s =
     (let r = reservation (bus s) in
      if res_valid r \<and> bus_includes (res_addr r) (of_nat (res_size r)) addr (of_nat n)
      then s\<lparr>bus := (bus s)\<lparr>reservation := r\<lparr>res_valid := False\<rparr>\<rparr>\<rparr>
      else s)"

definition bus_write :: "'x::len vm \<Rightarrow> 'x word \<Rightarrow> byte list \<Rightarrow> bool \<times> 'x vm" where
  "bus_write s addr buf =
     (case findDevice s addr (length buf) of
        None \<Rightarrow> (False, s)
      | Some (d, devAddr) \<Rightarrow>
          let t = invalidate_on_write addr (length buf) s in
          (case dev_cb (device_of s d) of
             None \<Rightarrow> (True, c_undefined t)
           | Some cb \<Rightarrow> (True, cbWrite cb t devAddr buf)))"

definition bus_reservationCreate :: "'x::len word \<Rightarrow> nat \<Rightarrow> 'x vm \<Rightarrow> 'x vm" where
  "bus_reservationCreate addr n s =
     s\<lparr>bus := (bus s)\<lparr>reservation := \<lparr>res_addr = addr, res_size = n, res_valid = True\<rparr>\<rparr>\<rparr>"

definition bus_reservationCheckInvalidate :: "'x::len word \<Rightarrow> nat \<Rightarrow> 'x vm \<Rightarrow> bool \<times> 'x vm" where
  "bus_reservationCheckInvalidate addr n s =
     (let r = reservation (bus s) in
      if \<not> res_valid r then (False, s)
      else (bus_includes (res_addr r) (of_nat (res_size r)) addr (of_nat n),
            s\<lparr>bus := (bus s)\<lparr>reservation := r\<lparr>res_valid := False\<rparr>\<rparr>\<rparr>))"

section \<open>The device contract\<close>

text \<open>A device answers with as many bytes as it was asked for, leaves the core of the hart and
  the bus alone, keeps the size of memory and keeps the devices in shape.\<close>

definition wf_devs :: "'x::len vm \<Rightarrow> bool" where
  "wf_devs s \<longleftrightarrow> wf_ram (ram s) \<and> wf_aclint (aclint s) \<and> wf_plic (plic s) \<and> wf_uart (uart0 s)"

definition port_frame :: "'x::len vm \<Rightarrow> 'x vm \<Rightarrow> bool" where
  "port_frame s t \<longleftrightarrow> core (cpu t) = core (cpu s) \<and> devices (bus t) = devices (bus s) \<and>
     mem_dev (ram t) = mem_dev (ram s) \<and> uninit t = uninit s \<and> (wf_devs s \<longrightarrow> wf_devs t)"

lemma port_frame_refl [simp, intro]: "port_frame s s"
  by (simp add: port_frame_def)

lemma port_frame_trans: "port_frame s t \<Longrightarrow> port_frame t u \<Longrightarrow> port_frame s u"
  by (simp add: port_frame_def)

text \<open>An access: whether it writes, the address, the buffer.\<close>

type_synonym 'x access = "bool \<times> 'x word \<times> byte list"

locale mmio_device =
  fixes rd :: "'x::len vm \<Rightarrow> 'x word \<Rightarrow> byte list \<Rightarrow> 'x vm \<times> byte list"
    and wr :: "'x vm \<Rightarrow> 'x word \<Rightarrow> byte list \<Rightarrow> 'x vm"
  assumes rd_length: "length (snd (rd s a buf)) = length buf"
    and rd_frame: "port_frame s (fst (rd s a buf))"
    and wr_frame: "port_frame s (wr s a buf)"
begin

text \<open>Any sequence of accesses obeys the contract.\<close>

lemma accesses_frame:
  "port_frame s (fold (\<lambda>(w, a, buf) s. if w then wr s a buf else fst (rd s a buf)) xs s)"
proof (induction xs arbitrary: s)
  case (Cons x xs)
  have "port_frame s (case x of (w, a, buf) \<Rightarrow> if w then wr s a buf else fst (rd s a buf))"
    by (simp add: rd_frame wr_frame split: prod.split)
  from port_frame_trans [OF this Cons.IH] show ?case
    by (cases x) simp
qed simp

end

lemma port_frame_dev:
  assumes "dev_frame s t" "wf_devs s \<Longrightarrow> wf_devs t"
  shows "port_frame s t"
  using assms by (simp add: port_frame_def dev_frame_def)

interpretation ram_dev: mmio_device mem_read mem_write
proof
  fix s :: "'a::len vm" and a :: "'a word" and buf
  show "port_frame s (fst (mem_read s a buf))"
    by (rule port_frame_dev) (simp_all add: mem_read_frame wf_devs_def)
  show "port_frame s (mem_write s a buf)"
    by (simp add: port_frame_def mem_write_frame wf_devs_def wf_ram_mem_write)
qed simp

interpretation aclint_mmio: mmio_device aclint_cbRead aclint_cbWrite
proof
  fix s :: "'a::len vm" and a :: "'a word" and buf
  show "port_frame s (aclint_cbWrite s a buf)"
    using aclint_frame_dev [OF aclint_cbWrite_frame, of s a buf]
    by (intro port_frame_dev) (simp_all add: wf_devs_def wf_aclint_cbWrite dev_frame_def)
  show "port_frame s (fst (aclint_cbRead s a buf))"
    by (rule port_frame_dev) (simp_all add: aclint_cbRead_def Let_def wf_devs_def)
qed (simp_all add: aclint_cbRead_def Let_def)

interpretation plic_mmio: mmio_device plic_cbRead plic_cbWrite
proof
  fix s :: "'a::len vm" and a :: "'a word" and buf
  show "port_frame s (fst (plic_cbRead s a buf))"
    using plic_cbRead_frame [of s a buf] unfolding plic_frame_def
    by (intro port_frame_dev) (simp_all add: wf_devs_def wf_plic_cbRead dev_frame_def)
  show "port_frame s (plic_cbWrite s a buf)"
    using plic_cbWrite_frame [of s a buf] unfolding plic_frame_def
    by (intro port_frame_dev) (simp_all add: wf_devs_def wf_plic_cbWrite dev_frame_def)
qed (rule plic_cbRead_length)

interpretation uart_mmio: mmio_device uart_cbRead uart_cbWrite
proof
  fix s :: "'a::len vm" and a :: "'a word" and buf
  show "port_frame s (fst (uart_cbRead s a buf))"
    using uart_cbRead_frame [of s a buf] unfolding uart_frame_def
    by (intro port_frame_dev) (simp_all add: wf_devs_def dev_frame_def)
  show "port_frame s (uart_cbWrite s a buf)"
    using uart_cbWrite_frame [of s a buf] unfolding uart_frame_def
    by (intro port_frame_dev) (simp_all add: wf_devs_def dev_frame_def)
qed (rule uart_cbRead_length)

lemma cbRead_laws:
  "length (snd (cbRead d s a buf)) = length buf" "port_frame s (fst (cbRead d s a buf))"
  by (cases d; simp add: cbRead_def ram_dev.rd_frame aclint_mmio.rd_length aclint_mmio.rd_frame
      plic_mmio.rd_length plic_mmio.rd_frame uart_mmio.rd_length uart_mmio.rd_frame)+

lemma cbWrite_laws: "port_frame s (cbWrite d s a buf)"
  by (cases d; simp add: cbWrite_def ram_dev.wr_frame aclint_mmio.wr_frame plic_mmio.wr_frame
      uart_mmio.wr_frame)

section \<open>The port the processor uses\<close>

text \<open>An access either finds its target or changes nothing; whether it does depends only on the
  place and the size, is the same for reads and writes, and no access changes it.\<close>

locale memory_port =
  fixes rd :: "'x::len vm \<Rightarrow> 'x word \<Rightarrow> byte list \<Rightarrow> bool \<times> 'x vm \<times> byte list"
    and wr :: "'x vm \<Rightarrow> 'x word \<Rightarrow> byte list \<Rightarrow> bool \<times> 'x vm"
    and present :: "'x vm \<Rightarrow> 'x word \<Rightarrow> nat \<Rightarrow> bool"
  assumes rd_absent: "\<not> present s a (length buf) \<Longrightarrow> rd s a buf = (False, s, buf)"
    and wr_absent: "\<not> present s a (length buf) \<Longrightarrow> wr s a buf = (False, s)"
    and rd_present: "present s a (length buf) \<Longrightarrow> fst (rd s a buf)"
    and wr_present: "present s a (length buf) \<Longrightarrow> fst (wr s a buf)"
    and port_rd_length: "length (snd (snd (rd s a buf))) = length buf"
    and port_rd_frame: "port_frame s (fst (snd (rd s a buf)))"
    and port_wr_frame: "port_frame s (snd (wr s a buf))"
    and present_stable: "wf_devs s \<Longrightarrow> port_frame s t \<Longrightarrow> present t a n \<longleftrightarrow> present s a n"
begin

lemma rd_iff: "fst (rd s a buf) \<longleftrightarrow> present s a (length buf)"
  using rd_absent rd_present by fastforce

lemma wr_iff: "fst (wr s a buf) \<longleftrightarrow> present s a (length buf)"
  using wr_absent wr_present by fastforce

text \<open>A write to where a read has just succeeded succeeds: what a read-modify-write relies on.\<close>

lemma write_after_read:
  assumes "wf_devs s" "fst (rd s a buf)" "length buf' = length buf" "port_frame (fst (snd (rd s a buf))) t"
  shows "fst (wr t a buf')"
  using assms present_stable [OF assms(1) port_frame_trans [OF port_rd_frame assms(4)]]
  by (simp add: rd_iff wr_iff)

lemma failed_rd_unchanged: "\<not> fst (rd s a buf) \<Longrightarrow> snd (rd s a buf) = (s, buf)"
  using rd_absent rd_present by fastforce

lemma failed_wr_unchanged: "\<not> fst (wr s a buf) \<Longrightarrow> snd (wr s a buf) = s"
  using wr_absent wr_present by fastforce

end

definition bus_present :: "'x::len vm \<Rightarrow> 'x word \<Rightarrow> nat \<Rightarrow> bool" where
  "bus_present s a n \<longleftrightarrow> findDevice s a n \<noteq> None"

lemma device_of_frame:
  assumes "wf_devs s" "port_frame s t"
  shows "device_of t d = device_of s d"
  using assms
  by (cases d) (simp_all add: device_of_def port_frame_def wf_devs_def wf_aclint_def wf_plic_def
      wf_uart_def)

lemma findLoop_cong:
  "(\<And>d. device_of t d = device_of s d) \<Longrightarrow> findLoop t ds a n = findLoop s ds a n"
  by (induction ds) (simp_all split: option.split)

lemma findDevice_frame:
  assumes "wf_devs s" "port_frame s t"
  shows "findDevice t a n = findDevice s a n"
  using assms findLoop_cong [OF device_of_frame [OF assms]]
  by (simp add: findDevice_def port_frame_def)

lemma port_frame_undefined: "port_frame s (c_undefined s)"
  by (simp add: port_frame_def c_undefined_def wf_devs_def)

lemma invalidate_frame:
  "port_frame s (invalidate_on_write a n s)"
  by (simp add: port_frame_def invalidate_on_write_def Let_def wf_devs_def)

lemma invalidate_then:
  "port_frame s (c_undefined (invalidate_on_write a n s))"
  "port_frame s (cbWrite d (invalidate_on_write a n s) b buf)"
  by (rule port_frame_trans [OF invalidate_frame port_frame_undefined],
      rule port_frame_trans [OF invalidate_frame cbWrite_laws])

interpretation bus_port: memory_port bus_read bus_write bus_present
proof
  fix s t :: "'a::len vm" and a :: "'a word" and buf n
  show "length (snd (snd (bus_read s a buf))) = length buf"
    by (simp add: bus_read_def split_def cbRead_laws(1) split: option.split)
  show "port_frame s (fst (snd (bus_read s a buf)))"
    by (simp add: bus_read_def port_frame_undefined split_def cbRead_laws(2) split: option.split)
  show "port_frame s (snd (bus_write s a buf))"
    by (simp add: bus_write_def Let_def split_def invalidate_then split: option.split)
  show "wf_devs s \<Longrightarrow> port_frame s t \<Longrightarrow> bus_present t a n \<longleftrightarrow> bus_present s a n"
    using findDevice_frame [of s t a n] by (simp add: bus_present_def)
  show "bus_present s a (length buf) \<Longrightarrow> fst (bus_read s a buf)"
    by (auto simp: bus_present_def bus_read_def split_def split: option.split)
  show "bus_present s a (length buf) \<Longrightarrow> fst (bus_write s a buf)"
    by (auto simp: bus_present_def bus_write_def split_def Let_def split: option.split)
qed (simp_all add: bus_present_def bus_read_def bus_write_def split: option.split)

text \<open>A read leaves the reservation and the contents of memory alone.\<close>

lemma cbRead_dev_frame: "dev_frame s (fst (cbRead d s a buf))"
proof (cases d)
  case PLIC
  then show ?thesis
    using plic_cbRead_frame [of s a buf] by (simp add: cbRead_def plic_frame_def dev_frame_def)
next
  case UART0
  then show ?thesis
    using uart_cbRead_frame [of s a buf] by (simp add: cbRead_def uart_frame_def dev_frame_def)
qed (simp_all add: cbRead_def mem_read_frame aclint_frame_dev(1) [OF aclint_cbRead_frame])

lemma bus_read_dev_frame: "dev_frame s (fst (snd (bus_read s a buf)))"
  by (simp add: bus_read_def split_def c_undefined_def cbRead_dev_frame split: option.split)

section \<open>The address map of the machine\<close>

definition RAM_BASE :: "'x::len word" where "RAM_BASE = 0x80000000"
definition ACLINT_BASE :: "'x::len word" where "ACLINT_BASE = 0x2000000"
definition PLIC_BASE :: "'x::len word" where "PLIC_BASE = 0xC000000"
definition UART_BASE :: "'x::len word" where "UART_BASE = 0x10000000"

lemmas base_defs = RAM_BASE_def ACLINT_BASE_def PLIC_BASE_def UART_BASE_def

definition vm_devices :: "'x::len bus_device list" where
  "vm_devices = [\<lparr>bd_dev = Some RAM, bd_base = RAM_BASE\<rparr>, \<lparr>bd_dev = Some ACLINT, bd_base = ACLINT_BASE\<rparr>,
     \<lparr>bd_dev = Some PLIC, bd_base = PLIC_BASE\<rparr>, \<lparr>bd_dev = Some UART0, bd_base = UART_BASE\<rparr>]"

text \<open>The machine \<^verbatim>\<open>main\<close> puts together: its four devices at their addresses, with one megabyte
  to one gigabyte of memory.\<close>

definition wf_platform :: "'x::len vm \<Rightarrow> bool" where
  "wf_platform s \<longleftrightarrow> wf_devs s \<and> devices (bus s) = vm_devices \<and>
     2 ^ 20 \<le> unat (dev_size (mem_dev (ram s))) \<and> unat (dev_size (mem_dev (ram s))) \<le> 2 ^ 30"

lemma wf_platform_frame: "wf_platform s \<Longrightarrow> port_frame s t \<Longrightarrow> wf_platform t"
  by (simp add: wf_platform_def port_frame_def)

definition region_base :: "dev_id \<Rightarrow> nat" where
  "region_base d = (case d of RAM \<Rightarrow> 0x80000000 | ACLINT \<Rightarrow> 0x2000000 | PLIC \<Rightarrow> 0xC000000
     | UART0 \<Rightarrow> 0x10000000)"

definition region_size :: "'x::len vm \<Rightarrow> dev_id \<Rightarrow> nat" where
  "region_size s d = unat (dev_size (device_of s d))"

definition in_region :: "'x::len vm \<Rightarrow> dev_id \<Rightarrow> nat \<Rightarrow> nat \<Rightarrow> bool" where
  "in_region s d a n \<longleftrightarrow> region_base d \<le> a \<and> a + n \<le> region_base d + region_size s d"

lemma unat_numeral_xlen:
  assumes "valid_xlen TYPE('x::len)" "(numeral k :: nat) < 2 ^ 32"
  shows "unat (numeral k :: 'x word) = numeral k"
proof -
  have "(2 :: nat) ^ 32 \<le> 2 ^ LENGTH('x)"
    using valid_xlen_ge [OF assms(1)] by (rule power_increasing) simp
  with assms(2) have "(numeral k :: nat) < 2 ^ LENGTH('x)"
    by (rule less_le_trans)
  then show ?thesis
    by (metis of_nat_numeral unat_of_nat mod_less)
qed

lemma unat_bases:
  assumes "valid_xlen TYPE('x::len)"
  shows "unat (RAM_BASE :: 'x word) = 0x80000000" "unat (ACLINT_BASE :: 'x word) = 0x2000000"
    "unat (PLIC_BASE :: 'x word) = 0xC000000" "unat (UART_BASE :: 'x word) = 0x10000000"
    "unat (0x10000 :: 'x word) = 0x10000" "unat (0x400000 :: 'x word) = 0x400000" "unat (8 :: 'x word) = 8"
  unfolding base_defs by (rule unat_numeral_xlen [OF assms], simp)+

lemma region_sizes:
  assumes "valid_xlen TYPE('x::len)" "wf_platform (s :: 'x vm)"
  shows "region_size s ACLINT = 0x10000" "region_size s PLIC = 0x400000" "region_size s UART0 = 8"
    "region_size s RAM = length (mem_data (ram s))" "region_size s RAM \<le> 0x40000000"
    "0x100000 \<le> region_size s RAM"
  using assms(2) unat_bases [OF assms(1)]
  by (simp_all add: region_size_def device_of_def wf_platform_def wf_devs_def wf_aclint_def
      wf_plic_def wf_uart_def wf_ram_def)

lemma bus_includes_nat:
  fixes base sz a :: "'x::len word"
  assumes "unat base + unat sz < 2 ^ LENGTH('x)" "unat a + n < 2 ^ LENGTH('x)"
  shows "bus_includes base sz a (of_nat n) \<longleftrightarrow>
    unat base \<le> unat a \<and> unat a + n \<le> unat base + unat sz"
proof -
  have "unat (base + sz) = unat base + unat sz"
    using assms(1) unat_plus_of_nat [of base "unat sz"] by simp
  then show ?thesis
    using unat_plus_of_nat [OF assms(2)] by (simp add: bus_includes_def word_le_nat_alt)
qed

text \<open>Dispatch, for an access that does not run past the end of the address space: the device
  whose window holds the whole access gets it, with the offset into its window.\<close>

lemma findDevice_iff:
  fixes s :: "'x::len vm"
  assumes v: "valid_xlen TYPE('x)" and w: "wf_platform s"
    and a: "unat a + n < 2 ^ LENGTH('x)" and n: "0 < n"
  shows "findDevice s a n = Some (d, off) \<longleftrightarrow>
    in_region s d (unat a) n \<and> off = a - of_nat (region_base d)"
proof -
  note rs = region_sizes [OF v w]
  have p: "(2 :: nat) ^ 32 \<le> 2 ^ LENGTH('x)"
    using valid_xlen_ge [OF v] by (rule power_increasing) simp
  have i: "bus_includes (b :: 'x word) (dev_size (device_of s e)) a (of_nat n) \<longleftrightarrow>
      in_region s e (unat a) n" if "unat b = region_base e" for b e
  proof -
    have "region_base e + region_size s e < 2 ^ 32"
      using rs by (cases e) (simp_all add: region_base_def)
    then have "unat b + unat (dev_size (device_of s e)) < 2 ^ LENGTH('x)"
      using p that by (simp add: region_size_def)
    from bus_includes_nat [OF this a] show ?thesis
      by (simp add: in_region_def that region_size_def)
  qed
  have x: "d = e" if "in_region s d (unat a) n" "in_region s e (unat a) n" for d e
    using that n rs by (cases d; cases e) (simp_all add: in_region_def region_base_def)
  have b: "(RAM_BASE :: 'x word) = of_nat (region_base RAM)"
    "(ACLINT_BASE :: 'x word) = of_nat (region_base ACLINT)"
    "(PLIC_BASE :: 'x word) = of_nat (region_base PLIC)"
    "(UART_BASE :: 'x word) = of_nat (region_base UART0)"
    by (simp_all add: base_defs region_base_def)
  have u: "unat (RAM_BASE :: 'x word) = region_base RAM"
    "unat (ACLINT_BASE :: 'x word) = region_base ACLINT"
    "unat (PLIC_BASE :: 'x word) = region_base PLIC" "unat (UART_BASE :: 'x word) = region_base UART0"
    using unat_bases [OF v] by (simp_all add: region_base_def)
  have ds: "devices (bus s) = vm_devices"
    using w by (simp add: wf_platform_def)
  have "findDevice s a n =
    (if in_region s RAM (unat a) n then Some (RAM, a - of_nat (region_base RAM))
     else if in_region s ACLINT (unat a) n then Some (ACLINT, a - of_nat (region_base ACLINT))
     else if in_region s PLIC (unat a) n then Some (PLIC, a - of_nat (region_base PLIC))
     else if in_region s UART0 (unat a) n then Some (UART0, a - of_nat (region_base UART0)) else None)"
    unfolding findDevice_def ds vm_devices_def findLoop.simps bus_device.select_convs option.case
      i [OF u(1)] i [OF u(2)] i [OF u(3)] i [OF u(4)] unfolding b ..
  then show ?thesis
    using x by (cases d) auto
qed

section \<open>Memory through the bus\<close>

lemma in_ram_nowrap:
  fixes s :: "'x::len vm"
  assumes "valid_xlen TYPE('x)" "wf_platform s" "in_region s RAM a n"
  shows "a + n < 2 ^ LENGTH('x)"
proof -
  have "a + n < 2 ^ 32"
    using assms(3) region_sizes(5) [OF assms(1,2)] by (simp add: in_region_def region_base_def)
  also have "(2 :: nat) ^ 32 \<le> 2 ^ LENGTH('x)"
    using valid_xlen_ge [OF assms(1)] by (rule power_increasing) simp
  finally show ?thesis .
qed

lemma unat_minus_base:
  fixes a :: "'x::len word"
  assumes "region_base d \<le> unat a"
  shows "unat (a - of_nat (region_base d)) = unat a - region_base d"
proof -
  have "unat a < 2 ^ LENGTH('x)"
    by simp
  with assms have "region_base d < 2 ^ LENGTH('x)"
    by (rule le_less_trans)
  then have u: "unat (of_nat (region_base d) :: 'x word) = region_base d"
    by (simp add: unat_of_nat)
  with assms have "(of_nat (region_base d) :: 'x word) \<le> a"
    by (simp add: word_le_nat_alt)
  with u show ?thesis
    by (simp add: unat_sub)
qed

lemma dev_cb_of:
  "wf_devs s \<Longrightarrow> dev_cb (device_of s d) = Some d"
  by (cases d) (simp_all add: device_of_def wf_devs_def wf_ram_def wf_aclint_def wf_plic_def wf_uart_def)

lemma wf_platform_devs: "wf_platform s \<Longrightarrow> wf_devs s"
  by (simp add: wf_platform_def)

lemma bus_read_ram:
  fixes s :: "'x::len vm"
  assumes v: "valid_xlen TYPE('x)" and w: "wf_platform s" and r: "in_region s RAM (unat a) (length buf)"
    and b: "buf \<noteq> []"
  shows "bus_read s a buf =
    (True, s, slice_at (unat a - region_base RAM) (length buf) (mem_data (ram s)))"
proof -
  have f: "findDevice s a (length buf) = Some (RAM, a - of_nat (region_base RAM))"
    using findDevice_iff [OF v w in_ram_nowrap [OF v w r]] r b by simp
  have u: "unat (a - of_nat (region_base RAM)) = unat a - region_base RAM"
    using r by (intro unat_minus_base) (simp add: in_region_def)
  have "unat a - region_base RAM + length buf \<le> length (mem_data (ram s))"
    using r region_sizes(4) [OF v w] by (auto simp: in_region_def)
  then have "mem_read s (a - of_nat (region_base RAM)) buf =
      (s, slice_at (unat a - region_base RAM) (length buf) (mem_data (ram s)))"
    using mem_read_ok [of s "a - of_nat (region_base RAM)" buf] w b
    by (simp add: u wf_platform_def wf_devs_def)
  then show ?thesis
    using dev_cb_of [OF wf_platform_devs [OF w], of RAM] by (simp add: bus_read_def f cbRead_def)
qed

lemma ram_invalidate [simp]: "ram (invalidate_on_write a n s) = ram s"
  by (simp add: invalidate_on_write_def Let_def)

lemma bus_write_ram:
  fixes s :: "'x::len vm"
  assumes v: "valid_xlen TYPE('x)" and w: "wf_platform s" and r: "in_region s RAM (unat a) (length buf)"
    and b: "buf \<noteq> []"
  shows "bus_write s a buf = (True, (invalidate_on_write a (length buf) s)
    \<lparr>ram := (ram s)\<lparr>mem_data := splice_at (unat a - region_base RAM) buf (mem_data (ram s))\<rparr>\<rparr>)"
proof -
  have f: "findDevice s a (length buf) = Some (RAM, a - of_nat (region_base RAM))"
    using findDevice_iff [OF v w in_ram_nowrap [OF v w r]] r b by simp
  have u: "unat (a - of_nat (region_base RAM)) = unat a - region_base RAM"
    using r by (intro unat_minus_base) (simp add: in_region_def)
  define t where "t = invalidate_on_write a (length buf) s"
  have "unat a - region_base RAM + length buf \<le> length (mem_data (ram t))" "wf_ram (ram t)"
    using r region_sizes(4) [OF v w] w by (auto simp: in_region_def t_def wf_platform_def wf_devs_def)
  then have "mem_write t (a - of_nat (region_base RAM)) buf = t\<lparr>ram := (ram t)
      \<lparr>mem_data := splice_at (unat a - region_base RAM) buf (mem_data (ram t))\<rparr>\<rparr>"
    using mem_write_ok [of t "a - of_nat (region_base RAM)" buf] b by (simp add: u)
  then show ?thesis
    using dev_cb_of [OF wf_platform_devs [OF w], of RAM]
    by (simp add: bus_write_def f cbWrite_def t_def)
qed

lemma in_region_port_frame:
  "wf_devs s \<Longrightarrow> port_frame s t \<Longrightarrow> in_region t d a n \<longleftrightarrow> in_region s d a n"
  using device_of_frame [of s t d] by (simp add: in_region_def region_size_def)

lemma ram_after_write:
  fixes s :: "'x::len vm"
  assumes v: "valid_xlen TYPE('x)" and w: "wf_platform s" and r: "in_region s RAM (unat a) (length buf)"
    and b: "buf \<noteq> []"
  shows "mem_data (ram (snd (bus_write s a buf))) =
      splice_at (unat a - region_base RAM) buf (mem_data (ram s))"
    "wf_platform (snd (bus_write s a buf))"
    "in_region (snd (bus_write s a buf)) d x n \<longleftrightarrow> in_region s d x n"
  by (simp add: bus_write_ram [OF assms])
    (rule wf_platform_frame [OF w bus_port.port_wr_frame]
      in_region_port_frame [OF wf_platform_devs [OF w] bus_port.port_wr_frame])+

lemma ram_range:
  assumes "in_region s RAM a n" "region_size s RAM = length m"
  shows "a - region_base RAM + n \<le> length m"
  using assms by (auto simp: in_region_def)

lemma bus_ram_roundtrip:
  fixes s :: "'x::len vm"
  assumes v: "valid_xlen TYPE('x)" and w: "wf_platform s" and r: "in_region s RAM (unat a) (length buf)"
    and b: "buf \<noteq> []" and l: "length old = length buf"
  shows "bus_read (snd (bus_write s a buf)) a old = (True, snd (bus_write s a buf), buf)"
proof -
  note t = ram_after_write [OF v w r b]
  from r have "unat a - region_base RAM + length buf \<le> length (mem_data (ram s))"
    using region_sizes(4) [OF v w] by (rule ram_range)
  moreover have "old \<noteq> []"
    using b l by auto
  ultimately show ?thesis
    using bus_read_ram [OF v t(2), of a old] r l by (simp add: t(1,3))
qed

lemma bus_ram_other:
  fixes s :: "'x::len vm"
  assumes v: "valid_xlen TYPE('x)" and w: "wf_platform s" and r: "in_region s RAM (unat a) (length buf)"
    and b: "buf \<noteq> []" and r': "in_region s RAM (unat a') (length old)" and o: "old \<noteq> []"
    and d: "unat a' + length old \<le> unat a \<or> unat a + length buf \<le> unat a'"
  shows "snd (snd (bus_read (snd (bus_write s a buf)) a' old)) = snd (snd (bus_read s a' old))"
proof -
  note t = ram_after_write [OF v w r b]
  note m = region_sizes(4) [OF v w]
  have "slice_at (unat a' - region_base RAM) (length old)
      (splice_at (unat a - region_base RAM) buf (mem_data (ram s))) =
    slice_at (unat a' - region_base RAM) (length old) (mem_data (ram s))"
    using r r' d
    by (intro slice_splice_disjoint ram_range [OF r m] ram_range [OF r' m]) (auto simp: in_region_def)
  then show ?thesis
    using bus_read_ram [OF v w r' o] bus_read_ram [OF v t(2), of a' old] r' o by (simp add: t(1,3))
qed

section \<open>Host safety\<close>

lemma dev_range:
  fixes s :: "'x::len vm"
  assumes "in_region s d (unat a) n"
  shows "unat (a - of_nat (region_base d)) + n \<le> region_size s d"
  using assms unat_minus_base [of d a] by (auto simp: in_region_def)

text \<open>A read that does not wrap around the end of the address space never leaves a host object.\<close>

lemma bus_read_safe:
  fixes s :: "'x::len vm"
  assumes v: "valid_xlen TYPE('x)" and w: "wf_platform s" and n: "buf \<noteq> []"
    and a: "unat a + length buf < 2 ^ LENGTH('x)"
  shows "host_ub (fst (snd (bus_read s a buf))) = host_ub s"
proof (cases "findDevice s a (length buf)")
  case (Some x)
  obtain d off where x: "x = (d, off)"
    by (cases x)
  then have r: "in_region s d (unat a) (length buf)" and o: "off = a - of_nat (region_base d)"
    using findDevice_iff [OF v w a, of d off] n Some by auto
  have "host_ub (fst (cbRead d s off buf)) = host_ub s"
  proof (cases d)
    case RAM
    then show ?thesis
      using dev_range [OF r] region_sizes(4) [OF v w] by (simp add: cbRead_def mem_read_ub o)
  next
    case UART0
    then show ?thesis
      using w uart_cbRead_frame [of s off buf] by (simp add: cbRead_def uart_frame_def wf_platform_def wf_devs_def)
  next
    case PLIC
    then show ?thesis
      using w plic_cbRead_ub [of s off buf] by (simp add: cbRead_def wf_platform_def wf_devs_def)
  qed (simp add: cbRead_def aclint_cb_ub)
  then show ?thesis
    using Some x dev_cb_of [OF wf_platform_devs [OF w], of d]
    by (simp add: bus_read_def split_def)
qed (simp add: bus_read_def)

lemma invalidate_fields [simp]:
  "host_ub (invalidate_on_write a n s) = host_ub s" "plic (invalidate_on_write a n s) = plic s"
  "cpu (invalidate_on_write a n s) = cpu s" "aclint (invalidate_on_write a n s) = aclint s"
  "uart0 (invalidate_on_write a n s) = uart0 s"
  by (simp_all add: invalidate_on_write_def Let_def)

text \<open>A write is as safe, but for one register: completing an interrupt number beyond the
  controller's arrays.\<close>

definition bad_completion :: "'x::len vm \<Rightarrow> 'x word \<Rightarrow> byte list \<Rightarrow> bool" where
  "bad_completion s off buf \<longleftrightarrow>
     (case plic_writeLoop off buf (plic s, True, None, 0) of (p, ok, c, n) \<Rightarrow> c \<noteq> None \<and> 4 \<le> unat n)"

lemma bus_write_safe:
  fixes s :: "'x::len vm"
  assumes v: "valid_xlen TYPE('x)" and w: "wf_platform s" and n: "buf \<noteq> []"
    and a: "unat a + length buf < 2 ^ LENGTH('x)"
  shows "host_ub (snd (bus_write s a buf)) \<longleftrightarrow> host_ub s \<or>
    in_region s PLIC (unat a) (length buf) \<and> bad_completion s (a - PLIC_BASE) buf"
proof (cases "findDevice s a (length buf)")
  case (Some x)
  obtain d off where x: "x = (d, off)"
    by (cases x)
  then have r: "in_region s d (unat a) (length buf)" and o: "off = a - of_nat (region_base d)"
    using findDevice_iff [OF v w a, of d off] n Some by auto
  have u: "d = PLIC" if "in_region s PLIC (unat a) (length buf)"
    using findDevice_iff [OF v w a, of PLIC "a - of_nat (region_base PLIC)"] that n Some x by auto
  define t where "t = invalidate_on_write a (length buf) s"
  have wt: "wf_plic (plic t)" "wf_uart (uart0 t)" "wf_aclint (aclint t)"
    using w by (simp_all add: t_def wf_platform_def wf_devs_def)
  have "host_ub (cbWrite d t off buf) \<longleftrightarrow> host_ub s \<or> d = PLIC \<and> bad_completion s off buf"
  proof (cases d)
    case RAM
    then show ?thesis
      using dev_range [OF r] region_sizes(4) [OF v w]
      by (simp add: cbWrite_def mem_write_ub o t_def)
  next
    case UART0
    then show ?thesis
      using wt uart_cbWrite_frame [of t off buf] by (simp add: cbWrite_def uart_frame_def) (simp add: t_def)
  next
    case PLIC
    then show ?thesis
      using plic_cbWrite_ub [OF wt(1), of off buf] by (simp add: cbWrite_def bad_completion_def) (simp add: t_def)
  next
    case ACLINT
    then show ?thesis
      using aclint_cb_ub(2) [OF wt(3), of off buf] by (simp add: cbWrite_def) (simp add: t_def)
  qed
  then show ?thesis
    using Some x dev_cb_of [OF wf_platform_devs [OF w], of d] u r
    by (auto simp: bus_write_def t_def o region_base_def PLIC_BASE_def)
next
  case None
  then have "\<not> in_region s PLIC (unat a) (length buf)"
    using findDevice_iff [OF v w a, of PLIC "a - of_nat (region_base PLIC)"] n by auto
  with None show ?thesis
    by (simp add: bus_write_def)
qed

end
