(* ===== verification/RV_Internal.thy ===== *)
theory RV_Internal
  imports Bus
begin

text \<open>
  The processor's primitive operations, \<^verbatim>\<open>src/src/cpu/rv_internal.h\<close>: raising a trap, reading and
  writing registers, the program counter and memory (all of them suppressed once a trap has been
  raised), flushing the instruction cache, and the return from a trap handler. The memory lemmas
  rest on the \<open>memory_port\<close> contract of the bus. The invariant of the processor and of the whole
  machine is stated here.
\<close>

definition ICACHE_LINE_SIZE :: nat where "ICACHE_LINE_SIZE = 128"
definition DCACHE_LINE_SIZE :: nat where "DCACHE_LINE_SIZE = 64"

definition RV_MVENDORID :: "'x::len word" where "RV_MVENDORID = 0"
definition RV_MARCHID :: "'x::len word" where "RV_MARCHID = 0x1442"
definition RV_MIMPID :: "'x::len word" where "RV_MIMPID = 0x640"

section \<open>Operations\<close>

definition flushIcache :: "'x::len vm \<Rightarrow> 'x vm" where
  "flushIcache s = cpu_update (icache_update (ic_base_update (\<lambda>_. CPU_ADDR_MAX))) s"

definition interrupt :: "RV_IrqCause \<Rightarrow> bool \<Rightarrow> 'x::len vm \<Rightarrow> 'x vm" where
  "interrupt cause delegate s =
     rv_clearInterrupt cause
       (s\<lparr>cpu := (cpu s)\<lparr>cpu_trap := True, trapCause := of_nat (irq_code cause) OR CPU_SIGN_BIT,
           trapDelegate := delegate\<rparr>\<rparr>)"

definition trap :: "RV_TrapCause \<Rightarrow> 'x::len vm \<Rightarrow> 'x vm" where
  "trap cause s =
     s\<lparr>cpu := (cpu s)\<lparr>cpu_trap := True, trapCause := of_nat (trap_code cause),
         trapDelegate := cause \<noteq> TRAP_CALL_M \<and> cause \<noteq> TRAP_DOUBLE_TRAP
           \<and> mode_of s \<le> RV_PRIV_MODE_SUPERVISOR
           \<and> (medeleg (csr_of s) AND trap_mask cause) \<noteq> 0\<rparr>\<rparr>"

definition readReg :: "'x::len vm \<Rightarrow> nat \<Rightarrow> 'x word" where
  "readReg s rd = Rx (cpu s) ! rd"

definition writeReg :: "nat \<Rightarrow> 'x::len word \<Rightarrow> 'x vm \<Rightarrow> 'x vm" where
  "writeReg rd d s = (if rd = 0 \<or> trapped s then s else cpu_update (Rx_update (\<lambda>r. r[rd := d])) s)"

definition readPC :: "'x::len vm \<Rightarrow> 'x word" where
  "readPC s = pc_of s"

definition writePC :: "'x::len word \<Rightarrow> 'x vm \<Rightarrow> 'x vm" where
  "writePC d s = (if trapped s then s else cpu_update (PC_update (\<lambda>_. d)) s)"

definition readMem :: "'x::len vm \<Rightarrow> 'x word \<Rightarrow> byte list \<Rightarrow> 'x vm \<times> byte list" where
  "readMem s addr buf =
     (if trapped s then (s, buf)
      else (case bus_read s addr buf of (ok, t, buf') \<Rightarrow>
              if ok then (t, buf') else (trap TRAP_LD_AF t, buf')))"

definition writeMem :: "'x::len vm \<Rightarrow> 'x word \<Rightarrow> byte list \<Rightarrow> 'x vm" where
  "writeMem s addr buf =
     (if trapped s then s
      else (case bus_write s addr buf of (ok, t) \<Rightarrow> if ok then t else trap TRAP_ST_AF t))"

text \<open>\<^verbatim>\<open>_xret\<close>: first the interrupt-enable bits, then the mode, then \<^verbatim>\<open>MPRV\<close>, then the program
  counter.\<close>

definition xret_ie :: "RV_PrivMode \<Rightarrow> 'x::len word \<Rightarrow> 'x word" where
  "xret_ie mode st =
     (if mode = RV_PRIV_MODE_SUPERVISOR
      then (st AND NOT MSTATUS_SIE_MASK)
        OR (if (st AND MSTATUS_SPIE_MASK) \<noteq> 0 then MSTATUS_SIE_MASK else 0) OR MSTATUS_SPIE_MASK
      else (st AND NOT MSTATUS_MIE_MASK)
        OR (if (st AND MSTATUS_MPIE_MASK) \<noteq> 0 then MSTATUS_MIE_MASK else 0) OR MSTATUS_MPIE_MASK)"

definition xret_mode :: "RV_PrivMode \<Rightarrow> 'x::len word \<Rightarrow> RV_PrivMode \<times> 'x word" where
  "xret_mode mode st =
     (if mode = RV_PRIV_MODE_SUPERVISOR
      then (MSTATUS_GET_SPP st, (st AND NOT MSTATUS_SPP_MASK) OR MSTATUS_SPP RV_PRIV_MODE_USER)
      else (MSTATUS_GET_MPP st, (st AND NOT MSTATUS_MPP_MASK) OR MSTATUS_MPP RV_PRIV_MODE_USER))"

definition xret :: "RV_PrivMode \<Rightarrow> int \<Rightarrow> 'x::len vm \<Rightarrow> 'x vm" where
  "xret mode instSize s =
     (if mode_of s < mode then trap TRAP_INST_ILL s
      else if mode_of s = RV_PRIV_MODE_SUPERVISOR \<and> mode = RV_PRIV_MODE_SUPERVISOR
          \<and> (mstatus (csr_of s) AND MSTATUS_TSR_MASK) \<noteq> 0
        then trap TRAP_INST_ILL s
      else
        (case xret_mode mode (xret_ie mode (mstatus (csr_of s))) of (m, st) \<Rightarrow>
           let st' = (if m \<le> RV_PRIV_MODE_SUPERVISOR then st AND NOT MSTATUS_MPRV_MASK else st);
               t = s\<lparr>cpu := (cpu s)\<lparr>csr := (csr_of s)\<lparr>mstatus := st'\<rparr>, cpu_mode := m\<rparr>\<rparr>
           in writePC ((if mode = RV_PRIV_MODE_SUPERVISOR then sepc (csr_of t) else mepc (csr_of t))
                - of_int instSize) t))"

section \<open>The invariant of the processor\<close>

text \<open>Thirty-two registers with \<open>x0\<close> zero, a whole cache line, hart number 0, and neither the
  mode nor the previous-mode field of \<^verbatim>\<open>mstatus\<close> holding the reserved encoding.\<close>

definition wf_cpu :: "'x::len rv_cpu \<Rightarrow> bool" where
  "wf_cpu c \<longleftrightarrow> length (Rx c) = 32 \<and> Rx c ! 0 = 0 \<and> length (ic_line (icache c)) = ICACHE_LINE_SIZE \<and>
     mhartid (csr c) = 0 \<and> cpu_mode c \<noteq> RV_PRIV_MODE_RESERVED \<and>
     MSTATUS_GET_MPP (mstatus (csr c)) \<noteq> RV_PRIV_MODE_RESERVED"

definition wf_vm :: "'x::len vm \<Rightarrow> bool" where
  "wf_vm s \<longleftrightarrow> wf_cpu (cpu s) \<and> wf_platform s"

lemma wf_cpu_core:
  assumes "core c = core d"
  shows "wf_cpu c \<longleftrightarrow> wf_cpu d"
  using core_fields [OF assms] core_csr_fields [OF core_fields(9) [OF assms]]
  by (simp add: wf_cpu_def)

lemma wf_vm_frame: "wf_vm s \<Longrightarrow> port_frame s t \<Longrightarrow> wf_vm t"
  using wf_platform_frame [of s t] wf_cpu_core [of "cpu t" "cpu s"]
  by (simp add: wf_vm_def port_frame_def)

lemma wf_vm_devs: "wf_vm s \<Longrightarrow> wf_devs s"
  by (simp add: wf_vm_def wf_platform_def)

text \<open>Changing only the processor keeps the platform.\<close>

lemma wf_platform_cpu [simp]: "wf_platform (cpu_update f s) \<longleftrightarrow> wf_platform s"
  by (simp add: wf_platform_def wf_devs_def)

lemma wf_vm_cpu: "wf_vm s \<Longrightarrow> wf_cpu (f (cpu s)) \<Longrightarrow> wf_vm (cpu_update f s)"
  by (simp add: wf_vm_def)

section \<open>Primitive operations and traps\<close>

lemma trapped_trap [simp]: "trapped (trap c s)"
  by (simp add: trap_def)

lemma trap_frame [simp]:
  "Rx (cpu (trap c s)) = Rx (cpu s)" "pc_of (trap c s) = pc_of s" "csr_of (trap c s) = csr_of s"
  "mode_of (trap c s) = mode_of s" "icache (cpu (trap c s)) = icache (cpu s)" "ram (trap c s) = ram s"
  "bus (trap c s) = bus s" "aclint (trap c s) = aclint s" "plic (trap c s) = plic s"
  "uart0 (trap c s) = uart0 s" "host_ub (trap c s) = host_ub s" "vm_stdout (trap c s) = vm_stdout s"
  "cpu_wfi (cpu (trap c s)) = cpu_wfi (cpu s)" "virtualSBI (cpu (trap c s)) = virtualSBI (cpu s)"
  "assert_failed (trap c s) = assert_failed s"
  by (simp_all add: trap_def)

lemma writeReg_trapped [simp]: "trapped s \<Longrightarrow> writeReg rd d s = s"
  by (simp add: writeReg_def)

lemma writePC_trapped [simp]: "trapped s \<Longrightarrow> writePC d s = s"
  by (simp add: writePC_def)

lemma readMem_trapped [simp]: "trapped s \<Longrightarrow> readMem s a buf = (s, buf)"
  by (simp add: readMem_def)

lemma writeMem_trapped [simp]: "trapped s \<Longrightarrow> writeMem s a buf = s"
  by (simp add: writeMem_def)

lemma trapped_writeReg [simp]: "trapped (writeReg rd d s) = trapped s"
  by (simp add: writeReg_def)

lemma trapped_writePC [simp]: "trapped (writePC d s) = trapped s"
  by (simp add: writePC_def)

lemma readReg_0 [simp]: "wf_vm s \<Longrightarrow> readReg s 0 = 0"
  by (simp add: readReg_def wf_vm_def wf_cpu_def)

lemma writeReg_0 [simp]: "writeReg 0 d s = s"
  by (simp add: writeReg_def)

lemma readReg_writeReg:
  assumes "length (Rx (cpu s)) = 32" "r < 32" "\<not> trapped s"
  shows "readReg (writeReg rd d s) r = (if r = rd \<and> rd \<noteq> 0 then d else readReg s r)"
  using assms by (simp add: readReg_def writeReg_def nth_list_update)

lemma port_frame_writeReg_devs:
  "wf_devs (writeReg rd d s) = wf_devs s" "wf_devs (writePC pc s) = wf_devs s"
  "wf_devs (trap c s) = wf_devs s"
  by (simp_all add: writeReg_def writePC_def trap_def wf_devs_def)

lemma bus_read_cpu_fields:
  "trapped (fst (snd (bus_read s a buf))) = trapped s" "pc_of (fst (snd (bus_read s a buf))) = pc_of s"
  "Rx (cpu (fst (snd (bus_read s a buf)))) = Rx (cpu s)"
  "mode_of (fst (snd (bus_read s a buf))) = mode_of s"
  using core_fields [of "cpu (fst (snd (bus_read s a buf)))" "cpu s"]
    bus_port.port_rd_frame [of s a buf] by (simp_all add: port_frame_def)

lemma bus_write_cpu_fields:
  "trapped (snd (bus_write s a buf)) = trapped s" "pc_of (snd (bus_write s a buf)) = pc_of s"
  "Rx (cpu (snd (bus_write s a buf))) = Rx (cpu s)"
  "mode_of (snd (bus_write s a buf)) = mode_of s"
  using core_fields [of "cpu (snd (bus_write s a buf))" "cpu s"]
    bus_port.port_wr_frame [of s a buf] by (simp_all add: port_frame_def)

lemma readMem_length [simp]: "length (snd (readMem s a buf)) = length buf"
  using bus_port.port_rd_length [of s a buf] by (simp add: readMem_def split_def)

text \<open>A memory access traps exactly when nothing answers at the address, and a trapping access
  changes nothing but the trap registers.\<close>

lemma trapped_readMem:
  "\<not> trapped s \<Longrightarrow> trapped (fst (readMem s a buf)) \<longleftrightarrow> \<not> bus_present s a (length buf)"
  using bus_port.rd_iff [of s a buf] bus_read_cpu_fields(1) [of s a buf]
  by (simp add: readMem_def split_def)

lemma trapped_writeMem:
  "\<not> trapped s \<Longrightarrow> trapped (writeMem s a buf) \<longleftrightarrow> \<not> bus_present s a (length buf)"
  using bus_port.wr_iff [of s a buf] bus_write_cpu_fields(1) [of s a buf]
  by (simp add: writeMem_def split_def)

lemma readMem_absent:
  "\<not> trapped s \<Longrightarrow> \<not> bus_present s a (length buf) \<Longrightarrow> readMem s a buf = (trap TRAP_LD_AF s, buf)"
  by (simp add: readMem_def bus_port.rd_absent)

lemma writeMem_absent:
  "\<not> trapped s \<Longrightarrow> \<not> bus_present s a (length buf) \<Longrightarrow> writeMem s a buf = trap TRAP_ST_AF s"
  by (simp add: writeMem_def bus_port.wr_absent)

lemma readMem_present:
  "\<not> trapped s \<Longrightarrow> bus_present s a (length buf) \<Longrightarrow> readMem s a buf = snd (bus_read s a buf)"
  using bus_port.rd_present [of s a buf] by (simp add: readMem_def split_def)

lemma writeMem_present:
  "\<not> trapped s \<Longrightarrow> bus_present s a (length buf) \<Longrightarrow> writeMem s a buf = snd (bus_write s a buf)"
  using bus_port.wr_present [of s a buf] by (simp add: writeMem_def split_def)

section \<open>The invariant is kept\<close>

lemma wf_flushIcache [wf_intros]: "wf_vm s \<Longrightarrow> wf_vm (flushIcache s)"
  unfolding flushIcache_def by (rule wf_vm_cpu) (simp_all add: wf_vm_def wf_cpu_def)

lemma wf_interrupt [wf_intros]: "wf_vm s \<Longrightarrow> wf_vm (interrupt c d s)"
  by (simp add: interrupt_def irq_line_defs wf_vm_def wf_cpu_def wf_platform_def wf_devs_def)

lemma wf_trap [wf_intros]: "wf_vm s \<Longrightarrow> wf_vm (trap c s)"
  by (simp add: trap_def wf_vm_def wf_cpu_def wf_platform_def wf_devs_def)

lemma wf_writeReg [wf_intros]: "wf_vm s \<Longrightarrow> wf_vm (writeReg rd d s)"
  by (simp add: writeReg_def wf_vm_def wf_cpu_def)

lemma wf_writePC [wf_intros]: "wf_vm s \<Longrightarrow> wf_vm (writePC d s)"
  by (simp add: writePC_def wf_vm_def wf_cpu_def)

lemma wf_bus_read [wf_intros]: "wf_vm s \<Longrightarrow> wf_vm (fst (snd (bus_read s a buf)))"
  by (rule wf_vm_frame [OF _ bus_port.port_rd_frame])

lemma wf_bus_write [wf_intros]: "wf_vm s \<Longrightarrow> wf_vm (snd (bus_write s a buf))"
  by (rule wf_vm_frame [OF _ bus_port.port_wr_frame])

lemma wf_readMem [wf_intros]: "wf_vm s \<Longrightarrow> wf_vm (fst (readMem s a buf))"
  by (simp add: readMem_def split_def wf_intros)

lemma wf_writeMem [wf_intros]: "wf_vm s \<Longrightarrow> wf_vm (writeMem s a buf)"
  by (simp add: writeMem_def split_def wf_intros)

lemma wf_c_assert [wf_intros]: "wf_vm s \<Longrightarrow> wf_vm (c_assert b s)"
  by (simp add: c_assert_def wf_vm_def wf_platform_def wf_devs_def)

lemma wf_c_undefined [wf_intros]: "wf_vm s \<Longrightarrow> wf_vm (c_undefined s)"
  by (rule wf_vm_frame [OF _ port_frame_undefined])

lemma wf_reservation [wf_intros]:
  "wf_vm s \<Longrightarrow> wf_vm (bus_reservationCreate a n s)"
  "wf_vm s \<Longrightarrow> wf_vm (snd (bus_reservationCheckInvalidate a n s))"
  by (simp_all add: bus_reservationCreate_def bus_reservationCheckInvalidate_def Let_def wf_vm_def
      wf_platform_def wf_devs_def)

lemma wf_pendingIRQ [wf_intros]: "wf_vm s \<Longrightarrow> wf_vm (pendingIRQ s)"
  by (simp add: pendingIRQ_def wf_vm_def wf_cpu_def wf_platform_def wf_devs_def)

text \<open>The status word after a return: which bits survive.\<close>

lemma bit_single: "bit (push_bit k 1 :: 'x::len word) n \<longleftrightarrow> n < LENGTH('x) \<and> n = k"
  by (auto simp: bit_exp_iff possible_bit_def)

lemma bit_mask_defs [mask_bits]:
  "bit (MSTATUS_SIE_MASK :: 'x::len word) n \<longleftrightarrow> n < LENGTH('x) \<and> n = 1"
  "bit (MSTATUS_MIE_MASK :: 'x word) n \<longleftrightarrow> n < LENGTH('x) \<and> n = 3"
  "bit (MSTATUS_SPIE_MASK :: 'x word) n \<longleftrightarrow> n < LENGTH('x) \<and> n = 5"
  "bit (MSTATUS_MPIE_MASK :: 'x word) n \<longleftrightarrow> n < LENGTH('x) \<and> n = 7"
  "bit (MSTATUS_SPP_MASK :: 'x word) n \<longleftrightarrow> n < LENGTH('x) \<and> n = 8"
  "bit (MSTATUS_MPP_MASK :: 'x word) n \<longleftrightarrow> n < LENGTH('x) \<and> (n = 11 \<or> n = 12)"
  "bit (MSTATUS_MPRV_MASK :: 'x word) n \<longleftrightarrow> n < LENGTH('x) \<and> n = 17"
  "bit (MSTATUS_TW_MASK :: 'x word) n \<longleftrightarrow> n < LENGTH('x) \<and> n = 21"
  "bit (MSTATUS_TSR_MASK :: 'x word) n \<longleftrightarrow> n < LENGTH('x) \<and> n = 22"
  unfolding mstatus_bit_masks bit_or_iff bit_single by auto

lemma and_mstatus_masks [simp]:
  "v AND MSTATUS_SIE_MASK = 0 \<longleftrightarrow> \<not> bit v 1" "v AND MSTATUS_MIE_MASK = 0 \<longleftrightarrow> \<not> bit v 3"
  "v AND MSTATUS_SPIE_MASK = 0 \<longleftrightarrow> \<not> bit v 5" "v AND MSTATUS_MPIE_MASK = 0 \<longleftrightarrow> \<not> bit v 7"
  "v AND MSTATUS_TW_MASK = 0 \<longleftrightarrow> \<not> bit v 21" "v AND MSTATUS_TSR_MASK = 0 \<longleftrightarrow> \<not> bit v 22"
  using and_exp_eq_0_iff [of v 1] and_exp_eq_0_iff [of v 3] and_exp_eq_0_iff [of v 5]
    and_exp_eq_0_iff [of v 7] and_exp_eq_0_iff [of v 21] and_exp_eq_0_iff [of v 22]
  unfolding mstatus_bit_masks push_bit_eq_mult by simp_all

lemma bit_MSTATUS_MPP:
  assumes "valid_xlen TYPE('x::len)"
  shows "bit (MSTATUS_MPP m :: 'x word) n \<longleftrightarrow> n = 11 \<and> odd (priv_code m) \<or> n = 12 \<and> 2 \<le> priv_code m"
proof -
  have three: "bit (3 :: 'x word) k \<longleftrightarrow> k < 2" for k
    using valid_xlen_ge [OF assms] bit_mask_iff [of 2 k, where 'a = "'x word"]
    by (auto simp: mask_eq_exp_minus_1 possible_bit_def)
  have "bit (MSTATUS_MPP m :: 'x word) n \<longleftrightarrow>
      n < LENGTH('x) \<and> 11 \<le> n \<and> bit (priv_code m) (n - 11) \<and> n - 11 < 2"
    unfolding MSTATUS_MPP_def word_of_priv_def bit_push_bit_iff bit_and_iff three bit_of_nat_iff
    by (auto simp: possible_bit_def)
  also have "\<dots> \<longleftrightarrow> n = 11 \<and> bit (priv_code m) 0 \<or> n = 12 \<and> bit (priv_code m) 1"
    using valid_xlen_ge [OF assms] by (auto simp: le_less_Suc_eq numeral_eq_Suc less_Suc_eq_le le_Suc_eq)
  also have "bit (priv_code m) 0 \<longleftrightarrow> odd (priv_code m)"
    by (simp add: bit_0)
  also have "bit (priv_code m) 1 \<longleftrightarrow> 2 \<le> priv_code m"
    by (cases m) (simp_all add: bit_Suc bit_0)
  finally show ?thesis .
qed

lemma bit_MSTATUS_SPP:
  assumes "valid_xlen TYPE('x::len)"
  shows "bit (MSTATUS_SPP m :: 'x word) n \<longleftrightarrow> n = 8 \<and> odd (priv_code m)"
proof -
  have "(word_of_priv m AND 1 :: 'x word) = of_bool (odd (priv_code m))"
    by (simp add: word_of_priv_def and_one_eq mod_2_eq_odd)
  then show ?thesis
    using valid_xlen_ge [OF assms] by (auto simp: MSTATUS_SPP_def bitwise)
qed

lemma bit_xret_ie:
  assumes "valid_xlen TYPE('x::len)"
  shows "bit (xret_ie m (st :: 'x word)) n \<longleftrightarrow>
    (if m = RV_PRIV_MODE_SUPERVISOR
     then (if n = 1 then bit st 5 else n = 5 \<or> bit st n)
     else (if n = 3 then bit st 7 else n = 7 \<or> bit st n))"
  using valid_xlen_ge [OF assms]
  by (auto simp: xret_ie_def bitwise mask_bits dest: bit_imp_le_length)

lemma xret_mode_eq:
  assumes "valid_xlen TYPE('x::len)"
  shows "fst (xret_mode m (st :: 'x word)) =
      (if m = RV_PRIV_MODE_SUPERVISOR then MSTATUS_GET_SPP st else MSTATUS_GET_MPP st)"
    "bit (snd (xret_mode m st)) n \<longleftrightarrow>
      bit st n \<and> (if m = RV_PRIV_MODE_SUPERVISOR then n \<noteq> 8 else n \<noteq> 11 \<and> n \<noteq> 12)"
  using valid_xlen_ge [OF assms]
  by (auto simp: xret_mode_def bitwise mask_bits bit_MSTATUS_SPP [OF assms] bit_MSTATUS_MPP [OF assms]
      dest: bit_imp_le_length)

lemma wf_xret [wf_intros]:
  assumes v: "valid_xlen TYPE('x::len)" and w: "wf_vm (s :: 'x vm)"
  shows "wf_vm (xret m n s)"
proof -
  define m' where "m' = fst (xret_mode m (xret_ie m (mstatus (csr_of s))))"
  define st where "st = snd (xret_mode m (xret_ie m (mstatus (csr_of s))))"
  define st' where "st' = (if m' \<le> RV_PRIV_MODE_SUPERVISOR then st AND NOT MSTATUS_MPRV_MASK else st)"
  have o: "MSTATUS_GET_MPP (mstatus (csr_of s)) \<noteq> RV_PRIV_MODE_RESERVED"
    using w by (simp add: wf_vm_def wf_cpu_def)
  then have "m' \<noteq> RV_PRIV_MODE_RESERVED"
    by (auto simp: m'_def xret_mode_eq [OF v] MSTATUS_GET_SPP_bit [OF v] MSTATUS_GET_MPP_bit [OF v]
        bit_xret_ie [OF v] split: if_splits)
  moreover have "bit st' k \<longleftrightarrow> bit st k" if "k = 11 \<or> k = 12" for k
    using that valid_xlen_ge [OF v] by (auto simp: st'_def bitwise mask_bits)
  then have "MSTATUS_GET_MPP st' \<noteq> RV_PRIV_MODE_RESERVED"
    using o by (auto simp: MSTATUS_GET_MPP_bit [OF v] st_def xret_mode_eq [OF v] bit_xret_ie [OF v]
        split: if_splits)
  ultimately have "wf_vm (s\<lparr>cpu := (cpu s)\<lparr>csr := (csr_of s)\<lparr>mstatus := st'\<rparr>, cpu_mode := m'\<rparr>\<rparr>)"
    using w by (simp add: wf_vm_def wf_cpu_def wf_platform_def wf_devs_def)
  then show ?thesis
    using w unfolding xret_def split_def Let_def m'_def [symmetric] st_def [symmetric] st'_def [symmetric]
    by (simp add: wf_intros)
qed

end
