(* ===== verification/RV_Csr.thy ===== *)
theory RV_Csr
  imports RV_Internal
begin

text \<open>
  The control and status registers, \<^verbatim>\<open>src/src/cpu/rv_csr.h\<close>: reading and writing a register by
  number, with the privilege check on the number, the supervisor views of the machine registers
  and the legalisation of written values.
\<close>

section \<open>Operations\<close>

definition writeMstatus :: "'x::len word \<Rightarrow> 'x vm \<Rightarrow> 'x vm" where
  "writeMstatus val s =
     (let t = (if (mstatus (csr_of s) AND (MSTATUS_MIE_MASK OR MSTATUS_SIE_MASK))
                  \<noteq> (val AND (MSTATUS_MIE_MASK OR MSTATUS_SIE_MASK))
               then pendingIRQ s else s);
          mpp = MSTATUS_GET_MPP val;
          mpp' = (if mpp \<noteq> RV_PRIV_MODE_USER \<and> mpp \<noteq> RV_PRIV_MODE_SUPERVISOR
                  then RV_PRIV_MODE_MACHINE else mpp)
      in upd_csr (mstatus_update (\<lambda>_. (MSTATUS_WR_VAL val AND NOT MSTATUS_MPP_MASK) OR MSTATUS_MPP mpp')) t)"

definition writeMie :: "'x::len word \<Rightarrow> 'x vm \<Rightarrow> 'x vm" where
  "writeMie val s =
     (let newMie = (mie (csr_of s) AND NOT MIE_RW_MASK) OR (val AND MIE_RW_MASK);
          t = (if mie (csr_of s) \<noteq> newMie then pendingIRQ s else s)
      in upd_csr (mie_update (\<lambda>_. newMie)) t)"

definition writeMip :: "'x::len word \<Rightarrow> 'x vm \<Rightarrow> 'x vm" where
  "writeMip val s =
     (let newMip = (mip (csr_of s) AND NOT MIP_RW_MASK) OR (val AND MIP_RW_MASK);
          t = (if mip (csr_of s) \<noteq> newMip then pendingIRQ s else s)
      in upd_csr (mip_update (\<lambda>_. newMip)) t)"

definition checkPrfCounterAccess :: "'x::len vm \<Rightarrow> 'x word \<Rightarrow> bool" where
  "checkPrfCounterAccess s m =
     (if mode_of s < RV_PRIV_MODE_MACHINE \<and> (mcounteren (csr_of s) AND m) = 0 then False
      else if mode_of s < RV_PRIV_MODE_SUPERVISOR \<and> (scounteren (csr_of s) AND m) = 0 then False
      else True)"

definition csrPrivMode :: "16 word \<Rightarrow> RV_PrivMode" where
  "csrPrivMode n = privMode_of (drop_bit 8 n AND 3)"

definition misa :: "'x::len word" where
  "misa = (if CONFIG_RV64 TYPE('x) then CPU_SIGN_BIT else drop_bit 1 CPU_SIGN_BIT)
     OR MISA_EXT_BIT 97 OR MISA_EXT_BIT 99 OR MISA_EXT_BIT 105 OR MISA_EXT_BIT 109
     OR MISA_EXT_BIT 115 OR MISA_EXT_BIT 117"

text \<open>The value of a register that can be read, \<open>None\<close> for the numbers that end in the trap at
  the foot of the switch.\<close>

definition csrValue :: "'x::len vm \<Rightarrow> 16 word \<Rightarrow> 'x word option" where
  "csrValue s n =
     (let c = csr_of s in
      if n = 0x100 then Some (mstatus c AND NOT SSTATUS_WPRI_MASK)
      else if n = 0x104 then Some (mie c AND mideleg c AND SIE_RW_MASK)
      else if n = 0x105 then Some (stvec c)
      else if n = 0x106 then Some (scounteren c)
      else if n = 0x10A then Some (senvcfg c)
      else if n = 0x140 then Some (sscratch c)
      else if n = 0x141 then Some (sepc c)
      else if n = 0x142 then Some (scause c)
      else if n = 0x143 then Some (stval c)
      else if n = 0x144 then Some (mip c AND mideleg c AND SIP_RW_MASK)
      else if n = 0x180 then Some 0
      else if n = 0x300 then Some (mstatus c)
      else if n = 0x301 then Some misa
      else if n = 0x302 then Some (medeleg c)
      else if n = 0x303 then Some (mideleg c)
      else if n = 0x304 then Some (mie c)
      else if n = 0x305 then Some (mtvec c)
      else if n = 0x306 then Some (mcounteren c)
      else if n = 0x30A then Some (menvcfg c)
      else if n = 0x310 \<and> \<not> CONFIG_RV64 TYPE('x) then Some (mstatush c)
      else if n = 0x340 then Some (mscratch c)
      else if n = 0x341 then Some (mepc c)
      else if n = 0x342 then Some (mcause c)
      else if n = 0x343 then Some (mtval c)
      else if n = 0x344 then Some (mip c)
      else if n = 0xC00 then if checkPrfCounterAccess s COUNTEREN_CY_MASK then Some 0 else None
      else if n = 0xC01 then
        if checkPrfCounterAccess s COUNTEREN_TM_MASK then Some (ucast (aclint_getMtime s)) else None
      else if n = 0xC02 then if checkPrfCounterAccess s COUNTEREN_IR_MASK then Some 0 else None
      else if n = 0xC80 \<and> \<not> CONFIG_RV64 TYPE('x) then
        if checkPrfCounterAccess s COUNTEREN_CY_MASK then Some 0 else None
      else if n = 0xC81 \<and> \<not> CONFIG_RV64 TYPE('x) then
        if checkPrfCounterAccess s COUNTEREN_TM_MASK
        then Some (ucast (drop_bit 32 (aclint_getMtime s))) else None
      else if n = 0xC82 \<and> \<not> CONFIG_RV64 TYPE('x) then
        if checkPrfCounterAccess s COUNTEREN_IR_MASK then Some 0 else None
      else if n = 0xF11 then Some RV_MVENDORID
      else if n = 0xF12 then Some RV_MARCHID
      else if n = 0xF13 then Some RV_MIMPID
      else if n = 0xF14 then Some (mhartid c)
      else None)"

definition readCSR :: "'x::len vm \<Rightarrow> 16 word \<Rightarrow> 'x vm \<times> 'x word" where
  "readCSR s n =
     (if trapped s then (s, 0)
      else if mode_of s < csrPrivMode n then (trap TRAP_INST_ILL s, 0)
      else (case csrValue s n of Some v \<Rightarrow> (s, v) | None \<Rightarrow> (trap TRAP_INST_ILL s, 0)))"

definition writeCSR :: "16 word \<Rightarrow> 'x::len word \<Rightarrow> 'x vm \<Rightarrow> 'x vm" where
  "writeCSR n val s =
     (if trapped s then s
      else if mode_of s < csrPrivMode n then trap TRAP_INST_ILL s
      else if n = 0x100 then
        writeMstatus ((val AND NOT SSTATUS_WPRI_MASK) OR (mstatus (csr_of s) AND SSTATUS_WPRI_MASK)) s
      else if n = 0x104 then
        let m = mideleg (csr_of s) AND SIE_RW_MASK
        in writeMie ((val AND m) OR (mie (csr_of s) AND NOT m)) s
      else if n = 0x105 then upd_csr (stvec_update (\<lambda>_. val)) s
      else if n = 0x106 then upd_csr (scounteren_update (\<lambda>_. val AND COUNTEREN_WR_MASK)) s
      else if n = 0x10A then upd_csr (senvcfg_update (\<lambda>_. val)) s
      else if n = 0x140 then upd_csr (sscratch_update (\<lambda>_. val)) s
      else if n = 0x141 then upd_csr (sepc_update (\<lambda>_. val AND NOT 1)) s
      else if n = 0x143 then upd_csr (stval_update (\<lambda>_. val)) s
      else if n = 0x144 then
        let m = mideleg (csr_of s) AND SIP_RW_MASK
        in writeMip ((val AND m) OR (mip (csr_of s) AND NOT m)) s
      else if n = 0x300 then writeMstatus val s
      else if n = 0x301 then s
      else if n = 0x302 then upd_csr (medeleg_update (\<lambda>_. val AND MEDELEG_RW_MASK)) s
      else if n = 0x303 then upd_csr (mideleg_update (\<lambda>_. val AND MIDELEG_RW_MASK)) s
      else if n = 0x304 then writeMie val s
      else if n = 0x305 then upd_csr (mtvec_update (\<lambda>_. val)) s
      else if n = 0x306 then upd_csr (mcounteren_update (\<lambda>_. val AND COUNTEREN_WR_MASK)) s
      else if n = 0x30A then upd_csr (menvcfg_update (\<lambda>_. val)) s
      else if n = 0x310 \<and> \<not> CONFIG_RV64 TYPE('x)
        then upd_csr (mstatush_update (\<lambda>_. MSTATUSH_WR_VAL val)) s
      else if n = 0x340 then upd_csr (mscratch_update (\<lambda>_. val)) s
      else if n = 0x341 then upd_csr (mepc_update (\<lambda>_. val AND NOT 1)) s
      else if n = 0x343 then upd_csr (mtval_update (\<lambda>_. val)) s
      else if n = 0x344 then writeMip val s
      else trap TRAP_INST_ILL s)"

section \<open>Traps and frames\<close>

lemma readCSR_trapped [simp]: "trapped s \<Longrightarrow> readCSR s n = (s, 0)"
  by (simp add: readCSR_def)

lemma writeCSR_trapped [simp]: "trapped s \<Longrightarrow> writeCSR n v s = s"
  by (simp add: writeCSR_def)

text \<open>A read either changes nothing or raises the illegal-instruction trap.\<close>

lemma readCSR_cases:
  "fst (readCSR s n) = s \<or> \<not> trapped s \<and> fst (readCSR s n) = trap TRAP_INST_ILL s \<and> snd (readCSR s n) = 0"
  by (auto simp: readCSR_def split: option.split)

text \<open>What every write of a register leaves alone.\<close>

definition csr_frame :: "'x::len vm \<Rightarrow> 'x vm \<Rightarrow> bool" where
  "csr_frame s t \<longleftrightarrow> Rx (cpu t) = Rx (cpu s) \<and> pc_of t = pc_of s \<and> mode_of t = mode_of s \<and>
     trapped t = trapped s \<and> icache (cpu t) = icache (cpu s) \<and> virtualSBI (cpu t) = virtualSBI (cpu s) \<and>
     mhartid (csr_of t) = mhartid (csr_of s) \<and> bus t = bus s \<and> ram t = ram s \<and> aclint t = aclint s \<and>
     plic t = plic s \<and> uart0 t = uart0 s \<and> host_ub t = host_ub s \<and> vm_stdout t = vm_stdout s \<and>
     uninit t = uninit s \<and> assert_failed t = assert_failed s"

lemmas csr_writers = writeMstatus_def writeMie_def writeMip_def pendingIRQ_def Let_def

lemma csr_frame_writers:
  "csr_frame s (writeMstatus v s)" "csr_frame s (writeMie v s)" "csr_frame s (writeMip v s)"
  by (simp_all add: csr_frame_def csr_writers)

definition csr_step :: "'x::len vm \<Rightarrow> 'x vm \<Rightarrow> bool" where
  "csr_step s t \<longleftrightarrow> t = trap TRAP_INST_ILL s \<or> csr_frame s t"

lemma csr_step_if: "csr_step s t \<Longrightarrow> csr_step s u \<Longrightarrow> csr_step s (if b then t else u)"
  by simp

lemma csr_step_basic:
  "csr_step s s" "csr_step s (trap TRAP_INST_ILL s)" "csr_step s (writeMstatus v s)"
  "csr_step s (writeMie v s)" "csr_step s (writeMip v s)"
  using csr_frame_writers [where s = s and v = v] by (simp_all add: csr_step_def csr_frame_def)

lemma csr_step_upd: "(\<And>c. mhartid (f c) = mhartid c) \<Longrightarrow> csr_step s (upd_csr f s)"
  by (simp add: csr_step_def csr_frame_def)

lemma writeCSR_cases:
  "writeCSR n v s = trap TRAP_INST_ILL s \<and> \<not> trapped s \<or> csr_frame s (writeCSR n v s)"
proof (cases "trapped s")
  case True
  then show ?thesis
    by (simp add: csr_frame_def)
next
  case False
  have "csr_step s (writeCSR n v s)"
    unfolding writeCSR_def Let_def by (intro csr_step_if csr_step_basic csr_step_upd) simp_all
  with False show ?thesis
    by (auto simp: csr_step_def)
qed

section \<open>Legal values\<close>

text \<open>Whatever is written to \<^verbatim>\<open>mstatus\<close>, the previous-mode field never holds the reserved mode.\<close>

lemma MSTATUS_GET_MPP_written:
  assumes "valid_xlen TYPE('x::len)"
  shows "MSTATUS_GET_MPP ((v AND NOT MSTATUS_MPP_MASK) OR MSTATUS_MPP m :: 'x word) = m"
  using valid_xlen_ge [OF assms]
  by (cases m) (auto simp: MSTATUS_GET_MPP_bit [OF assms] bit_or_iff bit_and_iff bit_not_iff
      possible_bit_def mask_bits bit_MSTATUS_MPP [OF assms])

lemma writeMstatus_MPP:
  assumes "valid_xlen TYPE('x::len)"
  shows "MSTATUS_GET_MPP (mstatus (csr_of (writeMstatus v (s :: 'x vm)))) =
    (if MSTATUS_GET_MPP v = RV_PRIV_MODE_RESERVED then RV_PRIV_MODE_MACHINE else MSTATUS_GET_MPP v)"
  by (cases "MSTATUS_GET_MPP v") (simp_all add: writeMstatus_def Let_def MSTATUS_GET_MPP_written [OF assms])

lemma writeMie_mstatus [simp]:
  "mstatus (csr_of (writeMie v s)) = mstatus (csr_of s)"
  "mstatus (csr_of (writeMip v s)) = mstatus (csr_of s)"
  by (simp_all add: csr_writers)

lemma writeCSR_MPP:
  assumes "valid_xlen TYPE('x::len)"
    and "MSTATUS_GET_MPP (mstatus (csr_of s)) \<noteq> RV_PRIV_MODE_RESERVED"
  shows "MSTATUS_GET_MPP (mstatus (csr_of (writeCSR n v (s :: 'x vm)))) \<noteq> RV_PRIV_MODE_RESERVED"
  using assms(2) by (simp add: writeCSR_def Let_def writeMstatus_MPP [OF assms(1)])

lemma wf_readCSR [wf_intros]: "wf_vm s \<Longrightarrow> wf_vm (fst (readCSR s n))"
  using readCSR_cases [of s n] by (auto intro: wf_trap)

lemma wf_writeCSR [wf_intros]:
  assumes "valid_xlen TYPE('x::len)" "wf_vm (s :: 'x vm)"
  shows "wf_vm (writeCSR n v s)"
  using writeCSR_cases [of n v s]
proof
  assume "csr_frame s (writeCSR n v s)"
  then show ?thesis
    using assms(2) writeCSR_MPP [OF assms(1), of s n v]
    by (simp add: csr_frame_def wf_vm_def wf_cpu_def wf_platform_def wf_devs_def)
qed (use assms(2) in \<open>simp add: wf_trap\<close>)

end
