(* ===== verification/RV_Arith.thy ===== *)
theory RV_Arith
  imports RV_Types
begin

text \<open>
  The arithmetic blocks of \<^verbatim>\<open>src/src/cpu/rv_instr.h\<close>, as functions of the operand values: the
  arithmetic right shift, the upper halves of products (on 64-bit registers from four 32-bit
  partial products), division and remainder, and their 32-bit variants of the 64-bit instruction
  set. Each is shown equal to the operation of the instruction set manual it implements.
\<close>

section \<open>Operations\<close>

text \<open>A C cast to \<^verbatim>\<open>uint32_t\<close> that is widened again at once.\<close>

definition lo32 :: "64 word \<Rightarrow> 64 word" where
  "lo32 w = ucast (ucast w :: 32 word)"

definition sra :: "'a::len word \<Rightarrow> nat \<Rightarrow> 'a word" where
  "sra v shift =
     (let sign = NOT (drop_bit shift (v AND push_bit (LENGTH('a) - 1) 1) - 1)
      in drop_bit shift v OR sign)"

text \<open>The product of two 64-bit numbers from their 32-bit halves: high and low half.\<close>

definition mul_halves :: "64 word \<Rightarrow> 64 word \<Rightarrow> 64 word \<times> 64 word" where
  "mul_halves ma mb =
     (let a0 = lo32 ma; a1 = drop_bit 32 ma; b0 = lo32 mb; b1 = drop_bit 32 mb;
          p0 = a0 * b0; p1 = a0 * b1; p2 = a1 * b0; p3 = a1 * b1;
          mid = drop_bit 32 p0 + lo32 p1 + lo32 p2;
          lo = (p0 AND 0xffffffff) OR push_bit 32 mid;
          hi = p3 + drop_bit 32 p1 + drop_bit 32 p2 + drop_bit 32 mid
      in (hi, lo))"

definition neg_hi :: "64 word \<times> 64 word \<Rightarrow> 64 word" where
  "neg_hi p = NOT (fst p) + of_bool (snd p = 0)"

definition is_neg :: "'x::len word \<Rightarrow> bool" where
  "is_neg v \<longleftrightarrow> sint v < 0"

definition mulh :: "'x::len word \<Rightarrow> 'x word \<Rightarrow> 'x word" where
  "mulh rs1Val rs2Val =
     (if CONFIG_RV64 TYPE('x) then
        let ua = ucast rs1Val :: 64 word; ub = ucast rs2Val;
            ma = (if is_neg rs1Val then 0 - ua else ua);
            mb = (if is_neg rs2Val then 0 - ub else ub);
            p = mul_halves ma mb
        in ucast (if is_neg rs1Val \<noteq> is_neg rs2Val then neg_hi p else fst p)
      else
        let p = (scast (ucast rs1Val :: 32 word) :: 64 word) * scast (ucast rs2Val :: 32 word)
        in ucast (ucast (drop_bit 32 p) :: 32 word))"

definition mulhsu :: "'x::len word \<Rightarrow> 'x word \<Rightarrow> 'x word" where
  "mulhsu rs1Val rs2Val =
     (if CONFIG_RV64 TYPE('x) then
        let ua = ucast rs1Val :: 64 word; ub = ucast rs2Val;
            ma = (if is_neg rs1Val then 0 - ua else ua);
            p = mul_halves ma ub
        in ucast (if is_neg rs1Val then neg_hi p else fst p)
      else
        let p = (scast (ucast rs1Val :: 32 word) :: 64 word) * ucast rs2Val
        in ucast (ucast (drop_bit 32 p) :: 32 word))"

definition mulhu :: "'x::len word \<Rightarrow> 'x word \<Rightarrow> 'x word" where
  "mulhu rs1Val rs2Val =
     (if CONFIG_RV64 TYPE('x) then
        let a = ucast rs1Val :: 64 word; b = ucast rs2Val :: 64 word;
            rs1L = lo32 a; rs1H = drop_bit 32 a; rs2L = lo32 b; rs2H = drop_bit 32 b;
            p0 = rs1L * rs2L; p1 = rs1L * rs2H; p2 = rs1H * rs2L; p3 = rs1H * rs2H;
            carry = drop_bit 32 p0 + lo32 p1 + lo32 p2
        in ucast (p3 + drop_bit 32 p1 + drop_bit 32 p2 + drop_bit 32 carry)
      else
        let p = (ucast rs1Val :: 64 word) * ucast rs2Val
        in ucast (ucast (drop_bit 32 p) :: 32 word))"

definition div_op :: "'x::len word \<Rightarrow> 'x word \<Rightarrow> 'x word" where
  "div_op rs1Val rs2Val =
     (if rs2Val \<noteq> 0 then
        if rs1Val = CPU_SIGN_BIT \<and> rs2Val = CPU_UINT_MAX then CPU_SIGN_BIT
        else word_of_int (sint rs1Val sdiv sint rs2Val)
      else CPU_UINT_MAX)"

definition divu_op :: "'x::len word \<Rightarrow> 'x word \<Rightarrow> 'x word" where
  "divu_op rs1Val rs2Val = (if rs2Val \<noteq> 0 then rs1Val div rs2Val else CPU_UINT_MAX)"

definition rem_op :: "'x::len word \<Rightarrow> 'x word \<Rightarrow> 'x word" where
  "rem_op rs1Val rs2Val =
     (if rs2Val \<noteq> 0 then
        if rs1Val = CPU_SIGN_BIT \<and> rs2Val = CPU_UINT_MAX then 0
        else word_of_int (sint rs1Val smod sint rs2Val)
      else rs1Val)"

definition remu_op :: "'x::len word \<Rightarrow> 'x word \<Rightarrow> 'x word" where
  "remu_op rs1Val rs2Val = (if rs2Val \<noteq> 0 then rs1Val mod rs2Val else rs1Val)"

section \<open>The arithmetic shift\<close>

lemma bit_single_drop:
  assumes "n < LENGTH('a)"
  shows "drop_bit n (v AND push_bit (LENGTH('a) - 1) 1 :: 'a::len word) =
    (if bit v (LENGTH('a) - 1) then push_bit (LENGTH('a) - 1 - n) 1 else 0)"
proof (rule bit_word_eqI)
  fix i assume "i < LENGTH('a)"
  then show "bit (drop_bit n (v AND push_bit (LENGTH('a) - 1) 1)) i =
      bit (if bit v (LENGTH('a) - 1) then push_bit (LENGTH('a) - 1 - n) 1 else (0 :: 'a word)) i"
    using assms by (auto simp: bit_drop_bit_eq bit_and_iff bit_exp_iff possible_bit_def)
qed

lemma sra_eq_signed_drop_bit:
  assumes "n < LENGTH('a)"
  shows "sra (v :: 'a::len word) n = signed_drop_bit n v"
proof (rule bit_word_eqI)
  fix i assume i: "i < LENGTH('a)"
  have "bit (NOT (drop_bit n (v AND push_bit (LENGTH('a) - 1) 1) - 1) :: 'a word) i \<longleftrightarrow>
      bit v (LENGTH('a) - 1) \<and> LENGTH('a) - 1 - n \<le> i"
    unfolding bit_single_drop [OF assms]
    using i bit_not_exp_minus_one [of "LENGTH('a) - 1 - n" i, where 'a = 'a] by auto
  then have "bit (sra v n) i \<longleftrightarrow> bit v (n + i) \<or> bit v (LENGTH('a) - 1) \<and> LENGTH('a) - 1 - n \<le> i"
    unfolding sra_def Let_def bit_or_iff bit_drop_bit_eq by simp
  moreover have "bit (signed_drop_bit n v) i \<longleftrightarrow>
      bit v (if LENGTH('a) - n \<le> i then LENGTH('a) - 1 else n + i)"
    using assms i by (simp add: bit_signed_drop_bit_iff)
  moreover have "(bit v (n + i) \<or> bit v (LENGTH('a) - 1) \<and> LENGTH('a) - 1 - n \<le> i) \<longleftrightarrow>
      bit v (if LENGTH('a) - n \<le> i then LENGTH('a) - 1 else n + i)"
  proof (cases "n + i < LENGTH('a)")
    case True
    then have "LENGTH('a) - 1 - n \<le> i \<Longrightarrow> n + i = LENGTH('a) - 1" "\<not> LENGTH('a) - n \<le> i"
      using assms by linarith+
    then show ?thesis
      by auto
  next
    case False
    then have "LENGTH('a) - 1 - n \<le> i" "LENGTH('a) - n \<le> i" "\<not> bit v (n + i)"
      using bit_imp_le_length [of v "n + i"] by linarith+
    then show ?thesis
      by simp
  qed
  ultimately show "bit (sra v n) i \<longleftrightarrow> bit (signed_drop_bit n v) i"
    by simp
qed

section \<open>Upper halves of products\<close>

lemma unat_lo32: "unat (lo32 w) = unat w mod 2 ^ 32"
  by (simp add: lo32_def unsigned_ucast_eq take_bit_eq_mod unat_mod_distrib)

lemma unat_hi32: "unat (drop_bit 32 (w :: 64 word)) = unat w div 2 ^ 32"
  by (simp add: unat_drop_bit_eq drop_bit_eq_div unat_div_distrib)

lemma unat_mult_small:
  assumes "unat (a :: 64 word) < 2 ^ 32" "unat b < 2 ^ 32"
  shows "unat (a * b) = unat a * unat b"
proof -
  have "unat a * unat b < 2 ^ 32 * 2 ^ 32"
    using assms by (intro mult_strict_mono) auto
  then show ?thesis
    by (simp add: unat_word_ariths)
qed

lemma unat_plus_small:
  "unat (a :: 64 word) + unat b < 2 ^ 64 \<Longrightarrow> unat (a + b) = unat a + unat b"
  by (simp add: unat_word_ariths)

text \<open>Long multiplication in base \<open>N\<close>, on natural numbers: the partial products \<open>p0\<close> to \<open>p3\<close>
  with their digits, and the carry out of the middle column.\<close>

lemma long_multiplication:
  fixes N :: nat
  assumes "p0 = q0 * N + r0" "p1 = q1 * N + r1" "p2 = q2 * N + r2" "q0 + r1 + r2 = m1 * N + m0"
  shows "p3 * (N * N) + (p1 + p2) * N + p0 = (p3 + q1 + q2 + m1) * (N * N) + (m0 * N + r0)"
proof -
  have "(p1 + p2) * N + p0 = (q1 + q2) * (N * N) + (q0 + r1 + r2) * N + r0"
    by (simp add: assms(1-3) algebra_simps)
  also have "(q0 + r1 + r2) * N = m1 * (N * N) + m0 * N"
    unfolding assms(4) by (simp add: algebra_simps)
  finally show ?thesis
    by (simp add: algebra_simps)
qed

lemma binomial_product:
  "(x1 * N + x0) * (y1 * N + y0) = x1 * y1 * (N * N) + (x0 * y1 + x1 * y0) * N + x0 * (y0 :: nat)"
  by (simp add: algebra_simps)

lemma split_halves: "unat (w :: 64 word) = unat (drop_bit 32 w) * 2 ^ 32 + unat (lo32 w)"
  unfolding unat_hi32 unat_lo32 by (rule div_mult_mod_eq [symmetric])

lemma halves_less: "unat (lo32 w) < 2 ^ 32" "unat (drop_bit 32 (w :: 64 word)) < 2 ^ 32"
proof -
  show "unat (lo32 w) < 2 ^ 32"
    unfolding unat_lo32 by simp
  have "unat w < 2 ^ 32 * 2 ^ 32"
    using unsigned_less [of w, where 'a = nat] by simp
  then show "unat (drop_bit 32 w) < 2 ^ 32"
    unfolding unat_hi32 by (rule less_mult_imp_div_less)
qed

lemma lo_word:
  "unat ((p AND 0xffffffff) OR push_bit 32 m :: 64 word) = unat m mod 2 ^ 32 * 2 ^ 32 + unat p mod 2 ^ 32"
proof -
  have "(p AND 0xffffffff) OR push_bit 32 m = push_bit 32 m OR take_bit 32 p"
    by (simp add: take_bit_eq_mask mask_eq_exp_minus_1 or.commute)
  also have "\<dots> = push_bit 32 m + take_bit 32 p"
    by (rule disjunctive_add [symmetric]) (auto simp: bit_push_bit_iff bit_take_bit_iff)
  also have "unat \<dots> = unat (push_bit 32 m) + unat (take_bit 32 p)"
  proof (rule unat_plus_small)
    have "unat (take_bit 32 p) < 2 ^ 32" "unat m mod 2 ^ 32 < 2 ^ 32"
      by (simp_all add: unsigned_take_bit_eq take_bit_eq_mod unat_mod_distrib)
    moreover have "unat (push_bit 32 m) = unat m mod 2 ^ 32 * 2 ^ 32"
      by (simp add: unat_word_ariths push_bit_eq_mult take_bit_eq_mod mult.commute
          mult_mod_right [of "2 ^ 32" "unat m" "2 ^ 32", simplified])
    ultimately show "unat (push_bit 32 m) + unat (take_bit 32 p) < 2 ^ 64"
      by simp
  qed
  also have "unat (push_bit 32 m) = unat m mod 2 ^ 32 * 2 ^ 32"
    by (simp add: unat_word_ariths push_bit_eq_mult take_bit_eq_mod mult.commute
        mult_mod_right [of "2 ^ 32" "unat m" "2 ^ 32", simplified])
  also have "unat (take_bit 32 p) = unat p mod 2 ^ 32"
    by (simp add: unsigned_take_bit_eq take_bit_eq_mod unat_mod_distrib)
  finally show ?thesis .
qed

lemma mul_halves_sum:
  fixes ma mb :: "64 word"
  shows "unat ma * unat mb = unat (fst (mul_halves ma mb)) * 2 ^ 64 + unat (snd (mul_halves ma mb))"
proof -
  define a0 a1 b0 b1 where "a0 = lo32 ma" and "a1 = drop_bit 32 ma" and "b0 = lo32 mb"
    and "b1 = drop_bit 32 mb"
  note ab = a0_def a1_def b0_def b1_def
  define p0 p1 p2 p3 where "p0 = a0 * b0" and "p1 = a0 * b1" and "p2 = a1 * b0" and "p3 = a1 * b1"
  note p = p0_def p1_def p2_def p3_def
  define mid where "mid = drop_bit 32 p0 + lo32 p1 + lo32 p2"
  define hi where "hi = p3 + drop_bit 32 p1 + drop_bit 32 p2 + drop_bit 32 mid"
  note l = halves_less
  have u: "unat p0 = unat a0 * unat b0" "unat p1 = unat a0 * unat b1" "unat p2 = unat a1 * unat b0"
    "unat p3 = unat a1 * unat b1"
    unfolding p ab by (rule unat_mult_small; rule l)+
  have mid: "unat mid = unat (drop_bit 32 p0) + unat (lo32 p1) + unat (lo32 p2)"
    using l(2) [of p0] l(1) [of p1] l(1) [of p2] unfolding mid_def
    by (simp add: unat_plus_small)
  have P: "unat ma * unat mb = unat p3 * (2 ^ 32 * 2 ^ 32) + (unat p1 + unat p2) * 2 ^ 32 + unat p0"
    unfolding u split_halves [of ma] split_halves [of mb] ab [symmetric] by (rule binomial_product)
  also have "\<dots> = (unat p3 + unat (drop_bit 32 p1) + unat (drop_bit 32 p2) + unat (drop_bit 32 mid))
      * (2 ^ 32 * 2 ^ 32) + (unat (lo32 mid) * 2 ^ 32 + unat (lo32 p0))"
    by (rule long_multiplication [OF split_halves split_halves split_halves
          trans [OF mid [symmetric] split_halves]])
  finally have e: "unat ma * unat mb =
      (unat p3 + unat (drop_bit 32 p1) + unat (drop_bit 32 p2) + unat (drop_bit 32 mid))
        * (2 ^ 32 * 2 ^ 32) + (unat (lo32 mid) * 2 ^ 32 + unat (lo32 p0))" .
  have "unat ma * unat mb < 2 ^ 64 * 2 ^ 64"
    using unsigned_less [of ma, where 'a = nat] unsigned_less [of mb, where 'a = nat]
    by (intro mult_strict_mono) auto
  then have b: "unat p3 + unat (drop_bit 32 p1) + unat (drop_bit 32 p2) + unat (drop_bit 32 mid) < 2 ^ 64"
    unfolding e by (simp add: add_lessD1)
  then have hi: "unat hi = unat p3 + unat (drop_bit 32 p1) + unat (drop_bit 32 p2) + unat (drop_bit 32 mid)"
    unfolding hi_def by (simp add: unat_plus_small)
  have m: "mul_halves ma mb = (hi, (p0 AND 0xffffffff) OR push_bit 32 mid)"
    by (simp add: mul_halves_def Let_def hi_def mid_def p ab)
  show ?thesis
    unfolding e m fst_conv snd_conv hi lo_word unat_lo32 by simp
qed

lemma mul_halves_correct:
  fixes ma mb :: "64 word"
  shows "unat (fst (mul_halves ma mb)) = unat ma * unat mb div 2 ^ 64"
    "unat (snd (mul_halves ma mb)) = unat ma * unat mb mod 2 ^ 64"
  unfolding mul_halves_sum using unsigned_less [of "snd (mul_halves ma mb)", where 'a = nat] by simp_all

text \<open>Signs and magnitudes.\<close>

lemma take_bit_uint: "take_bit LENGTH('x) (uint (a :: 'x::len word)) = uint a"
  by (rule take_bit_int_eq_self) simp_all

lemma sint_eq_uint_neg:
  "sint (a :: 'x::len word) = uint a - (if is_neg a then 2 ^ LENGTH('x) else 0)"
proof -
  have "sint a = take_bit LENGTH('x) (uint a) - 2 ^ LENGTH('x) * of_bool (bit (uint a) (LENGTH('x) - 1))"
    by (simp add: sint_uint signed_take_bit_eq_take_bit_minus)
  moreover have "is_neg a \<longleftrightarrow> bit (uint a) (LENGTH('x) - 1)"
    by (simp add: is_neg_def sint_uint signed_take_bit_negative_iff)
  ultimately show ?thesis
    by (simp add: take_bit_uint)
qed

lemma uint_ucast_same:
  assumes "LENGTH('x) = LENGTH('y)"
  shows "uint (ucast (a :: 'x::len word) :: 'y::len word) = uint a"
proof -
  have "uint (ucast a :: 'y word) = take_bit LENGTH('x) (uint a)"
    by (simp add: unsigned_ucast_eq assms)
  then show ?thesis
    by (simp only: take_bit_uint)
qed

lemma uint_magnitude:
  assumes "LENGTH('x) = 64"
  shows "uint (if is_neg a then 0 - ucast a else ucast (a :: 'x::len word) :: 64 word) = \<bar>sint a\<bar>"
proof -
  have u: "uint (ucast a :: 64 word) = uint a"
    by (rule uint_ucast_same) (simp add: assms)
  show ?thesis
  proof (cases "is_neg a")
    case True
    have s: "sint a = uint a - 2 ^ 64"
      by (subst sint_eq_uint_neg) (simp add: True assms)
    have n: "sint a < 0"
      using True by (simp add: is_neg_def)
    have "uint a \<noteq> 0"
    proof
      assume "uint a = 0"
      then have "a = 0" by (simp add: word_uint_eq_iff)
      with n show False by simp
    qed
    then have "(- uint a) mod 2 ^ 64 = 2 ^ 64 - uint a"
      using uint_lt2p [of a] assms by (simp add: zmod_zminus1_eq_if)
    with True s u show ?thesis
      by (simp add: uint_word_ariths)
  next
    case False
    then show ?thesis
      using u sint_eq_uint_neg [of a] by simp
  qed
qed

lemma mul_halves_int:
  "uint (fst (mul_halves ma mb)) = uint ma * uint mb div 2 ^ 64"
  "uint (snd (mul_halves ma mb)) = uint ma * uint mb mod 2 ^ 64"
  using arg_cong [OF mul_halves_correct(1) [of ma mb], of int]
    arg_cong [OF mul_halves_correct(2) [of ma mb], of int]
  by (simp_all add: zdiv_int zmod_int)

lemma fst_mul_halves: "fst (mul_halves ma mb) = word_of_int (uint ma * uint mb div 2 ^ 64)"
  by (simp only: mul_halves_int(1) [symmetric] word_of_int_uint)

lemma neg_div_exp:
  fixes P :: int
  shows "- P div 2 ^ 64 = - (P div 2 ^ 64) - of_bool (P mod 2 ^ 64 \<noteq> 0)"
  using zdiv_zminus1_eq_if [of "2 ^ 64" P] by simp

lemma neg_hi_mul_halves: "neg_hi (mul_halves ma mb) = word_of_int (- (uint ma * uint mb) div 2 ^ 64)"
proof -
  define P where "P = uint ma * uint mb"
  have z: "snd (mul_halves ma mb) = 0 \<longleftrightarrow> P mod 2 ^ 64 = 0"
    using mul_halves_int(2) [of ma mb] by (metis P_def unsigned_0 unsigned_word_eqI)
  have f: "fst (mul_halves ma mb) = word_of_int (P div 2 ^ 64)"
    by (simp add: fst_mul_halves P_def)
  show ?thesis
    unfolding neg_hi_def f z P_def [symmetric] neg_div_exp by (auto simp: not_eq_complement)
qed

lemma hi32_word_of_int:
  "(ucast (drop_bit 32 (word_of_int P :: 64 word)) :: 32 word) = word_of_int (P div 2 ^ 32)"
proof (rule bit_word_eqI)
  have d: "P div 2 ^ 32 = drop_bit 32 P"
    by (simp add: drop_bit_eq_div)
  fix i assume "i < LENGTH(32)"
  then show "bit (ucast (drop_bit 32 (word_of_int P :: 64 word)) :: 32 word) i =
      bit (word_of_int (P div 2 ^ 32) :: 32 word) i"
    unfolding d
    by (simp add: bit_ucast_iff bit_drop_bit_eq bit_word_of_int_iff)
qed

lemma sint_ucast32: "LENGTH('x) = 32 \<Longrightarrow> sint (ucast (a :: 'x::len word) :: 32 word) = sint a"
  by (simp add: sint_uint uint_ucast_same)

lemma ucast_word_of_int32:
  "LENGTH('x) = 32 \<Longrightarrow> ucast (word_of_int k :: 32 word) = (word_of_int k :: 'x::len word)"
  by (rule bit_word_eqI) (simp add: bit_ucast_iff bit_word_of_int_iff)

lemma ucast_word_of_int64:
  "LENGTH('x) = 64 \<Longrightarrow> ucast (word_of_int k :: 64 word) = (word_of_int k :: 'x::len word)"
  by (rule bit_word_eqI) (simp add: bit_ucast_iff bit_word_of_int_iff)

lemma scast_mult32:
  "(scast (a :: 32 word) :: 64 word) * scast (b :: 32 word) = word_of_int (sint a * sint b)"
  "(scast a :: 64 word) * ucast (c :: 'x::len word) = word_of_int (sint a * uint c)"
  "(ucast (c :: 'x word) :: 64 word) * ucast (d :: 'x word) = word_of_int (uint c * uint d)"
  by (simp_all only: scast_eq ucast_eq wi_hom_mult)

text \<open>The signed product as a product of magnitudes.\<close>

lemma sint_sign: "sint a = (if is_neg a then - \<bar>sint a\<bar> else \<bar>sint a\<bar>)"
  by (simp add: is_neg_def)

lemma mulh_eq:
  assumes "valid_xlen TYPE('x::len)"
  shows "mulh (a :: 'x word) b = word_of_int (sint a * sint b div 2 ^ LENGTH('x))"
proof (cases "CONFIG_RV64 TYPE('x)")
  case True
  then have l: "LENGTH('x) = 64"
    by (simp add: CONFIG_RV64_def)
  define ma mb :: "64 word" where "ma = (if is_neg a then 0 - ucast a else ucast a)"
    and "mb = (if is_neg b then 0 - ucast b else ucast b)"
  have m: "uint ma = \<bar>sint a\<bar>" "uint mb = \<bar>sint b\<bar>"
    unfolding ma_def mb_def using l by (rule uint_magnitude)+
  have "mulh a b = ucast (if is_neg a \<noteq> is_neg b then neg_hi (mul_halves ma mb) else fst (mul_halves ma mb))"
    using True by (simp only: mulh_def if_True Let_def ma_def mb_def)
  also have "\<dots> = word_of_int (sint a * sint b div 2 ^ 64)"
    using sint_sign [of a] sint_sign [of b]
    by (auto simp: neg_hi_mul_halves fst_mul_halves m ucast_word_of_int64 [OF l])
  finally show ?thesis
    by (simp add: l)
next
  case False
  then have l: "LENGTH('x) = 32"
    using assms by (auto simp: CONFIG_RV64_def valid_xlen_def)
  from False show ?thesis
    by (simp only: mulh_def if_False Let_def scast_mult32 hi32_word_of_int sint_ucast32 [OF l]
        ucast_word_of_int32 [OF l]) (simp add: l)
qed

lemma mulhsu_eq:
  assumes "valid_xlen TYPE('x::len)"
  shows "mulhsu (a :: 'x word) b = word_of_int (sint a * uint b div 2 ^ LENGTH('x))"
proof (cases "CONFIG_RV64 TYPE('x)")
  case True
  then have l: "LENGTH('x) = 64"
    by (simp add: CONFIG_RV64_def)
  define ma :: "64 word" where "ma = (if is_neg a then 0 - ucast a else ucast a)"
  have m: "uint ma = \<bar>sint a\<bar>" "uint (ucast b :: 64 word) = uint b"
    unfolding ma_def using l by (rule uint_magnitude, simp add: uint_ucast_same)
  have "mulhsu a b = ucast (if is_neg a then neg_hi (mul_halves ma (ucast b)) else fst (mul_halves ma (ucast b)))"
    using True by (simp only: mulhsu_def if_True Let_def ma_def)
  also have "\<dots> = word_of_int (sint a * uint b div 2 ^ 64)"
    using sint_sign [of a]
    by (auto simp: neg_hi_mul_halves fst_mul_halves m ucast_word_of_int64 [OF l])
  finally show ?thesis
    by (simp add: l)
next
  case False
  then have l: "LENGTH('x) = 32"
    using assms by (auto simp: CONFIG_RV64_def valid_xlen_def)
  from False show ?thesis
    by (simp only: mulhsu_def if_False Let_def scast_mult32 hi32_word_of_int sint_ucast32 [OF l]
        ucast_word_of_int32 [OF l]) (simp add: l)
qed

lemma mulhu_eq:
  assumes "valid_xlen TYPE('x::len)"
  shows "mulhu (a :: 'x word) b = word_of_int (uint a * uint b div 2 ^ LENGTH('x))"
proof (cases "CONFIG_RV64 TYPE('x)")
  case True
  then have l: "LENGTH('x) = 64"
    by (simp add: CONFIG_RV64_def)
  have u: "uint (ucast c :: 64 word) = uint c" for c :: "'x word"
    using l by (simp add: uint_ucast_same)
  have "mulhu a b = ucast (fst (mul_halves (ucast a) (ucast b)))"
    using True by (simp only: mulhu_def if_True Let_def mul_halves_def fst_conv)
  also have "\<dots> = word_of_int (uint a * uint b div 2 ^ 64)"
    by (simp add: fst_mul_halves u ucast_word_of_int64 [OF l])
  finally show ?thesis
    by (simp add: l)
next
  case False
  then have l: "LENGTH('x) = 32"
    using assms by (auto simp: CONFIG_RV64_def valid_xlen_def)
  from False show ?thesis
    by (simp only: mulhu_def if_False Let_def scast_mult32 hi32_word_of_int
        ucast_word_of_int32 [OF l]) (simp add: l)
qed

section \<open>Division\<close>

text \<open>Quotient and remainder always recompose, the two special cases (division by zero and
  the overflow of the most negative number by minus one) included.\<close>

lemma div_rem_recompose: "div_op a b * b + rem_op a b = a"
proof -
  have "word_of_int (sint a sdiv sint b) * b + word_of_int (sint a smod sint b) =
      (word_of_int (sint a sdiv sint b * sint b + sint a smod sint b) :: 'a word)"
    by (simp add: wi_hom_add [symmetric] wi_hom_mult [symmetric] del: wi_homs)
  then have "word_of_int (sint a sdiv sint b) * b + word_of_int (sint a smod sint b) = a"
    by (simp add: sdiv_mult_smod_eq)
  moreover have "2 * 2 ^ (LENGTH('a) - Suc 0) = (0 :: 'a word)"
    by (simp flip: power_Suc)
  ultimately show ?thesis
    by (auto simp: div_op_def rem_op_def CPU_UINT_MAX_def CPU_SIGN_BIT_def minus_equation_iff)
qed

lemma divu_remu_recompose: "divu_op a b * b + remu_op a b = a"
  by (simp add: divu_op_def remu_op_def word_mod_div_equality)

lemma sint_smod_small:
  assumes "b \<noteq> 0"
  shows "sint (word_of_int (sint a smod sint b) :: 'a::len word) = sint a smod sint (b :: 'a word)"
proof -
  have "\<bar>sint a smod sint b\<bar> < \<bar>sint b\<bar>"
    using assms smod_int_range [where a = "sint a" and b = "sint b"]
    by (auto simp: signed_eq_0_iff)
  moreover have "\<bar>sint b\<bar> \<le> 2 ^ (LENGTH('a) - 1)"
    using sint_ge [of b] sint_lt [of b] by auto
  ultimately have "- (2 ^ (LENGTH('a) - 1)) \<le> sint a smod sint b"
    "sint a smod sint b < 2 ^ (LENGTH('a) - 1)"
    by auto
  then show ?thesis
    by (simp add: sint_uint signed_take_bit_int_eq_self uint_word_of_int_eq signed_take_bit_take_bit)
qed

lemma sint_rem_op:
  assumes "b \<noteq> 0"
  shows "sint (rem_op a b) = sint a smod sint b"
proof (cases "a = CPU_SIGN_BIT \<and> b = CPU_UINT_MAX")
  case True
  then have "sint b = - 1"
    by (simp add: CPU_UINT_MAX_def)
  then have "sint a smod sint b = 0"
    by (simp add: smod_int_alt_def)
  with True assms show ?thesis
    by (simp add: rem_op_def)
next
  case False
  then show ?thesis
    using assms sint_smod_small [OF assms, of a] by (auto simp: rem_op_def)
qed

end
