(* ===== verification/RV_Instr.thy ===== *)
theory RV_Instr
  imports RV_Csr RV_Arith
begin

text \<open>
  The instructions, \<^verbatim>\<open>src/src/cpu/rv_instr.h\<close>: one definition per \<^verbatim>\<open>_doXXX\<close> function, with the
  switch of the source as a chain of conditionals. Immediates are the 32-bit words the decoders
  extract, register numbers and function codes natural numbers; \<open>isz\<close> is the length of the
  instruction, which the jumps subtract from their target because \<^verbatim>\<open>rv_run\<close> adds it afterwards.
\<close>

section \<open>Operations\<close>

definition doILL :: "'x::len vm \<Rightarrow> 'x vm" where
  "doILL s = c_assert False (trap TRAP_INST_ILL s)"

definition doJAL :: "32 word \<Rightarrow> nat \<Rightarrow> int \<Rightarrow> 'x::len vm \<Rightarrow> 'x vm" where
  "doJAL jimm rd isz s =
     (let imm = sign_extend (ucast jimm) 20; pc = readPC s; target = pc + imm
      in writePC (target - of_int isz) (writeReg rd (pc + of_int isz) s))"

definition doECALL :: "'x::len vm \<Rightarrow> 'x vm" where
  "doECALL s =
     trap (case mode_of s of
        RV_PRIV_MODE_SUPERVISOR \<Rightarrow> TRAP_CALL_S
      | RV_PRIV_MODE_MACHINE \<Rightarrow> TRAP_CALL_M
      | _ \<Rightarrow> TRAP_CALL_U) s"

definition doWFI :: "'x::len vm \<Rightarrow> 'x vm" where
  "doWFI s =
     (if mode_of s < RV_PRIV_MODE_MACHINE \<and> (mstatus (csr_of s) AND MSTATUS_TW_MASK) \<noteq> 0
         \<or> mode_of s = RV_PRIV_MODE_USER
      then trap TRAP_INST_ILL s
      else cpu_update (cpu_wfi_update (\<lambda>_. True)) s)"

text \<open>The three shapes of a register access to a control register: swap, and set or clear bits.\<close>

definition csrSwap :: "16 word \<Rightarrow> 'x::len word \<Rightarrow> nat \<Rightarrow> 'x vm \<Rightarrow> 'x vm" where
  "csrSwap n data rd s =
     (case readCSR s n of (s1, old) \<Rightarrow>
        let s2 = writeCSR n data s1 in if rd \<noteq> 0 then writeReg rd old s2 else s2)"

definition csrModify ::
  "16 word \<Rightarrow> ('x::len word \<Rightarrow> 'x word) \<Rightarrow> nat \<Rightarrow> nat \<Rightarrow> 'x vm \<Rightarrow> 'x vm" where
  "csrModify n f rs1 rd s =
     (case readCSR s n of (s1, old) \<Rightarrow>
        let s2 = (if rs1 \<noteq> 0 then writeCSR n (f old) s1 else s1) in writeReg rd old s2)"

definition doSYSTEM :: "nat \<Rightarrow> 32 word \<Rightarrow> nat \<Rightarrow> nat \<Rightarrow> int \<Rightarrow> 'x::len vm \<Rightarrow> 'x vm" where
  "doSYSTEM funct3 iimm rd rs1 isz s =
     (let n = ucast iimm :: 16 word in
      if funct3 = 0 then
        if iimm = 0 then doECALL s
        else if iimm = 1 then trap TRAP_BREAKPOINT s
        else if iimm = 0x102 then xret RV_PRIV_MODE_SUPERVISOR isz s
        else if iimm = 0x105 then doWFI s
        else if iimm = 0x302 then xret RV_PRIV_MODE_MACHINE isz s
        else doILL s
      else if funct3 = 1 then csrSwap n (readReg s rs1) rd s
      else if funct3 = 2 then csrModify n (\<lambda>c. c OR readReg s rs1) rs1 rd s
      else if funct3 = 3 then csrModify n (\<lambda>c. c AND NOT (readReg s rs1)) rs1 rd s
      else if funct3 = 5 then csrSwap n (of_nat rs1) rd s
      else if funct3 = 6 then csrModify n (\<lambda>c. c OR of_nat rs1) rs1 rd s
      else if funct3 = 7 then csrModify n (\<lambda>c. c AND NOT (of_nat rs1)) rs1 rd s
      else doILL s)"

definition doCBOZERO :: "nat \<Rightarrow> 'x::len vm \<Rightarrow> 'x vm" where
  "doCBOZERO rs1 s =
     (if mode_of s < RV_PRIV_MODE_MACHINE \<and> (menvcfg (csr_of s) AND MENVCFG_CBZE_MASK) = 0
      then trap TRAP_INST_ILL s
      else if mode_of s < RV_PRIV_MODE_SUPERVISOR \<and> (senvcfg (csr_of s) AND SENVCFG_CBZE_MASK) = 0
      then trap TRAP_INST_ILL s
      else writeMem s (readReg s rs1 AND NOT (of_nat (DCACHE_LINE_SIZE - 1)))
             (replicate DCACHE_LINE_SIZE 0))"

definition doMISCMEM :: "nat \<Rightarrow> 32 word \<Rightarrow> nat \<Rightarrow> nat \<Rightarrow> 'x::len vm \<Rightarrow> 'x vm" where
  "doMISCMEM funct3 iimm rd rs1 s =
     (if funct3 = 0 \<or> funct3 = 1 then flushIcache s
      else if funct3 = 2 then
        if iimm = 4 then if rd = 0 then doCBOZERO rs1 s else doILL s
        else doILL s
      else doILL s)"

definition shamt :: "'x::len word \<Rightarrow> nat" where
  "shamt v = unat (v AND CPU_SHIFT_MASK)"

definition doOPIMM :: "nat \<Rightarrow> 32 word \<Rightarrow> nat \<Rightarrow> nat \<Rightarrow> 'x::len vm \<Rightarrow> 'x vm" where
  "doOPIMM funct3 iimm rd rs1 s =
     (let imm = sign_extend (ucast iimm) 11; rs1Val = readReg s rs1;
          shift = shamt (ucast iimm :: 'x word) in
      if funct3 = 1 then
        if drop_bit 6 iimm = 0 then writeReg rd (push_bit shift rs1Val) s else doILL s
      else if funct3 = 2 then writeReg rd (of_bool (sint rs1Val < sint imm)) s
      else if funct3 = 3 then writeReg rd (of_bool (rs1Val < imm)) s
      else if funct3 = 4 then writeReg rd (rs1Val XOR imm) s
      else if funct3 = 5 then
        if drop_bit 6 iimm = 0 then writeReg rd (drop_bit shift rs1Val) s
        else if drop_bit 6 iimm = 0x10 then writeReg rd (sra rs1Val shift) s
        else doILL s
      else if funct3 = 6 then writeReg rd (imm OR rs1Val) s
      else if funct3 = 7 then writeReg rd (imm AND rs1Val) s
      else writeReg rd (imm + rs1Val) s)"

text \<open>The condition of a branch; \<open>None\<close> for the codes that are illegal.\<close>

definition branchTaken :: "nat \<Rightarrow> 'x::len word \<Rightarrow> 'x word \<Rightarrow> bool option" where
  "branchTaken funct3 rs1Val rs2Val =
     (if funct3 = 0 then Some (rs1Val = rs2Val)
      else if funct3 = 1 then Some (rs1Val \<noteq> rs2Val)
      else if funct3 = 4 then Some (sint rs1Val < sint rs2Val)
      else if funct3 = 5 then Some (sint rs1Val \<ge> sint rs2Val)
      else if funct3 = 6 then Some (rs1Val < rs2Val)
      else if funct3 = 7 then Some (rs1Val \<ge> rs2Val)
      else None)"

definition doBRANCH :: "nat \<Rightarrow> 32 word \<Rightarrow> nat \<Rightarrow> nat \<Rightarrow> int \<Rightarrow> 'x::len vm \<Rightarrow> 'x vm" where
  "doBRANCH funct3 bimm rs1 rs2 isz s =
     (let imm = sign_extend (ucast bimm) 12 in
      case branchTaken funct3 (readReg s rs1) (readReg s rs2) of
        None \<Rightarrow> doILL s
      | Some b \<Rightarrow> if b then writePC (readPC s + imm - of_int isz) s else s)"

definition upper_imm :: "32 word \<Rightarrow> 'x::len word" where
  "upper_imm uimm = (if CONFIG_RV64 TYPE('x) then sign_extend (ucast uimm) 31 else ucast uimm)"

definition doLUI :: "32 word \<Rightarrow> nat \<Rightarrow> 'x::len vm \<Rightarrow> 'x vm" where
  "doLUI uimm rd s = writeReg rd (upper_imm uimm) s"

text \<open>The value of a register-register operation; \<open>None\<close> for the codes that are illegal.\<close>

definition opValue :: "nat \<Rightarrow> nat \<Rightarrow> 'x::len word \<Rightarrow> 'x word \<Rightarrow> 'x word option" where
  "opValue funct3 funct7 a b =
     (if funct3 = 1 then
        if funct7 = 0 then Some (push_bit (shamt b) a)
        else if funct7 = 1 then Some (mulh a b) else None
      else if funct3 = 2 then
        if funct7 = 0 then Some (of_bool (sint a < sint b))
        else if funct7 = 1 then Some (mulhsu a b) else None
      else if funct3 = 3 then
        if funct7 = 0 then Some (of_bool (a < b))
        else if funct7 = 1 then Some (mulhu a b) else None
      else if funct3 = 4 then
        if funct7 = 0 then Some (a XOR b)
        else if funct7 = 1 then Some (div_op a b) else None
      else if funct3 = 5 then
        if funct7 = 0 then Some (drop_bit (shamt b) a)
        else if funct7 = 1 then Some (divu_op a b)
        else if funct7 = 32 then Some (sra a (shamt b)) else None
      else if funct3 = 6 then
        if funct7 = 0 then Some (a OR b)
        else if funct7 = 1 then Some (rem_op a b) else None
      else if funct3 = 7 then
        if funct7 = 0 then Some (a AND b)
        else if funct7 = 1 then Some (remu_op a b) else None
      else
        if funct7 = 0 then Some (a + b)
        else if funct7 = 1 then Some (a * b)
        else if funct7 = 32 then Some (a - b) else None)"

definition doOP :: "nat \<Rightarrow> nat \<Rightarrow> nat \<Rightarrow> nat \<Rightarrow> nat \<Rightarrow> 'x::len vm \<Rightarrow> 'x vm" where
  "doOP funct3 funct7 rd rs1 rs2 s =
     (case opValue funct3 funct7 (readReg s rs1) (readReg s rs2) of
        None \<Rightarrow> doILL s
      | Some v \<Rightarrow> writeReg rd v s)"

definition doJALR :: "nat \<Rightarrow> 32 word \<Rightarrow> nat \<Rightarrow> nat \<Rightarrow> int \<Rightarrow> 'x::len vm \<Rightarrow> 'x vm" where
  "doJALR funct3 iimm rd rs1 isz s =
     (if funct3 = 0 then
        let imm = sign_extend (ucast iimm) 11;
            target = (readReg s rs1 + imm) AND NOT 1;
            t = writeReg rd (readPC s + of_int isz) s
        in writePC (target - of_int isz) t
      else doILL s)"

definition doAUIPC :: "32 word \<Rightarrow> nat \<Rightarrow> 'x::len vm \<Rightarrow> 'x vm" where
  "doAUIPC uimm rd s = writeReg rd (readPC s + upper_imm uimm) s"

text \<open>The switch of \<^verbatim>\<open>_doAMO\<close>: the state, the value for the destination register, whether the
  memory is to be written and with which data.\<close>

definition amoSwitch ::
  "nat \<Rightarrow> nat \<Rightarrow> 'x::len word \<Rightarrow> nat \<Rightarrow> 'x word \<Rightarrow> 'x word \<Rightarrow> 'x vm \<Rightarrow> 'x vm \<times> 'x word \<times> bool \<times> 'x word" where
  "amoSwitch funct5 rs2 rs1Val sz rs2Val data s =
     (if funct5 = 0 then (s, data, True, data + rs2Val)
      else if funct5 = 1 then (s, data, True, rs2Val)
      else if funct5 = 2 then
        if rs2 \<noteq> 0 then (doILL s, 0, True, data)
        else (bus_reservationCreate rs1Val sz s, data, False, data)
      else if funct5 = 3 then
        (case bus_reservationCheckInvalidate rs1Val sz s of (ok, t) \<Rightarrow>
           if ok then (t, 0, True, rs2Val) else (t, 1, False, data))
      else if funct5 = 4 then (s, data, True, data XOR rs2Val)
      else if funct5 = 8 then (s, data, True, data OR rs2Val)
      else if funct5 = 12 then (s, data, True, data AND rs2Val)
      else if funct5 = 16 then (s, data, True, if sint rs2Val < sint data then rs2Val else data)
      else if funct5 = 20 then (s, data, True, if sint rs2Val > sint data then rs2Val else data)
      else if funct5 = 24 then (s, data, True, if rs2Val < data then rs2Val else data)
      else if funct5 = 28 then (s, data, True, if rs2Val > data then rs2Val else data)
      else (doILL s, 0, True, data))"

definition doAMO :: "nat \<Rightarrow> nat \<Rightarrow> nat \<Rightarrow> nat \<Rightarrow> nat \<Rightarrow> 'x::len vm \<Rightarrow> 'x vm" where
  "doAMO funct3 funct5 rd rs1 rs2 s =
     (let sz = min (2 ^ funct3) (sizeof_word TYPE('x)); rs1Val = readReg s rs1 in
      if (rs1Val AND of_nat (sz - 1)) \<noteq> 0 then trap TRAP_ST_ALLIGN s
      else
        let sizeBits = sz * 8;
            m = drop_bit (sizeof_word TYPE('x) * 8 - sizeBits) CPU_UINT_MAX;
            rs2Val = sign_extend (readReg s rs2 AND m) (sizeBits - 1)
        in (case readMem s rs1Val (replicate sz 0) of (s1, buf) \<Rightarrow>
              let data = sign_extend (le_word buf) (sizeBits - 1)
              in (case amoSwitch funct5 rs2 rs1Val sz rs2Val data s1 of
                    (s2, rdVal, needWrite, data') \<Rightarrow>
                      let s3 = writeReg rd rdVal s2
                      in if needWrite then writeMem s3 rs1Val (le_bytes sz data') else s3)))"

definition doSTORE :: "nat \<Rightarrow> 32 word \<Rightarrow> nat \<Rightarrow> nat \<Rightarrow> 'x::len vm \<Rightarrow> 'x vm" where
  "doSTORE funct3 simm rs1 rs2 s =
     (let sz = 2 ^ funct3 in
      if sz > sizeof_word TYPE('x) then doILL s
      else
        let offset = sign_extend (ucast simm) 11; addr = readReg s rs1 + offset
        in writeMem s addr (le_bytes sz (readReg s rs2)))"

definition doLOAD :: "nat \<Rightarrow> 32 word \<Rightarrow> nat \<Rightarrow> nat \<Rightarrow> 'x::len vm \<Rightarrow> 'x vm" where
  "doLOAD funct3 iimm rd rs1 s =
     (let sz = 2 ^ (funct3 mod 4) in
      if sz > sizeof_word TYPE('x) then doILL s
      else
        let isSigned = (funct3 div 4 mod 2 = 0);
            offset = sign_extend (ucast iimm) 11; addr = readReg s rs1 + offset
        in (case readMem s addr (replicate sz 0) of (t, buf) \<Rightarrow>
              let data = le_word buf;
                  data' = (if isSigned then sign_extend data (sz * 8 - 1) else data)
              in writeReg rd data' t))"

subsection \<open>The 32-bit operations of the 64-bit instruction set\<close>

definition sext32 :: "32 word \<Rightarrow> 'x::len word" where
  "sext32 v = sign_extend (ucast v) 31"

definition doOPIMM32 :: "nat \<Rightarrow> 32 word \<Rightarrow> nat \<Rightarrow> nat \<Rightarrow> 'x::len vm \<Rightarrow> 'x vm" where
  "doOPIMM32 funct3 iimm rd rs1 s =
     (let imm = sign_extend (ucast iimm) 11 :: 'x word; rs1Val = ucast (readReg s rs1) :: 32 word;
          shift = unat (iimm AND 0x1F) in
      if funct3 = 0 then writeReg rd (sext32 (ucast (imm + ucast rs1Val))) s
      else if funct3 = 1 then
        if drop_bit 5 iimm = 0 then writeReg rd (sext32 (push_bit shift rs1Val)) s else doILL s
      else if funct3 = 5 then
        if drop_bit 5 iimm = 0 then writeReg rd (sext32 (drop_bit shift rs1Val)) s
        else if drop_bit 5 iimm = 0x20 then writeReg rd (sext32 (sra rs1Val shift)) s
        else doILL s
      else doILL s)"

definition INT32_MIN :: "32 word" where "INT32_MIN = 0x80000000"
definition UINT32_MAX :: "32 word" where "UINT32_MAX = 0xFFFFFFFF"

text \<open>\<^verbatim>\<open>SLLW\<close> masks its shift amount with the 64-bit mask; a shift of a \<^verbatim>\<open>uint32_t\<close> by 32 or more is
  undefined in C.\<close>

definition doOP32 :: "nat \<Rightarrow> nat \<Rightarrow> nat \<Rightarrow> nat \<Rightarrow> nat \<Rightarrow> 'x::len vm \<Rightarrow> 'x vm" where
  "doOP32 funct3 funct7 rd rs1 rs2 s =
     (let a = ucast (readReg s rs1) :: 32 word; b = ucast (readReg s rs2) :: 32 word in
      if funct3 = 0 then
        if funct7 = 0 then writeReg rd (sext32 (a + b)) s
        else if funct7 = 1 then writeReg rd (sext32 (a * b)) s
        else if funct7 = 32 then writeReg rd (sext32 (a - b)) s
        else doILL s
      else if funct3 = 1 then
        if funct7 = 0 then
          let n = shamt (ucast b :: 'x word)
          in writeReg rd (sext32 (push_bit n a)) (if n < 32 then s else c_undefined s)
        else doILL s
      else if funct3 = 4 then
        if funct7 = 1 then
          if b \<noteq> 0 then
            if a = INT32_MIN \<and> b = UINT32_MAX then writeReg rd (sign_extend (scast INT32_MIN) 31) s
            else writeReg rd (sign_extend (word_of_int (sint a sdiv sint b)) 31) s
          else writeReg rd CPU_UINT_MAX s
        else doILL s
      else if funct3 = 5 then
        if funct7 = 0 then writeReg rd (sext32 (drop_bit (unat (b AND 0x1F)) a)) s
        else if funct7 = 1 then
          if b \<noteq> 0 then writeReg rd (sext32 (a div b)) s else writeReg rd CPU_UINT_MAX s
        else if funct7 = 32 then writeReg rd (sext32 (sra a (unat (b AND 0x1F)))) s
        else doILL s
      else if funct3 = 6 then
        if funct7 = 1 then
          if b \<noteq> 0 then
            if a = INT32_MIN \<and> b = UINT32_MAX then writeReg rd 0 s
            else writeReg rd (sign_extend (word_of_int (sint a smod sint b)) 31) s
          else writeReg rd (sext32 a) s
        else doILL s
      else if funct3 = 7 then
        if funct7 = 1 then
          if b \<noteq> 0 then writeReg rd (sext32 (a mod b)) s else writeReg rd (sext32 a) s
        else doILL s
      else doILL s)"

end
