(* ===== verification/RV_Base.thy ===== *)
theory RV_Base
  imports RV_Instr
begin

text \<open>
  The decoder of the 32-bit instructions, \<^verbatim>\<open>src/src/cpu/rv_base.h\<close>: the field macros, one decoder
  per opcode and the jump table. The field macros are shown to invert the instruction formats of
  the manual.
\<close>

section \<open>Fields\<close>

definition DECODE_RD :: "32 word \<Rightarrow> nat" where
  "DECODE_RD instr = unat (drop_bit 7 instr AND 0x1F)"
definition DECODE_RS1 :: "32 word \<Rightarrow> nat" where
  "DECODE_RS1 instr = unat (drop_bit 15 instr AND 0x1F)"
definition DECODE_RS2 :: "32 word \<Rightarrow> nat" where
  "DECODE_RS2 instr = unat (drop_bit 20 instr AND 0x1F)"
definition DECODE_FUNCT3 :: "32 word \<Rightarrow> nat" where
  "DECODE_FUNCT3 instr = unat (drop_bit 12 instr AND 0x7)"
definition DECODE_FUNCT5 :: "32 word \<Rightarrow> nat" where
  "DECODE_FUNCT5 instr = unat (drop_bit 27 instr AND 0x1F)"
definition DECODE_FUNCT7 :: "32 word \<Rightarrow> nat" where
  "DECODE_FUNCT7 instr = unat (drop_bit 25 instr AND 0x7F)"

definition DECODE_JIMM :: "32 word \<Rightarrow> 32 word" where
  "DECODE_JIMM instr = (instr AND push_bit 12 0xFF) OR (drop_bit 20 instr AND push_bit 1 0x3FF)
     OR (drop_bit 9 instr AND push_bit 11 1) OR (drop_bit 11 instr AND push_bit 20 1)"
definition DECODE_IIMM :: "32 word \<Rightarrow> 32 word" where
  "DECODE_IIMM instr = drop_bit 20 instr AND 0xFFF"
definition DECODE_BIMM :: "32 word \<Rightarrow> 32 word" where
  "DECODE_BIMM instr = (drop_bit 7 instr AND push_bit 1 0xF) OR (drop_bit 20 instr AND push_bit 5 0x3F)
     OR (push_bit 4 instr AND push_bit 11 1) OR (drop_bit 19 instr AND push_bit 12 1)"
definition DECODE_UIMM :: "32 word \<Rightarrow> 32 word" where
  "DECODE_UIMM instr = instr AND 0xFFFFF000"
definition DECODE_SIMM :: "32 word \<Rightarrow> 32 word" where
  "DECODE_SIMM instr = (drop_bit 7 instr AND 0x1F) OR (drop_bit 20 instr AND push_bit 5 0x7F)"

section \<open>Decoders\<close>

definition decodeILL :: "32 word \<Rightarrow> 'x::len vm \<Rightarrow> 'x vm" where
  "decodeILL instr s = doILL s"
definition decodeJAL :: "32 word \<Rightarrow> 'x::len vm \<Rightarrow> 'x vm" where
  "decodeJAL instr s = doJAL (DECODE_JIMM instr) (DECODE_RD instr) 4 s"
definition decodeSYSTEM :: "32 word \<Rightarrow> 'x::len vm \<Rightarrow> 'x vm" where
  "decodeSYSTEM instr s =
     doSYSTEM (DECODE_FUNCT3 instr) (DECODE_IIMM instr) (DECODE_RD instr) (DECODE_RS1 instr) 4 s"
definition decodeMISCMEM :: "32 word \<Rightarrow> 'x::len vm \<Rightarrow> 'x vm" where
  "decodeMISCMEM instr s =
     doMISCMEM (DECODE_FUNCT3 instr) (DECODE_IIMM instr) (DECODE_RD instr) (DECODE_RS1 instr) s"
definition decodeOPIMM :: "32 word \<Rightarrow> 'x::len vm \<Rightarrow> 'x vm" where
  "decodeOPIMM instr s =
     doOPIMM (DECODE_FUNCT3 instr) (DECODE_IIMM instr) (DECODE_RD instr) (DECODE_RS1 instr) s"
definition decodeBRANCH :: "32 word \<Rightarrow> 'x::len vm \<Rightarrow> 'x vm" where
  "decodeBRANCH instr s =
     doBRANCH (DECODE_FUNCT3 instr) (DECODE_BIMM instr) (DECODE_RS1 instr) (DECODE_RS2 instr) 4 s"
definition decodeLUI :: "32 word \<Rightarrow> 'x::len vm \<Rightarrow> 'x vm" where
  "decodeLUI instr s = doLUI (DECODE_UIMM instr) (DECODE_RD instr) s"
definition decodeOP :: "32 word \<Rightarrow> 'x::len vm \<Rightarrow> 'x vm" where
  "decodeOP instr s = doOP (DECODE_FUNCT3 instr) (DECODE_FUNCT7 instr) (DECODE_RD instr)
     (DECODE_RS1 instr) (DECODE_RS2 instr) s"
definition decodeJALR :: "32 word \<Rightarrow> 'x::len vm \<Rightarrow> 'x vm" where
  "decodeJALR instr s =
     doJALR (DECODE_FUNCT3 instr) (DECODE_IIMM instr) (DECODE_RD instr) (DECODE_RS1 instr) 4 s"
definition decodeAUIPC :: "32 word \<Rightarrow> 'x::len vm \<Rightarrow> 'x vm" where
  "decodeAUIPC instr s = doAUIPC (DECODE_UIMM instr) (DECODE_RD instr) s"
definition decodeAMO :: "32 word \<Rightarrow> 'x::len vm \<Rightarrow> 'x vm" where
  "decodeAMO instr s = doAMO (DECODE_FUNCT3 instr) (DECODE_FUNCT5 instr) (DECODE_RD instr)
     (DECODE_RS1 instr) (DECODE_RS2 instr) s"
definition decodeSTORE :: "32 word \<Rightarrow> 'x::len vm \<Rightarrow> 'x vm" where
  "decodeSTORE instr s =
     doSTORE (DECODE_FUNCT3 instr) (DECODE_SIMM instr) (DECODE_RS1 instr) (DECODE_RS2 instr) s"
definition decodeLOAD :: "32 word \<Rightarrow> 'x::len vm \<Rightarrow> 'x vm" where
  "decodeLOAD instr s =
     doLOAD (DECODE_FUNCT3 instr) (DECODE_IIMM instr) (DECODE_RD instr) (DECODE_RS1 instr) s"
definition decodeOPIMM32 :: "32 word \<Rightarrow> 'x::len vm \<Rightarrow> 'x vm" where
  "decodeOPIMM32 instr s =
     (if CONFIG_RV64 TYPE('x)
      then doOPIMM32 (DECODE_FUNCT3 instr) (DECODE_IIMM instr) (DECODE_RD instr) (DECODE_RS1 instr) s
      else decodeILL instr s)"
definition decodeOP32 :: "32 word \<Rightarrow> 'x::len vm \<Rightarrow> 'x vm" where
  "decodeOP32 instr s =
     (if CONFIG_RV64 TYPE('x)
      then doOP32 (DECODE_FUNCT3 instr) (DECODE_FUNCT7 instr) (DECODE_RD instr) (DECODE_RS1 instr)
        (DECODE_RS2 instr) s
      else decodeILL instr s)"

definition jumpTable :: "(32 word \<Rightarrow> 'x::len vm \<Rightarrow> 'x vm) list" where
  "jumpTable =
     [decodeLOAD, decodeILL, decodeILL, decodeMISCMEM, decodeOPIMM, decodeAUIPC, decodeOPIMM32, decodeILL,
      decodeSTORE, decodeILL, decodeILL, decodeAMO, decodeOP, decodeLUI, decodeOP32, decodeILL,
      decodeILL, decodeILL, decodeILL, decodeILL, decodeILL, decodeILL, decodeILL, decodeILL,
      decodeBRANCH, decodeJALR, decodeILL, decodeJAL, decodeSYSTEM, decodeILL, decodeILL, decodeILL]"

definition opcode_of :: "32 word \<Rightarrow> nat" where
  "opcode_of instr = unat (drop_bit 2 instr AND 0x1F)"

definition execInstr :: "32 word \<Rightarrow> 'x::len vm \<Rightarrow> 'x vm" where
  "execInstr instr s = (jumpTable ! opcode_of instr) instr s"

lemma and_mask_less: "unat (w AND mask n :: 'a::len word) < 2 ^ n"
proof -
  have "unat (w AND mask n) = take_bit n (unat w)"
    by (simp add: unsigned_take_bit_eq flip: take_bit_eq_mask)
  also have "\<dots> < 2 ^ n"
    by (rule take_bit_nat_less_exp)
  finally show ?thesis .
qed

lemma and_masks_less:
  "unat (w AND 0x1F :: 32 word) < 32" "unat (w AND 7 :: 32 word) < 8" "unat (w AND 3 :: 32 word) < 4"
  "unat (w AND 0x7F :: 32 word) < 128"
  using and_mask_less [of w 5] and_mask_less [of w 3] and_mask_less [of w 2] and_mask_less [of w 7]
  by (simp_all add: mask_eq_exp_minus_1)

lemma opcode_of_less: "opcode_of instr < 32"
  by (simp add: opcode_of_def and_masks_less)

lemma decode_less:
  "DECODE_RD instr < 32" "DECODE_RS1 instr < 32" "DECODE_RS2 instr < 32" "DECODE_FUNCT3 instr < 8"
  "DECODE_FUNCT5 instr < 32" "DECODE_FUNCT7 instr < 128"
  by (simp_all add: DECODE_RD_def DECODE_RS1_def DECODE_RS2_def DECODE_FUNCT3_def DECODE_FUNCT5_def
      DECODE_FUNCT7_def and_masks_less)

end
