(* ===== verification/RV_Cext.thy ===== *)
theory RV_Cext
  imports RV_Base
begin

text \<open>
  The decoder of the compressed instructions, \<^verbatim>\<open>src/src/cpu/rv_cext.h\<close>: one definition per quadrant
  and function code, each expanding to a base instruction, and the jump table.
\<close>

section \<open>Decoders\<close>

definition cextNop :: "'x::len vm \<Rightarrow> 'x vm" where
  "cextNop s = s"

text \<open>The register and immediate fields several formats share.\<close>

definition c_rd :: "32 word \<Rightarrow> nat" where "c_rd instr = unat (drop_bit 7 instr AND 0x1F)"
definition c_rs2 :: "32 word \<Rightarrow> nat" where "c_rs2 instr = unat (drop_bit 2 instr AND 0x1F)"
definition c_rlo :: "32 word \<Rightarrow> nat" where "c_rlo instr = unat ((drop_bit 2 instr AND 0x7) + 8)"
definition c_rhi :: "32 word \<Rightarrow> nat" where "c_rhi instr = unat ((drop_bit 7 instr AND 0x7) + 8)"

definition c_imm6 :: "32 word \<Rightarrow> 32 word" where
  "c_imm6 instr = (drop_bit 2 instr AND 0x1F) OR (drop_bit 7 instr AND push_bit 5 1)"

definition c_lw_imm :: "32 word \<Rightarrow> 32 word" where
  "c_lw_imm instr = (drop_bit 7 instr AND push_bit 3 0x7) OR (push_bit 1 instr AND push_bit 6 1)
     OR (drop_bit 4 instr AND push_bit 2 1)"

definition c_ld_imm :: "32 word \<Rightarrow> 32 word" where
  "c_ld_imm instr = (drop_bit 7 instr AND push_bit 3 0x7) OR (push_bit 1 instr AND push_bit 6 3)"

definition c_j_imm :: "32 word \<Rightarrow> 32 word" where
  "c_j_imm instr =
     sign_extend (assemble (drop_bit 2 instr AND 0x7FF) 0 [5, 1, 2, 3, 7, 6, 10, 8, 9, 4, 11]) 11"

definition c_b_imm :: "32 word \<Rightarrow> 32 word" where
  "c_b_imm instr =
     sign_extend ((push_bit 3 instr AND push_bit 5 1) OR (drop_bit 2 instr AND push_bit 1 3)
       OR (push_bit 1 instr AND push_bit 6 3) OR (drop_bit 7 instr AND push_bit 3 3)
       OR (drop_bit 4 instr AND push_bit 8 1)) 8"

definition decodeCextQ0_0 :: "32 word \<Rightarrow> 'x::len vm \<Rightarrow> 'x vm" where
  "decodeCextQ0_0 instr s =
     (let imm = (drop_bit 2 instr AND push_bit 3 1) OR (drop_bit 4 instr AND push_bit 2 1)
                OR (drop_bit 1 instr AND push_bit 6 0xF) OR (drop_bit 7 instr AND push_bit 4 0x3)
      in if imm \<noteq> 0 then doOPIMM 0 imm (c_rlo instr) CPU_REG_SP s else doILL s)"

definition decodeCextQ0_1 :: "32 word \<Rightarrow> 'x::len vm \<Rightarrow> 'x vm" where
  "decodeCextQ0_1 instr s = doILL s"

definition decodeCextQ0_2 :: "32 word \<Rightarrow> 'x::len vm \<Rightarrow> 'x vm" where
  "decodeCextQ0_2 instr s = doLOAD 2 (c_lw_imm instr) (c_rlo instr) (c_rhi instr) s"

definition decodeCextQ0_3 :: "32 word \<Rightarrow> 'x::len vm \<Rightarrow> 'x vm" where
  "decodeCextQ0_3 instr s =
     (if CONFIG_RV64 TYPE('x) then doLOAD 3 (c_ld_imm instr) (c_rlo instr) (c_rhi instr) s else doILL s)"

definition decodeCextQ0_4 :: "32 word \<Rightarrow> 'x::len vm \<Rightarrow> 'x vm" where
  "decodeCextQ0_4 instr s = doILL s"

definition decodeCextQ0_5 :: "32 word \<Rightarrow> 'x::len vm \<Rightarrow> 'x vm" where
  "decodeCextQ0_5 instr s = doILL s"

definition decodeCextQ0_6 :: "32 word \<Rightarrow> 'x::len vm \<Rightarrow> 'x vm" where
  "decodeCextQ0_6 instr s = doSTORE 2 (c_lw_imm instr) (c_rhi instr) (c_rlo instr) s"

definition decodeCextQ0_7 :: "32 word \<Rightarrow> 'x::len vm \<Rightarrow> 'x vm" where
  "decodeCextQ0_7 instr s =
     (if CONFIG_RV64 TYPE('x) then doSTORE 3 (c_ld_imm instr) (c_rhi instr) (c_rlo instr) s else doILL s)"

definition decodeCextQ1_0 :: "32 word \<Rightarrow> 'x::len vm \<Rightarrow> 'x vm" where
  "decodeCextQ1_0 instr s =
     (let rd = c_rd instr in
      if rd \<noteq> 0 then
        let imm = c_imm6 instr in
        if imm \<noteq> 0 then doOPIMM 0 (sign_extend imm 5) rd rd s else cextNop s
      else cextNop s)"

definition decodeCextQ1_1 :: "32 word \<Rightarrow> 'x::len vm \<Rightarrow> 'x vm" where
  "decodeCextQ1_1 instr s =
     (if CONFIG_RV64 TYPE('x) then
        let rd = c_rd instr in
        if rd \<noteq> 0 then doOPIMM32 0 (sign_extend (c_imm6 instr) 5) rd rd s else doILL s
      else doJAL (c_j_imm instr) CPU_REG_RA 2 s)"

definition decodeCextQ1_2 :: "32 word \<Rightarrow> 'x::len vm \<Rightarrow> 'x vm" where
  "decodeCextQ1_2 instr s =
     (let rd = c_rd instr in
      if rd \<noteq> 0 then doOPIMM 0 (sign_extend (c_imm6 instr) 5) rd CPU_REG_ZERO s else cextNop s)"

definition decodeCextQ1_3 :: "32 word \<Rightarrow> 'x::len vm \<Rightarrow> 'x vm" where
  "decodeCextQ1_3 instr s =
     (let rd = c_rd instr in
      if rd \<noteq> 0 then
        if rd = 2 then
          let imm = (drop_bit 2 instr AND push_bit 4 1) OR (push_bit 3 instr AND push_bit 5 1)
                    OR (push_bit 1 instr AND push_bit 6 1) OR (push_bit 4 instr AND push_bit 7 3)
                    OR (drop_bit 3 instr AND push_bit 9 1)
          in if imm \<noteq> 0 then doOPIMM 0 (sign_extend imm 9) CPU_REG_SP CPU_REG_SP s else doILL s
        else
          let imm = c_imm6 instr
          in if imm \<noteq> 0 then doLUI (push_bit 12 (sign_extend imm 5)) rd s else doILL s
      else cextNop s)"

definition decodeCextQ1_4 :: "32 word \<Rightarrow> 'x::len vm \<Rightarrow> 'x vm" where
  "decodeCextQ1_4 instr s =
     (let imm = c_imm6 instr; rd = c_rhi instr; sel = drop_bit 10 instr AND 3;
          rs2 = c_rlo instr; op = drop_bit 5 instr AND 3 in
      if sel = 1 then doOPIMM 5 (imm OR push_bit 10 1) rd rd s
      else if sel = 2 then doOPIMM 7 (sign_extend imm 5) rd rd s
      else if sel = 3 then
        if (instr AND push_bit 12 1) \<noteq> 0 then
          if CONFIG_RV64 TYPE('x) then
            if op = 1 then doOP32 0 0 rd rd rs2 s
            else if op = 2 \<or> op = 3 then doILL s
            else doOP32 0 32 rd rd rs2 s
          else doILL s
        else
          if op = 1 then doOP 4 0 rd rd rs2 s
          else if op = 2 then doOP 6 0 rd rd rs2 s
          else if op = 3 then doOP 7 0 rd rd rs2 s
          else doOP 0 32 rd rd rs2 s
      else doOPIMM 5 imm rd rd s)"

definition decodeCextQ1_5 :: "32 word \<Rightarrow> 'x::len vm \<Rightarrow> 'x vm" where
  "decodeCextQ1_5 instr s = doJAL (c_j_imm instr) CPU_REG_ZERO 2 s"

definition decodeCextQ1_6 :: "32 word \<Rightarrow> 'x::len vm \<Rightarrow> 'x vm" where
  "decodeCextQ1_6 instr s = doBRANCH 0 (c_b_imm instr) (c_rhi instr) CPU_REG_ZERO 2 s"

definition decodeCextQ1_7 :: "32 word \<Rightarrow> 'x::len vm \<Rightarrow> 'x vm" where
  "decodeCextQ1_7 instr s = doBRANCH 1 (c_b_imm instr) (c_rhi instr) CPU_REG_ZERO 2 s"

definition decodeCextQ2_0 :: "32 word \<Rightarrow> 'x::len vm \<Rightarrow> 'x vm" where
  "decodeCextQ2_0 instr s =
     (let sh = c_imm6 instr; rd = c_rd instr in
      if sh \<noteq> 0 \<and> rd \<noteq> 0 then doOPIMM 1 sh rd rd s else cextNop s)"

definition decodeCextQ2_1 :: "32 word \<Rightarrow> 'x::len vm \<Rightarrow> 'x vm" where
  "decodeCextQ2_1 instr s = doILL s"

definition decodeCextQ2_2 :: "32 word \<Rightarrow> 'x::len vm \<Rightarrow> 'x vm" where
  "decodeCextQ2_2 instr s =
     (let rd = c_rd instr in
      if rd \<noteq> 0 then
        let iimm = (push_bit 4 instr AND push_bit 6 3) OR (drop_bit 2 instr AND push_bit 2 7)
                   OR (drop_bit 7 instr AND push_bit 5 1)
        in doLOAD 2 iimm rd CPU_REG_SP s
      else doILL s)"

definition decodeCextQ2_3 :: "32 word \<Rightarrow> 'x::len vm \<Rightarrow> 'x vm" where
  "decodeCextQ2_3 instr s =
     (if CONFIG_RV64 TYPE('x) then
        let rd = c_rd instr in
        if rd \<noteq> 0 then
          doLOAD 3 ((push_bit 4 instr AND push_bit 6 7) OR (drop_bit 2 instr AND push_bit 3 3)
            OR (drop_bit 7 instr AND push_bit 5 1)) rd CPU_REG_SP s
        else doILL s
      else doILL s)"

definition decodeCextQ2_4 :: "32 word \<Rightarrow> 'x::len vm \<Rightarrow> 'x vm" where
  "decodeCextQ2_4 instr s =
     (let uimm5 = drop_bit 12 instr AND 1; rs1 = c_rd instr; rs2 = c_rs2 instr in
      if uimm5 = 0 then
        if rs2 \<noteq> 0 then if rs1 \<noteq> 0 then doOP 0 0 rs1 CPU_REG_ZERO rs2 s else cextNop s
        else if rs1 \<noteq> 0 then doJALR 0 0 CPU_REG_ZERO rs1 2 s else doILL s
      else
        if rs2 \<noteq> 0 then if rs1 \<noteq> 0 then doOP 0 0 rs1 rs1 rs2 s else cextNop s
        else if rs1 \<noteq> 0 then doJALR 0 0 CPU_REG_RA rs1 2 s
        else doSYSTEM 0 1 CPU_REG_ZERO CPU_REG_ZERO 2 s)"

definition decodeCextQ2_5 :: "32 word \<Rightarrow> 'x::len vm \<Rightarrow> 'x vm" where
  "decodeCextQ2_5 instr s = doILL s"

definition decodeCextQ2_6 :: "32 word \<Rightarrow> 'x::len vm \<Rightarrow> 'x vm" where
  "decodeCextQ2_6 instr s =
     doSTORE 2 ((drop_bit 7 instr AND push_bit 2 0xF) OR (drop_bit 1 instr AND push_bit 6 3))
       CPU_REG_SP (c_rs2 instr) s"

definition decodeCextQ2_7 :: "32 word \<Rightarrow> 'x::len vm \<Rightarrow> 'x vm" where
  "decodeCextQ2_7 instr s =
     (if CONFIG_RV64 TYPE('x)
      then doSTORE 3 ((drop_bit 7 instr AND push_bit 3 7) OR (drop_bit 1 instr AND push_bit 6 7))
        CPU_REG_SP (c_rs2 instr) s
      else doILL s)"

definition cextTable :: "(32 word \<Rightarrow> 'x::len vm \<Rightarrow> 'x vm) list" where
  "cextTable =
     [decodeCextQ0_0, decodeCextQ0_1, decodeCextQ0_2, decodeCextQ0_3,
      decodeCextQ0_4, decodeCextQ0_5, decodeCextQ0_6, decodeCextQ0_7,
      decodeCextQ1_0, decodeCextQ1_1, decodeCextQ1_2, decodeCextQ1_3,
      decodeCextQ1_4, decodeCextQ1_5, decodeCextQ1_6, decodeCextQ1_7,
      decodeCextQ2_0, decodeCextQ2_1, decodeCextQ2_2, decodeCextQ2_3,
      decodeCextQ2_4, decodeCextQ2_5, decodeCextQ2_6, decodeCextQ2_7]"

definition execCext :: "32 word \<Rightarrow> 'x::len vm \<Rightarrow> bool \<times> 'x vm" where
  "execCext instr s =
     (let q = instr AND 3 in
      if q = 3 then (False, s)
      else
        let funct3 = drop_bit 13 instr AND 7;
            idx = unat (push_bit 3 q OR funct3)
        in (True, (cextTable ! idx) (instr AND 0xFFFF) s))"

text \<open>The index into the jump table is in range for the three compressed quadrants.\<close>

lemma cext_index_less:
  assumes "(instr :: 32 word) AND 3 \<noteq> 3"
  shows "unat (push_bit 3 (instr AND 3) OR (drop_bit 13 instr AND 7)) < 24"
proof -
  have q: "unat (instr AND 3) < 3"
  proof -
    have "unat (instr AND 3) \<noteq> unat (3 :: 32 word)"
      using assms by (simp only: word_unat_eq_iff not_False_eq_True simp_thms)
    with and_masks_less(3) [of instr] show ?thesis
      by simp
  qed
  have f: "unat (drop_bit 13 instr AND 7) < 8"
    by (rule and_masks_less)
  have p: "unat (push_bit 3 (instr AND 3)) = 8 * unat (instr AND 3)"
    using q by (simp add: push_bit_eq_mult unat_word_ariths)
  have "push_bit 3 (instr AND 3) OR (drop_bit 13 instr AND 7) =
      push_bit 3 (instr AND 3) + (drop_bit 13 instr AND 7)"
    by (rule disjunctive_add [symmetric]) (auto simp: bit_push_bit_iff bit_and_iff bit_low_masks)
  also have "unat \<dots> = unat (push_bit 3 (instr AND 3)) + unat (drop_bit 13 instr AND 7)"
    using q f p by (simp add: unat_word_ariths)
  finally show ?thesis
    using q f p by simp
qed

end
