(* ===== verification/Sbi.thy ===== *)
theory Sbi
  imports RV_Internal
begin

text \<open>
  The supervisor binary interface, \<^verbatim>\<open>src/src/sbi.c\<close> and \<^verbatim>\<open>sbi.h\<close>: when \<^verbatim>\<open>virtualSBI\<close> is set the
  emulator itself plays the machine-mode firmware. The base, timer and debug console extensions,
  the forwarding of the machine timer interrupt, and the start of the hart. An \<^verbatim>\<open>SBI_Ret\<close> is the pair
  of its error and its value.
\<close>

type_synonym 'x sbi_ret = "'x word \<times> 'x word"

definition SBI_SUCCESS :: int where "SBI_SUCCESS = 0"
definition SBI_ERR_NOT_SUPPORTED :: int where "SBI_ERR_NOT_SUPPORTED = - 2"
definition SBI_ERR_INVALID_PARAM :: int where "SBI_ERR_INVALID_PARAM = - 3"

definition SBI_EID_BASE :: "'x::len word" where "SBI_EID_BASE = 0x10"
definition SBI_EID_TIMER :: "'x::len word" where "SBI_EID_TIMER = 0x54494D45"
definition SBI_EID_IPI :: "'x::len word" where "SBI_EID_IPI = 0x735049"
definition SBI_EID_RFENCE :: "'x::len word" where "SBI_EID_RFENCE = 0x52464E43"
definition SBI_EID_SYSRESET :: "'x::len word" where "SBI_EID_SYSRESET = 0x53525354"
definition SBI_EID_DBGCON :: "'x::len word" where "SBI_EID_DBGCON = 0x4442434E"
definition SBI_EID_FWFT :: "'x::len word" where "SBI_EID_FWFT = 0x46574654"

definition rv_peekRx :: "'x::len vm \<Rightarrow> nat \<Rightarrow> 'x word" where
  "rv_peekRx s rx = Rx (cpu s) ! rx"

definition rv_pokeRx :: "nat \<Rightarrow> 'x::len word \<Rightarrow> 'x vm \<Rightarrow> 'x vm" where
  "rv_pokeRx rx val s = cpu_update (Rx_update (\<lambda>r. r[rx := val])) s"

definition rv_getHartID :: "'x::len vm \<Rightarrow> 'x word" where
  "rv_getHartID s = mhartid (csr_of s)"

section \<open>Extensions\<close>

definition handleBaseExt :: "'x::len vm \<Rightarrow> 'x word \<Rightarrow> 'x sbi_ret" where
  "handleBaseExt s fid =
     (if fid = 0 then (0, push_bit 24 2)
      else if fid = 1 then (0, 0)
      else if fid = 2 then (0, 0x1000)
      else if fid = 3 then
        let extId = rv_peekRx s CPU_REG_A0 in
        (0, of_bool (extId = SBI_EID_BASE \<or> extId = SBI_EID_TIMER \<or> extId = SBI_EID_IPI
              \<or> extId = SBI_EID_RFENCE \<or> extId = SBI_EID_SYSRESET \<or> extId = SBI_EID_DBGCON
              \<or> extId = SBI_EID_FWFT))
      else if fid = 4 then (0, RV_MVENDORID)
      else if fid = 5 then (0, RV_MARCHID)
      else if fid = 6 then (0, RV_MIMPID)
      else (of_int SBI_ERR_NOT_SUPPORTED, 0))"

definition sbi_time :: "'x::len vm \<Rightarrow> 64 word" where
  "sbi_time s =
     (if CONFIG_RV64 TYPE('x) then ucast (rv_peekRx s CPU_REG_A0)
      else ucast (rv_peekRx s CPU_REG_A0) OR push_bit 32 (ucast (rv_peekRx s CPU_REG_A1)))"

definition handleTimerExt :: "'x::len word \<Rightarrow> 'x vm \<Rightarrow> 'x vm \<times> 'x sbi_ret" where
  "handleTimerExt fid s =
     (if fid = 0 then
        let time = sbi_time s;
            t = aclint_setMtimecmp (unat (rv_getHartID s)) time s
        in (upd_csr (mie_update (\<lambda>v. if time = NOT 1 then v AND NOT (irq_mask IRQ_MACHINE_TMR_INT)
                                     else v OR irq_mask IRQ_MACHINE_TMR_INT)) t, (0, 0))
      else (s, (of_int SBI_ERR_NOT_SUPPORTED, 0)))"

text \<open>The loop of the console write: the state and whether a byte could not be read.\<close>

function dbgLoop :: "'x::len word \<Rightarrow> 'x word \<Rightarrow> 'x word \<Rightarrow> 'x vm \<Rightarrow> bool \<times> 'x vm" where
  "dbgLoop addrL nBytes i s =
     (if i < nBytes then
        (case bus_read s (addrL + i) [uninit s] of (ok, t, buf) \<Rightarrow>
           if ok then dbgLoop addrL nBytes (i + 1) (ui_putch (hd buf) t) else (True, t))
      else (False, s))"
  by pat_completeness auto
termination
proof (relation "measure (\<lambda>(a, n, i, s). unat n - unat i)")
  fix a n i :: "'x::len word" and s :: "'x vm" and x ok y t buf
  assume "i < n"
  then have "unat i < unat n" "unat (i + 1) = unat i + 1"
    using unat_plus_of_nat [of i 1] unsigned_less [of n, where 'a = nat]
    by (auto simp: word_less_nat_alt simp del: unsigned_less)
  then show "((a, n, i + 1, ui_putch (hd buf) t), (a, n, i, s)) \<in> measure (\<lambda>(a, n, i, s). unat n - unat i)"
    by simp
qed simp

declare dbgLoop.simps [simp del]

definition handleDbgConExt :: "'x::len word \<Rightarrow> 'x vm \<Rightarrow> 'x vm \<times> 'x sbi_ret" where
  "handleDbgConExt fid s =
     (if fid = 0 then
        let nBytes = rv_peekRx s CPU_REG_A0; addrL = rv_peekRx s CPU_REG_A1
        in (case dbgLoop addrL nBytes 0 s of (failed, t) \<Rightarrow>
              (t, (if failed then of_int SBI_ERR_INVALID_PARAM else 0, nBytes)))
      else (s, (of_int SBI_ERR_NOT_SUPPORTED, 0)))"

section \<open>Entry points\<close>

definition sbi_handleEcall :: "'x::len vm \<Rightarrow> 'x vm" where
  "sbi_handleEcall s =
     (let eid = rv_peekRx s CPU_REG_A7; fid = rv_peekRx s CPU_REG_A6;
          (t, err, val) =
            (if eid = SBI_EID_BASE then (s, handleBaseExt s fid)
             else if eid = SBI_EID_TIMER then handleTimerExt fid s
             else if eid = SBI_EID_DBGCON then handleDbgConExt fid s
             else (c_assert False s, (of_int SBI_ERR_NOT_SUPPORTED, 0)))
      in rv_pokeRx CPU_REG_A1 val (rv_pokeRx CPU_REG_A0 err t))"

definition sbi_handleInterrupt :: "'x::len vm \<Rightarrow> 'x vm" where
  "sbi_handleInterrupt s =
     (let irq = mcause (csr_of s) AND NOT CPU_SIGN_BIT in
      if irq = of_nat (irq_code IRQ_MACHINE_TMR_INT) then
        let t = aclint_setMtimecmp (unat (mhartid (csr_of s))) (ucast (CPU_UINT_MAX :: 'x word)) s;
            u = upd_csr (mie_update (\<lambda>v. v AND NOT (irq_mask IRQ_MACHINE_TMR_INT))) t
        in rv_setInterrupt IRQ_SUPERVISOR_TMR_INT u
      else c_assert False s)"

definition sbi_handleException :: "'x::len vm \<Rightarrow> 'x vm" where
  "sbi_handleException s = c_assert False s"

section \<open>Frame\<close>

text \<open>A console write leaves the processor's core alone; what it prints is what it reads.\<close>

lemma port_frame_putch: "port_frame s (ui_putch c s)"
  by (simp add: port_frame_def ui_putch_def wf_devs_def)

lemma dbgLoop_frame: "port_frame s (snd (dbgLoop a n i s))"
proof (induction a n i s rule: dbgLoop.induct)
  case (1 a n i s)
  obtain ok t buf where r: "bus_read s (a + i) [uninit s] = (ok, t, buf)"
    by (cases "bus_read s (a + i) [uninit s]")
  have f: "port_frame s t"
    using bus_port.port_rd_frame [of s "a + i" "[uninit s]"] by (simp add: r)
  show ?case
  proof (cases "i < n \<and> ok")
    case True
    then have "port_frame (ui_putch (hd buf) t) (snd (dbgLoop a n (i + 1) (ui_putch (hd buf) t)))"
      using 1 r by auto
    from port_frame_trans [OF port_frame_trans [OF f port_frame_putch] this] True show ?thesis
      by (subst dbgLoop.simps) (simp add: r)
  next
    case False
    with f show ?thesis
      by (subst dbgLoop.simps) (auto simp: r)
  qed
qed

lemma aclint_setMtimecmp_port: "port_frame s (aclint_setMtimecmp h v s)"
  using aclint_frame_dev [OF aclint_setMtimecmp_frame [where s = s and h = h and v = v]]
  by (intro port_frame_dev) (simp_all add: wf_devs_def wf_aclint_setMtimecmp dev_frame_def)

lemma wf_upd_mie [wf_intros]: "wf_vm s \<Longrightarrow> wf_vm (upd_csr (mie_update f) s)"
  by (simp add: wf_vm_def wf_cpu_def)

lemma wf_rv_pokeRx: "wf_vm s \<Longrightarrow> rx \<noteq> 0 \<Longrightarrow> wf_vm (rv_pokeRx rx v s)"
  by (simp add: rv_pokeRx_def wf_vm_def wf_cpu_def)

lemma wf_rv_setInterrupt [wf_intros]: "wf_vm s \<Longrightarrow> wf_vm (rv_setInterrupt n s)"
  by (simp add: irq_line_defs wf_vm_def wf_cpu_def wf_platform_def wf_devs_def)

lemma wf_handleTimerExt: "wf_vm s \<Longrightarrow> wf_vm (fst (handleTimerExt fid s))"
  unfolding handleTimerExt_def Let_def
  by (auto intro!: wf_intros wf_vm_frame [OF _ aclint_setMtimecmp_port])

lemma wf_handleDbgConExt: "wf_vm s \<Longrightarrow> wf_vm (fst (handleDbgConExt fid s))"
  unfolding handleDbgConExt_def Let_def
  by (auto simp: split_def intro!: wf_vm_frame [OF _ dbgLoop_frame])

lemma wf_sbi_handleEcall [wf_intros]:
  assumes "wf_vm s"
  shows "wf_vm (sbi_handleEcall s)"
  unfolding sbi_handleEcall_def Let_def split_def
  using assms wf_handleTimerExt [OF assms] wf_handleDbgConExt [OF assms]
  by (intro wf_rv_pokeRx) (simp_all add: cpu_reg_defs wf_c_assert)

lemma wf_sbi_handleInterrupt [wf_intros]: "wf_vm s \<Longrightarrow> wf_vm (sbi_handleInterrupt s)"
  unfolding sbi_handleInterrupt_def Let_def
  by (auto intro!: wf_intros wf_vm_frame [OF _ aclint_setMtimecmp_port])

lemma wf_sbi_handleException [wf_intros]: "wf_vm s \<Longrightarrow> wf_vm (sbi_handleException s)"
  by (simp add: sbi_handleException_def wf_c_assert)

end
