(* ===== verification/RV_Run.thy ===== *)
theory RV_Run
  imports RV_Cext Sbi
begin

text \<open>
  The processor's step, \<^verbatim>\<open>src/src/cpu/rv.c\<close>: choosing a pending interrupt, fetching through the
  one-line instruction cache, entering a trap handler (or the built-in firmware), reset, and one
  call of \<^verbatim>\<open>rv_run\<close>. The start of a hart by the firmware (\<^verbatim>\<open>sbi_startHart\<close>) is here because it
  resets the processor.
\<close>

section \<open>Interrupts\<close>

definition pendingEnabled :: "'x::len vm \<Rightarrow> 'x word" where
  "pendingEnabled s = mip (csr_of s) AND mie (csr_of s)"

primrec mLoop :: "'x::len word \<Rightarrow> RV_IrqCause list \<Rightarrow> 'x vm \<Rightarrow> 'x vm" where
  "mLoop interrupts [] s = s"
| "mLoop interrupts (v # vs) s =
     (if (interrupts AND irq_mask v) \<noteq> 0 then interrupt v False s else mLoop interrupts vs s)"

definition m_vectors :: "RV_IrqCause list" where
  "m_vectors = [IRQ_MACHINE_EXT_INT, IRQ_MACHINE_SW_INT, IRQ_MACHINE_TMR_INT]"

definition processPendingMInterrupts :: "'x::len vm \<Rightarrow> 'x vm" where
  "processPendingMInterrupts s =
     (let interrupts = pendingEnabled s in
      if interrupts \<noteq> 0 then mLoop interrupts m_vectors s else s)"

primrec sLoop :: "'x::len word \<Rightarrow> bool \<Rightarrow> RV_IrqCause list \<Rightarrow> 'x vm \<Rightarrow> 'x vm" where
  "sLoop interrupts sie [] s = s"
| "sLoop interrupts sie (v # vs) s =
     (if (irq_mask v AND interrupts) \<noteq> 0 then
        let delegated = ((mideleg (csr_of s) AND irq_mask v) \<noteq> 0);
            irq = (\<not> delegated \<or> mode_of s < RV_PRIV_MODE_SUPERVISOR
                     \<or> mode_of s = RV_PRIV_MODE_SUPERVISOR \<and> sie
                     \<or> mode_of s = RV_PRIV_MODE_MACHINE \<and> \<not> sie)
        in if irq then interrupt v delegated s else sLoop interrupts sie vs s
      else sLoop interrupts sie vs s)"

definition s_vectors :: "RV_IrqCause list" where
  "s_vectors = [IRQ_SUPERVISOR_EXT_INT, IRQ_SUPERVISOR_SW_INT, IRQ_SUPERVISOR_TMR_INT, IRQ_CTR_OVF_INT]"

definition processPendingSInterrupts :: "'x::len vm \<Rightarrow> 'x vm" where
  "processPendingSInterrupts s =
     (let interrupts = pendingEnabled s in
      if interrupts \<noteq> 0
      then sLoop interrupts ((mstatus (csr_of s) AND MSTATUS_SIE_MASK) \<noteq> 0) s_vectors s
      else s)"

definition processPendingInterrupts :: "'x::len vm \<Rightarrow> 'x vm" where
  "processPendingInterrupts s =
     (if mode_of s = RV_PRIV_MODE_MACHINE \<and> (mstatus (csr_of s) AND MSTATUS_MIE_MASK) = 0 then s
      else
        let t = (if \<not> trapped s then processPendingMInterrupts s else s)
        in if \<not> trapped t then processPendingSInterrupts t else t)"

section \<open>Fetching\<close>

definition fetch :: "'x::len vm \<Rightarrow> 'x vm \<times> 32 word" where
  "fetch s =
     (let pc = readPC s in
      if (pc AND 1) \<noteq> 0 then (trap TRAP_INST_ALLIGN s, 0)
      else
        let ic = icache (cpu s); offset = pc - ic_base ic in
        if ic_base ic = CPU_ADDR_MAX \<or> unat offset > ICACHE_LINE_SIZE - 4 then
          (case bus_read s pc (ic_line ic) of (ok, t, line) \<Rightarrow>
             if \<not> ok then
               (case bus_read t pc (replicate 4 0) of (ok', u, buf) \<Rightarrow>
                  if \<not> ok' then (trap TRAP_INST_AF u, 0) else (u, le_word buf))
             else (cpu_update (icache_update (\<lambda>_. \<lparr>ic_base = pc, ic_line = line\<rparr>)) t,
                   le_word (slice_at 0 4 line)))
        else (s, le_word (slice_at (unat offset) 4 (ic_line ic))))"

section \<open>Entering a trap\<close>

definition enterM :: "'x::len vm \<Rightarrow> 'x vm" where
  "enterM s =
     (let c = csr_of s;
          st = (mstatus c AND NOT (MSTATUS_MPIE_MASK OR MSTATUS_MIE_MASK))
               OR (if (mstatus c AND MSTATUS_MIE_MASK) \<noteq> 0 then MSTATUS_MPIE_MASK else 0);
          st' = (st AND NOT MSTATUS_MPP_MASK) OR MSTATUS_MPP (mode_of s)
      in s\<lparr>cpu := (cpu s)\<lparr>csr := c\<lparr>mcause := trapCause (cpu s), mstatus := st', mtval := 0,
             mepc := readPC s\<rparr>, cpu_mode := RV_PRIV_MODE_MACHINE\<rparr>\<rparr>)"

definition enterS :: "'x::len vm \<Rightarrow> 'x vm" where
  "enterS s =
     (let c = csr_of s;
          st = (mstatus c AND NOT (MSTATUS_SPIE_MASK OR MSTATUS_SIE_MASK))
               OR (if (mstatus c AND MSTATUS_SIE_MASK) \<noteq> 0 then MSTATUS_SPIE_MASK else 0);
          st' = (st AND NOT MSTATUS_SPP_MASK) OR MSTATUS_SPP (mode_of s)
      in s\<lparr>cpu := (cpu s)\<lparr>csr := c\<lparr>scause := trapCause (cpu s), mstatus := st', stval := 0,
             sepc := readPC s\<rparr>, cpu_mode := RV_PRIV_MODE_SUPERVISOR\<rparr>\<rparr>)"

definition doTrap :: "'x::len vm \<Rightarrow> 'x vm" where
  "doTrap s =
     (let s1 = s\<lparr>cpu := (cpu s)\<lparr>cpu_trap := False, cpu_wfi := False\<rparr>\<rparr>;
          irq = ((trapCause (cpu s) AND CPU_SIGN_BIT) \<noteq> 0);
          cause = trapCause (cpu s) AND NOT CPU_SIGN_BIT;
          delegate = trapDelegate (cpu s);
          xtvec = (if \<not> delegate then mtvec (csr_of s) else stvec (csr_of s));
          s2 = (if \<not> delegate then enterM s1 else enterS s1);
          vec0 = xtvec AND NOT 3;
          vec = (if irq \<and> (xtvec AND 3) = 1 then vec0 + 4 * cause else vec0)
      in if mode_of s2 = RV_PRIV_MODE_MACHINE \<and> virtualSBI (cpu s2) then
           if cause = of_nat (trap_code TRAP_CALL_S)
             then xret RV_PRIV_MODE_MACHINE (- 4) (sbi_handleEcall s2)
           else if irq then xret RV_PRIV_MODE_MACHINE 0 (sbi_handleInterrupt s2)
           else xret RV_PRIV_MODE_MACHINE 0 (sbi_handleException s2)
         else writePC vec s2)"

section \<open>Start and step\<close>

definition rv_init :: "nat \<Rightarrow> bool \<Rightarrow> 'x::len vm \<Rightarrow> bool \<times> 'x vm" where
  "rv_init hartId sbi s =
     (True, s\<lparr>cpu := \<lparr>Rx = replicate 32 0, PC = 0,
        csr = \<lparr>mhartid = of_nat hartId, mip = 0, mie = 0, mscratch = 0, mstatus = 0, mstatush = 0,
               mtvec = 0, mcause = 0, mepc = 0, mtval = 0, menvcfg = 0, medeleg = 0, mideleg = 0,
               mcounteren = 0, sscratch = 0, stvec = 0, scause = 0, sepc = 0, stval = 0, senvcfg = 0,
               scounteren = 0\<rparr>,
        cpu_trap = False, trapCause = 0, trapDelegate = False, cpu_irq = False, cpu_wfi = False,
        icache = \<lparr>ic_base = 0, ic_line = replicate ICACHE_LINE_SIZE 0\<rparr>,
        cpu_mode = RV_PRIV_MODE_USER, virtualSBI = sbi\<rparr>\<rparr>)"

definition rv_reset :: "RV_PrivMode \<Rightarrow> 'x::len word \<Rightarrow> 'x vm \<Rightarrow> 'x vm" where
  "rv_reset mode start s =
     (let s1 = snd (bus_reservationCheckInvalidate 0 0 (flushIcache s));
          c = csr_of s1;
          c1 = c\<lparr>mstatus := MSTATUS_WR_VAL 0\<rparr>;
          c2 = (if CONFIG_RV64 TYPE('x) then c1 else c1\<lparr>mstatush := MSTATUSH_WR_VAL 0\<rparr>);
          c3 = c2\<lparr>menvcfg := MENVCFG_CBZE_MASK, senvcfg := SENVCFG_CBZE_MASK\<rparr>
      in writePC start (s1\<lparr>cpu := (cpu s1)\<lparr>cpu_wfi := False, csr := c3, cpu_irq := False,
           cpu_trap := False, cpu_mode := mode\<rparr>\<rparr>))"

definition sbi_startHart :: "'x::len word \<Rightarrow> 'x word \<Rightarrow> 'x vm \<Rightarrow> 'x vm" where
  "sbi_startHart entryPoint a1 s =
     (let s1 = rv_reset RV_PRIV_MODE_SUPERVISOR entryPoint s;
          s2 = rv_pokeRx CPU_REG_A1 a1 (rv_pokeRx CPU_REG_A0 (rv_getHartID s1) s1)
      in upd_csr (\<lambda>c. c\<lparr>
           medeleg := CPU_UINT_MAX AND NOT (trap_mask TRAP_CALL_S OR trap_mask TRAP_CALL_M
             OR trap_mask TRAP_DOUBLE_TRAP),
           mideleg := CPU_UINT_MAX AND NOT (irq_mask IRQ_MACHINE_SW_INT OR irq_mask IRQ_MACHINE_TMR_INT
             OR irq_mask IRQ_MACHINE_EXT_INT),
           mcounteren := COUNTEREN_WR_MASK\<rparr>) s2)"

definition execute :: "32 word \<Rightarrow> 'x::len vm \<Rightarrow> 'x vm" where
  "execute instr s =
     (case execCext instr s of (compressed, t) \<Rightarrow>
        let u = (if compressed then t else execInstr instr t);
            instrSize = (if compressed then 2 else 4)
        in writePC (readPC u + instrSize) u)"

definition rv_run :: "'x::len vm \<Rightarrow> 'x vm" where
  "rv_run s =
     (let s1 = (if trapped s then doTrap s else if cpu_irq (cpu s) then processPendingInterrupts s else s)
      in if \<not> trapped s \<and> cpu_irq (cpu s) \<and> trapped s1 then s1
         else (case fetch s1 of (s2, instr) \<Rightarrow> if trapped s2 then s2 else execute instr s2))"

end
