(* ===== verification/RV_Stable.thy ===== *)
theory RV_Stable
  imports RV_Run
begin

text \<open>
  Properties of the state that every instruction keeps. The locale \<open>instr_closed\<close> lifts a relation
  between the states before and after from the instructions to the decoding tables. The locale
  \<open>exec_stable\<close> lists the primitive operations of the processor; a predicate that each of them keeps
  is kept by every instruction, which makes it an instance of the first. It is interpreted with the invariant of the machine, with an upper bound on the
  privilege mode, and with the machine-mode registers as seen from below machine mode.
\<close>

section \<open>From the instructions to the decoders\<close>

text \<open>A relation between the state before and the state after that holds for every instruction
  holds for whatever the two decoding tables select.\<close>

locale instr_closed =
  fixes R :: "'x::len vm \<Rightarrow> 'x vm \<Rightarrow> bool"
  assumes same: "R s s"
    and R_ILL: "R s (doILL s)"
    and R_JAL: "R s (doJAL j rd isz s)"
    and R_SYSTEM: "R s (doSYSTEM f3 iimm rd rs1 isz s)"
    and R_MISCMEM: "R s (doMISCMEM f3 iimm rd rs1 s)"
    and R_OPIMM: "R s (doOPIMM f3 iimm rd rs1 s)"
    and R_BRANCH: "R s (doBRANCH f3 bimm rs1 rs2 isz s)"
    and R_LUI: "R s (doLUI u rd s)"
    and R_OP: "R s (doOP f3 f7 rd rs1 rs2 s)"
    and R_JALR: "R s (doJALR f3 iimm rd rs1 isz s)"
    and R_AUIPC: "R s (doAUIPC u rd s)"
    and R_AMO: "R s (doAMO f3 f5 rd rs1 rs2 s)"
    and R_STORE: "R s (doSTORE f3 imm rs1 rs2 s)"
    and R_LOAD: "R s (doLOAD f3 imm rd rs1 s)"
    and R_OPIMM32: "R s (doOPIMM32 f3 iimm rd rs1 s)"
    and R_OP32: "R s (doOP32 f3 f7 rd rs1 rs2 s)"
begin

lemmas R_instrs = same R_ILL R_JAL R_SYSTEM R_MISCMEM R_OPIMM R_BRANCH R_LUI R_OP R_JALR R_AUIPC
  R_AMO R_STORE R_LOAD R_OPIMM32 R_OP32

lemma R_if: "R s t \<Longrightarrow> R s u \<Longrightarrow> R s (if b then t else u)"
  by simp

lemma R_jumpTable: "\<forall>f \<in> set jumpTable. R s (f instr s)"
  by (simp add: jumpTable_def R_instrs decodeLOAD_def decodeILL_def decodeMISCMEM_def decodeOPIMM_def
      decodeAUIPC_def decodeOPIMM32_def decodeSTORE_def decodeAMO_def decodeOP_def decodeLUI_def
      decodeOP32_def decodeBRANCH_def decodeJALR_def decodeJAL_def decodeSYSTEM_def)

lemma R_execInstr: "R s (execInstr instr s)"
proof -
  have "length (jumpTable :: (32 word \<Rightarrow> 'x vm \<Rightarrow> 'x vm) list) = 32"
    by (simp add: jumpTable_def)
  then have "jumpTable ! opcode_of instr \<in> set (jumpTable :: (32 word \<Rightarrow> 'x vm \<Rightarrow> 'x vm) list)"
    using opcode_of_less [of instr] by (intro nth_mem) simp
  with R_jumpTable [of s instr] show ?thesis
    by (simp add: execInstr_def)
qed

lemma R_cextTable0: "\<forall>f \<in> set (take 8 cextTable). R s (f instr s)"
  by (simp add: cextTable_def R_instrs decodeCextQ0_0_def decodeCextQ0_1_def decodeCextQ0_2_def
      decodeCextQ0_3_def decodeCextQ0_4_def decodeCextQ0_5_def decodeCextQ0_6_def decodeCextQ0_7_def
      Let_def)

lemma R_cextTable1: "\<forall>f \<in> set (take 8 (drop 8 cextTable)). R s (f instr s)"
  by (simp add: cextTable_def R_instrs decodeCextQ1_0_def decodeCextQ1_1_def decodeCextQ1_2_def
      decodeCextQ1_3_def decodeCextQ1_4_def decodeCextQ1_5_def decodeCextQ1_6_def decodeCextQ1_7_def
      cextNop_def Let_def)

lemma R_cextTable2: "\<forall>f \<in> set (drop 16 cextTable). R s (f instr s)"
  by (simp add: cextTable_def R_instrs decodeCextQ2_0_def decodeCextQ2_1_def decodeCextQ2_2_def
      decodeCextQ2_3_def decodeCextQ2_4_def decodeCextQ2_5_def decodeCextQ2_6_def decodeCextQ2_7_def
      cextNop_def Let_def)

lemma R_execCext: "R s (snd (execCext instr s))"
proof (cases "instr AND 3 = 3")
  case False
  define idx where "idx = unat (push_bit 3 (instr AND 3) OR (drop_bit 13 instr AND 7))"
  have t: "cextTable = take 8 cextTable @ take 8 (drop 8 cextTable) @
      drop 16 (cextTable :: (32 word \<Rightarrow> 'x vm \<Rightarrow> 'x vm) list)"
    by (simp add: cextTable_def)
  have "cextTable ! idx \<in> set (cextTable :: (32 word \<Rightarrow> 'x vm \<Rightarrow> 'x vm) list)"
    using cext_index_less [OF False] by (intro nth_mem) (simp add: idx_def cextTable_def)
  then have "R s ((cextTable ! idx) (instr AND 0xFFFF) s)"
    using R_cextTable0 [of s "instr AND 0xFFFF"] R_cextTable1 [of s "instr AND 0xFFFF"]
      R_cextTable2 [of s "instr AND 0xFFFF"] by (subst (asm) (2) t) auto
  with False show ?thesis
    by (simp add: execCext_def Let_def idx_def)
qed (simp add: execCext_def same)

text \<open>An instruction word goes through exactly one of the two tables.\<close>

lemma R_decoded:
  "R s (case execCext instr s of (compressed, t) \<Rightarrow> if compressed then t else execInstr instr t)"
proof (cases "fst (execCext instr s)")
  case False
  then have "snd (execCext instr s) = s"
    by (auto simp: execCext_def Let_def split: if_splits)
  with False R_execInstr [of s instr] show ?thesis
    by (simp add: split_def)
qed (use R_execCext [of s instr] in \<open>simp add: split_def\<close>)

end

section \<open>Stability under the primitives\<close>

locale exec_stable =
  fixes I :: "'x::len vm \<Rightarrow> bool"
  assumes writeReg: "I s \<Longrightarrow> I (writeReg rd d s)"
    and writePC: "I s \<Longrightarrow> I (writePC pc s)"
    and trap: "I s \<Longrightarrow> I (trap cause s)"
    and flush: "I s \<Longrightarrow> I (flushIcache s)"
    and readMem: "I s \<Longrightarrow> I (fst (readMem s a buf))"
    and writeMem: "I s \<Longrightarrow> I (writeMem s a buf)"
    and readCSR: "I s \<Longrightarrow> I (fst (readCSR s n))"
    and writeCSR: "I s \<Longrightarrow> I (writeCSR n v s)"
    and xret: "I s \<Longrightarrow> m = RV_PRIV_MODE_SUPERVISOR \<or> m = RV_PRIV_MODE_MACHINE \<Longrightarrow> I (xret m isz s)"
    and create: "I s \<Longrightarrow> I (bus_reservationCreate a k s)"
    and check: "I s \<Longrightarrow> I (snd (bus_reservationCheckInvalidate a k s))"
    and wfi: "I s \<Longrightarrow> I (cpu_update (cpu_wfi_update (\<lambda>_. True)) s)"
    and assertion: "I s \<Longrightarrow> I (c_assert b s)"
    and undefined_op: "I s \<Longrightarrow> I (c_undefined s)"
begin

lemmas prims = writeReg writePC trap flush readMem writeMem readCSR writeCSR xret create check wfi
  assertion undefined_op

lemma I_if: "I s \<Longrightarrow> I t \<Longrightarrow> I (if b then s else t)"
  by simp

lemma I_doILL: "I s \<Longrightarrow> I (doILL s)"
  by (simp add: doILL_def prims)

lemma I_doJAL: "I s \<Longrightarrow> I (doJAL j rd isz s)"
  by (simp add: doJAL_def Let_def prims)

lemma I_csrSwap: "I s \<Longrightarrow> I (csrSwap n d rd s)"
  using readCSR [of s n] by (simp add: csrSwap_def Let_def split_def prims)

lemma I_csrModify: "I s \<Longrightarrow> I (csrModify n f rs1 rd s)"
  using readCSR [of s n] by (simp add: csrModify_def Let_def split_def prims)

lemma I_doSYSTEM: "I s \<Longrightarrow> I (doSYSTEM f3 iimm rd rs1 isz s)"
  unfolding doSYSTEM_def Let_def doECALL_def doWFI_def
  by (intro I_if prims I_csrSwap I_csrModify I_doILL) simp_all

lemma I_doMISCMEM: "I s \<Longrightarrow> I (doMISCMEM f3 iimm rd rs1 s)"
  unfolding doMISCMEM_def doCBOZERO_def by (intro I_if prims I_doILL)

lemma I_doOPIMM: "I s \<Longrightarrow> I (doOPIMM f3 iimm rd rs1 s)"
  unfolding doOPIMM_def Let_def by (intro I_if prims I_doILL)

lemma I_doBRANCH: "I s \<Longrightarrow> I (doBRANCH f3 bimm rs1 rs2 isz s)"
  by (simp add: doBRANCH_def Let_def prims I_doILL split: option.split)

lemma I_doLUI: "I s \<Longrightarrow> I (doLUI u rd s)"
  by (simp add: doLUI_def prims)

lemma I_doOP: "I s \<Longrightarrow> I (doOP f3 f7 rd rs1 rs2 s)"
  by (simp add: doOP_def prims I_doILL split: option.split)

lemma I_doJALR: "I s \<Longrightarrow> I (doJALR f3 iimm rd rs1 isz s)"
  by (simp add: doJALR_def Let_def prims I_doILL)

lemma I_doAUIPC: "I s \<Longrightarrow> I (doAUIPC u rd s)"
  by (simp add: doAUIPC_def prims)

lemma I_amoSwitch: "I s \<Longrightarrow> I (fst (amoSwitch f5 rs2 a k v d s))"
  using check [of s a k]
  by (simp add: amoSwitch_def split_def prims I_doILL)

lemma I_doAMO:
  assumes "I s"
  shows "I (doAMO f3 f5 rd rs1 rs2 s)"
proof -
  have "I (fst (amoSwitch f5 rs2 a k v d (fst (readMem s a buf))))" for a k v d buf
    by (intro I_amoSwitch readMem assms)
  with assms show ?thesis
    unfolding doAMO_def Let_def split_def by (simp add: prims)
qed

lemma I_doSTORE: "I s \<Longrightarrow> I (doSTORE f3 imm rs1 rs2 s)"
  by (simp add: doSTORE_def Let_def prims I_doILL)

lemma I_doLOAD: "I s \<Longrightarrow> I (doLOAD f3 imm rd rs1 s)"
  by (simp add: doLOAD_def Let_def split_def prims I_doILL)

lemma I_doOPIMM32: "I s \<Longrightarrow> I (doOPIMM32 f3 iimm rd rs1 s)"
  unfolding doOPIMM32_def Let_def by (intro I_if prims I_doILL)

lemma I_doOP32: "I s \<Longrightarrow> I (doOP32 f3 f7 rd rs1 rs2 s)"
  unfolding doOP32_def Let_def by (intro I_if prims I_doILL)

lemmas instrs = I_doILL I_doJAL I_doSYSTEM I_doMISCMEM I_doOPIMM I_doBRANCH I_doLUI I_doOP I_doJALR
  I_doAUIPC I_doAMO I_doSTORE I_doLOAD I_doOPIMM32 I_doOP32

end

sublocale exec_stable \<subseteq> instrs_keep: instr_closed "\<lambda>s t. I s \<longrightarrow> I t"
  by unfold_locales (auto intro: instrs)

context exec_stable
begin

lemma I_execute: "I s \<Longrightarrow> I (execute instr s)"
  using instrs_keep.R_decoded [of s instr]
  by (auto simp: execute_def Let_def split_def intro!: writePC split: if_splits)

end

section \<open>The invariant of the machine\<close>

definition ok_vm :: "'x::len vm \<Rightarrow> bool" where
  "ok_vm s \<longleftrightarrow> valid_xlen TYPE('x) \<and> wf_vm s"

lemma wf_wfi [wf_intros]: "wf_vm s \<Longrightarrow> wf_vm (cpu_update (cpu_wfi_update f) s)"
  by (simp add: wf_vm_def wf_cpu_def)

interpretation wf: exec_stable ok_vm
  by unfold_locales (auto simp: ok_vm_def intro!: wf_intros)

section \<open>Privilege is never gained by an instruction\<close>

lemma mode_of_simps [simp]:
  "mode_of (writeReg rd d s) = mode_of s" "mode_of (writePC pc s) = mode_of s"
  "mode_of (flushIcache s) = mode_of s" "mode_of (fst (readMem s a buf)) = mode_of s"
  "mode_of (writeMem s a buf) = mode_of s" "mode_of (fst (readCSR s n)) = mode_of s"
  "mode_of (writeCSR n v s) = mode_of s" "mode_of (bus_reservationCreate a k s) = mode_of s"
  "mode_of (snd (bus_reservationCheckInvalidate a k s)) = mode_of s"
  "mode_of (c_assert b s) = mode_of s" "mode_of (c_undefined s) = mode_of s"
  using bus_read_cpu_fields(4) [of s a buf] bus_write_cpu_fields(4) [of s a buf]
    readCSR_cases [of s n] writeCSR_cases [of n v s]
  by (auto simp: writeReg_def writePC_def flushIcache_def readMem_def writeMem_def split_def csr_frame_def
      bus_reservationCreate_def bus_reservationCheckInvalidate_def Let_def c_assert_def c_undefined_def)

lemma xret_mode_le:
  assumes "m = RV_PRIV_MODE_SUPERVISOR \<or> m = RV_PRIV_MODE_MACHINE"
  shows "mode_of (xret m isz s) \<le> mode_of s"
proof -
  have "MSTATUS_GET_SPP v \<le> RV_PRIV_MODE_SUPERVISOR" for v :: "'a word"
    by (simp add: MSTATUS_GET_SPP_def and_one_of_bit privMode_of_def priv_order)
  moreover have "x \<le> RV_PRIV_MODE_MACHINE" for x
    by (cases x) (simp_all add: priv_order)
  ultimately show ?thesis
    using assms by (auto simp: xret_def xret_mode_def split_def Let_def not_less intro: order_trans)
qed

interpretation mode: exec_stable "\<lambda>s :: 'x::len vm. mode_of s \<le> m" for m
  by unfold_locales (auto intro: order_trans [OF xret_mode_le])

section \<open>Machine-mode registers are out of reach below machine mode\<close>

definition mregs :: "'x::len csrs \<Rightarrow> 'x word list" where
  "mregs c = [mhartid c, mscratch c, mstatush c, mtvec c, mcause c, mepc c, mtval c, menvcfg c,
     medeleg c, mideleg c, mcounteren c]"

lemma mregs_core:
  assumes "core c = core d"
  shows "mregs (csr c) = mregs (csr d)"
  using arg_cong [OF core_fields(9) [OF assms], of mregs] by (simp add: mregs_def)

lemma csrPrivMode_machine:
  "csrPrivMode 0x302 = RV_PRIV_MODE_MACHINE" "csrPrivMode 0x303 = RV_PRIV_MODE_MACHINE"
  "csrPrivMode 0x305 = RV_PRIV_MODE_MACHINE" "csrPrivMode 0x306 = RV_PRIV_MODE_MACHINE"
  "csrPrivMode 0x30A = RV_PRIV_MODE_MACHINE" "csrPrivMode 0x310 = RV_PRIV_MODE_MACHINE"
  "csrPrivMode 0x340 = RV_PRIV_MODE_MACHINE" "csrPrivMode 0x341 = RV_PRIV_MODE_MACHINE"
  "csrPrivMode 0x343 = RV_PRIV_MODE_MACHINE"
  by code_simp+

lemma if_intro: "(b \<Longrightarrow> P x) \<Longrightarrow> (\<not> b \<Longrightarrow> P y) \<Longrightarrow> P (if b then x else y)"
  by simp

lemma writeCSR_mregs:
  assumes "mode_of s < RV_PRIV_MODE_MACHINE"
  shows "mregs (csr_of (writeCSR n v s)) = mregs (csr_of s)"
proof -
  have "mregs (csr_of (writeMstatus w s)) = mregs (csr_of s)"
    "mregs (csr_of (writeMie w s)) = mregs (csr_of s)"
    "mregs (csr_of (writeMip w s)) = mregs (csr_of s)" for w
    by (simp_all add: csr_writers mregs_def)
  then show ?thesis
    unfolding writeCSR_def Let_def
    by (intro if_intro [where P = "\<lambda>t. mregs (csr_of t) = mregs (csr_of s)"])
      (use assms in \<open>simp_all add: csrPrivMode_machine\<close>, simp_all add: mregs_def)
qed

lemma mregs_readMem [simp]: "mregs (csr_of (fst (readMem s a buf))) = mregs (csr_of s)"
  using mregs_core [of "cpu (fst (snd (bus_read s a buf)))" "cpu s"] bus_port.port_rd_frame [of s a buf]
  by (simp add: readMem_def split_def port_frame_def)

lemma mregs_writeMem [simp]: "mregs (csr_of (writeMem s a buf)) = mregs (csr_of s)"
  using mregs_core [of "cpu (snd (bus_write s a buf))" "cpu s"] bus_port.port_wr_frame [of s a buf]
  by (simp add: writeMem_def split_def port_frame_def)

lemma mregs_xret: "mregs (csr_of (xret m isz s)) = mregs (csr_of s)"
  by (simp add: xret_def split_def Let_def writePC_def mregs_def)

lemma mregs_simps [simp]:
  "mregs (csr_of (writeReg rd d s)) = mregs (csr_of s)" "mregs (csr_of (writePC pc s)) = mregs (csr_of s)"
  "mregs (csr_of (flushIcache s)) = mregs (csr_of s)"
  "mregs (csr_of (fst (readCSR s n))) = mregs (csr_of s)"
  "mregs (csr_of (bus_reservationCreate a k s)) = mregs (csr_of s)"
  "mregs (csr_of (snd (bus_reservationCheckInvalidate a k s))) = mregs (csr_of s)"
  "mregs (csr_of (c_assert b s)) = mregs (csr_of s)" "mregs (csr_of (c_undefined s)) = mregs (csr_of s)"
  using readCSR_cases [of s n]
  by (auto simp: writeReg_def writePC_def flushIcache_def bus_reservationCreate_def
      bus_reservationCheckInvalidate_def Let_def c_assert_def c_undefined_def)

interpretation mregs: exec_stable "\<lambda>s :: 'x::len vm. mode_of s < RV_PRIV_MODE_MACHINE \<and> mregs (csr_of s) = r" for r
  by unfold_locales (auto simp: writeCSR_mregs mregs_xret intro: le_less_trans [OF xret_mode_le])

end
