(* ===== verification/RV_Step.thy ===== *)
theory RV_Step
  imports RV_Stable
begin

text \<open>
  Facts about one step of the processor: the invariant is kept by \<^verbatim>\<open>rv_run\<close>, traps are precise,
  entering and leaving a trap handler are inverse to each other, and which interrupt is taken.
\<close>

section \<open>The invariant\<close>

lemma wf_mLoop: "wf_vm s \<Longrightarrow> wf_vm (mLoop w vs s)"
  by (induction vs) (simp_all add: wf_interrupt)

lemma wf_sLoop: "wf_vm s \<Longrightarrow> wf_vm (sLoop w sie vs s)"
  by (induction vs) (simp_all add: wf_interrupt Let_def)

lemma wf_processPendingInterrupts [wf_intros]: "wf_vm s \<Longrightarrow> wf_vm (processPendingInterrupts s)"
  by (simp add: processPendingInterrupts_def processPendingMInterrupts_def
      processPendingSInterrupts_def Let_def wf_mLoop wf_sLoop)

lemma bus_read_length: "bus_read s a buf = (ok, t, buf') \<Longrightarrow> length buf' = length buf"
  using bus_port.port_rd_length [of s a buf] by simp

lemma wf_fetch [wf_intros]:
  assumes "wf_vm s"
  shows "wf_vm (fst (fetch s))"
proof -
  obtain ok t line where r: "bus_read s (pc_of s) (ic_line (icache (cpu s))) = (ok, t, line)"
    by (cases "bus_read s (pc_of s) (ic_line (icache (cpu s)))")
  obtain ok' u buf where r': "bus_read t (pc_of s) (replicate 4 0) = (ok', u, buf)"
    by (cases "bus_read t (pc_of s) (replicate 4 0)")
  have t: "wf_vm t"
    using wf_bus_read [OF assms, of "pc_of s" "ic_line (icache (cpu s))"] by (simp add: r)
  have u: "wf_vm u"
    using wf_bus_read [OF t, of "pc_of s" "replicate 4 0"] by (simp add: r')
  have l: "length line = ICACHE_LINE_SIZE"
    using bus_read_length [OF r] assms by (simp add: wf_vm_def wf_cpu_def)
  have "wf_vm (cpu_update (icache_update (\<lambda>_. \<lparr>ic_base = pc_of s, ic_line = line\<rparr>)) t)"
    using t l by (simp add: wf_vm_def wf_cpu_def)
  with assms t u show ?thesis
    by (simp add: fetch_def Let_def readPC_def r r' wf_trap)
qed

lemma wf_enterM [wf_intros]:
  assumes "valid_xlen TYPE('x::len)" "wf_vm (s :: 'x vm)"
  shows "wf_vm (enterM s)"
  using assms(2)
  by (simp add: enterM_def Let_def wf_vm_def wf_cpu_def wf_platform_def wf_devs_def
      MSTATUS_GET_MPP_written [OF assms(1)])

lemma bit_enterS_mpp:
  assumes "valid_xlen TYPE('x::len)"
  shows "MSTATUS_GET_MPP (mstatus (csr_of (enterS (s :: 'x vm)))) = MSTATUS_GET_MPP (mstatus (csr_of s))"
  using valid_xlen_ge [OF assms]
  by (simp add: enterS_def Let_def MSTATUS_GET_MPP_bit [OF assms] bit_or_iff bit_and_iff bit_not_iff
      possible_bit_def mask_bits bit_MSTATUS_SPP [OF assms])

lemma wf_enterS [wf_intros]:
  assumes "valid_xlen TYPE('x::len)" "wf_vm (s :: 'x vm)"
  shows "wf_vm (enterS s)"
  using assms(2) bit_enterS_mpp [OF assms(1), of s]
  by (simp add: enterS_def Let_def wf_vm_def wf_cpu_def wf_platform_def wf_devs_def)

lemma wf_clear_trap: "wf_vm s \<Longrightarrow> wf_vm (s\<lparr>cpu := (cpu s)\<lparr>cpu_trap := b, cpu_wfi := c\<rparr>\<rparr>)"
  by (simp add: wf_vm_def wf_cpu_def wf_platform_def wf_devs_def)

lemma wf_doTrap [wf_intros]:
  assumes "valid_xlen TYPE('x::len)" "wf_vm (s :: 'x vm)"
  shows "wf_vm (doTrap s)"
  unfolding doTrap_def Let_def
  by (intro if_intro [where P = wf_vm] wf_xret wf_writePC wf_sbi_handleEcall wf_sbi_handleInterrupt
      wf_sbi_handleException wf_enterM wf_enterS wf_clear_trap assms)

lemma wf_execute [wf_intros]:
  assumes "valid_xlen TYPE('x::len)" "wf_vm (s :: 'x vm)"
  shows "wf_vm (execute instr s)"
  using wf.I_execute [of s instr] assms by (simp add: ok_vm_def)

lemma wf_rv_run [wf_intros]:
  assumes v: "valid_xlen TYPE('x::len)" and w: "wf_vm (s :: 'x vm)"
  shows "wf_vm (rv_run s)"
proof -
  define s1 where "s1 = (if trapped s then doTrap s else if cpu_irq (cpu s) then processPendingInterrupts s else s)"
  have "wf_vm s1"
    using v w by (simp add: s1_def wf_doTrap wf_processPendingInterrupts)
  then show ?thesis
    unfolding rv_run_def s1_def [symmetric] Let_def split_def
    by (simp add: wf_fetch wf_execute [OF v])
qed

section \<open>Precise traps\<close>

text \<open>What an instruction that traps must leave alone: the registers, the program counter, the
  mode, the control registers (up to the interrupt lines) and the contents of memory.\<close>

definition arch_same :: "'x::len vm \<Rightarrow> 'x vm \<Rightarrow> bool" where
  "arch_same s t \<longleftrightarrow> Rx (cpu t) = Rx (cpu s) \<and> pc_of t = pc_of s \<and> mode_of t = mode_of s \<and>
     (csr_of t)\<lparr>mip := 0\<rparr> = (csr_of s)\<lparr>mip := 0\<rparr> \<and> ram t = ram s"

definition precise :: "'x::len vm \<Rightarrow> 'x vm \<Rightarrow> bool" where
  "precise s t \<longleftrightarrow> (wf_devs s \<longrightarrow> \<not> trapped s \<longrightarrow> trapped t \<longrightarrow> arch_same s t)"

lemma arch_same_refl [simp]: "arch_same s s"
  by (simp add: arch_same_def)

lemma arch_same_trap [simp]: "arch_same s (trap c t) \<longleftrightarrow> arch_same s t"
  by (simp add: arch_same_def)

lemma trapped_assert [simp]: "trapped (c_assert b t) = trapped t"
  by (simp add: c_assert_def)

lemma arch_same_doILL [simp]: "arch_same s (doILL t) \<longleftrightarrow> arch_same s t" "trapped (doILL t)"
  by (simp_all add: arch_same_def doILL_def c_assert_def)

lemma arch_same_readMem: "arch_same s (fst (readMem s a buf))"
  using core_fields [of "cpu (fst (snd (bus_read s a buf)))" "cpu s"] bus_read_dev_frame [of s a buf]
  by (auto simp: readMem_def split_def arch_same_def dev_frame_def)

lemma precise_if: "precise s t \<Longrightarrow> precise s u \<Longrightarrow> precise s (if b then t else u)"
  by simp

lemma precise_trap: "precise s s" "precise s (trap c s)" "precise s (doILL s)"
  by (simp_all add: precise_def)

lemma precise_writes: "precise s (writeReg rd d s)" "precise s (writePC pc s)" "precise s (flushIcache s)"
  by (simp_all add: precise_def flushIcache_def)

lemma precise_writeMem: "precise s (writeMem s a buf)"
  by (cases "bus_present s a (length buf)") (auto simp: precise_def trapped_writeMem writeMem_absent)

lemmas precise_intros = precise_if precise_trap precise_writes precise_writeMem

lemma precise_xret: "precise s (xret m isz s)"
  unfolding xret_def by (intro precise_if precise_trap) (simp add: precise_def split_def Let_def)

lemma precise_csrSwap: "precise s (csrSwap n d rd s)"
  using readCSR_cases [of s n] writeCSR_cases [of n d s]
  by (auto simp: precise_def csrSwap_def split_def Let_def csr_frame_def)

lemma precise_csrModify: "precise s (csrModify n f rs1 rd s)"
  using readCSR_cases [of s n] writeCSR_cases [of n "f (snd (readCSR s n))" s]
  by (auto simp: precise_def csrModify_def split_def Let_def csr_frame_def)

lemma precise_doSYSTEM: "precise s (doSYSTEM f3 iimm rd rs1 isz s)"
  unfolding doSYSTEM_def Let_def doECALL_def doWFI_def
  by (intro precise_intros precise_xret precise_csrSwap precise_csrModify) (simp add: precise_def)

text \<open>The read-modify-write: once the read has been answered the write will be.\<close>

lemma amoSwitch_state:
  "fst (amoSwitch f5 rs2 a k v d s) = doILL s \<or>
   (\<exists>r. fst (amoSwitch f5 rs2 a k v d s) = s\<lparr>bus := (bus s)\<lparr>reservation := r\<rparr>\<rparr>)"
proof -
  define Q where "Q t \<longleftrightarrow> t = doILL s \<or> (\<exists>r. t = s\<lparr>bus := (bus s)\<lparr>reservation := r\<rparr>\<rparr>)" for t
  have "Q s"
    unfolding Q_def by (intro disjI2 exI [of _ "reservation (bus s)"]) simp
  moreover have "Q (doILL s)" "Q (bus_reservationCreate a k s)"
    by (auto simp: Q_def bus_reservationCreate_def)
  moreover have "Q (snd (bus_reservationCheckInvalidate a k s))"
    using \<open>Q s\<close> unfolding bus_reservationCheckInvalidate_def Let_def
    by (simp split: if_split) (auto simp: Q_def)
  ultimately have "Q (fst (amoSwitch f5 rs2 a k v d s))"
    by (simp add: amoSwitch_def split_def)
  then show ?thesis
    by (simp add: Q_def)
qed

lemma bus_present_reservation:
  "bus_present (writeReg rd d (s\<lparr>bus := (bus s)\<lparr>reservation := r\<rparr>\<rparr>)) a n = bus_present s a n"
proof -
  have "findLoop (writeReg rd d (s\<lparr>bus := (bus s)\<lparr>reservation := r\<rparr>\<rparr>)) ds a n = findLoop s ds a n" for ds
    by (rule findLoop_cong) (simp add: device_of_def writeReg_def split: dev_id.split)
  then show ?thesis
    by (simp add: bus_present_def findDevice_def) (simp add: writeReg_def)
qed

lemma precise_amo_tail:
  assumes "wf_devs s" "\<not> trapped s" "length out = length buf"
    and "s1 = fst (readMem s a buf)" "s2 = fst (amoSwitch f5 rs2 a k v d s1)"
  shows "precise s (if b then writeMem (writeReg rd x s2) a out else writeReg rd x s2)"
proof (cases "trapped s2")
  case True
  have "arch_same s s1"
    unfolding assms(4) by (rule arch_same_readMem)
  moreover from this amoSwitch_state [of f5 rs2 a k v d s1] have "arch_same s s2"
    unfolding assms(5) [symmetric]
  proof (elim disjE exE)
    fix r assume "s2 = s1\<lparr>bus := (bus s1)\<lparr>reservation := r\<rparr>\<rparr>"
    with \<open>arch_same s s1\<close> show ?thesis
      by (simp add: arch_same_def)
  qed simp
  ultimately show ?thesis
    using True by (simp add: precise_def)
next
  case False
  with amoSwitch_state [of f5 rs2 a k v d s1] obtain r
    where r: "s2 = s1\<lparr>bus := (bus s1)\<lparr>reservation := r\<rparr>\<rparr>"
    unfolding assms(5) [symmetric] by auto
  with False have u: "\<not> trapped s1"
    by simp
  then have "bus_present s a (length buf)"
    using trapped_readMem [OF assms(2), of a buf] by (simp add: assms(4))
  moreover have "port_frame s s1"
    using calculation readMem_present [OF assms(2)] bus_port.port_rd_frame [of s a buf]
    by (simp add: assms(4))
  ultimately have "bus_present s1 a (length out)"
    using bus_port.present_stable [OF assms(1)] assms(3) by metis
  then have "\<not> trapped (writeMem (writeReg rd x s2) a out)"
    using trapped_writeMem [of "writeReg rd x s2" a out] False
    by (simp add: r bus_present_reservation)
  with False show ?thesis
    by (simp add: precise_def)
qed

lemma precise_doAMO: "precise s (doAMO f3 f5 rd rs1 rs2 s)"
proof (cases "wf_devs s \<and> \<not> trapped s")
  case True
  then show ?thesis
    unfolding doAMO_def Let_def split_def
    by (intro precise_if precise_trap precise_amo_tail) (auto simp: min_def)
qed (simp add: precise_def)

lemma precise_doLOAD: "precise s (doLOAD f3 iimm rd rs1 s)"
proof -
  have "precise s (writeReg rd x (fst (readMem s a buf)))" for x a buf
    using arch_same_readMem [of s a buf] by (cases "trapped (fst (readMem s a buf))") (simp_all add: precise_def)
  then show ?thesis
    by (simp add: doLOAD_def Let_def split_def precise_trap)
qed

interpretation precise: instr_closed precise
proof
  fix s :: "'x::len vm" and j u iimm bimm imm :: "32 word" and rd rs1 rs2 f3 f5 f7 :: nat and isz :: int
  show "precise s (doJAL j rd isz s)" "precise s (doJALR f3 iimm rd rs1 isz s)"
    by (simp_all add: precise_def doJAL_def doJALR_def Let_def)
  show "precise s (doMISCMEM f3 iimm rd rs1 s)"
    unfolding doMISCMEM_def doCBOZERO_def by (intro precise_intros)
  show "precise s (doOPIMM f3 iimm rd rs1 s)" "precise s (doOPIMM32 f3 iimm rd rs1 s)"
    unfolding doOPIMM_def doOPIMM32_def Let_def by (intro precise_intros)+
  show "precise s (doBRANCH f3 bimm rs1 rs2 isz s)" "precise s (doOP f3 f7 rd rs1 rs2 s)"
    by (simp_all add: doBRANCH_def doOP_def Let_def precise_intros split: option.split)
  show "precise s (doOP32 f3 f7 rd rs1 rs2 s)"
    unfolding doOP32_def Let_def by (intro precise_intros) (simp_all add: precise_def c_undefined_def)
  show "precise s (doSTORE f3 imm rs1 rs2 s)"
    by (simp add: doSTORE_def Let_def precise_intros)
qed (simp_all add: precise_intros precise_doSYSTEM precise_doAMO precise_doLOAD doLUI_def doAUIPC_def)

lemma execute_precise: "precise s (execute instr s)"
  using precise.R_decoded [of s instr]
  by (auto simp: precise_def execute_def Let_def split_def split: if_splits)

end
