(* ===== verification/Fdt_Sw.thy ===== *)
theory Fdt_Sw
  imports RV_Prelude
begin

text \<open>
  The sequential writer of the flattened device tree library that comes with the repository
  (\<^verbatim>\<open>src/third_party/dtc/libfdt/fdt_sw.c\<close>, with \<^verbatim>\<open>fdt_offset_ptr\<close>, \<^verbatim>\<open>fdt_next_tag\<close> and
  \<^verbatim>\<open>fdt_find_string_\<close> of \<^verbatim>\<open>fdt.c\<close>), as far as \<^verbatim>\<open>device_tree.c\<close> calls it. It is compiled with
  \<^verbatim>\<open>FDT_ASSUME_MASK\<close> zero, so that every check is made. The buffer is a byte list; the ten
  words of its header, which the code reads and writes through the accessors \<^verbatim>\<open>fdt_\<close> and
  \<^verbatim>\<open>fdt_set_\<close>, are fields of the record, and \<open>fdt_image\<close> puts the two together. A write outside the
  buffer, or into the header other than through the accessors, sets \<open>fdt_ub\<close>.

  Signed and unsigned 32-bit offsets are both 32-bit words, compared as the code compares them.
  Names and property values are byte lists, names without the terminating zero.
\<close>

section \<open>Words read as signed\<close>

lemma bit_last_unat: "bit w 31 \<longleftrightarrow> 2 ^ 31 \<le> unat (w :: 32 word)"
proof -
  have "bit w 31 \<longleftrightarrow> bit (unat w) 31"
    by (simp add: bit_unsigned_iff)
  also have "\<dots> \<longleftrightarrow> odd (unat w div 2 ^ 31)"
    by (simp only: bit_iff_odd)
  finally have "bit w 31 \<longleftrightarrow> odd (unat w div 2 ^ 31)" .
  moreover have "unat w div 2 ^ 31 < 2"
    using unsigned_less [of w, where 'a = nat] by simp
  then have "unat w div 2 ^ 31 = of_bool (2 ^ 31 \<le> unat w)"
    by (auto simp: less_2_cases_iff div_eq_0_iff)
  ultimately show ?thesis by simp
qed

lemma sless_0_iff: "w <s (0 :: 32 word) \<longleftrightarrow> 2 ^ 31 \<le> unat w"
  using bit_last_iff [of w] by (simp add: word_sless_alt bit_last_unat)

lemma sint_of_small: 
  assumes "unat (w :: 32 word) < 2 ^ 31" shows "sint w = int (unat w)"
proof -
  have "signed_take_bit 31 (int n) = int n" if "n < 2 ^ 31" for n
    using that by (intro signed_take_bit_int_eq_self) simp_all
  from this [OF assms] show ?thesis by (simp add: sint_uint)
qed

section \<open>The writer\<close>

definition be_bytes :: "nat \<Rightarrow> 'a::len word \<Rightarrow> byte list" where
  "be_bytes n w = rev (le_bytes n w)"

definition be_word :: "byte list \<Rightarrow> 'a::len word" where
  "be_word bs = le_word (rev bs)"

record fdt =
  fdt_magic :: "32 word"
  fdt_totalsize :: "32 word"
  fdt_off_dt_struct :: "32 word"
  fdt_off_dt_strings :: "32 word"
  fdt_off_mem_rsvmap :: "32 word"
  fdt_version :: "32 word"
  fdt_last_comp_version :: "32 word"
  fdt_boot_cpuid_phys :: "32 word"
  fdt_size_dt_strings :: "32 word"
  fdt_size_dt_struct :: "32 word"
  fdt_bytes :: "byte list"
  fdt_ub :: bool

definition FDT_V17_SIZE :: nat where "FDT_V17_SIZE = 40"

definition fdt_header :: "fdt \<Rightarrow> byte list" where
  "fdt_header f = concat (map (be_bytes 4) [fdt_magic f, fdt_totalsize f, fdt_off_dt_struct f, fdt_off_dt_strings f,
     fdt_off_mem_rsvmap f, fdt_version f, fdt_last_comp_version f, fdt_boot_cpuid_phys f, fdt_size_dt_strings f,
     fdt_size_dt_struct f])"

definition fdt_image :: "fdt \<Rightarrow> byte list" where
  "fdt_image f = fdt_header f @ drop FDT_V17_SIZE (fdt_bytes f)"

definition FDT_ERR_NOSPACE :: int where "FDT_ERR_NOSPACE = 3"
definition FDT_ERR_BADSTATE :: int where "FDT_ERR_BADSTATE = 7"
definition FDT_ERR_TRUNCATED :: int where "FDT_ERR_TRUNCATED = 8"
definition FDT_ERR_BADMAGIC :: int where "FDT_ERR_BADMAGIC = 9"
definition FDT_ERR_BADSTRUCTURE :: int where "FDT_ERR_BADSTRUCTURE = 11"
definition FDT_ERR_BADFLAGS :: int where "FDT_ERR_BADFLAGS = 18"

definition FDT_MAGIC :: "32 word" where "FDT_MAGIC = 0xd00dfeed"
definition FDT_SW_MAGIC :: "32 word" where "FDT_SW_MAGIC = NOT FDT_MAGIC"
definition FDT_BEGIN_NODE :: "32 word" where "FDT_BEGIN_NODE = 1"
definition FDT_END_NODE :: "32 word" where "FDT_END_NODE = 2"
definition FDT_PROP :: "32 word" where "FDT_PROP = 3"
definition FDT_NOP :: "32 word" where "FDT_NOP = 4"
definition FDT_END :: "32 word" where "FDT_END = 9"
definition FDT_CREATE_FLAG_NO_NAME_DEDUP :: "32 word" where "FDT_CREATE_FLAG_NO_NAME_DEDUP = 1"
definition FDT_LAST_SUPPORTED_VERSION :: "32 word" where "FDT_LAST_SUPPORTED_VERSION = 0x11"
definition FDT_LAST_COMPATIBLE_VERSION :: "32 word" where "FDT_LAST_COMPATIBLE_VERSION = 0x10"

lemmas fdt_tags = FDT_BEGIN_NODE_def FDT_END_NODE_def FDT_PROP_def FDT_NOP_def FDT_END_def

definition FDT_TAGALIGN :: "nat \<Rightarrow> nat" where
  "FDT_TAGALIGN n = (n + 3) div 4 * 4"

text \<open>A copy into the buffer.\<close>

definition fdt_put :: "int \<Rightarrow> byte list \<Rightarrow> fdt \<Rightarrow> fdt" where
  "fdt_put p bs f =
     (if int FDT_V17_SIZE \<le> p \<and> p + int (length bs) \<le> int (length (fdt_bytes f))
      then f\<lparr>fdt_bytes := splice_at (nat p) bs (fdt_bytes f)\<rparr>
      else f\<lparr>fdt_ub := True\<rparr>)"

definition fdt_sw_probe :: "fdt \<Rightarrow> int" where
  "fdt_sw_probe f =
     (if fdt_magic f = FDT_MAGIC then - FDT_ERR_BADSTATE
      else if fdt_magic f \<noteq> FDT_SW_MAGIC then - FDT_ERR_BADMAGIC else 0)"

definition fdt_sw_probe_memrsv :: "fdt \<Rightarrow> int" where
  "fdt_sw_probe_memrsv f =
     (let err = fdt_sw_probe f in
      if err \<noteq> 0 then err else if fdt_off_dt_strings f \<noteq> 0 then - FDT_ERR_BADSTATE else 0)"

definition fdt_sw_probe_struct :: "fdt \<Rightarrow> int" where
  "fdt_sw_probe_struct f =
     (let err = fdt_sw_probe f in
      if err \<noteq> 0 then err
      else if fdt_off_dt_strings f \<noteq> fdt_totalsize f then - FDT_ERR_BADSTATE else 0)"

definition fdt_offset_ptr_w :: "fdt \<Rightarrow> 32 word \<Rightarrow> int" where
  "fdt_offset_ptr_w f offset = int (unat (fdt_off_dt_struct f)) + sint offset"

definition fdt_grab_space :: "fdt \<Rightarrow> nat \<Rightarrow> (int \<times> fdt) option" where
  "fdt_grab_space f len =
     (let offset = unat (fdt_size_dt_struct f);
          spaceleft = unat (fdt_totalsize f - fdt_off_dt_struct f - fdt_size_dt_strings f);
          top = (offset + len) mod 2 ^ 64
      in if top < offset \<or> spaceleft < top then None
         else Some (fdt_offset_ptr_w f (of_nat offset), f\<lparr>fdt_size_dt_struct := of_nat top\<rparr>))"

definition fdt_create_with_flags :: "fdt \<Rightarrow> nat \<Rightarrow> 32 word \<Rightarrow> int \<times> fdt" where
  "fdt_create_with_flags buf bufsize flags =
     (let hdrsize = (FDT_V17_SIZE + 15) div 16 * 16 in
      if bufsize < hdrsize then (- FDT_ERR_NOSPACE, buf)
      else if flags AND NOT FDT_CREATE_FLAG_NO_NAME_DEDUP \<noteq> 0 then (- FDT_ERR_BADFLAGS, buf)
      else (0, \<lparr>fdt_magic = FDT_SW_MAGIC, fdt_totalsize = of_nat bufsize, fdt_off_dt_struct = of_nat hdrsize,
         fdt_off_dt_strings = 0, fdt_off_mem_rsvmap = of_nat hdrsize, fdt_version = FDT_LAST_SUPPORTED_VERSION,
         fdt_last_comp_version = flags, fdt_boot_cpuid_phys = 0, fdt_size_dt_strings = 0, fdt_size_dt_struct = 0,
         fdt_bytes = splice_at 0 (replicate bufsize 0) (fdt_bytes buf),
         fdt_ub = (fdt_ub buf \<or> length (fdt_bytes buf) < bufsize)\<rparr>))"

definition fdt_create :: "fdt \<Rightarrow> nat \<Rightarrow> int \<times> fdt" where
  "fdt_create buf bufsize = fdt_create_with_flags buf bufsize 0"

definition fdt_add_reservemap_entry :: "64 word \<Rightarrow> 64 word \<Rightarrow> fdt \<Rightarrow> int \<times> fdt" where
  "fdt_add_reservemap_entry addr sz f =
     (let err = fdt_sw_probe_memrsv f; offset = unat (fdt_off_dt_struct f) in
      if err \<noteq> 0 then (err, f)
      else if unat (fdt_totalsize f) < offset + 16 then (- FDT_ERR_NOSPACE, f)
      else (0, (fdt_put (int offset) (be_bytes 8 addr @ be_bytes 8 sz) f)\<lparr>fdt_off_dt_struct := of_nat (offset + 16)\<rparr>))"

definition fdt_finish_reservemap :: "fdt \<Rightarrow> int \<times> fdt" where
  "fdt_finish_reservemap f =
     (case fdt_add_reservemap_entry 0 0 f of (err, f1) \<Rightarrow>
        if err \<noteq> 0 then (err, f1) else (0, f1\<lparr>fdt_off_dt_strings := fdt_totalsize f1\<rparr>))"

definition fdt_begin_node :: "byte list \<Rightarrow> fdt \<Rightarrow> int \<times> fdt" where
  "fdt_begin_node name f =
     (let err = fdt_sw_probe_struct f; namelen = length name + 1 in
      if err \<noteq> 0 then (err, f)
      else (case fdt_grab_space f (4 + FDT_TAGALIGN namelen) of
          None \<Rightarrow> (- FDT_ERR_NOSPACE, f)
        | Some (nh, f1) \<Rightarrow> (0, fdt_put (nh + 4) (name @ [0]) (fdt_put nh (be_bytes 4 FDT_BEGIN_NODE) f1))))"

definition fdt_end_node :: "fdt \<Rightarrow> int \<times> fdt" where
  "fdt_end_node f =
     (let err = fdt_sw_probe_struct f in
      if err \<noteq> 0 then (err, f)
      else (case fdt_grab_space f 4 of
          None \<Rightarrow> (- FDT_ERR_NOSPACE, f)
        | Some (en, f1) \<Rightarrow> (0, fdt_put en (be_bytes 4 FDT_END_NODE) f1)))"

definition fdt_add_string :: "byte list \<Rightarrow> fdt \<Rightarrow> 32 word \<times> fdt" where
  "fdt_add_string s f =
     (let offset = fdt_size_dt_strings f + of_nat (length s + 1);
          struct_top = fdt_off_dt_struct f + fdt_size_dt_struct f
      in if fdt_totalsize f - offset < struct_top then (0, f)
         else (- offset, (fdt_put (int (unat (fdt_totalsize f)) - int (unat offset)) (s @ [0]) f)
                 \<lparr>fdt_size_dt_strings := offset\<rparr>))"

definition fdt_del_last_string :: "byte list \<Rightarrow> fdt \<Rightarrow> fdt" where
  "fdt_del_last_string s f = f\<lparr>fdt_size_dt_strings := fdt_size_dt_strings f - of_nat (length s + 1)\<rparr>"

text \<open>The first place of the table where the string stands, with its terminating zero.\<close>

fun fdt_find_string :: "byte list \<Rightarrow> byte list \<Rightarrow> nat option" where
  "fdt_find_string [] s = None"
| "fdt_find_string (x # tab) s =
     (if length (x # tab) < length s + 1 then None
      else if take (length s) (x # tab) = s \<and> (x # tab) ! length s = 0 then Some 0
      else map_option Suc (fdt_find_string tab s))"

text \<open>The string table: the last bytes of the buffer.\<close>

definition strtab :: "fdt \<Rightarrow> byte list" where
  "strtab f = slice_at (unat (fdt_totalsize f) - unat (fdt_size_dt_strings f)) (unat (fdt_size_dt_strings f)) (fdt_bytes f)"

definition fdt_find_add_string :: "byte list \<Rightarrow> fdt \<Rightarrow> 32 word \<times> bool \<times> fdt" where
  "fdt_find_add_string s f =
     (case fdt_find_string (strtab f) s of
        Some p \<Rightarrow> (of_nat p - fdt_size_dt_strings f, False, f)
      | None \<Rightarrow> (case fdt_add_string s f of (off, f1) \<Rightarrow> (off, True, f1)))"

definition fdt_property_placeholder :: "byte list \<Rightarrow> nat \<Rightarrow> fdt \<Rightarrow> int \<times> int \<times> fdt" where
  "fdt_property_placeholder name len f =
     (let err = fdt_sw_probe_struct f in
      if err \<noteq> 0 then (err, 0, f)
      else
        (case (if fdt_last_comp_version f AND FDT_CREATE_FLAG_NO_NAME_DEDUP \<noteq> 0
               then (case fdt_add_string name f of (off, f1) \<Rightarrow> (off, True, f1))
               else fdt_find_add_string name f) of
           (nameoff, allocated, f1) \<Rightarrow>
             if nameoff = 0 then (- FDT_ERR_NOSPACE, 0, f1)
             else (case fdt_grab_space f1 (12 + FDT_TAGALIGN len) of
                 None \<Rightarrow> (- FDT_ERR_NOSPACE, 0, if allocated then fdt_del_last_string name f1 else f1)
               | Some (prop, f2) \<Rightarrow>
                   (0, prop + 12, fdt_put (prop + 4) (be_bytes 4 (of_nat len :: 32 word))
                      (fdt_put (prop + 8) (be_bytes 4 nameoff) (fdt_put prop (be_bytes 4 FDT_PROP) f2))))))"

definition fdt_property :: "byte list \<Rightarrow> byte list \<Rightarrow> fdt \<Rightarrow> int \<times> fdt" where
  "fdt_property name val f =
     (case fdt_property_placeholder name (length val) f of (ret, ptr, f1) \<Rightarrow>
        if ret \<noteq> 0 then (ret, f1)
        else (0, if val = [] then f1 else fdt_put ptr val f1))"

definition fdt_property_u32 :: "byte list \<Rightarrow> 32 word \<Rightarrow> fdt \<Rightarrow> int \<times> fdt" where
  "fdt_property_u32 name val f = fdt_property name (be_bytes 4 val) f"

definition fdt_property_string :: "byte list \<Rightarrow> byte list \<Rightarrow> fdt \<Rightarrow> int \<times> fdt" where
  "fdt_property_string name str f = fdt_property name (str @ [0]) f"

section \<open>Walking the structure block\<close>

definition fdt_offset_ptr :: "fdt \<Rightarrow> 32 word \<Rightarrow> 32 word \<Rightarrow> nat option" where
  "fdt_offset_ptr f offset len =
     (let absoffset = offset + fdt_off_dt_struct f in
      if offset <s 0 then None
      else if absoffset < offset \<or> absoffset + len < absoffset \<or> fdt_totalsize f < absoffset + len then None
      else if 0x11 \<le> fdt_version f \<and> (offset + len < offset \<or> fdt_size_dt_struct f < offset + len) then None
      else Some (unat absoffset))"

definition fdt_ld32 :: "fdt \<Rightarrow> nat \<Rightarrow> 32 word" where
  "fdt_ld32 f p = be_word (slice_at p 4 (fdt_bytes f))"

text \<open>The loop that skips a name: the offset behind its zero, or nothing when the name runs out of the block.\<close>

function skipName :: "fdt \<Rightarrow> 32 word \<Rightarrow> 32 word option" where
  "skipName f offset =
     (case fdt_offset_ptr f offset 1 of
        None \<Rightarrow> None
      | Some p \<Rightarrow> if fdt_bytes f ! p \<noteq> 0 then skipName f (offset + 1) else Some (offset + 1))"
  by pat_completeness auto

lemma offset_ptr_nonneg: "fdt_offset_ptr f offset len = Some p \<Longrightarrow> unat offset < 2 ^ 31"
  by (auto simp: fdt_offset_ptr_def Let_def sless_0_iff not_le split: if_splits)

termination skipName
  by (relation "measure (\<lambda>(f, offset). 2 ^ 32 - unat offset)")
    (auto dest!: offset_ptr_nonneg simp: unat_plus_of_nat [where k = 1, simplified])

declare skipName.simps [simp del]

definition fdt_next_tag :: "fdt \<Rightarrow> 32 word \<Rightarrow> 32 word \<times> 32 word" where
  "fdt_next_tag f startoffset =
     (case fdt_offset_ptr f startoffset 4 of
        None \<Rightarrow> (FDT_END, of_int (- FDT_ERR_TRUNCATED))
      | Some tagp \<Rightarrow>
          (let tag = fdt_ld32 f tagp;
               offset = startoffset + 4;
               premature = (FDT_END, of_int (- FDT_ERR_BADSTRUCTURE));
               behind =
                 (if tag = FDT_BEGIN_NODE then skipName f offset
                  else if tag = FDT_PROP then
                    (case fdt_offset_ptr f offset 4 of
                       None \<Rightarrow> None
                     | Some lenp \<Rightarrow>
                         (let len = fdt_ld32 f lenp; sum = len + offset;
                              behind = offset + 8 + len in
                          if 0x7FFFFFFF \<le> sum \<or> sum < offset then None
                          else Some (if fdt_version f < 0x10 \<and> 8 \<le> len \<and> (behind - len) mod 8 \<noteq> 0
                            then behind + 4 else behind)))
                  else if tag = FDT_END \<or> tag = FDT_END_NODE \<or> tag = FDT_NOP then Some offset
                  else None)
           in case behind of
                None \<Rightarrow> premature
              | Some offset \<Rightarrow>
                  if fdt_offset_ptr f startoffset (offset - startoffset) = None then premature
                  else (tag, align_up offset 4)))"

partial_function (option) fixNames :: "32 word \<Rightarrow> fdt \<Rightarrow> (32 word \<times> fdt) option" where
  "fixNames offset f =
     (case fdt_next_tag f offset of (tag, nextoffset) \<Rightarrow>
        if tag = FDT_END then Some (nextoffset, f)
        else fixNames nextoffset
          (if tag = FDT_PROP
           then let prop = fdt_offset_ptr_w f offset;
                    nameoff = fdt_ld32 f (nat (prop + 8)) + fdt_size_dt_strings f
                in fdt_put (prop + 8) (be_bytes 4 nameoff) f
           else f))"

declare fixNames.simps [code]

text \<open>The end of the writing. The result is missing only if the walk over the structure block never ended.\<close>

definition fdt_finish :: "fdt \<Rightarrow> (int \<times> fdt) option" where
  "fdt_finish f =
     (let err = fdt_sw_probe_struct f in
      if err \<noteq> 0 then Some (err, f)
      else (case fdt_grab_space f 4 of
          None \<Rightarrow> Some (- FDT_ERR_NOSPACE, f)
        | Some (endp, f1) \<Rightarrow>
            (let f2 = fdt_put endp (be_bytes 4 FDT_END) f1;
                 newstroffset = fdt_off_dt_struct f2 + fdt_size_dt_struct f2;
                 f3 = (fdt_put (int (unat newstroffset)) (strtab f2) f2)\<lparr>fdt_off_dt_strings := newstroffset\<rparr>
             in case fixNames 0 f3 of
                  None \<Rightarrow> None
                | Some (nextoffset, f4) \<Rightarrow>
                    Some (if nextoffset <s 0 then (sint nextoffset, f4)
                      else (0, f4\<lparr>fdt_totalsize := newstroffset + fdt_size_dt_strings f4,
                         fdt_last_comp_version := FDT_LAST_COMPATIBLE_VERSION, fdt_magic := FDT_MAGIC\<rparr>)))))"

end
