(* ===== verification/Fdt_Tokens.thy ===== *)
theory Fdt_Tokens
  imports Fdt_Sw
begin

text \<open>
  What the sequential writer promises. A blob stands for a list of tokens, the begin and end of
  nodes and the properties between them; \<open>fdt_decode\<close> reads them back from the finished bytes the way
  the device tree format lays them out. The relation \<open>holds\<close> says that an unfinished buffer
  contains given tokens; every call of the writer appends one or refuses for want of space and leaves
  the contents alone. The locale \<open>tree_writer\<close> states this contract, and is interpreted on the writer.
\<close>

section \<open>Lists and bytes\<close>

lemma splice_adjacent:
  "p + length xs + length ys \<le> length B \<Longrightarrow>
     splice_at (p + length xs) ys (splice_at p xs B) = splice_at p (xs @ ys) B"
  "p + length xs + length ys \<le> length B \<Longrightarrow>
     splice_at p xs (splice_at (p + length xs) ys B) = splice_at p (xs @ ys) B"
  by (auto simp: splice_at_def ac_simps min_def)

lemma slice_split: "slice_at p (a + b) B = slice_at p a B @ slice_at (p + a) b B"
  by (simp add: slice_at_def take_add add.commute)

lemma slice_splice_prefix:
  assumes "p + length xs + k \<le> length B"
  shows "slice_at p (length xs + k) (splice_at p xs B) = xs @ slice_at (p + length xs) k B"
  using assms by (simp add: slice_split slice_splice_disjoint)

lemma length_be_bytes [simp]: "length (be_bytes n w) = n"
  by (simp add: be_bytes_def)

lemma be_word_be_bytes [simp]: "be_word (be_bytes 4 w) = (w :: 32 word)"
proof -
  have "take_bit (8 * 4) w = w"
    using take_bit_length_eq [of w] by simp
  then show ?thesis
    by (simp add: be_word_def be_bytes_def le_word_le_bytes)
qed

lemma FDT_TAGALIGN_bounds: "n \<le> FDT_TAGALIGN n" "FDT_TAGALIGN n \<le> n + 3" "FDT_TAGALIGN n mod 4 = 0"
  unfolding FDT_TAGALIGN_def by presburger+

lemma FDT_TAGALIGN_aligned: "a mod 4 = 0 \<Longrightarrow> FDT_TAGALIGN (a + b) = a + FDT_TAGALIGN b"
  unfolding FDT_TAGALIGN_def by presburger

lemma takeWhile_nul: "0 \<notin> set n \<Longrightarrow> takeWhile (\<lambda>b. b \<noteq> 0) (n @ 0 # r) = (n :: byte list)"
  by (induction n) auto

section \<open>The format\<close>

datatype fdt_token = Begin_Node "byte list" | Property "byte list" "byte list" | End_Node

function parse_struct :: "byte list \<Rightarrow> byte list \<Rightarrow> fdt_token list option" where
  "parse_struct strs bs =
     (if length bs < 4 then None
      else
        (let tag = be_word (take 4 bs) :: 32 word; r = drop 4 bs in
         if tag = FDT_BEGIN_NODE then
           (let n = takeWhile (\<lambda>b. b \<noteq> 0) r in
            if length n = length r then None
            else map_option ((#) (Begin_Node n)) (parse_struct strs (drop (FDT_TAGALIGN (length n + 1)) r)))
         else if tag = FDT_PROP then
           (let len = unat (be_word (take 4 r) :: 32 word); off = unat (be_word (take 4 (drop 4 r)) :: 32 word) in
            if length r < 8 + len \<or> length strs \<le> off then None
            else map_option ((#) (Property (takeWhile (\<lambda>b. b \<noteq> 0) (drop off strs)) (take len (drop 8 r))))
              (parse_struct strs (drop (8 + FDT_TAGALIGN len) r)))
         else if tag = FDT_END_NODE then map_option ((#) End_Node) (parse_struct strs r)
         else if tag = FDT_END then Some [] else None))"
  by pat_completeness auto

termination
  by (relation "measure (\<lambda>(strs, bs). length bs)") auto

declare parse_struct.simps [simp del]

definition header_field :: "byte list \<Rightarrow> nat \<Rightarrow> nat" where
  "header_field img k = unat (be_word (slice_at (4 * k) 4 img) :: 32 word)"

definition fdt_decode :: "byte list \<Rightarrow> fdt_token list option" where
  "fdt_decode img =
     (if length img < FDT_V17_SIZE \<or> header_field img 0 \<noteq> unat FDT_MAGIC \<or> header_field img 1 \<noteq> length img \<or>
         length img < header_field img 2 + header_field img 9 \<or> length img < header_field img 3 + header_field img 8
      then None
      else parse_struct (slice_at (header_field img 3) (header_field img 8) img)
        (slice_at (header_field img 2) (header_field img 9) img))"

section \<open>Encoded tokens\<close>

datatype fdt_cell = CBegin "byte list" "byte list" | CProp "32 word" "byte list" "byte list" | CEnd

primrec enc :: "fdt_cell \<Rightarrow> byte list" where
  "enc (CBegin n pad) = be_bytes 4 FDT_BEGIN_NODE @ n @ 0 # pad"
| "enc (CProp off v pad) = be_bytes 4 FDT_PROP @ be_bytes 4 (of_nat (length v) :: 32 word) @ be_bytes 4 off @ v @ pad"
| "enc CEnd = be_bytes 4 FDT_END_NODE"

primrec wf_cell :: "fdt_cell \<Rightarrow> bool" where
  "wf_cell (CBegin n pad) \<longleftrightarrow> 0 \<notin> set n \<and> length n + 1 + length pad = FDT_TAGALIGN (length n + 1)"
| "wf_cell (CProp off v pad) \<longleftrightarrow> length v + length pad = FDT_TAGALIGN (length v)"
| "wf_cell CEnd \<longleftrightarrow> True"

text \<open>A name offset counts back from the end of the table while the tree is written.\<close>

definition named :: "byte list \<Rightarrow> 32 word \<Rightarrow> byte list \<Rightarrow> bool" where
  "named tab off n \<longleftrightarrow> 0 \<notin> set n \<and> 0 < unat (- off) \<and> unat (- off) \<le> length tab \<and>
     (\<exists>r. drop (length tab - unat (- off)) tab = n @ 0 # r)"

fun rep :: "byte list \<Rightarrow> fdt_token \<Rightarrow> fdt_cell \<Rightarrow> bool" where
  "rep tab (Begin_Node n) (CBegin n' pad) \<longleftrightarrow> n = n'"
| "rep tab (Property n v) (CProp off v' pad) \<longleftrightarrow> v = v' \<and> named tab off n"
| "rep tab End_Node CEnd \<longleftrightarrow> True"
| "rep tab _ _ \<longleftrightarrow> False"

lemma named_grow: "named tab off n \<Longrightarrow> named (xs @ tab) off n"
  by (auto simp: named_def)

lemma rep_grow: "rep tab t c \<Longrightarrow> rep (xs @ tab) t c"
  by (induction tab t c rule: rep.induct) (simp_all add: named_grow)

lemma reps_grow: "list_all2 (rep tab) ts cs \<Longrightarrow> list_all2 (rep (xs @ tab)) ts cs"
  by (erule list_all2_mono) (rule rep_grow)

primrec cell_size :: "fdt_cell \<Rightarrow> nat" where
  "cell_size (CBegin n pad) = 4 + FDT_TAGALIGN (length n + 1)"
| "cell_size (CProp off v pad) = 12 + FDT_TAGALIGN (length v)"
| "cell_size CEnd = 4"

lemma length_enc: "wf_cell c \<Longrightarrow> length (enc c) = cell_size c"
  by (cases c) simp_all

lemma cell_size_aligned: "cell_size c mod 4 = 0" "4 \<le> cell_size c"
  by (cases c; simp add: FDT_TAGALIGN_def; presburger)+

lemma length_encs: "\<forall>c \<in> set cs. wf_cell c \<Longrightarrow> length (concat (map enc cs)) = (\<Sum>c \<leftarrow> cs. cell_size c)"
  by (induction cs) (simp_all add: length_enc)

lemma sum_cells_aligned: "(\<Sum>c \<leftarrow> cs. cell_size c) mod 4 = 0"
  using cell_size_aligned(1) by (induction cs) (simp_all add: mod_add_eq [of _ 4, symmetric])

section \<open>Reading the encoding back\<close>

primrec adjust :: "32 word \<Rightarrow> fdt_cell \<Rightarrow> fdt_cell" where
  "adjust m (CBegin n pad) = CBegin n pad"
| "adjust m (CProp off v pad) = CProp (off + m) v pad"
| "adjust m CEnd = CEnd"

lemma adjust_cell [simp]: "wf_cell (adjust m c) = wf_cell c" "cell_size (adjust m c) = cell_size c"
  by (cases c; simp)+

lemma named_adjusted:
  assumes "named tab off n" "length tab < 2 ^ 32"
  shows "unat (off + of_nat (length tab)) < length tab \<and>
    takeWhile (\<lambda>b. b \<noteq> 0) (drop (unat (off + of_nat (length tab))) tab) = n"
proof -
  define k where "k = unat (- off)"
  have "off + of_nat (length tab) = of_nat (length tab) - of_nat k"
    by (simp add: k_def)
  also have "\<dots> = of_nat (length tab - k)"
    using assms(1) by (simp add: named_def k_def of_nat_diff)
  finally have "unat (off + of_nat (length tab)) = length tab - k"
    using assms(2) by (simp add: unat_of_nat)
  with assms(1) show ?thesis
    by (auto simp: named_def k_def takeWhile_nul)
qed

lemma parse_begin:
  assumes "wf_cell (CBegin n pad)"
  shows "parse_struct tab (enc (CBegin n pad) @ r) = map_option ((#) (Begin_Node n)) (parse_struct tab r)"
proof -
  have "FDT_TAGALIGN (Suc (length n)) - length n = Suc (length pad)" "length n \<le> FDT_TAGALIGN (Suc (length n))"
    using assms by auto
  then show ?thesis
    using assms by (subst parse_struct.simps) (simp add: Let_def takeWhile_nul)
qed

lemma parse_prop:
  assumes "wf_cell (CProp off v pad)" "length v < 2 ^ 32" "unat off < length tab"
  shows "parse_struct tab (enc (CProp off v pad) @ r) =
    map_option ((#) (Property (takeWhile (\<lambda>b. b \<noteq> 0) (drop (unat off) tab)) v)) (parse_struct tab r)"
proof -
  have d: "drop (FDT_TAGALIGN (length v)) (v @ pad @ r) = r"
    by (simp flip: assms(1) [unfolded wf_cell.simps])
  have "FDT_PROP \<noteq> FDT_BEGIN_NODE"
    by (simp add: fdt_tags)
  then show ?thesis
    using assms d by (subst parse_struct.simps) (simp add: Let_def unat_of_nat)
qed

lemma parse_end_node: "parse_struct tab (enc CEnd @ r) = map_option ((#) End_Node) (parse_struct tab r)"
  by (subst parse_struct.simps) (simp add: Let_def fdt_tags)

lemma parse_end: "parse_struct tab (be_bytes 4 FDT_END) = Some []"
  by (subst parse_struct.simps) (simp add: Let_def fdt_tags)

lemma parse_encoding:
  assumes "list_all2 (rep tab) ts cs" "\<forall>c \<in> set cs. wf_cell c" "length (concat (map enc cs)) < 2 ^ 32"
    and "length tab < 2 ^ 32"
  shows "parse_struct tab (concat (map (\<lambda>c. enc (adjust (of_nat (length tab)) c)) cs) @ be_bytes 4 FDT_END) = Some ts"
  using assms(1-3)
proof (induction rule: list_all2_induct)
  case Nil
  then show ?case by (simp add: parse_end)
next
  case (Cons t ts c cs)
  then have w: "wf_cell c" and l: "length (enc c) < 2 ^ 32" "length (concat (map enc cs)) < 2 ^ 32"
    by simp_all
  note IH = Cons.IH [OF _ l(2)]
  show ?case
  proof (cases "(tab, t, c)" rule: rep.cases)
    case (1 tab' n n' pad)
    then show ?thesis
      using Cons w by (simp only: adjust.simps list.map concat.simps append_assoc prod.inject rep.simps parse_begin) simp
  next
    case (2 tab' n v off v' pad)
    with Cons.hyps have r: "v = v'" "named tab off n" by simp_all
    have "length v' < 2 ^ 32"
      using l(1) 2 by simp
    moreover have "wf_cell (CProp (off + of_nat (length tab)) v' pad)"
      using w 2 by simp
    ultimately show ?thesis
      using named_adjusted [OF r(2) assms(4)] Cons 2 r
      by (simp only: adjust.simps list.map concat.simps append_assoc prod.inject parse_prop) simp
  next
    case (3 tab')
    then show ?thesis
      using Cons by (simp only: adjust.simps list.map concat.simps append_assoc prod.inject parse_end_node) simp
  qed (use Cons.hyps in simp_all)
qed

end
