(* ===== verification/Fdt_Writer.thy ===== *)
theory Fdt_Writer
  imports Fdt_Tokens
begin

text \<open>
  The calls of the sequential writer, proved against the tokens of the format: each appends its token
  or refuses and leaves the contents alone, and the finished blob decodes to what was written. The
  locale \<open>tree_writer\<close> states this contract for a client that issues calls in sequence; its
  interpretation \<open>sw\<close> is the writer.
\<close>

section \<open>Unfinished trees\<close>

definition writing :: "fdt \<Rightarrow> bool" where
  "writing f \<longleftrightarrow> length (fdt_bytes f) = unat (fdt_totalsize f) \<and> unat (fdt_totalsize f) < 2 ^ 31 \<and>
     fdt_magic f = FDT_SW_MAGIC \<and> fdt_off_dt_strings f = fdt_totalsize f \<and> fdt_version f = 0x11 \<and>
     fdt_last_comp_version f = 0 \<and> \<not> fdt_ub f \<and> FDT_V17_SIZE \<le> unat (fdt_off_dt_struct f) \<and>
     unat (fdt_off_dt_struct f) + unat (fdt_size_dt_struct f) + unat (fdt_size_dt_strings f) \<le> unat (fdt_totalsize f)"

definition struct_block :: "fdt \<Rightarrow> byte list" where
  "struct_block f = slice_at (unat (fdt_off_dt_struct f)) (unat (fdt_size_dt_struct f)) (fdt_bytes f)"

definition struct_top :: "fdt \<Rightarrow> nat" where
  "struct_top f = unat (fdt_off_dt_struct f) + unat (fdt_size_dt_struct f)"

definition room :: "fdt \<Rightarrow> nat" where
  "room f = unat (fdt_totalsize f) - (struct_top f + unat (fdt_size_dt_strings f))"

definition cells :: "fdt \<Rightarrow> fdt_token list \<Rightarrow> fdt_cell list \<Rightarrow> bool" where
  "cells f ts cs \<longleftrightarrow> struct_block f = concat (map enc cs) \<and> (\<forall>c \<in> set cs. wf_cell c) \<and> list_all2 (rep (strtab f)) ts cs"

definition holds :: "fdt \<Rightarrow> fdt_token list \<Rightarrow> bool" where
  "holds f ts \<longleftrightarrow> writing f \<and> (\<exists>cs. cells f ts cs)"

lemma writing_probe: "writing f \<Longrightarrow> fdt_sw_probe_struct f = 0"
  by (simp add: writing_def fdt_sw_probe_struct_def fdt_sw_probe_def FDT_SW_MAGIC_def FDT_MAGIC_def)

lemma fdt_put_ok:
  "FDT_V17_SIZE \<le> p \<Longrightarrow> p + length bs \<le> length (fdt_bytes f) \<Longrightarrow>
     fdt_put (int p) bs f = f\<lparr>fdt_bytes := splice_at p bs (fdt_bytes f)\<rparr>"
  by (simp add: fdt_put_def)

lemma length_strtab: "writing f \<Longrightarrow> length (strtab f) = unat (fdt_size_dt_strings f)"
  by (simp add: writing_def strtab_def)

lemma grab_space:
  assumes w: "writing f" and L: "L < 2 ^ 63"
  shows "fdt_grab_space f L =
    (if L \<le> room f then Some (int (struct_top f), f\<lparr>fdt_size_dt_struct := fdt_size_dt_struct f + of_nat L\<rparr>) else None)"
proof -
  let ?n = "unat (fdt_size_dt_struct f)"
  have n: "?n < 2 ^ 31" and le: "fdt_off_dt_struct f \<le> fdt_totalsize f"
    using w by (auto simp: writing_def word_le_nat_alt)
  have "unat (fdt_totalsize f - fdt_off_dt_struct f) = unat (fdt_totalsize f) - unat (fdt_off_dt_struct f)"
    by (rule unat_sub [OF le])
  moreover from this have "fdt_size_dt_strings f \<le> fdt_totalsize f - fdt_off_dt_struct f"
    using w unfolding writing_def word_le_nat_alt by linarith
  ultimately have s: "unat (fdt_totalsize f - fdt_off_dt_struct f - fdt_size_dt_strings f) =
      unat (fdt_totalsize f) - unat (fdt_off_dt_struct f) - unat (fdt_size_dt_strings f)"
    by (simp add: unat_sub)
  have t: "(?n + L) mod 2 ^ 64 = ?n + L"
    using n L by simp
  have p: "fdt_offset_ptr_w f (of_nat ?n) = int (struct_top f)"
    using n by (simp add: fdt_offset_ptr_w_def struct_top_def sint_of_small)
  have "unat (fdt_totalsize f) - unat (fdt_off_dt_struct f) - unat (fdt_size_dt_strings f) < ?n + L \<longleftrightarrow> \<not> L \<le> room f"
    using w by (auto simp: writing_def room_def struct_top_def)
  then show ?thesis
    unfolding fdt_grab_space_def Let_def s t p by auto
qed

lemma append_cell:
  fixes f f' :: fdt
  assumes w: "writing f" and c: "cells f ts cs" and L: "length xs \<le> L" "L \<le> room f"
    and c': "\<And>pad. length pad = L - length xs \<Longrightarrow> wf_cell (mk pad) \<and> enc (mk pad) = xs @ pad \<and> rep (strtab f) t (mk pad)"
    and f': "f' = f\<lparr>fdt_size_dt_struct := fdt_size_dt_struct f + of_nat L,
        fdt_bytes := splice_at (struct_top f) xs (fdt_bytes f)\<rparr>"
  shows "holds f' (ts @ [t]) \<and> room f' = room f - L"
proof -
  let ?n = "unat (fdt_size_dt_struct f)" and ?B = "fdt_bytes f"
  have b: "struct_top f + L + unat (fdt_size_dt_strings f) \<le> length ?B" "length ?B < 2 ^ 31"
    using w L by (auto simp: writing_def room_def struct_top_def)
  then have n: "unat (fdt_size_dt_struct f + of_nat L) = ?n + L"
    by (intro unat_plus_of_nat) (simp add: struct_top_def)
  define pad where "pad = slice_at (struct_top f + length xs) (L - length xs) ?B"
  have pad: "length pad = L - length xs"
    using b L by (simp add: pad_def)
  have sb: "struct_block f' = struct_block f @ xs @ pad"
  proof -
    have "struct_block f' = slice_at (unat (fdt_off_dt_struct f)) (?n + L) (splice_at (struct_top f) xs ?B)"
      using n by (simp add: struct_block_def f')
    also have "\<dots> = slice_at (unat (fdt_off_dt_struct f)) ?n (splice_at (struct_top f) xs ?B) @
        slice_at (struct_top f) (length xs + (L - length xs)) (splice_at (struct_top f) xs ?B)"
      using L(1) by (simp add: slice_split [of _ ?n L] struct_top_def)
    also have "\<dots> = struct_block f @ xs @ pad"
      using b L by (subst slice_splice_prefix) (simp_all add: slice_splice_disjoint struct_top_def struct_block_def pad_def)
    finally show ?thesis .
  qed
  have st: "strtab f' = strtab f"
    unfolding strtab_def f' using w b L by (simp, intro slice_splice_disjoint) (auto simp: writing_def)
  have "cells f' (ts @ [t]) (cs @ [mk pad])"
    using c c' [OF pad] by (simp add: cells_def sb st list_all2_appendI)
  moreover have "writing f'"
    using w b L n by (simp add: writing_def f' struct_top_def)
  ultimately show ?thesis
    using n b by (auto simp: holds_def room_def struct_top_def f')
qed

section \<open>The calls\<close>

primrec emit :: "fdt_token \<Rightarrow> fdt \<Rightarrow> int \<times> fdt" where
  "emit (Begin_Node n) = fdt_begin_node n"
| "emit (Property n v) = fdt_property n v"
| "emit End_Node = fdt_end_node"

primrec token_cost :: "fdt_token \<Rightarrow> nat" where
  "token_cost (Begin_Node n) = 4 + FDT_TAGALIGN (length n + 1)"
| "token_cost (Property n v) = 12 + FDT_TAGALIGN (length v) + length n + 1"
| "token_cost End_Node = 4"

text \<open>Names are C strings. The bound on property names keeps \<^verbatim>\<open>fdt_add_string_\<close> from subtracting
  more than the size of the buffer.\<close>

primrec wf_token :: "fdt_token \<Rightarrow> bool" where
  "wf_token (Begin_Node n) \<longleftrightarrow> 0 \<notin> set n \<and> length n < 2 ^ 31"
| "wf_token (Property n v) \<longleftrightarrow> 0 \<notin> set n \<and> length n < FDT_V17_SIZE \<and> length v < 2 ^ 31"
| "wf_token End_Node \<longleftrightarrow> True"

definition appends :: "fdt_token list \<Rightarrow> fdt_token \<Rightarrow> fdt \<Rightarrow> int \<times> fdt \<Rightarrow> bool" where
  "appends ts t f r \<longleftrightarrow>
     (if fst r = 0 then holds (snd r) (ts @ [t]) \<and> room f \<le> room (snd r) + token_cost t
      else fst r = - FDT_ERR_NOSPACE \<and> holds (snd r) ts \<and> room (snd r) = room f \<and> room f < token_cost t)"

lemma begin_node_appends:
  assumes h: "holds f ts" and t: "wf_token (Begin_Node n)"
  shows "appends ts (Begin_Node n) f (fdt_begin_node n f)"
proof -
  let ?L = "4 + FDT_TAGALIGN (Suc (length n))"
  obtain cs where w: "writing f" and c: "cells f ts cs"
    using h by (auto simp: holds_def)
  have L: "?L < 2 ^ 63" "length (be_bytes 4 FDT_BEGIN_NODE @ n @ [0]) \<le> ?L"
    using t FDT_TAGALIGN_bounds [of "length n + 1"] by auto
  show ?thesis
  proof (cases "?L \<le> room f")
    case True
    define f' where "f' = f\<lparr>fdt_size_dt_struct := fdt_size_dt_struct f + of_nat ?L,
        fdt_bytes := splice_at (struct_top f) (be_bytes 4 FDT_BEGIN_NODE @ n @ [0]) (fdt_bytes f)\<rparr>"
    have "holds f' (ts @ [Begin_Node n]) \<and> room f' = room f - ?L"
    proof (rule append_cell [OF w c L(2) True _ f'_def, where mk = "\<lambda>pad. CBegin n pad"])
      fix pad :: "byte list"
      assume "length pad = ?L - length (be_bytes 4 FDT_BEGIN_NODE @ n @ [0])"
      then show "wf_cell (CBegin n pad) \<and> enc (CBegin n pad) = (be_bytes 4 FDT_BEGIN_NODE @ n @ [0]) @ pad \<and>
          rep (strtab f) (Begin_Node n) (CBegin n pad)"
        using t FDT_TAGALIGN_bounds(1) [of "length n + 1"] by auto
    qed
    moreover have "fdt_begin_node n f = (0, f')"
    proof -
      have p: "FDT_V17_SIZE \<le> struct_top f" "struct_top f + ?L \<le> length (fdt_bytes f)"
        using w True by (auto simp: writing_def struct_top_def room_def)
      have "fdt_put (int (struct_top f) + 4) (n @ [0]) (f\<lparr>fdt_size_dt_struct := fdt_size_dt_struct f + of_nat ?L,
          fdt_bytes := splice_at (struct_top f) (be_bytes 4 FDT_BEGIN_NODE) (fdt_bytes f)\<rparr>) = f'"
        using p L(2) fdt_put_ok [of "struct_top f + 4" "n @ [0]"]
          splice_adjacent(1) [of "struct_top f" "be_bytes 4 FDT_BEGIN_NODE" "n @ [0]" "fdt_bytes f"]
        by (simp add: f'_def)
      then show ?thesis
        using p True fdt_put_ok [of "struct_top f"]
        by (simp add: fdt_begin_node_def Let_def writing_probe [OF w] grab_space [OF w L(1)])
    qed
    ultimately show ?thesis
      by (simp add: appends_def)
  next
    case False
    then show ?thesis
      using h L(1) by (simp add: appends_def fdt_begin_node_def Let_def writing_probe [OF w] grab_space [OF w L(1)]
          FDT_ERR_NOSPACE_def)
  qed
qed

lemma end_node_appends:
  assumes h: "holds f ts"
  shows "appends ts End_Node f (fdt_end_node f)"
proof -
  obtain cs where w: "writing f" and c: "cells f ts cs"
    using h by (auto simp: holds_def)
  have g: "fdt_grab_space f 4 = (if 4 \<le> room f then Some (int (struct_top f), f\<lparr>fdt_size_dt_struct := fdt_size_dt_struct f + 4\<rparr>) else None)"
    using grab_space [OF w, of 4] by simp
  show ?thesis
  proof (cases "4 \<le> room f")
    case True
    define f' where "f' = f\<lparr>fdt_size_dt_struct := fdt_size_dt_struct f + of_nat 4,
        fdt_bytes := splice_at (struct_top f) (be_bytes 4 FDT_END_NODE) (fdt_bytes f)\<rparr>"
    have "holds f' (ts @ [End_Node]) \<and> room f' = room f - 4"
      by (rule append_cell [OF w c _ True _ f'_def, where mk = "\<lambda>_. CEnd"]) simp_all
    moreover have "FDT_V17_SIZE \<le> struct_top f" "struct_top f + 4 \<le> length (fdt_bytes f)"
      using w True by (auto simp: writing_def struct_top_def room_def)
    then have "fdt_end_node f = (0, f')"
      using True by (simp add: fdt_end_node_def Let_def writing_probe [OF w] g f'_def fdt_put_ok)
    ultimately show ?thesis
      by (simp add: appends_def)
  next
    case False
    then show ?thesis
      using h by (simp add: appends_def fdt_end_node_def Let_def writing_probe [OF w] g FDT_ERR_NOSPACE_def)
  qed
qed

subsection \<open>Property names\<close>

lemma find_string_sound:
  "fdt_find_string tab s = Some p \<Longrightarrow> p < length tab \<and> (\<exists>r. drop p tab = s @ 0 # r)"
proof (induction tab s arbitrary: p rule: fdt_find_string.induct)
  case (2 x tab s)
  show ?case
  proof (cases "take (length s) (x # tab) = s \<and> (x # tab) ! length s = 0")
    case True
    with 2 have p: "p = 0" "length s < length (x # tab)" by (auto split: if_splits)
    with True have "x # tab = s @ 0 # drop (Suc (length s)) (x # tab)"
      by (metis id_take_nth_drop)
    with p show ?thesis by (metis drop0 length_greater_0_conv list.distinct(1))
  next
    case False
    with 2 show ?thesis by (auto split: if_splits)
  qed
qed simp

text \<open>A name added in front of the string table, which grows downwards from the end of the buffer.\<close>

definition new_strsize :: "byte list \<Rightarrow> fdt \<Rightarrow> 32 word" where
  "new_strsize n f = fdt_size_dt_strings f + of_nat (length n + 1)"

definition with_string :: "byte list \<Rightarrow> fdt \<Rightarrow> fdt" where
  "with_string n f = f\<lparr>fdt_bytes := splice_at (unat (fdt_totalsize f) - unat (new_strsize n f)) (n @ [0]) (fdt_bytes f),
     fdt_size_dt_strings := new_strsize n f\<rparr>"

lemma new_strsize:
  assumes w: "writing f" and n: "length n < FDT_V17_SIZE"
  shows "unat (new_strsize n f) = unat (fdt_size_dt_strings f) + length n + 1"
    "unat (new_strsize n f) \<le> unat (fdt_totalsize f)"
    "fdt_totalsize f - new_strsize n f < fdt_off_dt_struct f + fdt_size_dt_struct f \<longleftrightarrow> \<not> length n + 1 \<le> room f"
proof -
  let ?m = "unat (fdt_size_dt_strings f)" and ?T = "unat (fdt_totalsize f)"
  have b: "struct_top f + ?m \<le> ?T" "?T < 2 ^ 31" "FDT_V17_SIZE \<le> struct_top f"
    using w by (auto simp: writing_def struct_top_def)
  show u: "unat (new_strsize n f) = ?m + length n + 1"
    unfolding new_strsize_def using b n by (subst unat_plus_of_nat) simp_all
  show k: "unat (new_strsize n f) \<le> ?T"
    using u b n by simp
  then have "unat (fdt_totalsize f - new_strsize n f) = ?T - (?m + length n + 1)"
    using u by (simp add: unat_sub word_le_nat_alt)
  moreover have "unat (fdt_off_dt_struct f + fdt_size_dt_struct f) = struct_top f"
    using b unat_plus_of_nat [of "fdt_off_dt_struct f" "unat (fdt_size_dt_struct f)"] by (simp add: struct_top_def)
  ultimately show "fdt_totalsize f - new_strsize n f < fdt_off_dt_struct f + fdt_size_dt_struct f \<longleftrightarrow> \<not> length n + 1 \<le> room f"
    using b u k by (auto simp: word_less_nat_alt room_def)
qed

lemma string_room:
  assumes w: "writing f" and n: "length n < FDT_V17_SIZE" and r: "length n + 1 \<le> room f"
  defines "k \<equiv> unat (new_strsize n f)"
  shows "struct_top f \<le> unat (fdt_totalsize f) - k" "length (fdt_bytes f) = unat (fdt_totalsize f)"
    "unat (fdt_totalsize f) - k + length (n @ [0]) = unat (fdt_totalsize f) - unat (fdt_size_dt_strings f)"
    "unat (fdt_size_dt_strings f) + length n + 1 = k" "k \<le> unat (fdt_totalsize f)" "FDT_V17_SIZE \<le> struct_top f"
    "unat (fdt_totalsize f) < 2 ^ 31"
  using w r new_strsize [OF w n] by (auto simp: k_def writing_def room_def struct_top_def)

lemma with_string_blocks:
  assumes w: "writing f" and n: "length n < FDT_V17_SIZE" and r: "length n + 1 \<le> room f"
  shows "strtab (with_string n f) = n @ 0 # strtab f" "struct_block (with_string n f) = struct_block f"
proof -
  let ?m = "unat (fdt_size_dt_strings f)" and ?T = "unat (fdt_totalsize f)" and ?k = "unat (new_strsize n f)"
  note b = string_room [OF w n r]
  have "strtab (with_string n f) = slice_at (?T - ?k) (length (n @ [0]) + ?m) (splice_at (?T - ?k) (n @ [0]) (fdt_bytes f))"
    using b(4) by (simp add: strtab_def with_string_def add.commute)
  also have "\<dots> = (n @ [0]) @ slice_at (?T - ?m) ?m (fdt_bytes f)"
    using b by (subst slice_splice_prefix) simp_all
  finally show "strtab (with_string n f) = n @ 0 # strtab f"
    by (simp add: strtab_def)
  show "struct_block (with_string n f) = struct_block f"
    unfolding struct_block_def with_string_def using b
    by (simp, intro slice_splice_disjoint) (auto simp: struct_top_def)
qed

lemma add_string_done:
  assumes w: "writing f" and n: "length n < FDT_V17_SIZE" and r: "length n + 1 \<le> room f"
  shows "fdt_add_string n f = (- new_strsize n f, with_string n f)" "- new_strsize n f \<noteq> 0"
proof -
  let ?T = "unat (fdt_totalsize f)" and ?k = "unat (new_strsize n f)"
  note b = string_room [OF w n r]
  have pos: "int ?T - int ?k = int (?T - ?k)"
    using b(5) by simp
  have put: "fdt_put (int ?T - int ?k) (n @ [0]) f = f\<lparr>fdt_bytes := splice_at (?T - ?k) (n @ [0]) (fdt_bytes f)\<rparr>"
    unfolding pos using b by (intro fdt_put_ok) auto
  show "fdt_add_string n f = (- new_strsize n f, with_string n f)"
    unfolding fdt_add_string_def Let_def new_strsize_def [symmetric] put
    using new_strsize(3) [OF w n] r by (simp add: with_string_def)
  show "- new_strsize n f \<noteq> 0"
    using b(4) by auto
qed

lemma with_string_holds:
  assumes w: "writing f" and c: "cells f ts cs" and n: "0 \<notin> set n" "length n < FDT_V17_SIZE" and r: "length n + 1 \<le> room f"
  shows "writing (with_string n f)" "cells (with_string n f) ts cs"
    "named (strtab (with_string n f)) (- new_strsize n f) n" "room (with_string n f) + length n + 1 = room f"
proof -
  note b = string_room [OF w n(2) r] and k = with_string_blocks [OF w n(2) r]
  show "writing (with_string n f)"
    using w b by (auto simp: writing_def with_string_def struct_top_def)
  show "cells (with_string n f) ts cs"
    using c reps_grow [of "strtab f" ts cs "n @ [0]"] by (simp add: cells_def k)
  show "named (strtab (with_string n f)) (- new_strsize n f) n"
    using n b(4) [symmetric] by (simp add: named_def k length_strtab [OF w])
  show "room (with_string n f) + length n + 1 = room f"
    using b(4) [symmetric] r by (simp add: room_def with_string_def struct_top_def)
qed

lemma del_with_string:
  assumes w: "writing f" and c: "cells f ts cs" and n: "0 \<notin> set n" "length n < FDT_V17_SIZE" and r: "length n + 1 \<le> room f"
  defines "f' \<equiv> fdt_del_last_string n (with_string n f)"
  shows "holds f' ts" "room f' = room f"
proof -
  note b = string_room [OF w n(2) r]
  have m: "fdt_size_dt_strings f' = fdt_size_dt_strings f"
    by (simp add: f'_def fdt_del_last_string_def with_string_def new_strsize_def)
  have "strtab f' = strtab f"
    unfolding strtab_def m using b
    by (simp add: f'_def fdt_del_last_string_def with_string_def, intro slice_splice_disjoint) auto
  then have "cells f' ts cs"
    using c with_string_blocks(2) [OF w n(2) r] by (simp add: f'_def cells_def struct_block_def fdt_del_last_string_def)
  moreover have "writing f'"
    using w m with_string_holds(1) [OF w c n r] by (simp add: f'_def writing_def with_string_def fdt_del_last_string_def)
  ultimately show "holds f' ts"
    by (auto simp: holds_def)
  show "room f' = room f"
    using m by (simp add: f'_def room_def struct_top_def fdt_del_last_string_def with_string_def)
qed

lemma add_string:
  assumes w: "writing f" and c: "cells f ts cs" and n: "0 \<notin> set n" "length n < FDT_V17_SIZE"
  shows "if length n + 1 \<le> room f
    then \<exists>off f1. fdt_add_string n f = (off, f1) \<and> off \<noteq> 0 \<and> writing f1 \<and> cells f1 ts cs \<and> named (strtab f1) off n \<and>
      room f1 + length n + 1 = room f \<and>
      holds (fdt_del_last_string n f1) ts \<and> room (fdt_del_last_string n f1) = room f
    else fdt_add_string n f = (0, f)"
proof (cases "length n + 1 \<le> room f")
  case True
  with add_string_done [OF w n(2) True] with_string_holds [OF w c n True] del_with_string [OF w c n True]
  show ?thesis by simp
next
  case False
  with new_strsize(3) [OF w n(2)] show ?thesis
    by (simp add: fdt_add_string_def new_strsize_def)
qed

lemma find_add_string:
  assumes w: "writing f" and c: "cells f ts cs" and n: "0 \<notin> set n" "length n < FDT_V17_SIZE"
  obtains "fdt_find_add_string n f = (0, True, f)" "room f < length n + 1"
  | off alloc f1 where "fdt_find_add_string n f = (off, alloc, f1)" "off \<noteq> 0" "writing f1" "cells f1 ts cs"
      "named (strtab f1) off n" "room f \<le> room f1 + (length n + 1)"
      "holds (if alloc then fdt_del_last_string n f1 else f1) ts"
      "room (if alloc then fdt_del_last_string n f1 else f1) = room f"
proof (cases "fdt_find_string (strtab f) n")
  case None
  then show ?thesis
    using add_string [OF assms] that by (cases "length n + 1 \<le> room f") (auto simp: fdt_find_add_string_def)
next
  case (Some p)
  let ?m = "unat (fdt_size_dt_strings f)"
  obtain r where p: "p < ?m" "drop p (strtab f) = n @ 0 # r"
    using find_string_sound [OF Some] by (auto simp: length_strtab [OF w])
  have off: "unat (- (of_nat p - fdt_size_dt_strings f)) = ?m - p"
  proof -
    have "- (of_nat p - fdt_size_dt_strings f) = of_nat (?m - p)"
      using p(1) by (simp add: of_nat_diff)
    moreover have "?m - p < 2 ^ 32"
      using unsigned_less [of "fdt_size_dt_strings f", where 'a = nat] by simp
    ultimately show ?thesis
      by (simp only: unat_of_nat) simp
  qed
  have "named (strtab f) (of_nat p - fdt_size_dt_strings f) n"
    using p n(1) by (simp only: named_def off length_strtab [OF w]) auto
  moreover have "of_nat p - fdt_size_dt_strings f \<noteq> 0"
    using off p(1) by auto
  ultimately show ?thesis
    using that(2) [of "of_nat p - fdt_size_dt_strings f" False f] Some w c by (auto simp: fdt_find_add_string_def holds_def)
qed

text \<open>The four writes of a property, and the cell they make.\<close>

abbreviation prop_head :: "32 word \<Rightarrow> byte list \<Rightarrow> byte list" where
  "prop_head off v \<equiv> be_bytes 4 FDT_PROP @ be_bytes 4 (of_nat (length v) :: 32 word) @ be_bytes 4 off"

lemma prop_head_put:
  assumes "FDT_V17_SIZE \<le> p" "p + 12 \<le> length (fdt_bytes f)"
  shows "fdt_put (int p + 4) (be_bytes 4 (of_nat (length v) :: 32 word))
      (fdt_put (int p + 8) (be_bytes 4 off) (fdt_put (int p) (be_bytes 4 FDT_PROP) f)) =
    f\<lparr>fdt_bytes := splice_at p (prop_head off v) (fdt_bytes f)\<rparr>"
proof -
  let ?tag = "be_bytes 4 FDT_PROP" and ?len = "be_bytes 4 (of_nat (length v) :: 32 word)" and ?off = "be_bytes 4 off"
  show ?thesis
    using assms fdt_put_ok [of p ?tag f] fdt_put_ok [of "p + 8" ?off] fdt_put_ok [of "p + 4" ?len]
      splice_adjacent(2) [of "p + 4" ?len ?off "splice_at p ?tag (fdt_bytes f)"]
      splice_adjacent(1) [of p ?tag "?len @ ?off" "fdt_bytes f"]
    by (simp add: add.commute [of 8 p])
qed

lemma prop_value_put:
  assumes "FDT_V17_SIZE \<le> p" "p + 12 + length v \<le> length (fdt_bytes f)"
  shows "fdt_put (int p + 12) v (f\<lparr>fdt_bytes := splice_at p (prop_head off v) (fdt_bytes f)\<rparr>) =
    f\<lparr>fdt_bytes := splice_at p (prop_head off v @ v) (fdt_bytes f)\<rparr>"
  using assms fdt_put_ok [of "p + 12" v] splice_adjacent(1) [of p "prop_head off v" v "fdt_bytes f"] by simp

definition with_property :: "32 word \<Rightarrow> byte list \<Rightarrow> fdt \<Rightarrow> fdt" where
  "with_property off v f = f\<lparr>fdt_size_dt_struct := fdt_size_dt_struct f + of_nat (12 + FDT_TAGALIGN (length v)),
     fdt_bytes := splice_at (struct_top f) (prop_head off v @ v) (fdt_bytes f)\<rparr>"

lemma with_property_holds:
  assumes f: "writing f" "cells f ts cs" "named (strtab f) off n" and t: "wf_token (Property n v)"
    and r: "12 + FDT_TAGALIGN (length v) \<le> room f"
  shows "holds (with_property off v f) (ts @ [Property n v])"
    "room (with_property off v f) = room f - (12 + FDT_TAGALIGN (length v))"
proof -
  have "holds (with_property off v f) (ts @ [Property n v]) \<and>
      room (with_property off v f) = room f - (12 + FDT_TAGALIGN (length v))"
  proof (rule append_cell [OF f(1,2) _ r _ with_property_def, where mk = "\<lambda>pad. CProp off v pad"])
    fix pad :: "byte list"
    assume "length pad = 12 + FDT_TAGALIGN (length v) - length (prop_head off v @ v)"
    then show "wf_cell (CProp off v pad) \<and> enc (CProp off v pad) = (prop_head off v @ v) @ pad \<and>
        rep (strtab f) (Property n v) (CProp off v pad)"
      using FDT_TAGALIGN_bounds [of "length v"] t f(3) by simp
  qed (use FDT_TAGALIGN_bounds [of "length v"] in simp)
  then show "holds (with_property off v f) (ts @ [Property n v])"
    "room (with_property off v f) = room f - (12 + FDT_TAGALIGN (length v))"
    by simp_all
qed

lemma property_written:
  assumes w: "writing f" and f1: "fdt_find_add_string n f = (off, alloc, f1)" "off \<noteq> 0" "writing f1"
    and t: "wf_token (Property n v)" and r: "12 + FDT_TAGALIGN (length v) \<le> room f1"
  shows "fdt_property n v f = (0, with_property off v f1)"
proof -
  let ?L = "12 + FDT_TAGALIGN (length v)" and ?p = "struct_top f1" and ?B = "fdt_bytes f1"
  have L: "?L < 2 ^ 63" "length v \<le> FDT_TAGALIGN (length v)"
    using t FDT_TAGALIGN_bounds [of "length v"] by auto
  have flags: "fdt_last_comp_version f = 0"
    using w by (simp add: writing_def)
  define f2 where "f2 = f1\<lparr>fdt_size_dt_struct := fdt_size_dt_struct f1 + of_nat ?L\<rparr>"
  have p: "FDT_V17_SIZE \<le> ?p" "?p + ?L \<le> length ?B"
    using f1(3) r by (auto simp: writing_def struct_top_def room_def)
  have B: "fdt_bytes f2 = ?B"
    by (simp add: f2_def)
  have "fdt_put (int ?p + 12) v (f2\<lparr>fdt_bytes := splice_at ?p (prop_head off v) ?B\<rparr>) = with_property off v f1"
    "v = [] \<Longrightarrow> f2\<lparr>fdt_bytes := splice_at ?p (prop_head off v) ?B\<rparr> = with_property off v f1"
    using prop_value_put [of ?p v f2 off] p L(2) by (simp_all add: B) (simp_all add: f2_def with_property_def)
  then show ?thesis
    using f1(1,2) r prop_head_put [of ?p f2 v off] p L(2)
    by (simp add: fdt_property_def fdt_property_placeholder_def Let_def writing_probe [OF w] flags
        grab_space [OF f1(3) L(1)] B f2_def [symmetric, simplified])
qed

lemma property_appends:
  assumes h: "holds f ts" and t: "wf_token (Property n v)"
  shows "appends ts (Property n v) f (fdt_property n v f)"
proof -
  let ?L = "12 + FDT_TAGALIGN (length v)"
  obtain cs where w: "writing f" and c: "cells f ts cs"
    using h by (auto simp: holds_def)
  have n: "0 \<notin> set n" "length n < FDT_V17_SIZE"
    using t by simp_all
  have L: "?L < 2 ^ 63"
    using t FDT_TAGALIGN_bounds [of "length v"] by auto
  have flags: "fdt_last_comp_version f = 0"
    using w by (simp add: writing_def)
  from w c n show ?thesis
  proof (cases rule: find_add_string)
    case 1
    then show ?thesis
      using h by (simp add: appends_def fdt_property_def fdt_property_placeholder_def Let_def writing_probe [OF w] flags
          FDT_ERR_NOSPACE_def)
  next
    case (2 off alloc f1)
    show ?thesis
    proof (cases "?L \<le> room f1")
      case False
      with 2 show ?thesis
        by (simp add: appends_def fdt_property_def fdt_property_placeholder_def Let_def writing_probe [OF w] flags
            grab_space [OF 2(3) L] FDT_ERR_NOSPACE_def)
    next
      case True
      then show ?thesis
        using property_written [OF w 2(1-3) t True] with_property_holds [OF 2(3-5) t True] 2(6)
        by (simp add: appends_def)
    qed
  qed
qed

lemma emit_appends: "holds f ts \<Longrightarrow> wf_token t \<Longrightarrow> appends ts t f (emit t f)"
  by (cases t) (simp_all add: begin_node_appends property_appends end_node_appends del: wf_token.simps)

end
