(* ===== verification/Fdt_Finish.thy ===== *)
theory Fdt_Finish
  imports Fdt_Writer
begin

text \<open>
  The end of the writing: the walk of \<^verbatim>\<open>fdt_finish\<close> over the structure block, and that the finished blob
  decodes to the tokens that were written. The locale \<open>tree_writer\<close> is the contract the client relies
  on; it is interpreted on the calls of the writer.
\<close>

section \<open>Alignment\<close>

lemma and_not_mask_unat: "unat (w AND NOT (mask k) :: 'a::len word) = unat w div 2 ^ k * 2 ^ k"
proof -
  have "unat (w AND NOT (mask k)) = push_bit k (drop_bit k (unat w))"
    by (rule bit_eqI) (auto simp: bit_simps dest: bit_imp_le_length)
  then show ?thesis
    by (simp only: push_bit_eq_mult drop_bit_eq_div)
qed

lemma align_up_4:
  assumes "x + 3 < 2 ^ 32"
  shows "align_up (of_nat x :: 32 word) 4 = of_nat (FDT_TAGALIGN x)"
proof -
  have "(3 :: 32 word) = mask 2" by (simp add: mask_eq_exp_minus_1)
  then have "align_up (of_nat x :: 32 word) 4 = (of_nat (x + 3)) AND NOT (mask 2)"
    by (simp add: align_up_def align_down_def add.commute)
  moreover have "unat (of_nat (x + 3) :: 32 word) = x + 3"
    using assms by (simp only: unat_of_nat) simp
  ultimately have "unat (align_up (of_nat x :: 32 word) 4) = FDT_TAGALIGN x"
    by (simp only: and_not_mask_unat FDT_TAGALIGN_def) simp
  from arg_cong [OF this, of "of_nat :: nat \<Rightarrow> 32 word"] show ?thesis
    by simp
qed

section \<open>The walk over the structure block\<close>

definition walkable :: "fdt \<Rightarrow> bool" where
  "walkable f \<longleftrightarrow> length (fdt_bytes f) = unat (fdt_totalsize f) \<and> unat (fdt_totalsize f) < 2 ^ 31 \<and>
     fdt_version f = 0x11 \<and> FDT_V17_SIZE \<le> unat (fdt_off_dt_struct f) \<and>
     unat (fdt_off_dt_struct f) + unat (fdt_size_dt_struct f) \<le> unat (fdt_totalsize f)"

lemma struct_block_length: "walkable f \<Longrightarrow> length (struct_block f) = unat (fdt_size_dt_struct f)"
  by (simp add: walkable_def struct_block_def)

lemma offset_ptr_inside:
  assumes w: "walkable f" and "p + len \<le> unat (fdt_size_dt_struct f)"
  shows "fdt_offset_ptr f (of_nat p) (of_nat len) = Some (unat (fdt_off_dt_struct f) + p)"
proof -
  have b: "unat (fdt_off_dt_struct f) + p + len \<le> unat (fdt_totalsize f)" "unat (fdt_totalsize f) < 2 ^ 31"
    using assms by (auto simp: walkable_def)
  have p: "unat (of_nat p :: 32 word) = p"
    using b by (simp add: unat_of_nat)
  have a: "unat (of_nat p + fdt_off_dt_struct f) = unat (fdt_off_dt_struct f) + p"
    unfolding add.commute [of "of_nat p"] by (rule unat_plus_of_nat) (use b in simp)
  have l: "unat (of_nat p + fdt_off_dt_struct f + of_nat len) = unat (fdt_off_dt_struct f) + p + len"
    using b a by (subst unat_plus_of_nat) simp_all
  have e: "unat (of_nat p + of_nat len :: 32 word) = p + len"
    using b p by (subst unat_plus_of_nat) simp_all
  show ?thesis
    using w b assms(2) unfolding fdt_offset_ptr_def Let_def sless_0_iff word_less_nat_alt p a l e
    by (simp add: walkable_def)
qed

lemma block_bytes:
  assumes "walkable f" "p + k \<le> unat (fdt_size_dt_struct f)"
  shows "slice_at (unat (fdt_off_dt_struct f) + p) k (fdt_bytes f) = take k (drop p (struct_block f))"
  using assms by (simp add: walkable_def struct_block_def slice_at_def take_drop min_def add.commute)

lemma block_ld32:
  assumes "walkable f" "drop p (struct_block f) = be_bytes 4 w @ r"
  shows "fdt_ld32 f (unat (fdt_off_dt_struct f) + p) = w \<and> p + 4 \<le> unat (fdt_size_dt_struct f)"
proof -
  have "length (drop p (struct_block f)) = 4 + length r"
    using assms(2) by simp
  then have "p + 4 \<le> unat (fdt_size_dt_struct f)"
    using struct_block_length [OF assms(1)] by simp
  with assms show ?thesis
    by (simp add: fdt_ld32_def block_bytes)
qed

lemma skipName_ok:
  assumes "walkable f"
  shows "0 \<notin> set n \<Longrightarrow> drop p (struct_block f) = n @ 0 # r \<Longrightarrow> skipName f (of_nat p) = Some (of_nat (p + length n + 1))"
proof (induction n arbitrary: p)
  case Nil
  then have "length (drop p (struct_block f)) = Suc (length r)" by simp
  then have l: "p + 1 \<le> unat (fdt_size_dt_struct f)"
    using struct_block_length [OF assms] by simp
  moreover have "fdt_bytes f ! (unat (fdt_off_dt_struct f) + p) = 0"
    using block_bytes [OF assms l] Nil assms l
    by (simp add: slice_at_def walkable_def take_Suc_conv_app_nth take_Suc drop_Suc hd_drop_conv_nth)
  ultimately show ?case
    using offset_ptr_inside [OF assms, of p 1] by (subst skipName.simps) (simp add: add.commute)
next
  case (Cons b n)
  then have "length (drop p (struct_block f)) = Suc (Suc (length n + length r))" by simp
  then have l: "p + 1 \<le> unat (fdt_size_dt_struct f)"
    using struct_block_length [OF assms] by simp
  moreover have "fdt_bytes f ! (unat (fdt_off_dt_struct f) + p) = b"
    using block_bytes [OF assms l] Cons assms l
    by (simp add: slice_at_def walkable_def take_Suc hd_drop_conv_nth)
  moreover have "drop (Suc p) (struct_block f) = n @ 0 # r"
    using Cons.prems(2) by (metis append_Cons drop_Suc list.sel(3) tl_drop)
  ultimately show ?case
    using offset_ptr_inside [OF assms, of p 1] Cons.IH [of "Suc p"] Cons.prems(1)
    by (subst skipName.simps) (simp add: add.commute)
qed


primrec cell_tag :: "fdt_cell \<Rightarrow> 32 word" where
  "cell_tag (CBegin n pad) = FDT_BEGIN_NODE"
| "cell_tag (CProp off v pad) = FDT_PROP"
| "cell_tag CEnd = FDT_END_NODE"

lemma next_tag_aligned:
  assumes w: "walkable f" and b: "p + k \<le> unat (fdt_size_dt_struct f)"
  shows "fdt_offset_ptr f (of_nat p) (of_nat (p + k) - of_nat p) \<noteq> None"
    "align_up (of_nat (p + k) :: 32 word) 4 = of_nat (FDT_TAGALIGN (p + k))"
proof -
  have "of_nat (p + k) - of_nat p = (of_nat k :: 32 word)"
    by simp
  then show "fdt_offset_ptr f (of_nat p) (of_nat (p + k) - of_nat p) \<noteq> None"
    using offset_ptr_inside [OF w b] by simp
  show "align_up (of_nat (p + k) :: 32 word) 4 = of_nat (FDT_TAGALIGN (p + k))"
    using w b by (intro align_up_4) (simp add: walkable_def)
qed

lemma cell_room:
  assumes w: "walkable f" and c: "wf_cell c" "drop p (struct_block f) = enc c @ r"
  shows "p + cell_size c \<le> unat (fdt_size_dt_struct f)"
    "fdt_offset_ptr f (of_nat p) 4 = Some (unat (fdt_off_dt_struct f) + p)"
proof -
  show l: "p + cell_size c \<le> unat (fdt_size_dt_struct f)"
    using arg_cong [OF c(2), of length] cell_size_aligned(2) [of c]
    by (simp add: struct_block_length [OF w] length_enc [OF c(1)])
  show "fdt_offset_ptr f (of_nat p) 4 = Some (unat (fdt_off_dt_struct f) + p)"
    using offset_ptr_inside [OF w, of p 4] l cell_size_aligned(2) [of c] by simp
qed

lemma next_tag_begin:
  assumes w: "walkable f" and c: "wf_cell (CBegin n pad)" "drop p (struct_block f) = enc (CBegin n pad) @ r"
    and p: "p mod 4 = 0"
  shows "fdt_next_tag f (of_nat p) = (FDT_BEGIN_NODE, of_nat (p + cell_size (CBegin n pad)))"
proof -
  note l = cell_room [OF w c]
  have t: "fdt_ld32 f (unat (fdt_off_dt_struct f) + p) = FDT_BEGIN_NODE"
    using block_ld32 [OF w] c(2) by simp
  have "drop (p + 4) (struct_block f) = n @ 0 # pad @ r"
    using arg_cong [OF c(2), of "drop 4"] by (simp add: add.commute)
  then have s: "skipName f (of_nat p + 4) = Some (of_nat (p + (4 + length n + 1)))"
    using skipName_ok [OF w, of n "p + 4"] c(1) by (simp add: ac_simps)
  have k: "p + (4 + length n + 1) \<le> unat (fdt_size_dt_struct f)"
    using l(1) FDT_TAGALIGN_bounds(1) [of "length n + 1"] by simp
  have a: "FDT_TAGALIGN (p + (4 + length n + 1)) = p + cell_size (CBegin n pad)"
    unfolding cell_size.simps FDT_TAGALIGN_def using p by presburger
  show ?thesis
    unfolding fdt_next_tag_def using next_tag_aligned [OF w k]
    by (simp only: l(2) option.case Let_def t s a if_True refl if_False)
qed

lemma prop_length_guard:
  assumes b: "p + 12 + n < 2 ^ 31"
  shows "\<not> (0x7FFFFFFF \<le> of_nat n + (of_nat p + 4 :: 32 word) \<or> of_nat n + (of_nat p + 4) < (of_nat p + 4 :: 32 word))"
proof -
  have "unat (of_nat n + (of_nat p + 4) :: 32 word) = unat (of_nat (p + 4 + n) :: 32 word)"
    by (simp add: ac_simps)
  then have s: "unat (of_nat n + (of_nat p + 4) :: 32 word) = p + 4 + n"
    using b by (simp only: unat_of_nat) simp
  have "unat (of_nat p + 4 :: 32 word) = unat (of_nat (p + 4) :: 32 word)"
    by (simp add: ac_simps)
  then have "unat (of_nat p + 4 :: 32 word) = p + 4"
    using b by (simp only: unat_of_nat) simp
  with s b show ?thesis
    by (simp add: word_le_nat_alt word_less_nat_alt)
qed

lemma next_tag_prop:
  assumes w: "walkable f" and c: "wf_cell (CProp off v pad)" "drop p (struct_block f) = enc (CProp off v pad) @ r"
    and p: "p mod 4 = 0"
  shows "fdt_next_tag f (of_nat p) = (FDT_PROP, of_nat (p + cell_size (CProp off v pad)))"
proof -
  let ?len = "of_nat (length v) :: 32 word"
  note l = cell_room [OF w c]
  have t: "fdt_ld32 f (unat (fdt_off_dt_struct f) + p) = FDT_PROP"
    using block_ld32 [OF w] c(2) by simp
  have "drop (p + 4) (struct_block f) = be_bytes 4 ?len @ be_bytes 4 off @ v @ pad @ r"
    using arg_cong [OF c(2), of "drop 4"] by (simp add: add.commute)
  from block_ld32 [OF w this] have len: "fdt_ld32 f (unat (fdt_off_dt_struct f) + (p + 4)) = ?len"
    by simp
  have k: "p + (12 + length v) \<le> unat (fdt_size_dt_struct f)"
    using l(1) FDT_TAGALIGN_bounds(1) [of "length v"] by simp
  then have "fdt_offset_ptr f (of_nat p + 4) 4 = Some (unat (fdt_off_dt_struct f) + (p + 4))"
    using offset_ptr_inside [OF w, of "p + 4" 4] by (simp add: add.commute)
  moreover have "\<not> (0x7FFFFFFF \<le> ?len + (of_nat p + 4) \<or> ?len + (of_nat p + 4) < of_nat p + 4)"
    using w k by (intro prop_length_guard) (simp add: walkable_def)
  moreover have "of_nat p + 4 + 8 + ?len = of_nat (p + (12 + length v))"
    by simp
  moreover have "\<not> fdt_version f < 0x10"
    using w by (simp add: walkable_def)
  moreover have "FDT_TAGALIGN (p + (12 + length v)) = p + cell_size (CProp off v pad)"
    unfolding cell_size.simps FDT_TAGALIGN_def using p by presburger
  moreover have "FDT_PROP \<noteq> FDT_BEGIN_NODE"
    by (simp add: fdt_tags)
  ultimately show ?thesis
    unfolding fdt_next_tag_def using next_tag_aligned [OF w k]
    by (simp only: l(2) option.case Let_def t len if_True refl if_False conj_assoc simp_thms)
qed

lemma next_tag_plain:
  assumes w: "walkable f" and c: "drop p (struct_block f) = be_bytes 4 tag @ r" and p: "p mod 4 = 0"
    and t: "tag \<in> {FDT_END_NODE, FDT_END}"
  shows "fdt_next_tag f (of_nat p) = (tag, of_nat (p + 4))"
proof -
  have l: "p + 4 \<le> unat (fdt_size_dt_struct f)" "fdt_ld32 f (unat (fdt_off_dt_struct f) + p) = tag"
    using block_ld32 [OF w c] by simp_all
  have "FDT_TAGALIGN (p + 4) = p + 4"
    using p by (simp add: FDT_TAGALIGN_def) presburger
  then show ?thesis
    unfolding fdt_next_tag_def using next_tag_aligned [OF w l(1)] offset_ptr_inside [OF w l(1)] t
    by (auto simp: Let_def l(2) fdt_tags)
qed

lemma next_tag_cell:
  assumes w: "walkable f" and c: "wf_cell c" "drop p (struct_block f) = enc c @ r" and p: "p mod 4 = 0"
  shows "fdt_next_tag f (of_nat p) = (cell_tag c, of_nat (p + cell_size c))"
proof (cases c)
  case (CBegin n pad)
  with next_tag_begin [OF w, of n pad p r] c p show ?thesis by simp
next
  case (CProp off v pad)
  with next_tag_prop [OF w, of off v pad p r] c p show ?thesis by simp
next
  case CEnd
  with next_tag_plain [OF w, of p FDT_END_NODE r] c p show ?thesis by simp
qed

lemma next_tag_end:
  assumes w: "walkable f" and c: "drop p (struct_block f) = be_bytes 4 FDT_END" and p: "p mod 4 = 0"
  shows "fdt_next_tag f (of_nat p) = (FDT_END, of_nat (p + 4)) \<and> p + 4 = unat (fdt_size_dt_struct f)"
proof
  show "fdt_next_tag f (of_nat p) = (FDT_END, of_nat (p + 4))"
    using next_tag_plain [OF w, of p FDT_END "[]"] c p by simp
  have "length (drop p (struct_block f)) = 4"
    by (simp add: c)
  then show "p + 4 = unat (fdt_size_dt_struct f)"
    by (simp add: struct_block_length [OF w])
qed

lemma splice_inner:
  "p + n \<le> length B \<Longrightarrow> q + length xs \<le> n \<Longrightarrow>
     splice_at (p + q) xs B = splice_at p (splice_at q xs (slice_at p n B)) B"
  by (intro nth_equalityI) (auto simp: nth_splice)

lemma splice_slice_id: "p + n \<le> length B \<Longrightarrow> splice_at p (slice_at p n B) B = B"
  by (intro nth_equalityI) (auto simp: nth_splice)

lemma splice_middle: "length y = length x \<Longrightarrow> splice_at (length a) y (a @ x @ b) = a @ y @ b"
  by (simp add: splice_at_def)

lemma splice_absorb:
  "p \<le> q \<Longrightarrow> q + length xs \<le> p + length ys \<Longrightarrow> p + length ys \<le> length B \<Longrightarrow>
     splice_at p ys (splice_at q xs B) = splice_at p ys B"
  by (intro nth_equalityI) (auto simp: nth_splice)

lemma block_splice:
  assumes "walkable f" "q + length xs \<le> unat (fdt_size_dt_struct f)"
  shows "struct_block (f\<lparr>fdt_bytes := splice_at (unat (fdt_off_dt_struct f) + q) xs (fdt_bytes f)\<rparr>) =
    splice_at q xs (struct_block f)"
  using assms unfolding walkable_def struct_block_def
  by (intro nth_equalityI) (auto simp: nth_splice)

lemma offset_ptr_w_inside:
  "walkable f \<Longrightarrow> p \<le> unat (fdt_size_dt_struct f) \<Longrightarrow>
     fdt_offset_ptr_w f (of_nat p) = int (unat (fdt_off_dt_struct f) + p)"
proof -
  assume "walkable f" "p \<le> unat (fdt_size_dt_struct f)"
  then have p: "p < 2 ^ 31" by (auto simp: walkable_def)
  then have "unat (of_nat p :: 32 word) = p"
    by (simp only: unat_of_nat) simp
  with p show ?thesis
    by (simp add: fdt_offset_ptr_w_def sint_of_small)
qed

lemma cell_bytes:
  assumes w: "walkable f" and b: "struct_block f = a @ enc c @ r"
  shows "length a + length (enc c) \<le> unat (fdt_size_dt_struct f)"
    "slice_at (unat (fdt_off_dt_struct f) + length a) (length (enc c)) (fdt_bytes f) = enc c"
proof -
  show k: "length a + length (enc c) \<le> unat (fdt_size_dt_struct f)"
    using arg_cong [OF b, of length] by (simp add: struct_block_length [OF w])
  show "slice_at (unat (fdt_off_dt_struct f) + length a) (length (enc c)) (fdt_bytes f) = enc c"
    using block_bytes [OF w k] b by simp
qed

text \<open>Rewriting the name offset of a property rewrites exactly that cell.\<close>

lemma put_nameoff:
  assumes w: "walkable f" and b: "struct_block f = a @ enc (CProp off v pad) @ r"
  defines "q \<equiv> unat (fdt_off_dt_struct f) + (length a + 8)"
  shows "fdt_ld32 f q = off"
    "fdt_put (int q) (be_bytes 4 off') f =
      f\<lparr>fdt_bytes := splice_at (unat (fdt_off_dt_struct f) + length a) (enc (CProp off' v pad)) (fdt_bytes f)\<rparr>"
proof -
  let ?S = "unat (fdt_off_dt_struct f)" and ?B = "fdt_bytes f" and ?c = "CProp off v pad"
  note k = cell_bytes [OF w b]
  have "drop (length a + 8) (struct_block f) = be_bytes 4 off @ v @ pad @ r"
    by (simp add: b)
  from block_ld32 [OF w this] show "fdt_ld32 f q = off"
    by (simp add: q_def)
  have "splice_at (?S + length a + 8) (be_bytes 4 off') ?B =
      splice_at (?S + length a) (splice_at 8 (be_bytes 4 off') (enc ?c)) ?B"
    using splice_inner [of "?S + length a" "length (enc ?c)" ?B 8 "be_bytes 4 off'"] w k
    by (simp add: walkable_def)
  moreover have "splice_at 8 (be_bytes 4 off') (enc ?c) = enc (CProp off' v pad)"
    using splice_middle [of "be_bytes 4 off'" "be_bytes 4 off"
        "be_bytes 4 FDT_PROP @ be_bytes 4 (of_nat (length v) :: 32 word)" "v @ pad"] by simp
  moreover have "fdt_put (int q) (be_bytes 4 off') f = f\<lparr>fdt_bytes := splice_at q (be_bytes 4 off') ?B\<rparr>"
    using w k(1) by (intro fdt_put_ok) (auto simp: walkable_def q_def)
  ultimately show "fdt_put (int q) (be_bytes 4 off') f =
      f\<lparr>fdt_bytes := splice_at (?S + length a) (enc (CProp off' v pad)) ?B\<rparr>"
    by (simp add: q_def add.assoc)
qed

lemma splice_same_cell:
  assumes w: "walkable f" and b: "struct_block f = a @ enc c @ r"
  shows "f\<lparr>fdt_bytes := splice_at (unat (fdt_off_dt_struct f) + length a) (enc c) (fdt_bytes f)\<rparr> = f"
  using splice_slice_id [of "unat (fdt_off_dt_struct f) + length a" "length (enc c)" "fdt_bytes f"]
    cell_bytes [OF w b] w by (simp add: walkable_def)

lemma fix_cell:
  assumes w: "walkable f" and c: "wf_cell c" and b: "struct_block f = a @ enc c @ r" and a: "length a mod 4 = 0"
  defines "f1 \<equiv> f\<lparr>fdt_bytes := splice_at (unat (fdt_off_dt_struct f) + length a) (enc (adjust (fdt_size_dt_strings f) c)) (fdt_bytes f)\<rparr>"
  shows "fixNames (of_nat (length a)) f = fixNames (of_nat (length a + cell_size c)) f1" (is ?step)
    "walkable f1" "struct_block f1 = a @ enc (adjust (fdt_size_dt_strings f) c) @ r"
proof -
  have l: "length (enc (adjust (fdt_size_dt_strings f) c)) = length (enc c)"
    using c by (simp add: length_enc)
  note k = cell_bytes(1) [OF w b]
  show "walkable f1"
    using w k l by (simp add: walkable_def f1_def)
  show "struct_block f1 = a @ enc (adjust (fdt_size_dt_strings f) c) @ r"
    using block_splice [OF w, of "length a" "enc (adjust (fdt_size_dt_strings f) c)"] k l
    by (simp add: f1_def b splice_middle)
  have nt: "fdt_next_tag f (of_nat (length a)) = (cell_tag c, of_nat (length a + cell_size c))"
    using next_tag_cell [OF w c, of "length a" r] a b by simp
  have same: "f1 = f" if "adjust (fdt_size_dt_strings f) c = c"
    using splice_same_cell [OF w b] that by (simp add: f1_def)
  show ?step
  proof (cases c)
    case (CProp off v pad)
    have p: "fdt_offset_ptr_w f (of_nat (length a)) + 8 = int (unat (fdt_off_dt_struct f) + (length a + 8))"
      using offset_ptr_w_inside [OF w, of "length a"] k by simp
    note n = put_nameoff [OF w b [unfolded CProp]]
    have put: "fdt_put (int (unat (fdt_off_dt_struct f) + (length a + 8))) (be_bytes 4 (off + fdt_size_dt_strings f)) f = f1"
      unfolding n(2) by (simp add: f1_def CProp)
    show ?thesis
      by (subst fixNames.simps, simp only: nt prod.case p Let_def nat_int n(1) put) (simp add: CProp fdt_tags)
  next
    case (CBegin n pad)
    then show ?thesis
      using same by (subst fixNames.simps, simp only: nt prod.case) (simp add: fdt_tags)
  next
    case CEnd
    then show ?thesis
      using same by (subst fixNames.simps, simp only: nt prod.case) (simp add: fdt_tags)
  qed
qed

lemma length_adjusted:
  "\<forall>c \<in> set cs. wf_cell c \<Longrightarrow> length (concat (map (\<lambda>c. enc (adjust m c)) cs)) = length (concat (map enc cs))"
  by (induction cs) (simp_all add: length_enc)

lemma fixNames_ok:
  assumes "walkable f" "\<forall>c \<in> set cs. wf_cell c" "struct_block f = a @ concat (map enc cs) @ be_bytes 4 FDT_END"
    and "length a mod 4 = 0"
  shows "fixNames (of_nat (length a)) f = Some (fdt_size_dt_struct f, f\<lparr>fdt_bytes := splice_at (unat (fdt_off_dt_struct f))
     (a @ concat (map (\<lambda>c. enc (adjust (fdt_size_dt_strings f) c)) cs) @ be_bytes 4 FDT_END) (fdt_bytes f)\<rparr>)"
  using assms
proof (induction cs arbitrary: a f)
  case Nil
  have "splice_at (unat (fdt_off_dt_struct f)) (struct_block f) (fdt_bytes f) = fdt_bytes f"
    using Nil(1) unfolding struct_block_def by (intro splice_slice_id) (simp add: walkable_def)
  moreover have "fdt_next_tag f (of_nat (length a)) = (FDT_END, fdt_size_dt_struct f)"
  proof -
    have nt: "fdt_next_tag f (of_nat (length a)) = (FDT_END, of_nat (length a + 4)) \<and> length a + 4 = unat (fdt_size_dt_struct f)"
      by (rule next_tag_end [OF Nil(1)]) (use Nil(3,4) in simp_all)
    have "of_nat (unat (fdt_size_dt_struct f)) = fdt_size_dt_struct f" by simp
    then show ?thesis
      unfolding nt [THEN conjunct1] nt [THEN conjunct2] by simp
  qed
  ultimately show ?case
    using Nil(3) by (subst fixNames.simps) simp
next
  case (Cons c cs)
  let ?m = "fdt_size_dt_strings f" and ?S = "unat (fdt_off_dt_struct f)"
  let ?b = "a @ enc (adjust ?m c)"
  have c: "wf_cell c" and b: "struct_block f = a @ enc c @ concat (map enc cs) @ be_bytes 4 FDT_END"
    using Cons.prems by simp_all
  define f1 where "f1 = f\<lparr>fdt_bytes := splice_at (?S + length a) (enc (adjust ?m c)) (fdt_bytes f)\<rparr>"
  have tl: "\<forall>c \<in> set cs. wf_cell c"
    using Cons.prems(2) by simp
  note step = fix_cell [OF Cons.prems(1) c b Cons.prems(4), folded f1_def]
  have l: "length ?b = length a + cell_size c" "length ?b mod 4 = 0"
    using c Cons.prems(4) cell_size_aligned(1) [of c] by (simp_all add: length_enc mod_add_eq [of _ 4, symmetric])
  have "fixNames (of_nat (length ?b)) f1 = Some (fdt_size_dt_struct f1, f1\<lparr>fdt_bytes := splice_at (unat (fdt_off_dt_struct f1))
     (?b @ concat (map (\<lambda>c. enc (adjust (fdt_size_dt_strings f1) c)) cs) @ be_bytes 4 FDT_END) (fdt_bytes f1)\<rparr>)"
    using Cons.IH [OF step(2), of ?b] step(3) l(2) Cons.prems(2) by simp
  moreover have "splice_at ?S (?b @ concat (map (\<lambda>c. enc (adjust ?m c)) cs) @ be_bytes 4 FDT_END) (fdt_bytes f1) =
      splice_at ?S (?b @ concat (map (\<lambda>c. enc (adjust ?m c)) cs) @ be_bytes 4 FDT_END) (fdt_bytes f)"
  proof -
    have "?S + length (?b @ concat (map (\<lambda>c. enc (adjust ?m c)) cs) @ be_bytes 4 FDT_END) \<le> length (fdt_bytes f)"
      using arg_cong [OF b, of length] Cons.prems(1) c
      by (simp add: struct_block_length [OF Cons.prems(1)] length_enc walkable_def
          length_adjusted [OF tl])
    then show ?thesis
      by (simp add: f1_def splice_absorb)
  qed
  ultimately show ?case
    using step(1) l(1) by (simp add: f1_def)
qed


section \<open>The finished blob\<close>

lemma header_field_image:
  assumes "k < 10" "40 \<le> n"
  shows "header_field (take n (fdt_image f)) k = unat ([fdt_magic f, fdt_totalsize f, fdt_off_dt_struct f,
     fdt_off_dt_strings f, fdt_off_mem_rsvmap f, fdt_version f, fdt_last_comp_version f, fdt_boot_cpuid_phys f,
     fdt_size_dt_strings f, fdt_size_dt_struct f] ! k)"
proof -
  have "slice_at (4 * k) 4 (concat (map (be_bytes 4) ws) @ r) = be_bytes 4 (ws ! k)" if "k < length ws" for ws :: "32 word list" and r k
    using that
  proof (induction ws arbitrary: k)
    case (Cons w ws)
    then show ?case
      by (cases k) (simp_all add: slice_at_def)
  qed simp
  moreover have "slice_at (4 * k) 4 (take n (fdt_image f)) = slice_at (4 * k) 4 (fdt_image f)"
    using assms by (simp add: slice_at_def drop_take min_def)
  ultimately show ?thesis
    using assms(1) by (simp only: header_field_def fdt_image_def fdt_header_def be_word_be_bytes list.size)
qed

lemma length_fdt_header [simp]: "length (fdt_header f) = FDT_V17_SIZE"
  by (simp add: fdt_header_def FDT_V17_SIZE_def)

lemma slice_image:
  assumes "FDT_V17_SIZE \<le> p" "p + k \<le> n" "n \<le> length (fdt_bytes f)"
  shows "slice_at p k (take n (fdt_image f)) = slice_at p k (fdt_bytes f)"
  using assms by (simp add: slice_at_def fdt_image_def drop_take min_def)

definition strings_of :: "fdt \<Rightarrow> byte list" where
  "strings_of f = slice_at (unat (fdt_off_dt_strings f)) (unat (fdt_size_dt_strings f)) (fdt_bytes f)"

text \<open>The stages of \<^const>\<open>fdt_finish\<close>: the end tag, the strings moved down, the name offsets fixed and the
  header completed. Each lemma below describes one stage.\<close>

definition end_stage :: "fdt \<Rightarrow> fdt" where
  "end_stage f = f\<lparr>fdt_size_dt_struct := fdt_size_dt_struct f + 4,
     fdt_bytes := splice_at (struct_top f) (be_bytes 4 FDT_END) (fdt_bytes f)\<rparr>"

definition strings_stage :: "fdt \<Rightarrow> fdt" where
  "strings_stage f = (end_stage f)\<lparr>fdt_bytes := splice_at (struct_top f + 4) (strtab f) (fdt_bytes (end_stage f)),
     fdt_off_dt_strings := fdt_off_dt_struct f + (fdt_size_dt_struct f + 4)\<rparr>"

definition fixed_cells :: "fdt \<Rightarrow> fdt_cell list \<Rightarrow> byte list" where
  "fixed_cells f cs = concat (map (\<lambda>c. enc (adjust (fdt_size_dt_strings f) c)) cs) @ be_bytes 4 FDT_END"

definition names_stage :: "fdt \<Rightarrow> fdt_cell list \<Rightarrow> fdt" where
  "names_stage f cs = (strings_stage f)\<lparr>fdt_bytes :=
     splice_at (unat (fdt_off_dt_struct f)) (fixed_cells f cs) (fdt_bytes (strings_stage f))\<rparr>"

definition header_stage :: "fdt \<Rightarrow> fdt_cell list \<Rightarrow> fdt" where
  "header_stage f cs = (names_stage f cs)\<lparr>
     fdt_totalsize := fdt_off_dt_struct f + (fdt_size_dt_struct f + 4) + fdt_size_dt_strings f,
     fdt_last_comp_version := FDT_LAST_COMPATIBLE_VERSION, fdt_magic := FDT_MAGIC\<rparr>"

lemma stage_fields [simp]:
  "fdt_off_dt_struct (end_stage f) = fdt_off_dt_struct f" "fdt_size_dt_struct (end_stage f) = fdt_size_dt_struct f + 4"
  "fdt_size_dt_strings (end_stage f) = fdt_size_dt_strings f" "fdt_totalsize (end_stage f) = fdt_totalsize f"
  "fdt_off_dt_strings (end_stage f) = fdt_off_dt_strings f" "fdt_version (end_stage f) = fdt_version f"
  "fdt_ub (end_stage f) = fdt_ub f"
  "fdt_off_dt_struct (strings_stage f) = fdt_off_dt_struct f" "fdt_size_dt_struct (strings_stage f) = fdt_size_dt_struct f + 4"
  "fdt_size_dt_strings (strings_stage f) = fdt_size_dt_strings f" "fdt_version (strings_stage f) = fdt_version f"
  "fdt_off_dt_strings (strings_stage f) = fdt_off_dt_struct f + (fdt_size_dt_struct f + 4)"
  "fdt_ub (strings_stage f) = fdt_ub f" "fdt_magic (strings_stage f) = fdt_magic f"
  "fdt_totalsize (strings_stage f) = fdt_totalsize f"
  by (simp_all add: end_stage_def strings_stage_def)

lemma finish_room:
  assumes "writing f" "4 \<le> room f"
  shows "struct_top f + 4 + unat (fdt_size_dt_strings f) \<le> unat (fdt_totalsize f)" "unat (fdt_totalsize f) < 2 ^ 31"
    "length (fdt_bytes f) = unat (fdt_totalsize f)" "FDT_V17_SIZE \<le> unat (fdt_off_dt_struct f)"
    "FDT_V17_SIZE \<le> struct_top f" "length (strtab f) = unat (fdt_size_dt_strings f)"
  using assms by (auto simp: writing_def room_def struct_top_def length_strtab)

lemma end_stage_sizes:
  assumes "writing f" "4 \<le> room f"
  shows "unat (fdt_size_dt_struct f + 4) = unat (fdt_size_dt_struct f) + 4"
    "unat (fdt_off_dt_struct f + (fdt_size_dt_struct f + 4)) = struct_top f + 4"
    "length (fdt_bytes (end_stage f)) = unat (fdt_totalsize f)"
    "length (fdt_bytes (strings_stage f)) = unat (fdt_totalsize f)"
proof -
  note b = finish_room [OF assms]
  show n: "unat (fdt_size_dt_struct f + 4) = unat (fdt_size_dt_struct f) + 4"
    using unat_plus_of_nat [of "fdt_size_dt_struct f" 4] b by (simp add: struct_top_def)
  show "unat (fdt_off_dt_struct f + (fdt_size_dt_struct f + 4)) = struct_top f + 4"
    using unat_plus_of_nat [of "fdt_off_dt_struct f" "unat (fdt_size_dt_struct f + 4)"] b n by (simp add: struct_top_def)
  show e: "length (fdt_bytes (end_stage f)) = unat (fdt_totalsize f)"
    using b by (simp add: end_stage_def)
  show "length (fdt_bytes (strings_stage f)) = unat (fdt_totalsize f)"
    using b e by (simp add: strings_stage_def)
qed

lemma end_stage_blocks:
  assumes "writing f" "4 \<le> room f"
  shows "strtab (end_stage f) = strtab f" "struct_block (end_stage f) = struct_block f @ be_bytes 4 FDT_END"
proof -
  note b = finish_room [OF assms]
  show "strtab (end_stage f) = strtab f"
    unfolding strtab_def end_stage_def using b by (simp, intro slice_splice_disjoint) auto
  have "struct_block (end_stage f) = slice_at (unat (fdt_off_dt_struct f)) (unat (fdt_size_dt_struct f) + 4)
      (splice_at (struct_top f) (be_bytes 4 FDT_END) (fdt_bytes f))"
    unfolding struct_block_def stage_fields end_stage_sizes(1) [OF assms] by (simp add: end_stage_def)
  also have "\<dots> = struct_block f @ be_bytes 4 FDT_END"
    using b slice_splice_same [of "struct_top f" "be_bytes 4 FDT_END" "fdt_bytes f"]
    by (simp add: slice_split struct_block_def slice_splice_disjoint struct_top_def)
  finally show "struct_block (end_stage f) = struct_block f @ be_bytes 4 FDT_END" .
qed

lemma strings_stage_block:
  assumes a: "writing f" "4 \<le> room f" and c: "cells f ts cs"
  shows "struct_block (strings_stage f) = concat (map enc cs) @ be_bytes 4 FDT_END" "walkable (strings_stage f)"
proof -
  note b = finish_room [OF a] and n = end_stage_sizes [OF a]
  have "struct_block (strings_stage f) = struct_block (end_stage f)"
    unfolding struct_block_def stage_fields unfolding strings_stage_def using b n
    by (simp, intro slice_splice_disjoint) (auto simp: struct_top_def)
  with c show "struct_block (strings_stage f) = concat (map enc cs) @ be_bytes 4 FDT_END"
    by (simp add: end_stage_blocks [OF a] cells_def)
  show "walkable (strings_stage f)"
    using a(1) b n by (auto simp: walkable_def writing_def struct_top_def)
qed

lemma names_stage_fixed:
  assumes a: "writing f" "4 \<le> room f" and c: "cells f ts cs"
  shows "fixNames 0 (strings_stage f) = Some (fdt_size_dt_struct f + 4, names_stage f cs)"
    "length (fixed_cells f cs) = unat (fdt_size_dt_struct f) + 4"
proof -
  note s = strings_stage_block [OF a c]
  show "fixNames 0 (strings_stage f) = Some (fdt_size_dt_struct f + 4, names_stage f cs)"
    using fixNames_ok [OF s(2), of cs "[]"] s(1) c by (simp add: cells_def names_stage_def fixed_cells_def)
  have "length (fixed_cells f cs) = length (struct_block (strings_stage f))"
    unfolding fixed_cells_def s(1) using c by (simp add: cells_def length_adjusted)
  with struct_block_length [OF s(2)] end_stage_sizes(1) [OF a]
  show "length (fixed_cells f cs) = unat (fdt_size_dt_struct f) + 4"
    by simp
qed

lemma finish_stages:
  assumes a: "writing f" "4 \<le> room f" and c: "cells f ts cs"
  shows "fdt_finish f = Some (0, header_stage f cs)"
proof -
  note b = finish_room [OF a] and n = end_stage_sizes [OF a]
  have g: "fdt_grab_space f 4 = Some (int (struct_top f), f\<lparr>fdt_size_dt_struct := fdt_size_dt_struct f + 4\<rparr>)"
    using grab_space [OF a(1), of 4] a(2) by simp
  have p2: "fdt_put (int (struct_top f)) (be_bytes 4 FDT_END) (f\<lparr>fdt_size_dt_struct := fdt_size_dt_struct f + 4\<rparr>) = end_stage f"
    using b by (simp add: end_stage_def fdt_put_ok)
  have p3: "(fdt_put (int (struct_top f + 4)) (strtab f) (end_stage f))
      \<lparr>fdt_off_dt_strings := fdt_off_dt_struct f + (fdt_size_dt_struct f + 4)\<rparr> = strings_stage f"
    using fdt_put_ok [of "struct_top f + 4" "strtab f" "end_stage f"] b n by (simp add: strings_stage_def)
  have nn: "\<not> fdt_size_dt_struct f + 4 <s 0"
    using n(1) b by (simp add: sless_0_iff struct_top_def)
  have "fdt_size_dt_strings (names_stage f cs) = fdt_size_dt_strings f"
    by (simp add: names_stage_def)
  then show ?thesis
    unfolding fdt_finish_def Let_def writing_probe [OF a(1)] g
    by (simp only: option.case prod.case p2 n(2) end_stage_blocks(1) [OF a] p3 names_stage_fixed(1) [OF a c] stage_fields nn
        if_False simp_thms header_stage_def)
qed

lemma header_stage_blocks:
  assumes a: "writing f" "4 \<le> room f" and c: "cells f ts cs"
  shows "strings_of (header_stage f cs) = strtab f" "struct_block (header_stage f cs) = fixed_cells f cs"
    "length (fdt_bytes (header_stage f cs)) = unat (fdt_totalsize f)"
proof -
  let ?S = "unat (fdt_off_dt_struct f)" and ?m = "unat (fdt_size_dt_strings f)" and ?B = "fdt_bytes (strings_stage f)"
  note b = finish_room [OF a] and n = end_stage_sizes [OF a] and l = names_stage_fixed(2) [OF a c]
  have "strings_of (header_stage f cs) = slice_at (struct_top f + 4) ?m (splice_at ?S (fixed_cells f cs) ?B)"
    using n(2) by (simp add: strings_of_def header_stage_def names_stage_def)
  also have "\<dots> = slice_at (struct_top f + 4) ?m ?B"
    using b l n by (intro slice_splice_disjoint) (auto simp: struct_top_def)
  also have "\<dots> = strtab f"
    using slice_splice_same [of "struct_top f + 4" "strtab f" "fdt_bytes (end_stage f)"] b n by (simp add: strings_stage_def)
  finally show "strings_of (header_stage f cs) = strtab f" .
  have "struct_block (header_stage f cs) = slice_at ?S (length (fixed_cells f cs)) (splice_at ?S (fixed_cells f cs) ?B)"
    using n(1) l by (simp add: struct_block_def header_stage_def names_stage_def)
  also have "\<dots> = fixed_cells f cs"
    by (rule slice_splice_same) (use b l n in \<open>simp add: struct_top_def\<close>)
  finally show "struct_block (header_stage f cs) = fixed_cells f cs" .
  show "length (fdt_bytes (header_stage f cs)) = unat (fdt_totalsize f)"
    using b l n by (simp add: header_stage_def names_stage_def struct_top_def)
qed

lemma header_stage_sizes:
  assumes a: "writing f" "4 \<le> room f"
  shows "\<not> fdt_ub (header_stage f cs)" "fdt_magic (header_stage f cs) = FDT_MAGIC"
    "unat (fdt_totalsize (header_stage f cs)) = struct_top f + 4 + unat (fdt_size_dt_strings f)"
    "fdt_off_dt_struct (header_stage f cs) = fdt_off_dt_struct f"
    "unat (fdt_off_dt_strings (header_stage f cs)) = struct_top f + 4"
    "fdt_size_dt_strings (header_stage f cs) = fdt_size_dt_strings f"
    "unat (fdt_size_dt_struct (header_stage f cs)) = unat (fdt_size_dt_struct f) + 4"
proof -
  note b = finish_room [OF a] and n = end_stage_sizes [OF a]
  show "\<not> fdt_ub (header_stage f cs)"
    using a(1) by (simp add: header_stage_def names_stage_def writing_def)
  show "unat (fdt_totalsize (header_stage f cs)) = struct_top f + 4 + unat (fdt_size_dt_strings f)"
    using unat_plus_of_nat [of "fdt_off_dt_struct f + (fdt_size_dt_struct f + 4)" "unat (fdt_size_dt_strings f)"] n b
    by (simp add: header_stage_def)
qed (simp_all add: header_stage_def names_stage_def end_stage_sizes [OF a])

lemma finish_ok:
  assumes h: "holds f ts" and room: "4 \<le> room f"
  shows "\<exists>f'. fdt_finish f = Some (0, f') \<and> \<not> fdt_ub f' \<and> unat (fdt_totalsize f') + room f = unat (fdt_totalsize f) + 4 \<and>
     unat (fdt_totalsize f') \<le> length (fdt_image f') \<and> fdt_decode (take (unat (fdt_totalsize f')) (fdt_image f')) = Some ts"
proof -
  let ?S = "unat (fdt_off_dt_struct f)" and ?n = "unat (fdt_size_dt_struct f)" and ?m = "unat (fdt_size_dt_strings f)"
  obtain cs where w: "writing f" and c: "cells f ts cs"
    using h by (auto simp: holds_def)
  have b: "struct_top f + 4 + ?m \<le> unat (fdt_totalsize f)" "FDT_V17_SIZE \<le> ?S" "length (fdt_bytes f) < 2 ^ 31"
    "length (fdt_bytes f) = unat (fdt_totalsize f)"
    using w room by (auto simp: writing_def room_def struct_top_def)
  let ?f = "header_stage f cs"
  note z = header_stage_sizes [OF w room, of cs] and k = header_stage_blocks [OF w room c]
  let ?img = "take (struct_top f + 4 + ?m) (fdt_image ?f)"
  have l: "length ?img = struct_top f + 4 + ?m" "40 \<le> struct_top f + 4 + ?m"
    using k(3) b by (simp_all add: fdt_image_def FDT_V17_SIZE_def struct_top_def)
  note hf = header_field_image [OF _ l(2), of _ ?f]
  have hd: "header_field ?img 0 = unat FDT_MAGIC" "header_field ?img 1 = struct_top f + 4 + ?m" "header_field ?img 2 = ?S"
    "header_field ?img 3 = struct_top f + 4" "header_field ?img 8 = ?m" "header_field ?img 9 = ?n + 4"
    using hf [of 0] hf [of 1] hf [of 2] hf [of 3] hf [of 8] hf [of 9] z by simp_all
  have s: "slice_at (struct_top f + 4) ?m ?img = strtab f"
    using slice_image [of "struct_top f + 4" ?m "struct_top f + 4 + ?m" ?f] b z k
    by (simp add: strings_of_def struct_top_def)
  have d: "slice_at ?S (?n + 4) ?img = struct_block ?f"
    using slice_image [of ?S "?n + 4" "struct_top f + 4 + ?m" ?f] b z k
    by (simp add: struct_block_def struct_top_def)
  have "length (concat (map enc cs)) = length (struct_block f)"
    using c by (simp add: cells_def)
  then have "length (concat (map enc cs)) < 2 ^ 32" "length (strtab f) < 2 ^ 32"
    "of_nat (length (strtab f)) = fdt_size_dt_strings f"
    using b by (simp_all add: struct_block_def struct_top_def length_strtab [OF w])
  then have "parse_struct (strtab f) (struct_block ?f) = Some ts"
    using parse_encoding [of "strtab f" ts cs] c k(2) by (simp add: cells_def fixed_cells_def)
  then have "fdt_decode ?img = Some ts"
    unfolding fdt_decode_def hd s d l using b l(2) by (simp add: FDT_V17_SIZE_def struct_top_def)
  moreover have "struct_top f + 4 + ?m + room f = unat (fdt_totalsize f) + 4"
    using b(1) by (simp add: room_def)
  ultimately show ?thesis
    using finish_stages [OF w room c] z l(1) by (intro exI [of _ ?f]) (simp add: min_def split: if_splits)
qed

section \<open>The contract of the writer\<close>

locale tree_writer =
  fixes put :: "'t \<Rightarrow> 's \<Rightarrow> int \<times> 's" and has :: "'s \<Rightarrow> 't list \<Rightarrow> bool"
    and space :: "'s \<Rightarrow> nat" and cost :: "'t \<Rightarrow> nat" and ok :: "'t \<Rightarrow> bool"
  assumes put_done: "has s ts \<Longrightarrow> ok t \<Longrightarrow> put t s = (0, s') \<Longrightarrow> has s' (ts @ [t]) \<and> space s \<le> space s' + cost t"
    and put_refused: "has s ts \<Longrightarrow> ok t \<Longrightarrow> put t s = (r, s') \<Longrightarrow> r \<noteq> 0 \<Longrightarrow>
      has s' ts \<and> space s' = space s \<and> space s < cost t"

interpretation sw: tree_writer emit holds room token_cost wf_token
proof
  fix f f' ts t r
  assume h: "holds f ts" "wf_token t"
  show "holds f' (ts @ [t]) \<and> room f \<le> room f' + token_cost t" if "emit t f = (0, f')"
    using emit_appends [OF h] that by (simp add: appends_def)
  show "holds f' ts \<and> room f' = room f \<and> room f < token_cost t" if "emit t f = (r, f')" "r \<noteq> 0"
    using emit_appends [OF h] that by (simp add: appends_def)
qed

text \<open>A created buffer is an empty tree.\<close>

lemma create_ok:
  assumes "length (fdt_bytes f) = n" "64 \<le> n" "n < 2 ^ 31" "\<not> fdt_ub f"
  shows "\<exists>f1 f2. fdt_create f n = (0, f1) \<and> fdt_finish_reservemap f1 = (0, f2) \<and> holds f2 [] \<and> room f2 = n - 64 \<and>
    unat (fdt_totalsize f2) = n"
proof -
  define f1 where "f1 = snd (fdt_create f n)"
  have n: "unat (of_nat n :: 32 word) = n"
    using assms(3) by (simp only: unat_of_nat) simp
  have f1: "fdt_create f n = (0, f1)" "length (fdt_bytes f1) = n"
    using assms by (simp_all add: f1_def fdt_create_def fdt_create_with_flags_def Let_def FDT_V17_SIZE_def)
  have h: "fdt_magic f1 = FDT_SW_MAGIC" "fdt_totalsize f1 = of_nat n" "fdt_off_dt_struct f1 = 48" "fdt_off_dt_strings f1 = 0"
    "fdt_version f1 = 0x11" "fdt_last_comp_version f1 = 0" "fdt_size_dt_strings f1 = 0" "fdt_size_dt_struct f1 = 0" "\<not> fdt_ub f1"
    using assms by (simp_all add: f1_def fdt_create_def fdt_create_with_flags_def Let_def FDT_V17_SIZE_def
        FDT_LAST_SUPPORTED_VERSION_def)
  define f2 where "f2 = f1\<lparr>fdt_bytes := splice_at 48 (be_bytes 8 (0 :: 64 word) @ be_bytes 8 (0 :: 64 word)) (fdt_bytes f1),
    fdt_off_dt_struct := 64, fdt_off_dt_strings := of_nat n\<rparr>"
  have "fdt_sw_probe_memrsv f1 = 0"
    by (simp add: fdt_sw_probe_memrsv_def fdt_sw_probe_def h FDT_SW_MAGIC_def FDT_MAGIC_def)
  then have "fdt_finish_reservemap f1 = (0, f2)"
    using assms f1 n fdt_put_ok [of 48 "be_bytes 8 (0 :: 64 word) @ be_bytes 8 (0 :: 64 word)" f1]
    by (simp add: fdt_finish_reservemap_def fdt_add_reservemap_entry_def Let_def h FDT_V17_SIZE_def f2_def)
  moreover have "writing f2" "room f2 = n - 64" "unat (fdt_totalsize f2) = n"
    using assms f1 n by (simp_all add: writing_def room_def struct_top_def f2_def h FDT_V17_SIZE_def)
  moreover have "cells f2 [] []"
    by (simp add: cells_def struct_block_def f2_def h slice_at_def)
  ultimately show ?thesis
    using f1 by (auto simp: holds_def)
qed

lemma finish_full: "holds f ts \<Longrightarrow> room f < 4 \<Longrightarrow> fdt_finish f = Some (- FDT_ERR_NOSPACE, f)"
  using grab_space [of f 4] by (simp add: holds_def fdt_finish_def Let_def writing_probe)

end
