(* ===== verification/Device_Tree.thy ===== *)
theory Device_Tree
  imports RV_Internal Fdt_Finish
begin

text \<open>
  The description of the machine for the kernel, \<^verbatim>\<open>src/src/device_tree.c\<close>. The struct \<^verbatim>\<open>DeviceTree\<close> is the
  record \<open>device_tree\<close>; its buffer is the unfinished blob of the writer, absent while the pointer is null.
  A sequence of calls wrapped in \<^verbatim>\<open>FDT_CHECKED_RET_FALSE\<close> is a list of calls run by \<open>checked\<close>, which
  stops at the first error. A call through the null pointer sets \<open>dt_ub\<close>. The answer of \<^verbatim>\<open>malloc\<close> is an
  argument: the uninitialised bytes, or nothing.
\<close>

record (overloaded) 'x device_tree =
  dt_buf :: "fdt option"
  nextPhandle :: "32 word"
  inSOC :: bool
  uart0Phandle :: "32 word"
  intcPhandle :: "32 word"
  plicPhandle :: "32 word"
  memAddr :: "'x word"
  memSize :: "'x word"
  dt_ub :: bool

definition c_string :: "string \<Rightarrow> byte list" where
  "c_string s = map (\<lambda>c. of_nat (of_char c)) s"

definition BASE_ISA :: "'x::len itself \<Rightarrow> string" where
  "BASE_ISA x = (if CONFIG_RV64 TYPE('x) then ''rv64i'' else ''rv32i'')"

definition X_CELLS :: "'x::len itself \<Rightarrow> 32 word" where
  "X_CELLS x = (if CONFIG_RV64 TYPE('x) then 2 else 1)"

section \<open>Checked calls\<close>

fun checked :: "('s \<Rightarrow> int \<times> 's) list \<Rightarrow> 's \<Rightarrow> bool \<times> 's" where
  "checked [] s = (True, s)"
| "checked (c # cs) s = (case c s of (res, t) \<Rightarrow> if res \<noteq> 0 then (False, t) else checked cs t)"

definition dt_calls :: "(fdt \<Rightarrow> int \<times> fdt) list \<Rightarrow> 'x::len device_tree \<Rightarrow> bool \<times> 'x device_tree" where
  "dt_calls cs self =
     (case dt_buf self of
        None \<Rightarrow> (False, self\<lparr>dt_ub := True\<rparr>)
      | Some f \<Rightarrow> (case checked cs f of (r, f1) \<Rightarrow> (r, self\<lparr>dt_buf := Some f1\<rparr>)))"

definition dt_then ::
    "bool \<times> 'x::len device_tree \<Rightarrow> ('x device_tree \<Rightarrow> bool \<times> 'x device_tree) \<Rightarrow> bool \<times> 'x device_tree" where
  "dt_then r k = (if fst r then k (snd r) else r)"

definition next_phandle :: "'x::len device_tree \<Rightarrow> 'x device_tree" where
  "next_phandle self = self\<lparr>nextPhandle := nextPhandle self + 1\<rparr>"

text \<open>Lower case hexadecimal digits, as printed by \<^verbatim>\<open>%x\<close>.\<close>

definition hex_digit :: "nat \<Rightarrow> char" where
  "hex_digit d = ''0123456789abcdef'' ! d"

fun hex_digits :: "nat \<Rightarrow> string" where
  "hex_digits n = (if n < 16 then [hex_digit n] else hex_digits (n div 16) @ [hex_digit (n mod 16)])"

declare hex_digits.simps [simp del]

definition addressed_name :: "string \<Rightarrow> 'x::len word \<Rightarrow> byte list" where
  "addressed_name type addr = take 63 (c_string (type @ ''@'' @ hex_digits (unat addr)))"

definition beginAddressedNode :: "string \<Rightarrow> 'x::len word \<Rightarrow> fdt \<Rightarrow> int \<times> fdt" where
  "beginAddressedNode type addr f = fdt_begin_node (addressed_name type addr) f"

definition cpu_to_fdt32 :: "'x::len word \<Rightarrow> byte list" where
  "cpu_to_fdt32 v = be_bytes 4 (ucast v :: 32 word)"

definition reg_cells :: "'x::len word \<Rightarrow> 'x word \<Rightarrow> byte list" where
  "reg_cells addr sz =
     (if CONFIG_RV64 TYPE('x)
      then cpu_to_fdt32 (drop_bit 32 addr) @ cpu_to_fdt32 addr @ cpu_to_fdt32 (drop_bit 32 sz) @ cpu_to_fdt32 sz
      else cpu_to_fdt32 addr @ cpu_to_fdt32 sz)"

definition dt_writeReg :: "'x::len word \<Rightarrow> 'x word \<Rightarrow> fdt \<Rightarrow> int \<times> fdt" where
  "dt_writeReg addr sz f = fdt_property (c_string ''reg'') (reg_cells addr sz) f"

abbreviation "begin_node s \<equiv> fdt_begin_node (c_string s)"
abbreviation "prop_u32 s v \<equiv> fdt_property_u32 (c_string s) v"
abbreviation "prop_string s v \<equiv> fdt_property_string (c_string s) (c_string v)"
abbreviation "prop_bytes s v \<equiv> fdt_property (c_string s) v"

section \<open>The operations\<close>

definition zero_device_tree :: "'x::len device_tree" where
  "zero_device_tree = \<lparr>dt_buf = None, nextPhandle = 0, inSOC = False, uart0Phandle = 0, intcPhandle = 0,
     plicPhandle = 0, memAddr = 0, memSize = 0, dt_ub = False\<rparr>"

text \<open>A buffer before it is initialised: its header fields are whatever bytes it holds.\<close>

definition fdt_raw :: "byte list \<Rightarrow> fdt" where
  "fdt_raw bs = (let h = (\<lambda>k. be_word (slice_at (4 * k) 4 bs)) in
     \<lparr>fdt_magic = h 0, fdt_totalsize = h 1, fdt_off_dt_struct = h 2, fdt_off_dt_strings = h 3, fdt_off_mem_rsvmap = h 4,
      fdt_version = h 5, fdt_last_comp_version = h 6, fdt_boot_cpuid_phys = h 7, fdt_size_dt_strings = h 8,
      fdt_size_dt_struct = h 9, fdt_bytes = bs, fdt_ub = False\<rparr>)"

definition bufsize :: nat where "bufsize = 2048"

definition isaExtensions :: "byte list" where
  "isaExtensions = concat (map (\<lambda>e. c_string e @ [0])
     [''i'', ''m'', ''a'', ''c'', ''zaamo'', ''zicboz'', ''zifencei'', ''zicsr'', ''zabha''])"

definition dt_init :: "byte list option \<Rightarrow> bool \<times> 'x::len device_tree" where
  "dt_init malloc =
     (case malloc of
        None \<Rightarrow> (False, zero_device_tree)
      | Some bytes \<Rightarrow>
          dt_then (dt_then
            (dt_calls
               [\<lambda>f. fdt_create f bufsize,
                fdt_finish_reservemap,
                begin_node '''',
                prop_u32 ''#address-cells'' (X_CELLS TYPE('x)),
                prop_u32 ''#size-cells'' (X_CELLS TYPE('x)),
                prop_string ''compatible'' ''rv640'',
                prop_string ''model'' ''RV640'',
                begin_node ''cpus'',
                prop_u32 ''#address-cells'' 1,
                prop_u32 ''#size-cells'' 0,
                prop_u32 ''timebase-frequency'' (of_nat ACLINT_FREQENCY),
                beginAddressedNode ''cpu'' (0 :: 'x word),
                prop_string ''device_type'' ''cpu'',
                prop_u32 ''reg'' 0,
                prop_string ''status'' ''okay'',
                prop_string ''compatible'' ''riscv'',
                prop_u32 ''i-cache-block-size'' (of_nat ICACHE_LINE_SIZE),
                prop_u32 ''i-cache-sets'' 1,
                prop_string ''riscv,isa-base'' (BASE_ISA TYPE('x)),
                prop_bytes ''riscv,isa-extensions'' isaExtensions,
                prop_u32 ''riscv,cboz-block-size'' (of_nat DCACHE_LINE_SIZE),
                begin_node ''interrupt-controller'']
               (zero_device_tree\<lparr>dt_buf := Some (fdt_raw bytes)\<rparr>))
            (\<lambda>t. let self = next_phandle t; self = self\<lparr>intcPhandle := nextPhandle self\<rparr> in
               dt_calls
                 [prop_u32 ''phandle'' (intcPhandle self),
                  prop_u32 ''#interrupt-cells'' 1,
                  prop_bytes ''interrupt-controller'' [],
                  prop_string ''compatible'' ''riscv,cpu-intc'',
                  fdt_end_node,
                  fdt_end_node,
                  fdt_end_node,
                  begin_node ''soc'',
                  prop_u32 ''#address-cells'' (X_CELLS TYPE('x)),
                  prop_u32 ''#size-cells'' (X_CELLS TYPE('x)),
                  prop_string ''compatible'' ''simple-bus'',
                  prop_bytes ''ranges'' []] self))
            (\<lambda>self. (True, self\<lparr>inSOC := True\<rparr>)))"

definition dt_destroy :: "'x::len device_tree \<Rightarrow> 'x device_tree" where
  "dt_destroy self = self\<lparr>dt_buf := None\<rparr>"

definition dt_addMemeory :: "'x::len word \<Rightarrow> 'x word \<Rightarrow> 'x device_tree \<Rightarrow> bool \<times> 'x device_tree" where
  "dt_addMemeory addr sz self =
     (if \<not> inSOC self then (False, self) else (True, self\<lparr>memAddr := addr, memSize := sz\<rparr>))"

definition interrupt_cells :: "32 word \<Rightarrow> 32 word list \<Rightarrow> byte list" where
  "interrupt_cells intc irqs = concat (map (\<lambda>i. cpu_to_fdt32 intc @ cpu_to_fdt32 i) irqs)"

definition dt_addAclint :: "'x::len word \<Rightarrow> 'x word \<Rightarrow> 'x device_tree \<Rightarrow> bool \<times> 'x device_tree" where
  "dt_addAclint addr sz self =
     (if \<not> inSOC self then (False, self)
      else dt_calls
        [beginAddressedNode ''clint'' addr,
         prop_string ''compatible'' ''riscv,clint0'',
         dt_writeReg addr sz,
         prop_bytes ''interrupts-extended'' (interrupt_cells (intcPhandle self) [3, 7]),
         fdt_end_node] self)"

definition dt_addPlic :: "'x::len word \<Rightarrow> 'x word \<Rightarrow> 32 word \<Rightarrow> 'x device_tree \<Rightarrow> bool \<times> 'x device_tree" where
  "dt_addPlic addr sz irqs self =
     (if \<not> inSOC self then (False, self)
      else dt_then (dt_calls [beginAddressedNode ''interrupt-controller'' addr] self)
        (\<lambda>t. let self = next_phandle t; self = self\<lparr>plicPhandle := nextPhandle self\<rparr> in
           dt_calls
             [prop_u32 ''phandle'' (plicPhandle self),
              prop_u32 ''riscv,ndev'' 1,
              prop_bytes ''interrupt-controller'' [],
              prop_u32 ''#interrupt-cells'' irqs,
              prop_u32 ''#address-cells'' 0,
              prop_string ''compatible'' ''sifive,plic-1.0.0'',
              dt_writeReg addr sz,
              prop_bytes ''interrupts-extended'' (interrupt_cells (intcPhandle self) [11, 9]),
              fdt_end_node] self))"

definition dt_addNs16550a :: "'x::len word \<Rightarrow> 'x word \<Rightarrow> 32 word \<Rightarrow> 'x device_tree \<Rightarrow> bool \<times> 'x device_tree" where
  "dt_addNs16550a addr sz irq self =
     (if \<not> inSOC self then (False, self)
      else dt_then (dt_then (dt_calls [beginAddressedNode ''serial'' addr] self)
        (\<lambda>t. if uart0Phandle t = 0
           then let self = next_phandle t; self = self\<lparr>uart0Phandle := nextPhandle self\<rparr> in
             dt_calls [prop_u32 ''phandle'' (uart0Phandle self)] self
           else (True, t)))
        (\<lambda>self. dt_calls
           ([prop_string ''compatible'' ''ns16550a''] @
            (if irq \<noteq> 0 \<and> plicPhandle self \<noteq> 0
             then [prop_u32 ''interrupts'' irq, prop_u32 ''interrupt-parent'' (plicPhandle self)] else []) @
            [dt_writeReg addr sz,
             prop_u32 ''reg-shift'' 0,
             prop_u32 ''reg-io-width'' 1,
             prop_u32 ''clock-frequency'' 1843200,
             prop_u32 ''current-speed'' 115200,
             prop_string ''status'' ''okay'',
             fdt_end_node]) self))"

text \<open>\<^verbatim>\<open>dt_finish\<close>; the result is missing only if \<^verbatim>\<open>fdt_finish\<close> does not return.\<close>

definition dt_finish :: "'x::len device_tree \<Rightarrow> (bool \<times> 'x device_tree) option" where
  "dt_finish self =
     (if \<not> inSOC self then Some (False, self)
      else
        (case dt_calls
           [fdt_end_node,
            beginAddressedNode ''memory'' (memAddr self),
            prop_string ''device_type'' ''memory'',
            dt_writeReg (memAddr self) (memSize self),
            fdt_end_node,
            begin_node ''chosen'',
            (if uart0Phandle self \<noteq> 0 then prop_u32 ''stdout-path'' (uart0Phandle self)
             else prop_string ''bootargs'' ''console=ttyS0,115200''),
            fdt_end_node,
            fdt_end_node] (self\<lparr>inSOC := False\<rparr>) of
           (r, t) \<Rightarrow>
             if \<not> r then Some (False, t)
             else (case dt_buf t of
                 None \<Rightarrow> Some (False, t\<lparr>dt_ub := True\<rparr>)
               | Some f \<Rightarrow> (case fdt_finish f of
                     None \<Rightarrow> None
                   | Some (res, f1) \<Rightarrow> Some (res = 0, t\<lparr>dt_buf := Some f1\<rparr>)))))"

text \<open>The \<^verbatim>\<open>dt_size\<close> bytes from \<^verbatim>\<open>dt_data\<close>.\<close>

definition dt_data :: "'x::len device_tree \<Rightarrow> byte list" where
  "dt_data self = (case dt_buf self of None \<Rightarrow> [] | Some f \<Rightarrow> take (unat (fdt_totalsize f)) (fdt_image f))"

end
