(* ===== verification/Machine_Tree.thy ===== *)
theory Machine_Tree
  imports Device_Tree
begin

text \<open>
  The device tree as a tree. \<open>machine_tree\<close> is the tree the emulator means to describe itself by, written
  down on its own; the operations of \<^verbatim>\<open>device_tree.c\<close> in the order \<^verbatim>\<open>main.c\<close> calls them build a blob that
  decodes to it, and the 2048 bytes of the buffer are always enough.
\<close>

section \<open>Calls in sequence\<close>

context tree_writer
begin

lemma checked_puts:
  assumes "has s ts" "\<forall>t \<in> set us. ok t" "sum_list (map cost us) \<le> space s"
  shows "\<exists>s'. checked (map put us) s = (True, s') \<and> has s' (ts @ us) \<and> space s \<le> space s' + sum_list (map cost us)"
  using assms
proof (induction us arbitrary: s ts)
  case (Cons t us)
  obtain r s1 where p: "put t s = (r, s1)"
    by (cases "put t s")
  have "r = 0"
    using put_refused [OF Cons.prems(1) _ p] Cons.prems(2,3) by auto
  with put_done [OF Cons.prems(1), of t s1] p Cons.prems(2)
  have s1: "has s1 (ts @ [t])" "space s \<le> space s1 + cost t"
    by auto
  then show ?case
    using Cons.IH [OF s1(1)] Cons.prems(2,3) p \<open>r = 0\<close> by fastforce
qed simp

lemma checked_stops:
  assumes "has s ts" "\<forall>t \<in> set us. ok t" "checked (map put us) s = (False, s')"
  shows "\<exists>vs. (\<exists>ws. ws \<noteq> [] \<and> us = vs @ ws) \<and> has s' (ts @ vs)"
  using assms
proof (induction us arbitrary: s ts)
  case (Cons t us)
  obtain r s1 where p: "put t s = (r, s1)"
    by (cases "put t s")
  show ?case
  proof (cases "r = 0")
    case True
    then have "has s1 (ts @ [t])" "checked (map put us) s1 = (False, s')"
      using put_done [OF Cons.prems(1), of t s1] p Cons.prems(2,3) by auto
    with Cons.IH [OF this(1) _ this(2)] Cons.prems(2) obtain vs ws where "ws \<noteq> []" "us = vs @ ws" "has s' (ts @ t # vs)"
      by auto
    then show ?thesis
      by (intro exI [of _ "t # vs"]) auto
  next
    case False
    then show ?thesis
      using put_refused [OF Cons.prems(1) _ p] Cons.prems(2,3) p by (intro exI [of _ "[]"]) auto
  qed
qed simp

end

section \<open>Names\<close>

lemma length_c_string [simp]: "length (c_string s) = length s"
  by (simp add: c_string_def)

lemma c_string_nul: "0 \<in> set (c_string s) \<longleftrightarrow> CHR 0x00 \<in> set s"
proof -
  have "(of_nat (of_char c) :: byte) = 0 \<longleftrightarrow> c = CHR 0x00" for c
  proof -
    have "(of_nat (of_char c) :: byte) = 0 \<longleftrightarrow> 256 dvd (of_char c :: nat)"
      by (simp add: word_of_nat_eq_0_iff)
    also have "\<dots> \<longleftrightarrow> (of_char c :: nat) = of_char (CHR 0x00)"
      using nat_dvd_not_less [of "of_char c" 256] nat_of_char_less_256 [of c] by (cases "of_char c = (0 :: nat)") auto
    also have "\<dots> \<longleftrightarrow> c = CHR 0x00"
      by (rule of_char_eq_iff)
    finally show ?thesis .
  qed
  then show ?thesis
    by (force simp: c_string_def)
qed

lemma length_hex_digits: "n < 16 ^ Suc k \<Longrightarrow> length (hex_digits n) \<le> Suc k"
proof (induction k arbitrary: n)
  case (Suc k)
  then have "n div 16 < 16 ^ Suc k"
    by (simp add: div_less_iff_less_mult)
  with Suc.IH [of "n div 16"] show ?case
    by (subst hex_digits.simps) simp
qed (subst hex_digits.simps, simp)

lemma hex_digits_nul: "CHR 0x00 \<notin> set (hex_digits n)"
proof (induction n rule: hex_digits.induct)
  case (1 n)
  have "hex_digit d \<noteq> CHR 0x00" if "d < 16" for d
    using that by (auto simp: hex_digit_def less_Suc_eq numeral_eq_Suc)
  with 1 show ?case
    by (subst hex_digits.simps) (auto simp: eq_commute [of "CHR 0x00"])
qed

lemma addressed_name_ok:
  fixes addr :: "'x::len word"
  assumes "valid_xlen TYPE('x)" "CHR 0x00 \<notin> set type" "length type \<le> 40"
  shows "0 \<notin> set (addressed_name type addr) \<and> length (addressed_name type addr) \<le> length type + 17"
proof -
  have "LENGTH('x) \<le> 64"
    using assms(1) by (auto simp: valid_xlen_def)
  then have "(2 :: nat) ^ LENGTH('x) \<le> 2 ^ 64"
    by (intro power_increasing) simp_all
  then have "unat addr < 16 ^ Suc 15"
    using order.strict_trans2 [OF unsigned_less [of addr, where 'a = nat]] by simp
  then have "length (hex_digits (unat addr)) \<le> 16"
    using length_hex_digits [of "unat addr" 15] by simp
  then show ?thesis
    using assms(2) hex_digits_nul c_string_nul [of "type @ ''@'' @ hex_digits (unat addr)"]
    by (auto simp: addressed_name_def dest!: in_set_takeD)
qed

section \<open>The tree of the machine\<close>

text \<open>
  The parts of the tree that depend on the width of the machine, written from the Devicetree Specification and
  independently of \<^verbatim>\<open>device_tree.c\<close>: a unit address is the hexadecimal numeral of the address without leading
  zeros, a \<^verbatim>\<open>reg\<close> property is the address and the size as big-endian numbers of one register each, and
  \<^verbatim>\<open>#address-cells\<close> counts the 32-bit cells of a register.
\<close>

definition nibbles :: "nat \<Rightarrow> nat \<Rightarrow> nat list" where
  "nibbles k n = map (\<lambda>i. n div 16 ^ i mod 16) (rev [0..<k])"

definition hex_numeral :: "nat \<Rightarrow> nat \<Rightarrow> string" where
  "hex_numeral k n = (case dropWhile (\<lambda>d. d = 0) (nibbles k n) of
       [] \<Rightarrow> ''0''
     | ds \<Rightarrow> map (\<lambda>d. char_of (if d < 10 then 48 + d else 87 + d)) ds)"

definition unit_name :: "string \<Rightarrow> 'x::len word \<Rightarrow> byte list" where
  "unit_name type a = c_string (type @ ''@'' @ hex_numeral (LENGTH('x) div 4) (unat a))"

definition reg_value :: "'x::len word \<Rightarrow> 'x word \<Rightarrow> byte list" where
  "reg_value a sz = be_bytes (LENGTH('x) div 8) a @ be_bytes (LENGTH('x) div 8) sz"

definition cells :: "'x::len itself \<Rightarrow> 32 word" where
  "cells T = of_nat (LENGTH('x) div 32)"

definition isa_base :: "'x::len itself \<Rightarrow> string" where
  "isa_base T = ''rv'' @ (if LENGTH('x) = 64 then ''64'' else ''32'') @ ''i''"

lemma nibbles_Suc: "nibbles (Suc k) n = nibbles k (n div 16) @ [n mod 16]"
proof -
  have "rev [0..<Suc k] = map Suc (rev [0..<k]) @ [0]"
    by (simp only: upt_conv_Cons zero_less_Suc rev.simps rev_map [symmetric] map_Suc_upt)
  then show ?thesis
    by (simp add: nibbles_def div_mult2_eq del: upt_Suc)
qed

lemma hex_char:
  assumes "d < 16"
  shows "hex_digit d = char_of (if d < 10 then 48 + d else 87 + d)"
proof -
  have "\<forall>d \<in> set [0..<16]. hex_digit d = char_of (if d < 10 then 48 + d else 87 + d)"
    by code_simp
  with assms show ?thesis
    by simp
qed

lemma nibbles_zero: "dropWhile (\<lambda>d. d = 0) (nibbles k 0) = []"
  by (simp add: nibbles_def)

lemma hex_digits_nibbles:
  "0 < n \<Longrightarrow> n < 16 ^ k \<Longrightarrow> hex_digits n = map hex_digit (dropWhile (\<lambda>d. d = 0) (nibbles k n)) \<and>
     dropWhile (\<lambda>d. d = 0) (nibbles k n) \<noteq> []"
proof (induction k arbitrary: n)
  case (Suc k)
  show ?case
  proof (cases "n < 16")
    case True
    then show ?thesis
      using Suc.prems nibbles_zero [of k]
      by (subst hex_digits.simps) (simp add: nibbles_Suc dropWhile_append)
  next
    case False
    then have "0 < n div 16" "n div 16 < 16 ^ k"
      using Suc.prems by (simp_all add: div_greater_zero_iff div_less_iff_less_mult mult.commute)
    with Suc.IH [of "n div 16"] False show ?thesis
      by (subst hex_digits.simps) (simp add: nibbles_Suc dropWhile_append dropWhile_eq_Nil_conv)
  qed
qed simp

lemma hex_numeral_digits:
  assumes "n < 16 ^ k" "0 < k"
  shows "hex_digits n = hex_numeral k n"
proof (cases "n = 0")
  case True
  then show ?thesis
    by (simp add: hex_numeral_def nibbles_zero hex_digits.simps hex_digit_def)
next
  case False
  have d: "d \<in> set (dropWhile (\<lambda>d. d = 0) (nibbles k n)) \<Longrightarrow> d < 16" for d
    by (auto simp: nibbles_def dest!: set_dropWhileD)
  have "hex_digits n = map (\<lambda>d. char_of (if d < 10 then 48 + d else 87 + d)) (dropWhile (\<lambda>d. d = 0) (nibbles k n))"
    using hex_digits_nibbles [of n k] assms False d hex_char by simp
  then show ?thesis
    using hex_digits_nibbles [of n k] assms False
    by (auto simp: hex_numeral_def split: list.split)
qed

lemma unit_name_written:
  fixes a :: "'x::len word"
  assumes "valid_xlen TYPE('x)" "length type \<le> 40"
  shows "unit_name type a = addressed_name type a"
proof -
  have l: "16 ^ (LENGTH('x) div 4) = (2 :: nat) ^ LENGTH('x)" "0 < LENGTH('x) div 4" "LENGTH('x) div 4 \<le> 16"
    using assms(1) by (auto simp: valid_xlen_def)
  then have "unat a < 16 ^ (LENGTH('x) div 4)"
    using unsigned_less [of a, where 'a = nat] by simp
  then have h: "hex_digits (unat a) = hex_numeral (LENGTH('x) div 4) (unat a)"
    by (rule hex_numeral_digits [OF _ l(2)])
  have "(16 :: nat) ^ (LENGTH('x) div 4) \<le> 16 ^ 16"
    using l(3) by (intro power_increasing) simp_all
  with \<open>unat a < 16 ^ (LENGTH('x) div 4)\<close> have "unat a < 16 ^ Suc 15"
    by simp
  then have "length (hex_digits (unat a)) \<le> 16"
    using length_hex_digits [of "unat a" 15] by simp
  then show ?thesis
    using assms(2) by (simp add: unit_name_def addressed_name_def h)
qed

lemma be_bytes_register:
  fixes v :: "'x::len word"
  shows "LENGTH('x) = 32 \<Longrightarrow> be_bytes 4 v = be_bytes 4 (ucast v :: 32 word)"
    and "LENGTH('x) = 64 \<Longrightarrow> be_bytes 8 v = be_bytes 4 (ucast (drop_bit 32 v) :: 32 word) @ be_bytes 4 (ucast v :: 32 word)"
proof -
  have g: "get_byte (ucast v :: 32 word) k = get_byte v k" if "k < 4" for k
    using that by (intro bit_word_eqI) (auto simp: bit_get_byte bit_simps)
  then show "LENGTH('x) = 32 \<Longrightarrow> be_bytes 4 v = be_bytes 4 (ucast v :: 32 word)"
    by (simp add: be_bytes_def le_bytes_def)
  have "get_byte (ucast (drop_bit 32 v) :: 32 word) k = get_byte v (k + 4)" if "k < 4" for k
    using that by (intro bit_word_eqI) (auto simp: bit_get_byte bit_simps algebra_simps)
  with g have "le_bytes 8 v = le_bytes 4 (ucast v :: 32 word) @ le_bytes 4 (ucast (drop_bit 32 v) :: 32 word)"
    by (intro nth_equalityI) (simp_all add: nth_append)
  then show "be_bytes 8 v = be_bytes 4 (ucast (drop_bit 32 v) :: 32 word) @ be_bytes 4 (ucast v :: 32 word)"
    by (simp add: be_bytes_def)
qed

lemma tree_written:
  assumes "valid_xlen TYPE('x::len)"
  shows "reg_value a sz = reg_cells a (sz :: 'x word)" "cells TYPE('x) = X_CELLS TYPE('x)" "isa_base TYPE('x) = BASE_ISA TYPE('x)"
proof -
  consider "LENGTH('x) = 32" | "LENGTH('x) = 64"
    using assms by (auto simp: valid_xlen_def)
  then show "reg_value a sz = reg_cells a sz"
    using be_bytes_register [of a] be_bytes_register [of sz]
    by cases (simp_all add: reg_value_def reg_cells_def cpu_to_fdt32_def CONFIG_RV64_def)
  show "cells TYPE('x) = X_CELLS TYPE('x)" "isa_base TYPE('x) = BASE_ISA TYPE('x)"
    using assms by (auto simp: valid_xlen_def cells_def X_CELLS_def isa_base_def BASE_ISA_def CONFIG_RV64_def)
qed

datatype dt_node = Node (node_name: "byte list") (node_props: "(byte list \<times> byte list) list") (node_children: "dt_node list")

fun flatten :: "dt_node \<Rightarrow> fdt_token list" where
  "flatten (Node n ps cs) = Begin_Node n # map (\<lambda>(p, v). Property p v) ps @ concat (map flatten cs) @ [End_Node]"

definition u32_prop :: "string \<Rightarrow> 32 word \<Rightarrow> byte list \<times> byte list" where
  "u32_prop p v = (c_string p, be_bytes 4 v)"

definition str_prop :: "string \<Rightarrow> string \<Rightarrow> byte list \<times> byte list" where
  "str_prop p v = (c_string p, c_string v @ [0])"

definition strings_prop :: "string \<Rightarrow> string list \<Rightarrow> byte list \<times> byte list" where
  "strings_prop p vs = (c_string p, concat (map (\<lambda>v. c_string v @ [0]) vs))"

definition cpu_node :: "'x::len itself \<Rightarrow> dt_node" where
  "cpu_node T = Node (c_string ''cpu@0'')
     [str_prop ''device_type'' ''cpu'', u32_prop ''reg'' 0, str_prop ''status'' ''okay'', str_prop ''compatible'' ''riscv'',
      u32_prop ''i-cache-block-size'' 128, u32_prop ''i-cache-sets'' 1, str_prop ''riscv,isa-base'' (isa_base T),
      strings_prop ''riscv,isa-extensions'' [''i'', ''m'', ''a'', ''c'', ''zaamo'', ''zicboz'', ''zifencei'', ''zicsr'', ''zabha''], u32_prop ''riscv,cboz-block-size'' 64]
     [Node (c_string ''interrupt-controller'')
        [u32_prop ''phandle'' 1, u32_prop ''#interrupt-cells'' 1, (c_string ''interrupt-controller'', []),
         str_prop ''compatible'' ''riscv,cpu-intc''] []]"

definition clint_node :: "'x::len word \<Rightarrow> 'x word \<Rightarrow> dt_node" where
  "clint_node addr sz = Node (unit_name ''clint'' addr)
     [str_prop ''compatible'' ''riscv,clint0'', (c_string ''reg'', reg_value addr sz),
      (c_string ''interrupts-extended'', concat (map (be_bytes 4) [1, 3, 1, 7 :: 32 word]))] []"

definition plic_node :: "'x::len word \<Rightarrow> 'x word \<Rightarrow> 32 word \<Rightarrow> dt_node" where
  "plic_node addr sz irqs = Node (unit_name ''interrupt-controller'' addr)
     [u32_prop ''phandle'' 2, u32_prop ''riscv,ndev'' 1, (c_string ''interrupt-controller'', []), u32_prop ''#interrupt-cells'' irqs,
      u32_prop ''#address-cells'' 0, str_prop ''compatible'' ''sifive,plic-1.0.0'', (c_string ''reg'', reg_value addr sz),
      (c_string ''interrupts-extended'', concat (map (be_bytes 4) [1, 11, 1, 9 :: 32 word]))] []"

definition serial_node :: "'x::len word \<Rightarrow> 'x word \<Rightarrow> 32 word \<Rightarrow> dt_node" where
  "serial_node addr sz irq = Node (unit_name ''serial'' addr)
     ([u32_prop ''phandle'' 3, str_prop ''compatible'' ''ns16550a''] @
      (if irq \<noteq> 0 then [u32_prop ''interrupts'' irq, u32_prop ''interrupt-parent'' 2] else []) @
      [(c_string ''reg'', reg_value addr sz), u32_prop ''reg-shift'' 0, u32_prop ''reg-io-width'' 1, u32_prop ''clock-frequency'' 1843200,
       u32_prop ''current-speed'' 115200, str_prop ''status'' ''okay'']) []"

definition machine_tree ::
    "'x::len word \<times> 'x word \<Rightarrow> 'x word \<times> 'x word \<Rightarrow> 'x word \<times> 'x word \<Rightarrow> 32 word \<Rightarrow> 'x word \<times> 'x word \<Rightarrow> 32 word \<Rightarrow> dt_node" where
  "machine_tree mem clint plc irqs ser irq = Node []
     [u32_prop ''#address-cells'' (cells TYPE('x)), u32_prop ''#size-cells'' (cells TYPE('x)),
      str_prop ''compatible'' ''rv640'', str_prop ''model'' ''RV640'']
     [Node (c_string ''cpus'')
        [u32_prop ''#address-cells'' 1, u32_prop ''#size-cells'' 0, u32_prop ''timebase-frequency'' 10000000] [cpu_node TYPE('x)],
      Node (c_string ''soc'')
        [u32_prop ''#address-cells'' (cells TYPE('x)), u32_prop ''#size-cells'' (cells TYPE('x)),
         str_prop ''compatible'' ''simple-bus'', (c_string ''ranges'', [])]
        [case_prod clint_node clint, (case plc of (a, s) \<Rightarrow> plic_node a s irqs), (case ser of (a, s) \<Rightarrow> serial_node a s irq)],
      Node (case mem of (a, s) \<Rightarrow> unit_name ''memory'' a)
        [str_prop ''device_type'' ''memory'', (c_string ''reg'', case_prod reg_value mem)] [],
      Node (c_string ''chosen'') [u32_prop ''stdout-path'' 3] []]"

section \<open>Building it\<close>

lemma call_tokens:
  "fdt_begin_node n = emit (Begin_Node n)" "fdt_property n v = emit (Property n v)" "fdt_end_node = emit End_Node"
  "fdt_property_u32 n w = emit (Property n (be_bytes 4 w))" "fdt_property_string n s = emit (Property n (s @ [0]))"
  "beginAddressedNode ty a = emit (Begin_Node (addressed_name ty a))"
  "dt_writeReg a sz = emit (Property (c_string ''reg'') (reg_cells a sz))"
  by (simp_all add: fun_eq_iff fdt_property_u32_def fdt_property_string_def beginAddressedNode_def dt_writeReg_def)

lemma put_totalsize [simp]: "fdt_totalsize (fdt_put p bs f) = fdt_totalsize f"
  by (simp add: fdt_put_def)

lemma grab_totalsize: "fdt_grab_space f n = Some (p, f1) \<Longrightarrow> fdt_totalsize f1 = fdt_totalsize f"
  by (auto simp: fdt_grab_space_def Let_def split: if_splits)

lemma find_add_totalsize: "fdt_find_add_string n f = (off, a, f1) \<Longrightarrow> fdt_totalsize f1 = fdt_totalsize f"
  by (auto simp: fdt_find_add_string_def fdt_add_string_def Let_def split: option.splits if_splits)

lemma add_totalsize: "fdt_add_string n f = (off, f1) \<Longrightarrow> fdt_totalsize f1 = fdt_totalsize f"
  by (auto simp: fdt_add_string_def Let_def split: if_splits)

lemma emit_totalsize: "emit t f = (r, f1) \<Longrightarrow> fdt_totalsize f1 = fdt_totalsize f"
  by (cases t) (auto simp: fdt_begin_node_def fdt_end_node_def fdt_property_def fdt_property_placeholder_def Let_def
      fdt_del_last_string_def dest!: grab_totalsize find_add_totalsize add_totalsize
      split: option.splits if_splits prod.splits)

definition in_buffer :: "fdt \<Rightarrow> fdt_token list \<Rightarrow> bool" where
  "in_buffer f ts \<longleftrightarrow> holds f ts \<and> unat (fdt_totalsize f) = bufsize"

interpretation dtw: tree_writer emit in_buffer room token_cost wf_token
  using sw.put_done sw.put_refused
  by unfold_locales (auto simp: in_buffer_def dest: emit_totalsize)

lemma dt_calls_ok:
  assumes "in_buffer f ts" "k \<le> room f" "\<forall>t \<in> set us. wf_token t" "sum_list (map token_cost us) \<le> c" "c \<le> k"
    and "dt_buf self = Some f"
  obtains f' where "dt_calls (map emit us) self = (True, self\<lparr>dt_buf := Some f'\<rparr>)" "in_buffer f' (ts @ us)" "k - c \<le> room f'"
proof -
  obtain f' where "checked (map emit us) f = (True, f')" "in_buffer f' (ts @ us)"
      "room f \<le> room f' + sum_list (map token_cost us)"
    using dtw.checked_puts [OF assms(1,3)] assms(2,4,5) by auto
  with that assms show ?thesis
    by (simp add: dt_calls_def)
qed

lemma reg_cells_length: "length (reg_cells a sz) \<le> 16"
  by (simp add: reg_cells_def cpu_to_fdt32_def)

lemma token_cost_begin: "length n \<le> k \<Longrightarrow> token_cost (Begin_Node n) \<le> k + 8"
  using FDT_TAGALIGN_bounds(2) [of "length n + 1"] by simp

lemma token_cost_prop: "length v \<le> k \<Longrightarrow> token_cost (Property n v) \<le> k + length n + 16"
  using FDT_TAGALIGN_bounds(2) [of "length v"] by simp

definition cpu_tokens :: "'x::len itself \<Rightarrow> fdt_token list" where
  "cpu_tokens T = Begin_Node [] # map (case_prod Property)
       [u32_prop ''#address-cells'' (cells T), u32_prop ''#size-cells'' (cells T), str_prop ''compatible'' ''rv640'', str_prop ''model'' ''RV640''] @
     Begin_Node (c_string ''cpus'') # map (case_prod Property)
       [u32_prop ''#address-cells'' 1, u32_prop ''#size-cells'' 0, u32_prop ''timebase-frequency'' 10000000] @
     Begin_Node (c_string ''cpu@0'') # map (case_prod Property) (node_props (cpu_node T)) @
     [Begin_Node (c_string ''interrupt-controller'')]"

definition soc_tokens :: "'x::len itself \<Rightarrow> fdt_token list" where
  "soc_tokens T = map (case_prod Property) [u32_prop ''phandle'' 1, u32_prop ''#interrupt-cells'' 1, (c_string ''interrupt-controller'', []),
         str_prop ''compatible'' ''riscv,cpu-intc''] @ [End_Node, End_Node, End_Node, Begin_Node (c_string ''soc'')] @
     map (case_prod Property) [u32_prop ''#address-cells'' (cells T), u32_prop ''#size-cells'' (cells T),
         str_prop ''compatible'' ''simple-bus'', (c_string ''ranges'', [])]"

lemma c_string_Nil [simp]: "c_string [] = []"
  by (simp add: c_string_def)

lemma BASE_ISA_ok: "length (BASE_ISA T) = 5" "CHR 0x00 \<notin> set (BASE_ISA T)"
  by (simp_all add: BASE_ISA_def)

lemma cpu_tokens_ok:
  assumes "valid_xlen TYPE('x::len)"
  shows "\<forall>t \<in> set (cpu_tokens TYPE('x)). wf_token t" "sum_list (map token_cost (cpu_tokens TYPE('x))) \<le> 590"
  by (simp_all add: cpu_tokens_def cpu_node_def u32_prop_def str_prop_def strings_prop_def c_string_nul tree_written [OF assms] BASE_ISA_ok
      FDT_TAGALIGN_def FDT_V17_SIZE_def)

lemma soc_tokens_ok: "\<forall>t \<in> set (soc_tokens T). wf_token t" "sum_list (map token_cost (soc_tokens T)) \<le> 262"
  by (simp_all add: soc_tokens_def u32_prop_def str_prop_def c_string_nul FDT_TAGALIGN_def FDT_V17_SIZE_def)

lemma addressed_cpu: "addressed_name ''cpu'' 0 = c_string ''cpu@0''"
  by (simp add: addressed_name_def c_string_def hex_digits.simps hex_digit_def)


lemma dt_init_ok:
  assumes x: "valid_xlen TYPE('x::len)" and l: "length bytes = bufsize"
  obtains f where "dt_init (Some bytes) = (True, (zero_device_tree :: 'x device_tree)\<lparr>dt_buf := Some f,
      nextPhandle := 1, intcPhandle := 1, inSOC := True\<rparr>)"
    "in_buffer f (cpu_tokens TYPE('x) @ soc_tokens TYPE('x))" "1132 \<le> room f"
proof -
  let ?z = "zero_device_tree :: 'x device_tree"
  obtain f1 f2 where c: "fdt_create (fdt_raw bytes) bufsize = (0, f1)" "fdt_finish_reservemap f1 = (0, f2)"
      "in_buffer f2 []" "1984 \<le> room f2"
    using create_ok [of "fdt_raw bytes" bufsize] l by (auto simp: fdt_raw_def bufsize_def Let_def in_buffer_def)
  obtain f3 where a: "dt_calls (map emit (cpu_tokens TYPE('x))) (?z\<lparr>dt_buf := Some f2\<rparr>) = (True, ?z\<lparr>dt_buf := Some f3\<rparr>)"
      "in_buffer f3 (cpu_tokens TYPE('x))" "1394 \<le> room f3"
    by (rule dt_calls_ok [OF c(3,4) cpu_tokens_ok [OF x], where self = "?z\<lparr>dt_buf := Some f2\<rparr>"]) simp_all
  let ?p = "?z\<lparr>dt_buf := Some f3, nextPhandle := 1, intcPhandle := 1\<rparr>"
  obtain f4 where b: "dt_calls (map emit (soc_tokens TYPE('x))) ?p = (True, ?p\<lparr>dt_buf := Some f4\<rparr>)"
      "in_buffer f4 (cpu_tokens TYPE('x) @ soc_tokens TYPE('x))" "1132 \<le> room f4"
    by (rule dt_calls_ok [OF a(2,3) soc_tokens_ok, where self = ?p]) simp_all
  have "dt_calls ((\<lambda>f. fdt_create f bufsize) # fdt_finish_reservemap # map emit (cpu_tokens TYPE('x)))
      (?z\<lparr>dt_buf := Some (fdt_raw bytes)\<rparr>) = (True, ?z\<lparr>dt_buf := Some f3\<rparr>)"
    using a(1) c(1,2) by (simp add: dt_calls_def)
  then have "dt_init (Some bytes) = (True, ?z\<lparr>dt_buf := Some f4, nextPhandle := 1, intcPhandle := 1, inSOC := True\<rparr>)"
    using b(1) unfolding dt_init_def option.case
    by (simp add: call_tokens cpu_tokens_def soc_tokens_def cpu_node_def u32_prop_def str_prop_def strings_prop_def addressed_cpu
        isaExtensions_def tree_written [OF x]
        ACLINT_FREQENCY_def ICACHE_LINE_SIZE_def DCACHE_LINE_SIZE_def dt_then_def next_phandle_def Let_def zero_device_tree_def
        del: emit.simps)
  with b that show ?thesis
    by blast
qed


lemma dt_addMemeory_ok: "inSOC self \<Longrightarrow> dt_addMemeory a sz self = (True, self\<lparr>memAddr := a, memSize := sz\<rparr>)"
  by (simp add: dt_addMemeory_def)

lemma clint_tokens_ok:
  fixes a :: "'x::len word"
  assumes "valid_xlen TYPE('x)"
  shows "\<forall>t \<in> set (flatten (clint_node a sz)). wf_token t" "sum_list (map token_cost (flatten (clint_node a sz))) \<le> 160"
  using addressed_name_ok [OF assms, of "''clint''" a] reg_cells_length [of a sz]
    token_cost_begin [of "addressed_name ''clint'' a" 22] token_cost_prop [of "reg_cells a sz" 16 "c_string ''reg''"]
  by (simp_all add: clint_node_def unit_name_written [OF assms] tree_written [OF assms] str_prop_def c_string_nul FDT_TAGALIGN_def FDT_V17_SIZE_def)

lemma plic_tokens_ok:
  fixes a :: "'x::len word"
  assumes "valid_xlen TYPE('x)"
  shows "\<forall>t \<in> set (flatten (plic_node a sz n)). wf_token t" "sum_list (map token_cost (flatten (plic_node a sz n))) \<le> 330"
  using addressed_name_ok [OF assms, of "''interrupt-controller''" a] reg_cells_length [of a sz]
    token_cost_begin [of "addressed_name ''interrupt-controller'' a" 37] token_cost_prop [of "reg_cells a sz" 16 "c_string ''reg''"]
  by (simp_all add: plic_node_def unit_name_written [OF assms] tree_written [OF assms] str_prop_def u32_prop_def c_string_nul FDT_TAGALIGN_def FDT_V17_SIZE_def)

lemma serial_tokens_ok:
  fixes a :: "'x::len word"
  assumes "valid_xlen TYPE('x)"
  shows "\<forall>t \<in> set (flatten (serial_node a sz n)). wf_token t" "sum_list (map token_cost (flatten (serial_node a sz n))) \<le> 336"
  using addressed_name_ok [OF assms, of "''serial''" a] reg_cells_length [of a sz]
    token_cost_begin [of "addressed_name ''serial'' a" 23] token_cost_prop [of "reg_cells a sz" 16 "c_string ''reg''"]
  by (cases "n = 0"; simp add: serial_node_def unit_name_written [OF assms] tree_written [OF assms] str_prop_def u32_prop_def c_string_nul FDT_TAGALIGN_def FDT_V17_SIZE_def)+


lemma dt_addAclint_ok:
  fixes self :: "'x::len device_tree"
  assumes x: "valid_xlen TYPE('x)" and f: "dt_buf self = Some f" "in_buffer f ts" "k \<le> room f" "160 \<le> k"
    and s: "inSOC self" "intcPhandle self = 1"
  obtains f' where "dt_addAclint a sz self = (True, self\<lparr>dt_buf := Some f'\<rparr>)" "in_buffer f' (ts @ flatten (clint_node a sz))"
    "k - 160 \<le> room f'"
proof -
  obtain f' where "dt_calls (map emit (flatten (clint_node a sz))) self = (True, self\<lparr>dt_buf := Some f'\<rparr>)"
      "in_buffer f' (ts @ flatten (clint_node a sz))" "k - 160 \<le> room f'"
    by (rule dt_calls_ok [OF f(2,3) clint_tokens_ok [OF x] f(4,1)])
  moreover have "dt_addAclint a sz self = dt_calls (map emit (flatten (clint_node a sz))) self"
    using s by (simp add: dt_addAclint_def clint_node_def unit_name_written [OF x] tree_written [OF x] call_tokens str_prop_def interrupt_cells_def cpu_to_fdt32_def del: emit.simps)
  ultimately show ?thesis
    using that by simp
qed

lemma checked_Cons_iff: "checked (c # cs) s = (True, s') \<longleftrightarrow> (\<exists>t. c s = (0, t) \<and> checked cs t = (True, s'))"
  by (auto split: prod.splits)

lemma checked_single: "checked [c] s = (case c s of (r, t) \<Rightarrow> (r = 0, t))"
  by (simp split: prod.split)

lemma checked_emit:
  assumes "in_buffer f ts" "k \<le> room f" "\<forall>t \<in> set us. wf_token t" "sum_list (map token_cost us) \<le> c" "c \<le> k"
  obtains f' where "checked (map emit us) f = (True, f')" "in_buffer f' (ts @ us)" "k - c \<le> room f'"
  using dtw.checked_puts [OF assms(1,3)] assms(2,4,5) by auto

lemma dt_addPlic_ok:
  fixes self :: "'x::len device_tree"
  assumes x: "valid_xlen TYPE('x)" and f: "dt_buf self = Some f" "in_buffer f ts" "k \<le> room f" "330 \<le> k"
    and s: "inSOC self" "intcPhandle self = 1" "nextPhandle self = 1"
  obtains f' where "dt_addPlic a sz n self = (True, self\<lparr>dt_buf := Some f', nextPhandle := 2, plicPhandle := 2\<rparr>)"
    "in_buffer f' (ts @ flatten (plic_node a sz n))" "k - 330 \<le> room f'"
proof -
  obtain f' where c: "checked (map emit (flatten (plic_node a sz n))) f = (True, f')"
      "in_buffer f' (ts @ flatten (plic_node a sz n))" "k - 330 \<le> room f'"
    by (rule checked_emit [OF f(2,3) plic_tokens_ok [OF x] f(4)])
  obtain nm ps where nd: "plic_node a sz n = Node nm ps []" "nm = addressed_name ''interrupt-controller'' a"
    by (simp add: plic_node_def unit_name_written [OF x])
  from c(1) obtain f1 where f1: "emit (Begin_Node nm) f = (0, f1)"
      "checked (map emit (map (case_prod Property) ps @ [End_Node])) f1 = (True, f')"
    unfolding nd(1) flatten.simps list.map checked_Cons_iff by auto
  then have "dt_addPlic a sz n self = (True, self\<lparr>dt_buf := Some f', nextPhandle := 2, plicPhandle := 2\<rparr>)"
    using s f(1) nd unfolding plic_node_def
    by (auto simp: dt_addPlic_def tree_written [OF x] dt_then_def dt_calls_def next_phandle_def Let_def call_tokens u32_prop_def str_prop_def interrupt_cells_def
        cpu_to_fdt32_def checked_single simp del: emit.simps checked.simps(2))
  with c that show ?thesis
    by simp
qed


lemma dt_addNs16550a_ok:
  fixes self :: "'x::len device_tree"
  assumes x: "valid_xlen TYPE('x)" and f: "dt_buf self = Some f" "in_buffer f ts" "k \<le> room f" "336 \<le> k"
    and s: "inSOC self" "nextPhandle self = 2" "plicPhandle self = 2" "uart0Phandle self = 0"
  obtains f' where "dt_addNs16550a a sz n self = (True, self\<lparr>dt_buf := Some f', nextPhandle := 3, uart0Phandle := 3\<rparr>)"
    "in_buffer f' (ts @ flatten (serial_node a sz n))" "k - 336 \<le> room f'"
proof -
  obtain f' where c: "checked (map emit (flatten (serial_node a sz n))) f = (True, f')"
      "in_buffer f' (ts @ flatten (serial_node a sz n))" "k - 336 \<le> room f'"
    by (rule checked_emit [OF f(2,3) serial_tokens_ok [OF x] f(4)])
  obtain nm ps where nd: "serial_node a sz n = Node nm (u32_prop ''phandle'' 3 # ps) []" "nm = addressed_name ''serial'' a"
    by (simp add: serial_node_def unit_name_written [OF x])
  from c(1) obtain f1 f2 where f1: "emit (Begin_Node nm) f = (0, f1)" "emit (case_prod Property (u32_prop ''phandle'' 3)) f1 = (0, f2)"
      "checked (map emit (map (case_prod Property) ps @ [End_Node])) f2 = (True, f')"
    unfolding nd(1) flatten.simps list.map append_Cons checked_Cons_iff by auto
  then have "dt_addNs16550a a sz n self = (True, self\<lparr>dt_buf := Some f', nextPhandle := 3, uart0Phandle := 3\<rparr>)"
    using s f(1) nd unfolding serial_node_def
    by (auto simp: dt_addNs16550a_def tree_written [OF x] dt_then_def dt_calls_def next_phandle_def Let_def call_tokens u32_prop_def str_prop_def
        checked_single simp del: emit.simps checked.simps(2))
  with c that show ?thesis
    by simp
qed

definition end_tokens :: "'x::len word \<Rightarrow> 'x word \<Rightarrow> fdt_token list" where
  "end_tokens a sz = End_Node # flatten (Node (unit_name ''memory'' a)
        [str_prop ''device_type'' ''memory'', (c_string ''reg'', reg_value a sz)] []) @
      flatten (Node (c_string ''chosen'') [u32_prop ''stdout-path'' 3] []) @ [End_Node]"

lemma end_tokens_ok:
  fixes a :: "'x::len word"
  assumes "valid_xlen TYPE('x)"
  shows "\<forall>t \<in> set (end_tokens a sz). wf_token t" "sum_list (map token_cost (end_tokens a sz)) \<le> 176"
  using addressed_name_ok [OF assms, of "''memory''" a] reg_cells_length [of a sz]
    token_cost_begin [of "addressed_name ''memory'' a" 23] token_cost_prop [of "reg_cells a sz" 16 "c_string ''reg''"]
  by (simp_all add: end_tokens_def unit_name_written [OF assms] tree_written [OF assms] str_prop_def u32_prop_def c_string_nul FDT_TAGALIGN_def FDT_V17_SIZE_def)

lemma dt_finish_ok:
  fixes self :: "'x::len device_tree"
  assumes x: "valid_xlen TYPE('x)" and f: "dt_buf self = Some f" "in_buffer f ts" "k \<le> room f" "180 \<le> k"
    and s: "inSOC self" "uart0Phandle self = 3"
  obtains f' where "dt_finish self = Some (True, self\<lparr>dt_buf := Some f', inSOC := False\<rparr>)" "\<not> fdt_ub f'"
    "unat (fdt_totalsize f') \<le> bufsize" "unat (fdt_totalsize f') \<le> length (fdt_image f')"
    "fdt_decode (take (unat (fdt_totalsize f')) (fdt_image f')) = Some (ts @ end_tokens (memAddr self) (memSize self))"
proof -
  let ?us = "end_tokens (memAddr self) (memSize self)"
  have "176 \<le> k" using f(4) by simp
  from checked_emit [OF f(2,3) end_tokens_ok [OF x] this, of "memAddr self" "memSize self"]
  obtain f1 where c: "checked (map emit ?us) f = (True, f1)" "in_buffer f1 (ts @ ?us)" "k - 176 \<le> room f1"
    by blast
  have r: "4 \<le> room f1"
    using c(3) f(4) by simp
  obtain f' where f': "fdt_finish f1 = Some (0, f')" "\<not> fdt_ub f'" "unat (fdt_totalsize f') + room f1 = bufsize + 4"
      "unat (fdt_totalsize f') \<le> length (fdt_image f')"
      "fdt_decode (take (unat (fdt_totalsize f')) (fdt_image f')) = Some (ts @ ?us)"
    using finish_ok [OF _ r, of "ts @ ?us"] c(2) by (auto simp: in_buffer_def)
  have "dt_finish self = Some (True, self\<lparr>dt_buf := Some f', inSOC := False\<rparr>)"
    using s f(1) c(1) f'(1)
    by (simp add: dt_finish_def dt_calls_def end_tokens_def unit_name_written [OF x] tree_written [OF x] call_tokens str_prop_def u32_prop_def del: emit.simps checked.simps(2))
  then show ?thesis
    using that f' r by simp
qed

lemma flatten_machine:
  "flatten (machine_tree (ma, ms) (ca, cs) (pa, ps) n (ua, us) i :: dt_node) =
     ((((cpu_tokens TYPE('x) @ soc_tokens TYPE('x)) @ flatten (clint_node ca cs)) @ flatten (plic_node pa ps n)) @
       flatten (serial_node ua us i)) @ end_tokens ma (ms :: 'x::len word)"
  by (simp add: machine_tree_def cpu_tokens_def soc_tokens_def end_tokens_def cpu_node_def)

end
