(* ===== verification/VM_Main.thy ===== *)
theory VM_Main
  imports RV_Step Machine_Tree
begin

text \<open>
  The program, \<^verbatim>\<open>src/src/main.c\<close>: options, loading of a kernel or a binary image, the construction
  of the machine, and the main loop. What the C library answers is an argument: the options as
  \<^verbatim>\<open>getopt_long\<close> returns them, whether an allocation succeeds, the bytes of the image file (\<open>None\<close> when it
  cannot be opened), the uninitialised buffer for the device tree (\<open>None\<close> when there is no memory for
  it), and the character read from the terminal in a turn of the loop.
\<close>

section \<open>Options\<close>

record options =
  kernelFile :: "string option"
  binFile :: "string option"
  noSBI :: bool
  memSizeMb :: "32 word"

datatype opt = OPT_k string | OPT_b string | OPT_no_sbi | OPT_m string | OPT_other

text \<open>\<^verbatim>\<open>strtoul(s, NULL, 10)\<close>: leading white space, an optional sign, then digits; the result saturates
  at the largest \<^verbatim>\<open>unsigned long\<close> of the host (64 bits on Linux, 32 under DOS) and a minus sign negates it.\<close>

definition is_space :: "char \<Rightarrow> bool" where
  "is_space c \<longleftrightarrow> of_char c = (32 :: nat) \<or> 9 \<le> (of_char c :: nat) \<and> (of_char c :: nat) \<le> 13"

definition is_digit :: "char \<Rightarrow> bool" where
  "is_digit c \<longleftrightarrow> 48 \<le> (of_char c :: nat) \<and> (of_char c :: nat) \<le> 57"

definition digits_value :: "string \<Rightarrow> nat" where
  "digits_value cs = foldl (\<lambda>n c. 10 * n + (of_char c - 48)) 0 cs"

definition strtoul10 :: "string \<Rightarrow> 'u::len word" where
  "strtoul10 str =
     (let body = dropWhile is_space str;
          neg = (case body of c # _ \<Rightarrow> c = CHR ''-'' | [] \<Rightarrow> False);
          rest = (case body of c # cs \<Rightarrow> if c = CHR ''-'' \<or> c = CHR ''+'' then cs else body | [] \<Rightarrow> []);
          n = digits_value (takeWhile is_digit rest)
      in if 2 ^ LENGTH('u) \<le> n then NOT 0 else if neg then - of_nat n else of_nat n)"

primrec parseLoop :: "opt list \<Rightarrow> options \<Rightarrow> bool \<times> options" where
  "parseLoop [] op = (True, op)"
| "parseLoop (x # xs) op =
     (case x of
        OPT_k f \<Rightarrow> parseLoop xs (op\<lparr>kernelFile := Some f\<rparr>)
      | OPT_b f \<Rightarrow> parseLoop xs (op\<lparr>binFile := Some f\<rparr>)
      | OPT_no_sbi \<Rightarrow> parseLoop xs (op\<lparr>noSBI := True\<rparr>)
      | OPT_m v \<Rightarrow> parseLoop xs (op\<lparr>memSizeMb := ucast (strtoul10 v :: 64 word)\<rparr>)
      | OPT_other \<Rightarrow> (False, op))"

definition parseArgs :: "opt list \<Rightarrow> bool \<times> options" where
  "parseArgs xs =
     (case parseLoop xs \<lparr>kernelFile = None, binFile = None, noSBI = False, memSizeMb = 0\<rparr> of (ok, op) \<Rightarrow>
        if \<not> ok then (False, op)
        else if kernelFile op \<noteq> None \<and> binFile op \<noteq> None then (False, op)
        else if kernelFile op = None \<and> binFile op = None then (False, op)
        else if memSizeMb op < 1 \<or> memSizeMb op > 1024 then (False, op)
        else (True, op))"

section \<open>Loading\<close>

definition bufSize :: "'x::len itself \<Rightarrow> nat" where
  "bufSize T = 512 * sizeof_word T"

text \<open>The read loop until end of file: a full buffer is written and followed by another read, a
  short one (possibly empty) is the last.\<close>

function loadLoop :: "nat \<Rightarrow> byte list \<Rightarrow> 'x::len word \<Rightarrow> 'x vm \<Rightarrow> 'x word \<times> 'x vm" where
  "loadLoop n data ptr s =
     (let chunk = take n data; t = mem_write s ptr chunk; ptr' = ptr + of_nat (length chunk) in
      if n \<le> length data \<and> 0 < n then loadLoop n (drop n data) ptr' t else (ptr', t))"
  by pat_completeness auto
termination
  by (relation "measure (\<lambda>(n, data, ptr, s). length data)") auto

declare loadLoop.simps [simp del]

definition loadBin :: "byte list option \<Rightarrow> bool \<Rightarrow> 'x::len word \<Rightarrow> 'x vm \<Rightarrow> 'x word \<times> 'x vm" where
  "loadBin contents malloc_ok memBase s =
     (case contents of
        None \<Rightarrow> (0, s)
      | Some data \<Rightarrow>
          if \<not> malloc_ok then (0, s)
          else (memBase, snd (loadLoop (bufSize TYPE('x)) data 0 s)))"

definition RISCV_MAGIC1 :: "64 word" where "RISCV_MAGIC1 = 0x5643534952"
definition RISCV_MAGIC2 :: "byte list" where "RISCV_MAGIC2 = [0x52, 0x53, 0x43, 0x05]"

definition loadLinuxImage :: "byte list option \<Rightarrow> bool \<Rightarrow> 'x::len word \<Rightarrow> 'x vm \<Rightarrow> 'x word \<times> 'x vm" where
  "loadLinuxImage contents malloc_ok memBase s =
     (case contents of
        None \<Rightarrow> (0, s)
      | Some data \<Rightarrow>
          if \<not> malloc_ok then (0, s)
          else
            let n = bufSize TYPE('x); buf = take n data in
            if length buf < n then (0, s)
            else
              let text_offset = le_word (slice_at 8 8 buf) :: 64 word;
                  magic1 = le_word (slice_at 48 8 buf) :: 64 word in
              if magic1 \<noteq> RISCV_MAGIC1 \<or> memcmp (slice_at 56 4 buf) RISCV_MAGIC2 \<noteq> 0 then (0, s)
              else
                let textPtr = ucast text_offset;
                    t = mem_write s textPtr buf
                in (ucast text_offset + memBase,
                    snd (loadLoop n (drop n data) (textPtr + of_nat n) t)))"

definition mem_size :: "'x::len vm \<Rightarrow> 'x word" where
  "mem_size s = dev_size (mem_dev (ram s))"

text \<open>The calls that describe the machine, up to \<^verbatim>\<open>dt_finish\<close>.\<close>

definition describe :: "byte list option \<Rightarrow> 'x::len vm \<Rightarrow> bool \<times> 'x device_tree" where
  "describe dtb_malloc s =
     dt_then (dt_then (dt_then (dt_then (dt_init dtb_malloc)
       (dt_addMemeory RAM_BASE (mem_size s)))
       (dt_addAclint ACLINT_BASE (dev_size (aclint_dev (aclint s)))))
       (dt_addPlic PLIC_BASE (dev_size (plic_dev (plic s))) (of_nat PLIC_INTERRUPTS)))
       (dt_addNs16550a UART_BASE (dev_size (uart_dev (uart0 s))) (of_nat NS16550A_IRQ))"

definition buildDeviceTree :: "byte list option \<Rightarrow> 'x::len vm \<Rightarrow> ('x word \<times> 'x vm) option" where
  "buildDeviceTree dtb_malloc s =
     (case describe dtb_malloc s of (ok, dt) \<Rightarrow>
        if \<not> ok then Some (0, s)
        else (case dt_finish dt of
            None \<Rightarrow> None
          | Some (ok', dt') \<Rightarrow>
              if \<not> ok' then Some (0, s)
              else let dtbSize = of_nat (length (dt_data dt'));
                       dtbAddress = align_down (mem_size s + RAM_BASE - dtbSize) (of_nat (sizeof_word TYPE('x)))
                   in Some (dtbAddress, snd (bus_write s dtbAddress (dt_data dt')))))"

section \<open>Construction of the machine\<close>

definition zero_device :: "'x::len device" where
  "zero_device = \<lparr>dev_size = 0, dev_cb = None\<rparr>"

text \<open>The statically allocated, zero-initialised \<^verbatim>\<open>_vm\<close>.\<close>

definition zero_vm :: "byte \<Rightarrow> 'x::len vm" where
  "zero_vm junk =
     \<lparr>bus = \<lparr>devices = replicate BUS_MAX_DEVICES \<lparr>bd_dev = None, bd_base = 0\<rparr>,
        reservation = \<lparr>res_addr = 0, res_size = 0, res_valid = False\<rparr>\<rparr>,
      cpu = \<lparr>Rx = replicate 32 0, PC = 0,
        csr = \<lparr>mhartid = 0, mip = 0, mie = 0, mscratch = 0, mstatus = 0, mstatush = 0,
               mtvec = 0, mcause = 0, mepc = 0, mtval = 0, menvcfg = 0, medeleg = 0, mideleg = 0,
               mcounteren = 0, sscratch = 0, stvec = 0, scause = 0, sepc = 0, stval = 0, senvcfg = 0,
               scounteren = 0\<rparr>,
        cpu_trap = False, trapCause = 0, trapDelegate = False, cpu_irq = False, cpu_wfi = False,
        icache = \<lparr>ic_base = 0, ic_line = replicate ICACHE_LINE_SIZE 0\<rparr>,
        cpu_mode = RV_PRIV_MODE_USER, virtualSBI = False\<rparr>,
      ram = \<lparr>mem_data = [], mem_dev = zero_device\<rparr>,
      aclint = \<lparr>aclint_dev = zero_device, msip = replicate ACLINT_HARTS 0,
        mtimecmp = replicate ACLINT_HARTS 0, mtime = 0, pindingIrq = replicate ACLINT_HARTS False\<rparr>,
      plic = \<lparr>plic_dev = zero_device, priority = replicate PLIC_INTERRUPTS 0,
        pending = replicate PLIC_INTERRUPT_WORDS 0,
        contexts = replicate PLIC_CONTEXTS \<lparr>enable = replicate PLIC_INTERRUPT_WORDS 0,
          threshold = 0, claim = 0, pendingClaims = replicate PLIC_INTERRUPT_WORDS 0\<rparr>\<rparr>,
      uart0 = \<lparr>uart_dev = zero_device,
        ringBuffer = \<lparr>rb_buf = replicate NS16550A_BUF_SIZE 0, rdIdx = 0, wrIdx = 0, rb_len = 0\<rparr>,
        ier = 0, lcr = 0\<rparr>,
      vm_stdout = [], uninit = junk, assert_failed = False, host_ub = False\<rparr>"

text \<open>Two operations of which the second runs only when the first has succeeded.\<close>

definition and_then :: "('x::len vm \<Rightarrow> bool \<times> 'x vm) \<Rightarrow> ('x vm \<Rightarrow> bool \<times> 'x vm) \<Rightarrow> 'x vm \<Rightarrow> bool \<times> 'x vm" where
  "and_then f g s = (case f s of (ok, t) \<Rightarrow> if ok then g t else (False, t))"

definition vm_setup :: "options \<Rightarrow> bool \<Rightarrow> 'x::len vm \<Rightarrow> bool \<times> 'x vm" where
  "vm_setup op calloc_ok =
     and_then bus_init
     (and_then (rv_init 0 (\<not> noSBI op))
     (and_then (mem_init calloc_ok (ucast ((ucast (memSizeMb op) :: 64 word) * 1024 * 1024)))
     (and_then (bus_register RAM_BASE RAM)
     (and_then (and_then aclint_init (bus_register ACLINT_BASE ACLINT))
     (and_then (and_then plic_init (bus_register PLIC_BASE PLIC))
     (and_then ns16550a_init (bus_register UART_BASE UART0)))))))"

definition start :: "options \<Rightarrow> 'x::len word \<Rightarrow> 'x word \<Rightarrow> 'x vm \<Rightarrow> 'x vm" where
  "start op entryPoint dtbAddress s =
     (if noSBI op then
        let t = rv_reset RV_PRIV_MODE_MACHINE entryPoint s
        in rv_pokeRx CPU_REG_A1 dtbAddress (rv_pokeRx CPU_REG_A0 (rv_getHartID t) t)
      else sbi_startHart entryPoint dtbAddress s)"

text \<open>\<^verbatim>\<open>main\<close> up to the loop; \<open>None\<close> is the exit with code 1. (It would also stand for a device tree
  that is never finished, which \<open>buildDeviceTree_returns\<close> rules out.)\<close>

definition boot ::
  "opt list \<Rightarrow> bool \<Rightarrow> bool \<Rightarrow> byte list option \<Rightarrow> byte list option \<Rightarrow> byte \<Rightarrow> 'x::len vm option" where
  "boot args calloc_ok malloc_ok dtb_malloc img junk =
     (case parseArgs args of (ok, op) \<Rightarrow>
        if \<not> ok then None
        else (case vm_setup op calloc_ok (zero_vm junk) of (ok', s) \<Rightarrow>
          if \<not> ok' then None
          else (case buildDeviceTree dtb_malloc s of None \<Rightarrow> None | Some (dtbAddress, s1) \<Rightarrow>
            if dtbAddress = 0 then None
            else (case (if kernelFile op \<noteq> None then loadLinuxImage img malloc_ok RAM_BASE s1
                        else loadBin img malloc_ok RAM_BASE s1) of (entryPoint, s2) \<Rightarrow>
              if entryPoint = 0 then None else Some (start op entryPoint dtbAddress s2)))))"

section \<open>The main loop\<close>

definition cyclesPerStep :: nat where "cyclesPerStep = 100"

definition idle_us :: "'x::len vm \<Rightarrow> 64 word" where
  "idle_us s =
     (let us = aclint_mtimeRemains s 0 div of_nat (ACLINT_FREQENCY div 1000000)
      in if us > 100000 then 100000 else us)"

definition idle :: "'x::len vm \<Rightarrow> 'x vm" where
  "idle s =
     (if cpu_wfi (cpu s)
      then aclint_tick (ucast (idle_us s * of_nat (ACLINT_FREQENCY div 1000000))) s
      else s)"

definition ui_getch :: "byte option \<Rightarrow> 'x::len vm \<Rightarrow> bool \<times> 'x vm" where
  "ui_getch inp s =
     (case inp of None \<Rightarrow> (True, s)
      | Some ch \<Rightarrow> if ch \<noteq> 0 then (True, snd (ns16550_push ch s)) else (True, s))"

definition turn :: "byte option \<Rightarrow> 'x::len vm \<Rightarrow> bool \<times> 'x vm" where
  "turn inp s =
     ui_getch inp (idle (aclint_tick (of_nat cyclesPerStep) ((rv_run ^^ cyclesPerStep) s)))"

text \<open>The main loop after a boot: one turn for each poll of the keyboard.\<close>

definition main_loop :: "byte option list \<Rightarrow> 'x::len vm \<Rightarrow> 'x vm" where
  "main_loop = fold (\<lambda>inp s. snd (turn inp s))"

text \<open>The states the machine goes through. When the allocation for the device tree succeeds, the buffer has
  the size that was asked for.\<close>

inductive vm_step :: "'x::len vm \<Rightarrow> 'x vm \<Rightarrow> bool" where
  run: "vm_step s (rv_run s)"
| tick: "vm_step s (aclint_tick n s)"
| key: "vm_step s (snd (ui_getch inp s))"

inductive_cases vm_stepE: "vm_step s t"

inductive reachable :: "'x::len vm \<Rightarrow> bool" where
  boot: "boot args calloc_ok malloc_ok dtb img junk = Some s \<Longrightarrow>
    (\<And>bytes. dtb = Some bytes \<Longrightarrow> length bytes = bufsize) \<Longrightarrow> reachable s"
| step: "reachable s \<Longrightarrow> vm_step s t \<Longrightarrow> reachable t"

section \<open>The constructed machine is well-formed\<close>

lemma parseArgs_mem:
  assumes "parseArgs xs = (True, op)"
  shows "1 \<le> unat (memSizeMb op)" "unat (memSizeMb op) \<le> 1024"
proof -
  have "\<not> memSizeMb op < 1" "\<not> 1024 < memSizeMb op"
    using assms by (auto simp: parseArgs_def split: prod.splits if_splits)
  then show "1 \<le> unat (memSizeMb op)" "unat (memSizeMb op) \<le> 1024"
    by (simp_all add: word_less_nat_alt word_le_nat_alt not_less)
qed

definition mem_bytes :: "options \<Rightarrow> 'x::len word" where
  "mem_bytes op = ucast ((ucast (memSizeMb op) :: 64 word) * 1024 * 1024)"

lemma unat_megabytes:
  fixes n :: "'a::len word"
  assumes "valid_xlen TYPE('x::len)" "unat n \<le> 1024"
  shows "unat (ucast ((ucast n :: 64 word) * 1024 * 1024) :: 'x word) = unat n * 2 ^ 20"
proof -
  have u: "unat (ucast n :: 64 word) = unat n"
    using assms(2) take_bit_nat_eq_self [of "unat n" 64] by (simp add: unsigned_ucast_eq)
  have m: "unat ((ucast n :: 64 word) * 1024 * 1024) = unat n * 2 ^ 20"
    using assms(2) by (simp add: unat_word_ariths u)
  have "unat n * 2 ^ 20 < 2 ^ 32"
    using assms(2) by simp
  also have "(2 :: nat) ^ 32 \<le> 2 ^ LENGTH('x)"
    using valid_xlen_ge [OF assms(1)] by (rule power_increasing) simp
  finally have "take_bit LENGTH('x) (unat n * 2 ^ 20) = unat n * 2 ^ 20"
    by (rule take_bit_nat_eq_self)
  then show ?thesis
    by (simp only: unsigned_ucast_eq m)
qed

lemma unat_mem_bytes:
  assumes "valid_xlen TYPE('x::len)" "unat (memSizeMb op) \<le> 1024"
  shows "unat (mem_bytes op :: 'x word) = unat (memSizeMb op) * 2 ^ 20"
  unfolding mem_bytes_def by (rule unat_megabytes [OF assms])

lemma vm_setup_ok:
  fixes s :: "'x::len vm"
  assumes "vm_setup op calloc_ok s = (True, t)"
  shows "wf_devs t" "devices (bus t) = vm_devices" "dev_size (mem_dev (ram t)) = mem_bytes op"
    "wf_cpu (cpu t)"
proof -
  have c: calloc_ok
    using assms
    by (cases calloc_ok) (auto simp: vm_setup_def and_then_def bus_init_def rv_init_def mem_init_def)
  show "wf_devs t"
    using assms c wf_aclint_init [of s] wf_plic_init [of s] wf_uart_init [of s]
    by (auto simp: vm_setup_def and_then_def bus_init_def rv_init_def mem_init_def wf_devs_def
        bus_register_def BUS_MAX_DEVICES_def numeral_eq_Suc aclint_init_def plic_init_def
        ns16550a_init_def wf_ram_def)
  show "devices (bus t) = vm_devices" "dev_size (mem_dev (ram t)) = mem_bytes op"
    using assms c
    by (auto simp: vm_setup_def and_then_def bus_init_def rv_init_def mem_init_def mem_bytes_def
        bus_register_def BUS_MAX_DEVICES_def numeral_eq_Suc aclint_init_def plic_init_def
        ns16550a_init_def vm_devices_def)
  show "wf_cpu (cpu t)"
    using assms c
    by (auto simp: vm_setup_def and_then_def bus_init_def rv_init_def mem_init_def
        bus_register_def BUS_MAX_DEVICES_def aclint_init_def plic_init_def
        ns16550a_init_def wf_cpu_def MSTATUS_GET_MPP_def privMode_of_def split: option.splits)
qed

lemma wf_vm_setup:
  fixes s :: "'x::len vm"
  assumes v: "valid_xlen TYPE('x)" and p: "parseArgs args = (True, op)"
    and u: "vm_setup op calloc_ok s = (True, t)"
  shows "wf_vm t"
  using vm_setup_ok [OF u] unat_mem_bytes [OF v parseArgs_mem(2) [OF p]] parseArgs_mem [OF p]
  by (simp add: wf_vm_def wf_platform_def)

lemma mem_write_port: "port_frame s (mem_write s a buf)"
  by (rule ram_dev.wr_frame)

lemma loadLoop_port: "port_frame s (snd (loadLoop n data ptr s))"
proof (induction n data ptr s rule: loadLoop.induct)
  case (1 n data ptr s)
  show ?case
    using 1 port_frame_trans [OF mem_write_port [of s ptr "take n data"]] mem_write_port [of s ptr "take n data"]
    by (subst loadLoop.simps) (simp add: Let_def)
qed

lemma loadBin_port: "port_frame s (snd (loadBin c m b s))"
  by (simp add: loadBin_def loadLoop_port split: option.split)

lemma loadLinuxImage_port: "port_frame s (snd (loadLinuxImage c m b s))"
  by (auto simp: loadLinuxImage_def Let_def split: option.split
      intro: port_frame_trans [OF mem_write_port loadLoop_port])

lemma buildDeviceTree_port: "buildDeviceTree dtb s = Some (d, t) \<Longrightarrow> port_frame s t"
  by (auto simp: buildDeviceTree_def Let_def bus_port.port_wr_frame split: option.splits prod.splits if_splits)

lemma wf_rv_reset:
  assumes v: "valid_xlen TYPE('x::len)" and w: "wf_vm (s :: 'x vm)" and m: "m \<noteq> RV_PRIV_MODE_RESERVED"
  shows "wf_vm (rv_reset m pc s)"
proof -
  have "MSTATUS_GET_MPP (MSTATUS_WR_VAL 0 :: 'x word) = RV_PRIV_MODE_USER"
    using v unfolding MSTATUS_GET_MPP_bit [OF v] MSTATUS_WR_VAL_def MSTATUS_UXL_64_def MSTATUS_SXL_64_def
    by (auto simp: bit_or_iff bit_single)
  moreover have "wf_vm (snd (bus_reservationCheckInvalidate 0 0 (flushIcache s)))"
    by (intro wf_intros w)
  ultimately show ?thesis
    unfolding rv_reset_def Let_def
    by (intro wf_writePC) (simp add: wf_vm_def wf_cpu_def wf_platform_def wf_devs_def m)
qed

lemma wf_start:
  assumes v: "valid_xlen TYPE('x::len)" and w: "wf_vm (s :: 'x vm)"
  shows "wf_vm (start op entry dtb s)"
proof -
  have "wf_vm (rv_pokeRx CPU_REG_A1 dtb (rv_pokeRx CPU_REG_A0 y (rv_reset m entry s)))"
    if "m \<noteq> RV_PRIV_MODE_RESERVED" for y m
    using that by (intro wf_rv_pokeRx wf_rv_reset v w) (simp_all add: cpu_reg_defs)
  then show ?thesis
    by (auto simp: start_def sbi_startHart_def Let_def wf_vm_def wf_cpu_def)
qed

lemma boot_parts:
  assumes b: "boot args c m dtb img junk = Some (s :: 'x::len vm)"
  obtains op t d t1 entry t2 where "parseArgs args = (True, op)" "vm_setup op c (zero_vm junk) = (True, t)"
    "buildDeviceTree dtb t = Some (d, t1)" "d \<noteq> 0"
    "(entry, t2) = (if kernelFile op \<noteq> None then loadLinuxImage img m RAM_BASE t1 else loadBin img m RAM_BASE t1)"
    "s = start op entry d t2"
proof -
  obtain ok op where p: "parseArgs args = (ok, op)" by (cases "parseArgs args")
  obtain ok' t where u: "vm_setup op c (zero_vm junk :: 'x vm) = (ok', t)"
    by (cases "vm_setup op c (zero_vm junk :: 'x vm)")
  obtain d t1 where d: "buildDeviceTree dtb t = Some (d, t1)"
    using b by (cases "buildDeviceTree dtb t") (auto simp: boot_def p u split: if_splits)
  obtain entry t2 where l: "(if kernelFile op \<noteq> None then loadLinuxImage img m RAM_BASE t1
      else loadBin img m RAM_BASE t1) = (entry, t2)"
    by fastforce
  have "ok" "ok'" "d \<noteq> 0" "s = start op entry d t2"
    using b l by (auto simp: boot_def p u d split: if_splits prod.splits)
  then show ?thesis
    using that p u d l by simp
qed

lemma wf_boot:
  assumes v: "valid_xlen TYPE('x::len)" and b: "boot args c m dtb img junk = Some (s :: 'x vm)"
  shows "wf_vm s"
  using b
proof (rule boot_parts)
  fix op and t :: "'x vm" and d t1 entry t2
  assume p: "parseArgs args = (True, op)" and u: "vm_setup op c (zero_vm junk) = (True, t)"
    and d: "buildDeviceTree dtb t = Some (d, t1)" and s: "s = start op entry d t2"
    and l: "(entry, t2) = (if kernelFile op \<noteq> None then loadLinuxImage img m RAM_BASE t1 else loadBin img m RAM_BASE t1)"
  have "port_frame t1 t2"
    using arg_cong [OF l, of snd] loadLinuxImage_port [of t1 img m RAM_BASE] loadBin_port [of t1 img m RAM_BASE]
    by (cases "kernelFile op = None") simp_all
  then have "port_frame t t2"
    by (rule port_frame_trans [OF buildDeviceTree_port [OF d]])
  then show "wf_vm s"
    unfolding s by (intro wf_start v wf_vm_frame [OF wf_vm_setup [OF v p u]])
qed

section \<open>Every reachable state is well-formed\<close>

lemma aclint_tick_port: "port_frame s (aclint_tick n s)"
  using aclint_frame_dev [OF aclint_tick_frame [where s = s and c = n]]
  by (intro port_frame_dev) (simp_all add: wf_devs_def wf_aclint_tick dev_frame_def)

lemma ui_getch_port: "port_frame s (snd (ui_getch inp s))"
proof -
  have "port_frame s (snd (ns16550_push ch s))" for ch
    using ns16550_push_frame [where s = s and ch = ch] unfolding uart_frame_def
    by (intro port_frame_dev) (simp_all add: wf_devs_def dev_frame_def)
  then show ?thesis
    by (simp add: ui_getch_def split: option.split)
qed

lemma wf_vm_step: "valid_xlen TYPE('x::len) \<Longrightarrow> wf_vm (s :: 'x vm) \<Longrightarrow> vm_step s t \<Longrightarrow> wf_vm t"
  by (erule vm_stepE) (auto intro: wf_rv_run wf_vm_frame [OF _ aclint_tick_port] wf_vm_frame [OF _ ui_getch_port])

lemma wf_reachable:
  assumes "valid_xlen TYPE('x::len)"
  shows "reachable (s :: 'x vm) \<Longrightarrow> wf_vm s"
  by (induction rule: reachable.induct) (auto intro: wf_boot [OF assms] wf_vm_step [OF assms])

lemma reachable_turn: "reachable s \<Longrightarrow> reachable (snd (turn inp s))"
proof -
  assume r: "reachable s"
  have "reachable ((rv_run ^^ n) s)" for n
    by (induction n) (auto intro: r reachable.step vm_step.run)
  then show ?thesis
    by (auto simp: turn_def idle_def intro!: reachable.step [OF _ vm_step.key] reachable.step [OF _ vm_step.tick])
qed

end
