(* ===== verification/Device_Props.thy ===== *)
theory Device_Props
  imports VM_Main
begin

text \<open>
  The properties of the devices, of memory and of the bus, and the example machine their
  witnesses use.
\<close>

section \<open>An example machine\<close>

definition demo_opts :: options where
  "demo_opts = \<lparr>kernelFile = None, binFile = Some ''image.bin'', noSBI = False, memSizeMb = 1\<rparr>"

text \<open>The 32-bit machine with one megabyte of memory as \<^verbatim>\<open>main\<close> builds it.\<close>

definition demo :: "32 vm" where
  "demo = snd (vm_setup demo_opts True (zero_vm 0))"

lemma replicate_slots: "replicate BUS_MAX_DEVICES x = [x, x, x, x]"
  by (simp add: BUS_MAX_DEVICES_def numeral_eq_Suc)

lemma vm_setup_demo: "vm_setup demo_opts True (zero_vm 0) = (True, demo)"
  by (simp add: demo_def vm_setup_def and_then_def bus_init_def rv_init_def mem_init_def
      bus_register_def replicate_slots aclint_init_def plic_init_def ns16550a_init_def)

lemma mem_bytes_demo: "mem_bytes demo_opts = (0x100000 :: 32 word)"
  by (simp add: mem_bytes_def demo_opts_def)

lemma wf_demo [simp]: "wf_vm demo"
  using vm_setup_ok [OF vm_setup_demo] by (simp add: wf_vm_def wf_platform_def mem_bytes_demo)

lemma demo_platform [simp]: "wf_platform demo" "wf_devs demo"
  using wf_demo by (simp_all add: wf_vm_def wf_platform_def)

lemma demo_ram: "ram demo = \<lparr>mem_data = replicate 0x100000 0, mem_dev = \<lparr>dev_size = 0x100000, dev_cb = Some RAM\<rparr>\<rparr>"
  by (simp add: demo_def demo_opts_def vm_setup_def and_then_def bus_init_def rv_init_def mem_init_def
      bus_register_def replicate_slots aclint_init_def plic_init_def ns16550a_init_def)

section \<open>The timer\<close>

lemma demo_devices:
  "aclint demo = \<lparr>aclint_dev = \<lparr>dev_size = 0x10000, dev_cb = Some ACLINT\<rparr>, msip = [0], mtimecmp = [0],
     mtime = 0, pindingIrq = [False]\<rparr>"
  "uart0 demo = \<lparr>uart_dev = \<lparr>dev_size = 8, dev_cb = Some UART0\<rparr>,
     ringBuffer = \<lparr>rb_buf = replicate 256 0, rdIdx = 0, wrIdx = 0, rb_len = 0\<rparr>, ier = 0, lcr = 0\<rparr>"
  "devices (bus demo) = vm_devices"
  by (simp_all add: demo_def demo_opts_def vm_setup_def and_then_def bus_init_def rv_init_def mem_init_def
      bus_register_def replicate_slots aclint_init_def plic_init_def ns16550a_init_def
      ACLINT_HARTS_def NS16550A_BUF_SIZE_def vm_devices_def)

text \<open>C26. Advancing the clock: the counter moves by the number of cycles, the device ends settled
  (its pending mark says whether the comparator has been reached), and when the comparator is
  reached by this tick the machine timer interrupt becomes pending and the hart leaves its wait.\<close>

theorem aclint_tick_timer:
  assumes v: "valid_xlen TYPE('x::len)" and w: "wf_aclint (aclint (s :: 'x vm))"
  shows "mtime (aclint (aclint_tick n s)) = mtime (aclint s) + ucast n \<and>
    timer_settled (aclint (aclint_tick n s)) \<and>
    (mtimecmp (aclint s) ! 0 \<le> mtime (aclint s) + ucast n \<and> \<not> pindingIrq (aclint s) ! 0 \<longrightarrow>
       bit (mip (csr_of (aclint_tick n s))) (irq_code IRQ_MACHINE_TMR_INT) \<and>
       \<not> cpu_wfi (cpu (aclint_tick n s)))"
proof -
  define t where "t = s\<lparr>aclint := (aclint s)\<lparr>mtime := mtime (aclint s) + ucast n\<rparr>\<rparr>"
  have e: "aclint_tick n s = updateMtimer t"
    by (simp add: aclint_tick_def t_def)
  have wt: "wf_aclint (aclint t)"
    using w by (simp add: wf_aclint_def t_def)
  have "\<not> cpu_wfi (cpu (updateMtimer t))"
    if "mtimecmp (aclint s) ! 0 \<le> mtime (aclint s) + ucast n" "\<not> pindingIrq (aclint s) ! 0"
    using that by (simp add: updateMtimer_unfold updateMtimer_hart_def t_def irq_line_defs Let_def)
  then show ?thesis
    using updateMtimer_settles [OF wt] updateMtimer_mip [OF v, of t "irq_code IRQ_MACHINE_TMR_INT"]
    by (simp add: e) (simp add: t_def)
qed

theorem aclint_tick_timer_witness:
  "bit (mip (csr_of (aclint_tick 100 demo))) 7 \<and> timer_settled (aclint (aclint_tick 100 demo))"
  using aclint_tick_timer [of demo 100] wf_devs_def [of demo] by (simp add: demo_devices)

text \<open>C27. The timer and software interrupt registers read back what was written to them through
  the bus window, whatever part of them is accessed.\<close>

theorem aclint_register_roundtrip:
  assumes "wf_aclint (aclint (s :: 'x::len vm))" "unat addr + length bs \<le> 2 ^ LENGTH('x)"
    and "\<And>k. k < length bs \<Longrightarrow> aclint_register (unat addr + k)" "length old = length bs"
  shows "snd (aclint_cbRead (aclint_cbWrite s addr bs) addr old) = bs"
proof (rule nth_equalityI)
  have r: "aclint_readByte (aclint (aclint_cbWrite s addr bs)) x =
      aclint_readByte (fst (aclint_writeLoop (aclint s, True) addr bs)) x" for x
    by (simp add: aclint_cbWrite_def split_def aclint_readByte_def Let_def)
  show "length (snd (aclint_cbRead (aclint_cbWrite s addr bs) addr old)) = length bs"
    using assms(4) by (simp add: aclint_cbRead_def Let_def)
  fix k assume "k < length (snd (aclint_cbRead (aclint_cbWrite s addr bs) addr old))"
  then have k: "k < length bs"
    using assms(4) by (simp add: aclint_cbRead_def Let_def)
  then have u: "unat (addr + of_nat k) = unat addr + k"
    using assms(2) by (intro unat_plus_of_nat) simp
  then have "fst (aclint_readByte (fst (aclint_writeLoop (aclint s, True) addr bs)) (addr + of_nat k)) = bs ! k"
    using aclint_read_writeLoop [OF assms(1,2), of True "addr + of_nat k"] assms(3) [OF k] k
    by (simp add: word_le_nat_alt)
  then show "snd (aclint_cbRead (aclint_cbWrite s addr bs) addr old) ! k = bs ! k"
    using k assms(4) by (simp add: aclint_cbRead_def Let_def nth_aclint_readLoop r)
qed

theorem aclint_register_roundtrip_witness:
  "snd (aclint_cbRead (aclint_cbWrite demo 0x4002 [0xAB, 0xCD]) 0x4002 [0, 0]) = [0xAB, 0xCD]"
  using wf_devs_def [of demo]
  by (intro aclint_register_roundtrip) (auto simp: aclint_register_def less_Suc_eq)

section \<open>The interrupt controller\<close>

text \<open>C28. Whenever the controller has re-evaluated its inputs, the external interrupt lines of
  the hart (machine level for context 0, supervisor level for context 1) are up exactly when the
  source is pending, above the context's threshold, enabled and not already claimed there; the
  claim register then holds 1 and otherwise 0; every other pending bit of the hart is untouched.\<close>

theorem plic_lines_follow_inputs:
  assumes v: "valid_xlen TYPE('x::len)" and w: "wf_plic (plic (s :: 'x vm))"
    and i: "i < PLIC_CONTEXTS"
  shows "(bit (mip (csr_of (processInterrupts s))) n \<longleftrightarrow>
      (if n = irq_code IRQ_MACHINE_EXT_INT then plic_offers (plic s) 0
       else if n = irq_code IRQ_SUPERVISOR_EXT_INT then plic_offers (plic s) 1
       else bit (mip (csr_of s)) n)) \<and>
    claim (contexts (plic (processInterrupts s)) ! i) = of_bool (plic_offers (plic s) i)"
  using processInterrupts_mip [OF v w] contexts_processInterrupts [OF wf_plicD(2) [OF w]] i
  by simp

theorem plic_lines_follow_inputs_witness:
  "\<not> bit (mip (csr_of (processInterrupts demo))) 9 \<and>
   claim (contexts (plic (processInterrupts demo)) ! 1) = of_bool (plic_offers (plic demo) 1)"
proof -
  have "\<not> plic_offers (plic demo) 1"
    by (simp add: demo_def demo_opts_def vm_setup_def and_then_def bus_init_def rv_init_def mem_init_def
        bus_register_def replicate_slots aclint_init_def plic_init_def ns16550a_init_def plic_offers_def
        offers_to_def plic_consts)
  then show ?thesis
    using plic_lines_follow_inputs [of demo 1 9]
      wf_devs_def [of demo] by (simp add: plic_consts)
qed

text \<open>C29. Claiming: a four-byte read of the claim register of a context that is offered the source
  returns number 1; afterwards the source is no longer pending, the claim is recorded for that
  context, and both external interrupt lines are down.\<close>

theorem plic_claim:
  assumes v: "valid_xlen TYPE('x::len)" and w: "wf_plic (plic (s :: 'x vm))" and i: "i < PLIC_CONTEXTS"
    and c: "claim (contexts (plic s) ! i) = 1" and l: "length buf = 4"
  shows "snd (plic_cbRead s (claim_addr i) buf) = le_bytes 4 (1 :: 32 word) \<and>
    \<not> bit (pending (plic (fst (plic_cbRead s (claim_addr i) buf))) ! 0) 1 \<and>
    bit (pendingClaims (contexts (plic (fst (plic_cbRead s (claim_addr i) buf))) ! i) ! 0) 1 \<and>
    \<not> bit (mip (csr_of (fst (plic_cbRead s (claim_addr i) buf)))) (irq_code (plic_cause j))"
proof (intro conjI)
  have r: "plic_cbRead s (claim_addr i) buf = (claimInterrupts (Some i) s, le_bytes 4 (1 :: 32 word))"
    using plic_readLoop_claim [OF v i w l] c by (simp add: plic_cbRead_def list_all_iff comp_def)
  note m = wf_mark_claimed [OF w i]
  show "snd (plic_cbRead s (claim_addr i) buf) = le_bytes 4 (1 :: 32 word)"
    by (simp add: r)
  show "\<not> bit (pending (plic (fst (plic_cbRead s (claim_addr i) buf))) ! 0) 1"
    using mark_claimed_bits(1) [OF w i] by (simp add: r claimInterrupts_eq [OF c w i])
  show "bit (pendingClaims (contexts (plic (fst (plic_cbRead s (claim_addr i) buf))) ! i) ! 0) 1"
    using mark_claimed_bits(2) [OF w i] wf_plicD(2) [OF m] i
    by (simp add: r claimInterrupts_eq [OF c w i] contexts_processInterrupts)
  show "\<not> bit (mip (csr_of (fst (plic_cbRead s (claim_addr i) buf)))) (irq_code (plic_cause j))"
    using claimInterrupts_mip [OF v w i c] by (simp add: r)
qed

text \<open>The example machine with source 1 pending and offered to the supervisor context.\<close>

definition demo_irq :: "32 vm" where
  "demo_irq = plic_interrupt 1 (demo\<lparr>plic := (plic demo)\<lparr>priority := [3],
     contexts := [contexts (plic demo) ! 0, (contexts (plic demo) ! 1)\<lparr>enable := [2]\<rparr>]\<rparr>\<rparr>)"

lemma plic_demo: "plic demo = \<lparr>plic_dev = \<lparr>dev_size = 0x400000, dev_cb = Some PLIC\<rparr>, priority = [0],
    pending = [0], contexts = replicate 2 \<lparr>enable = [0], threshold = 0, claim = 0, pendingClaims = [0]\<rparr>\<rparr>"
  by (simp add: demo_def demo_opts_def vm_setup_def and_then_def bus_init_def rv_init_def mem_init_def
      bus_register_def replicate_slots aclint_init_def plic_init_def ns16550a_init_def plic_consts)

lemma demo_irq_offered: "wf_plic (plic demo_irq)" "claim (contexts (plic demo_irq) ! 1) = 1"
proof -
  define t where "t = demo\<lparr>plic := (plic demo)\<lparr>priority := [3], pending := [2],
     contexts := [contexts (plic demo) ! 0, (contexts (plic demo) ! 1)\<lparr>enable := [2]\<rparr>]\<rparr>\<rparr>"
  have e: "demo_irq = processInterrupts t"
    by (simp add: demo_irq_def t_def plic_interrupt_def plic_irqWord_def plic_irqMask_def plic_consts
        plic_demo push_bit_eq_mult)
  have w: "wf_plic (plic t)"
    by (simp add: t_def plic_demo wf_plic_def wf_context_def plic_consts less_Suc_eq numeral_2_eq_2)
  show "wf_plic (plic demo_irq)"
    unfolding e by (rule wf_plic_processInterrupts [OF w])
  have "plic_offers (plic t) 1"
    by (simp add: t_def plic_demo plic_offers_def offers_to_def numeral_2_eq_2) code_simp
  then show "claim (contexts (plic demo_irq) ! 1) = 1"
    unfolding e using contexts_processInterrupts [OF wf_plicD(2) [OF w], of 1] by (simp add: plic_consts)
qed

theorem plic_claim_witness:
  "claim (contexts (plic demo_irq) ! 1) = 1 \<and>
   snd (plic_cbRead demo_irq (claim_addr 1) [0, 0, 0, 0]) = [1, 0, 0, 0] \<and>
   \<not> bit (mip (csr_of (fst (plic_cbRead demo_irq (claim_addr 1) [0, 0, 0, 0])))) 9"
proof -
  have "le_bytes 4 (1 :: 32 word) = [1, 0, 0, 0]"
    by code_simp
  then show ?thesis
    using plic_claim [of demo_irq 1 "[0, 0, 0, 0]" 1]
      demo_irq_offered by (simp add: plic_consts)
qed

text \<open>C30. The controller's memory safety: no read of its window, at any offset and of any length, leaves
  its arrays of priorities, pending bits, enable bits and contexts, and a write does so exactly when it
  completes an interrupt number of 4 or more, because the number is divided by the size of a word in bytes
  to find its word. Every array access of the handlers is checked against the array's size.\<close>

theorem plic_window_safety:
  assumes "wf_plic (plic s)"
  shows "host_ub (fst (plic_cbRead s a buf)) = host_ub s \<and>
    (host_ub (plic_cbWrite s a buf) \<longleftrightarrow> host_ub s \<or>
      (case plic_writeLoop a buf (plic s, True, None, 0) of (p, ok, c, n) \<Rightarrow> c \<noteq> None \<and> 4 \<le> unat n))"
  by (intro conjI plic_cbRead_ub [OF assms] plic_cbWrite_ub [OF assms])

theorem plic_window_safety_witness:
  "host_ub (plic_cbWrite demo (claim_addr 0) [5, 0, 0, 0]) \<and>
   host_ub (fst (plic_cbRead demo 0x1FFFF8 [0, 0, 0, 0])) = host_ub demo"
proof -
  have "case plic_writeLoop (claim_addr 0 :: 32 word) [5, 0, 0, 0] (plic demo, True, None, 0) of
      (p, ok, c, n) \<Rightarrow> c \<noteq> None \<and> 4 \<le> unat n"
    by (simp add: plic_demo claim_addr_def plic_writeByte_def Let_def sizeof_def plic_consts access_defs put_byte_def)
  then show ?thesis
    using plic_window_safety [of demo "claim_addr 0" "[5, 0, 0, 0]"]
      plic_window_safety [of demo "0x1FFFF8" "[0, 0, 0, 0]"] wf_devs_def [of demo] by simp
qed

section \<open>The serial port\<close>

lemma push_uart:
  "uart0 (snd (ns16550_push ch s)) = (uart0 s)\<lparr>ringBuffer := snd (push_char ch (ringBuffer (uart0 s)))\<rparr>"
proof -
  have "uart0 (uart_irq t) = uart0 t" for t :: "'a::len vm"
    using plic_interrupt_frame [of t NS16550A_IRQ] by (simp add: uart_irq_def plic_frame_def)
  then show ?thesis
    by (simp add: ns16550_push_def split_def push_char_def pushChar_def)
qed

lemma push_all_uart:
  "uart0 (fold (\<lambda>c s. snd (ns16550_push c s)) xs s) =
     (uart0 s)\<lparr>ringBuffer := fold (\<lambda>c q. snd (push_char c q)) xs (ringBuffer (uart0 s))\<rparr>"
  by (induction xs arbitrary: s) (simp_all add: push_uart)

lemma uart_read_char:
  assumes "\<not> bit (lcr (uart0 s)) 7"
  shows "uart0 (fst (uart_cbRead s 0 [b])) = (uart0 s)\<lparr>ringBuffer := snd (pop_char (ringBuffer (uart0 s)))\<rparr>"
    "snd (uart_cbRead s 0 [b]) = [fst (pop_char (ringBuffer (uart0 s)))]"
proof -
  have "lcr (uart0 s) AND NS16550A_LCR_DLAB = 0"
    using assms and_exp_eq_0_iff [of "lcr (uart0 s)" 7] by (simp add: NS16550A_LCR_DLAB_def)
  then show "uart0 (fst (uart_cbRead s 0 [b])) = (uart0 s)\<lparr>ringBuffer := snd (pop_char (ringBuffer (uart0 s)))\<rparr>"
    "snd (uart_cbRead s 0 [b]) = [fst (pop_char (ringBuffer (uart0 s)))]"
    by (simp_all add: uart_cbRead_def uart_readByte_def pop_char_def split_def)
qed

lemma uart_read_many:
  assumes "\<not> bit (lcr (uart0 s)) 7"
  shows "uart0 (((\<lambda>s. fst (uart_cbRead s 0 [b])) ^^ n) s) =
      (uart0 s)\<lparr>ringBuffer := ((\<lambda>q. snd (pop_char q)) ^^ n) (ringBuffer (uart0 s))\<rparr>"
  using assms by (induction n) (simp_all add: uart_read_char)

text \<open>C25. The serial port is first in, first out: after any burst of received characters, successive
  reads of the receive register return them in order, up to the 256 the ring buffer holds.\<close>

theorem uart_fifo:
  assumes "wf_uart (uart0 s)" "\<not> bit (lcr (uart0 s)) 7" "rb_contents (ringBuffer (uart0 s)) = []"
    and "n < length xs" "n < NS16550A_BUF_SIZE"
  shows "snd (uart_cbRead (((\<lambda>s. fst (uart_cbRead s 0 [b])) ^^ n)
      (fold (\<lambda>c s. snd (ns16550_push c s)) xs s)) 0 [b]) = [xs ! n]"
proof -
  define q where "q = ringBuffer (uart0 s)"
  define t where "t = ((\<lambda>s. fst (uart_cbRead s 0 [b])) ^^ n) (fold (\<lambda>c s. snd (ns16550_push c s)) xs s)"
  have "wf_ring q"
    using assms(1) by (simp add: wf_uart_def q_def)
  then have f: "fst (pop_char (((\<lambda>q. snd (pop_char q)) ^^ n) (fold (\<lambda>c q. snd (push_char c q)) xs q))) = xs ! n"
    using assms(3-5) by (intro ring.fifo) (simp_all add: q_def)
  have u: "uart0 t = (uart0 s)\<lparr>ringBuffer :=
      ((\<lambda>q. snd (pop_char q)) ^^ n) (fold (\<lambda>c q. snd (push_char c q)) xs q)\<rparr>"
    unfolding t_def using assms(2) by (subst uart_read_many) (simp_all add: push_all_uart q_def)
  then show ?thesis
    using assms(2) f unfolding t_def [symmetric] by (subst uart_read_char) simp_all
qed

theorem uart_fifo_witness:
  "snd (uart_cbRead (((\<lambda>s. fst (uart_cbRead s 0 [0])) ^^ 1)
      (fold (\<lambda>c s. snd (ns16550_push c s)) [72, 105] demo)) 0 [0]) = [105]"
  using uart_fifo [of demo 1 "[72, 105]" 0] wf_devs_def [of demo]
  by (simp add: demo_devices rb_contents_def NS16550A_BUF_SIZE_def)

text \<open>A character is lost exactly when the ring buffer is full, and then the port is unchanged;
  otherwise it is appended to the characters waiting.\<close>

lemma uart_push:
  assumes "wf_uart (uart0 s)"
  shows "(fst (ns16550_push ch s) \<longleftrightarrow> rb_len (ringBuffer (uart0 s)) < NS16550A_BUF_SIZE) \<and>
    rb_contents (ringBuffer (uart0 (snd (ns16550_push ch s)))) =
      rb_contents (ringBuffer (uart0 s)) @
        (if rb_len (ringBuffer (uart0 s)) < NS16550A_BUF_SIZE then [ch] else []) \<and>
    (\<not> fst (ns16550_push ch s) \<longrightarrow> snd (ns16550_push ch s) = s)"
proof (intro conjI)
  show "fst (ns16550_push ch s) \<longleftrightarrow> rb_len (ringBuffer (uart0 s)) < NS16550A_BUF_SIZE"
    by (auto simp: ns16550_push_def push_char_def pushChar_def)
  show "rb_contents (ringBuffer (uart0 (snd (ns16550_push ch s)))) =
      rb_contents (ringBuffer (uart0 s)) @
        (if rb_len (ringBuffer (uart0 s)) < NS16550A_BUF_SIZE then [ch] else [])"
    using assms by (simp add: push_uart ring.contents_push wf_uart_def)
  show "\<not> fst (ns16550_push ch s) \<longrightarrow> snd (ns16550_push ch s) = s"
    by (auto simp: ns16550_push_def split_def split: if_splits)
qed

section \<open>The bus and memory\<close>

text \<open>C12. Address decoding: an access that ends before the last byte of the address space reaches
  the device whose window contains all of it, at the right offset, and no device otherwise. (For an access
  that includes the last byte the sum in the range check wraps.)\<close>

theorem bus_decoding:
  fixes s :: "'x::len vm"
  assumes "valid_xlen TYPE('x)" "wf_platform s" "unat a + n < 2 ^ LENGTH('x)" "0 < n"
  shows "(findDevice s a n = Some (d, off) \<longleftrightarrow>
      in_region s d (unat a) n \<and> off = a - of_nat (region_base d)) \<and>
    (bus_present s a n \<longleftrightarrow> (\<exists>d. in_region s d (unat a) n))"
  using findDevice_iff [OF assms] by (auto simp: bus_present_def)

theorem bus_decoding_witness:
  "findDevice demo 0x10000005 1 = Some (UART0, 5) \<and> \<not> bus_present demo 0x20000000 4"
proof -
  have r: "region_size demo UART0 = 8" "region_size demo RAM = 0x100000"
    "region_size demo ACLINT = 0x10000" "region_size demo PLIC = 0x400000"
    using region_sizes [of demo] by (simp_all add: demo_ram)
  have "\<not> in_region demo d 0x20000000 4" for d
    using r by (cases d) (simp_all add: in_region_def region_base_def)
  then show ?thesis
    using bus_decoding [of demo "0x10000005" 1 UART0 5] bus_decoding [of demo "0x20000000" 4] r
    by (simp add: in_region_def region_base_def)
qed

text \<open>C13. Memory behaves as memory: what is written to RAM through the bus is read back, and a
  write changes no byte outside the range it names.\<close>

theorem bus_ram_semantics:
  fixes s :: "'x::len vm"
  assumes "valid_xlen TYPE('x)" "wf_platform s" "in_region s RAM (unat a) (length buf)" "buf \<noteq> []"
  shows "(length old = length buf \<longrightarrow>
      bus_read (snd (bus_write s a buf)) a old = (True, snd (bus_write s a buf), buf)) \<and>
    (in_region s RAM (unat b) (length old) \<and> old \<noteq> [] \<and>
      (unat b + length old \<le> unat a \<or> unat a + length buf \<le> unat b) \<longrightarrow>
      snd (snd (bus_read (snd (bus_write s a buf)) b old)) = snd (snd (bus_read s b old)))"
  using bus_ram_roundtrip [OF assms] bus_ram_other [OF assms] by blast

lemma demo_in_ram: "in_region demo RAM a n \<longleftrightarrow> 0x80000000 \<le> a \<and> a + n \<le> 0x80100000"
  using region_sizes(4) [of demo] by (simp add: in_region_def region_base_def demo_ram)

theorem bus_ram_semantics_witness:
  "snd (snd (bus_read (snd (bus_write demo 0x80000010 [1, 2])) 0x80000010 [0, 0])) = [1, 2] \<and>
   snd (snd (bus_read (snd (bus_write demo 0x80000010 [1, 2])) 0x80000012 [0])) =
     snd (snd (bus_read demo 0x80000012 [0]))"
  using bus_ram_semantics [of demo "0x80000010" "[1, 2]" "[0, 0]" 0]
    bus_ram_semantics [of demo "0x80000010" "[1, 2]" "[0]" "0x80000012"]
  by (simp add: demo_in_ram)

text \<open>C14. Host safety of the bus: an access that ends before the last byte of the address space
  touches no host memory outside the emulator's objects (the memory's allocation and the register
  arrays and buffers of the devices), with the one exception of completing an out-of-range interrupt
  number at the interrupt controller.\<close>

theorem bus_host_safety:
  fixes s :: "'x::len vm"
  assumes "valid_xlen TYPE('x)" "wf_platform s" "buf \<noteq> []" "unat a + length buf < 2 ^ LENGTH('x)"
  shows "host_ub (fst (snd (bus_read s a buf))) = host_ub s \<and>
    (host_ub (snd (bus_write s a buf)) \<longleftrightarrow> host_ub s \<or>
      in_region s PLIC (unat a) (length buf) \<and> bad_completion s (a - PLIC_BASE) buf)"
  by (intro conjI bus_read_safe [OF assms] bus_write_safe [OF assms])

theorem bus_host_safety_witness:
  "host_ub (fst (snd (bus_read demo 0x80000FFE [0, 0, 0, 0]))) = host_ub demo"
  using bus_host_safety [of demo "[0, 0, 0, 0]" "0x80000FFE"] by simp

text \<open>C31. At the very end of the 32-bit address space the range check wraps: an aligned four-byte
  read at \<open>0xFFFFFFFC\<close> is taken for an access to RAM and reads host memory far outside the
  allocation, instead of raising an access fault.\<close>

theorem bus_wraparound_escape:
  fixes s :: "32 vm"
  assumes w: "wf_platform s" and l: "length buf = 4"
  shows "fst (bus_read s 0xFFFFFFFC buf) \<and> host_ub (fst (snd (bus_read s 0xFFFFFFFC buf)))"
proof -
  have sz: "length (mem_data (ram s)) \<le> 0x40000000"
    using region_sizes(4,5) [of s] w by simp
  have z: "(4294967296 :: 32 word) = 0"
    by code_simp
  have "bus_includes RAM_BASE n (0xFFFFFFFC :: 32 word) (of_nat 4)" for n
    by (simp add: bus_includes_def RAM_BASE_def z)
  then have "findDevice s 0xFFFFFFFC 4 = Some (RAM, 0x7FFFFFFC)"
    using w by (simp add: findDevice_def wf_platform_def vm_devices_def RAM_BASE_def)
  moreover have "dev_cb (device_of s RAM) = Some RAM"
    using w by (simp add: dev_cb_of wf_platform_devs)
  moreover have "host_ub (fst (mem_read s 0x7FFFFFFC buf))"
    using sz l by (simp add: mem_read_ub)
  ultimately show ?thesis
    using l by (simp add: bus_read_def cbRead_def split_def)
qed

theorem bus_wraparound_escape_witness:
  "fst (bus_read demo 0xFFFFFFFC [0, 0, 0, 0]) \<and> host_ub (fst (snd (bus_read demo 0xFFFFFFFC [0, 0, 0, 0])))"
  using bus_wraparound_escape [of demo "[0, 0, 0, 0]"] by simp

text \<open>C32. A memory dump writes exactly the contents of memory, in order, and terminates whatever
  the size of the memory.\<close>

theorem dump_writes_memory:
  assumes "wf_ram (ram s)"
  shows "mem_dumpImage fopen_ok s = (fopen_ok, s, if fopen_ok then mem_data (ram s) else [])"
  using dumpLoop_eq [OF assms, of 0 "[]"] by (simp add: mem_dumpImage_def)

theorem dump_writes_memory_witness:
  "mem_dumpImage True demo = (True, demo, replicate 0x100000 0)"
  using dump_writes_memory [of demo True] wf_devs_def [of demo] by (simp add: demo_ram)

section \<open>Loading\<close>

lemma splice_splice:
  assumes "i + length xs + length ys \<le> length m"
  shows "splice_at (i + length xs) ys (splice_at i xs m) = splice_at i (xs @ ys) m"
  using assms by (simp add: splice_at_def ac_simps)

lemma splice_empty: "splice_at i [] m = m"
  by (simp add: splice_at_def)

lemma mem_write_data:
  assumes "unat ptr + length buf \<le> length (mem_data (ram s))"
  shows "mem_data (ram (mem_write s ptr buf)) = splice_at (unat ptr) buf (mem_data (ram s))"
    "host_ub (mem_write s ptr buf) = host_ub s"
  using assms by (simp_all add: mem_write_def Let_def)

lemma loadLoop_copies:
  fixes s :: "'x::len vm"
  assumes "0 < n" "unat ptr + length data \<le> length (mem_data (ram s))"
    and "length (mem_data (ram s)) < 2 ^ LENGTH('x)"
  shows "mem_data (ram (snd (loadLoop n data ptr s))) = splice_at (unat ptr) data (mem_data (ram s)) \<and>
    host_ub (snd (loadLoop n data ptr s)) = host_ub s"
  using assms
proof (induction n data ptr s rule: loadLoop.induct)
  case (1 n data ptr s)
  define c where "c = take n data"
  define t where "t = mem_write s ptr c"
  have t: "mem_data (ram t) = splice_at (unat ptr) c (mem_data (ram s))" "host_ub t = host_ub s"
    using 1 mem_write_data [of ptr c s] by (auto simp: t_def c_def)
  have u: "unat (ptr + of_nat (length c)) = unat ptr + length c"
    using 1 by (intro unat_plus_of_nat) (auto simp: c_def)
  show ?case
  proof (cases "n \<le> length data")
    case True
    have "mem_data (ram (snd (loadLoop n (drop n data) (ptr + of_nat (length c)) t))) =
          splice_at (unat ptr + length c) (drop n data) (mem_data (ram t)) \<and>
        host_ub (snd (loadLoop n (drop n data) (ptr + of_nat (length c)) t)) = host_ub t"
      using 1(1) [OF c_def t_def refl] True 1(2-4) t u by (simp add: c_def t_def)
    moreover have "c @ drop n data = data"
      by (simp add: c_def)
    then have "splice_at (unat ptr + length c) (drop n data) (mem_data (ram t)) =
        splice_at (unat ptr) data (mem_data (ram s))"
      using splice_splice [of "unat ptr" c "drop n data" "mem_data (ram s)"] 1(3) t(1)
      by (metis add.assoc length_append)
    moreover have "loadLoop n data ptr s = loadLoop n (drop n data) (ptr + of_nat (length c)) t"
      using True 1(2) by (subst loadLoop.simps) (simp add: Let_def c_def t_def)
    ultimately show ?thesis
      using t(2) by simp
  next
    case False
    then have "snd (loadLoop n data ptr s) = t"
      by (subst loadLoop.simps) (simp add: Let_def c_def t_def)
    then show ?thesis
      using t False by (simp add: c_def)
  qed
qed

text \<open>The binary loader copies the file to the start of memory: when the file fits, memory
  begins with its bytes, the rest of memory is as it was, no host memory outside the allocation is
  touched, and the entry point is the base of memory.\<close>

lemma loadBin_copies:
  fixes s :: "'x::len vm"
  assumes "valid_xlen TYPE('x)" "wf_platform s" "length data \<le> length (mem_data (ram s))"
  shows "fst (loadBin (Some data) True RAM_BASE s) = RAM_BASE \<and>
    mem_data (ram (snd (loadBin (Some data) True RAM_BASE s))) =
      data @ drop (length data) (mem_data (ram s)) \<and>
    host_ub (snd (loadBin (Some data) True RAM_BASE s)) = host_ub s"
proof -
  have "length (mem_data (ram s)) < 2 ^ LENGTH('x)"
    using assms(2) by (simp add: wf_platform_def wf_devs_def wf_ram_def)
  moreover have "0 < bufSize TYPE('x)"
    using assms(1) by (auto simp: bufSize_def sizeof_word_def valid_xlen_def)
  ultimately show ?thesis
    using loadLoop_copies [of "bufSize TYPE('x)" 0 data s] assms(3)
    by (simp add: loadBin_def splice_at_def)
qed

text \<open>What a run of options leaves behind: of each option the last one counts.\<close>

definition last_arg :: "(opt \<Rightarrow> 'a option) \<Rightarrow> opt list \<Rightarrow> 'a option" where
  "last_arg f xs = (case List.map_filter f xs of [] \<Rightarrow> None | ys \<Rightarrow> Some (last ys))"

definition kernel_arg :: "opt \<Rightarrow> string option" where
  "kernel_arg x = (case x of OPT_k f \<Rightarrow> Some f | _ \<Rightarrow> None)"

definition bin_arg :: "opt \<Rightarrow> string option" where
  "bin_arg x = (case x of OPT_b f \<Rightarrow> Some f | _ \<Rightarrow> None)"

definition mem_arg :: "opt \<Rightarrow> 32 word option" where
  "mem_arg x = (case x of OPT_m v \<Rightarrow> Some (ucast (strtoul10 v :: 64 word)) | _ \<Rightarrow> None)"

lemma last_arg_simps [simp]:
  "last_arg f [] = None"
  "last_arg f (x # xs) = (case last_arg f xs of None \<Rightarrow> f x | Some y \<Rightarrow> Some y)"
  by (auto simp: last_arg_def List.map_filter_simps split: option.split list.split)

lemma parseLoop_unknown: "OPT_other \<in> set xs \<Longrightarrow> \<not> fst (parseLoop xs op)"
  by (induction xs arbitrary: op) (auto split: opt.split)

lemma parseLoop_options:
  "OPT_other \<notin> set xs \<Longrightarrow> parseLoop xs op =
     (True, \<lparr>kernelFile = (case last_arg kernel_arg xs of None \<Rightarrow> kernelFile op | Some f \<Rightarrow> Some f),
        binFile = (case last_arg bin_arg xs of None \<Rightarrow> binFile op | Some f \<Rightarrow> Some f),
        noSBI = (noSBI op \<or> OPT_no_sbi \<in> set xs),
        memSizeMb = (case last_arg mem_arg xs of None \<Rightarrow> memSizeMb op | Some n \<Rightarrow> n)\<rparr>)"
proof (induction xs arbitrary: op)
  case (Cons x xs)
  then show ?case
    by (cases x) (simp_all add: kernel_arg_def bin_arg_def mem_arg_def split: option.split)
qed simp

text \<open>C33. The command line is accepted exactly when every option is known, one image is named (a kernel or
  a binary, not both) and a memory size is given, the last one of them between 1 and 1024 megabytes; the
  options then hold the last argument of each kind. In particular a command line without a memory size is
  refused.\<close>

theorem parseArgs_accepts:
  "parseArgs xs = (True, op) \<longleftrightarrow>
     OPT_other \<notin> set xs \<and> (last_arg kernel_arg xs = None) \<noteq> (last_arg bin_arg xs = None) \<and>
     (\<exists>n. last_arg mem_arg xs = Some n \<and> 1 \<le> unat n \<and> unat n \<le> 1024 \<and>
        op = \<lparr>kernelFile = last_arg kernel_arg xs, binFile = last_arg bin_arg xs,
          noSBI = (OPT_no_sbi \<in> set xs), memSizeMb = n\<rparr>)"
proof (cases "OPT_other \<in> set xs")
  case True
  then show ?thesis
    using parseLoop_unknown [OF True] by (auto simp: parseArgs_def split_def)
next
  case False
  then show ?thesis
    by (cases "last_arg mem_arg xs"; cases "last_arg kernel_arg xs"; cases "last_arg bin_arg xs")
      (auto simp: parseArgs_def parseLoop_options word_less_nat_alt not_less)
qed

end
