(* ===== verification/Priv_Props.thy ===== *)
theory Priv_Props
  imports Device_Props
begin

text \<open>
  The properties of traps, interrupts, privilege and the control registers, with the lemmas on
  single instruction words their proofs share.
\<close>

section \<open>The example machine's processor\<close>

lemma demo_cpu: "cpu demo = \<lparr>Rx = replicate 32 0, PC = 0,
    csr = \<lparr>mhartid = 0, mip = 0, mie = 0, mscratch = 0, mstatus = 0, mstatush = 0,
           mtvec = 0, mcause = 0, mepc = 0, mtval = 0, menvcfg = 0, medeleg = 0, mideleg = 0,
           mcounteren = 0, sscratch = 0, stvec = 0, scause = 0, sepc = 0, stval = 0, senvcfg = 0,
           scounteren = 0\<rparr>,
    cpu_trap = False, trapCause = 0, trapDelegate = False, cpu_irq = False, cpu_wfi = False,
    icache = \<lparr>ic_base = 0, ic_line = replicate ICACHE_LINE_SIZE 0\<rparr>,
    cpu_mode = RV_PRIV_MODE_USER, virtualSBI = True\<rparr>"
  by (simp add: demo_def demo_opts_def vm_setup_def and_then_def bus_init_def rv_init_def mem_init_def
      bus_register_def replicate_slots aclint_init_def plic_init_def ns16550a_init_def)

section \<open>Precise traps\<close>

text \<open>C4. Traps are precise: an instruction that traps leaves the registers, the program counter,
  the privilege mode, every control register up to the interrupt-pending lines and the whole of
  memory as they were.\<close>

theorem precise_traps:
  assumes "wf_devs s" "\<not> trapped s" "trapped (execute instr s)"
  shows "Rx (cpu (execute instr s)) = Rx (cpu s) \<and> pc_of (execute instr s) = pc_of s \<and>
    mode_of (execute instr s) = mode_of s \<and>
    (csr_of (execute instr s))\<lparr>mip := 0\<rparr> = (csr_of s)\<lparr>mip := 0\<rparr> \<and>
    ram (execute instr s) = ram s"
  using execute_precise [of s instr] assms by (simp add: precise_def arch_same_def)

lemma execute_zero: "execute 0 s = doILL s"
  by (simp add: execute_def execCext_def cextTable_def decodeCextQ0_0_def Let_def)

theorem precise_traps_witness:
  "trapped (execute 0 demo) \<and> pc_of (execute 0 demo) = 0 \<and> ram (execute 0 demo) = ram demo"
  using precise_traps [of demo 0] by (simp add: execute_zero demo_cpu)

section \<open>Privilege\<close>

text \<open>C5. Below machine mode no instruction raises the privilege mode or changes a register that
  only machine mode may write: the hart number, scratch, trap vector, cause, exception address and
  value, the delegation and counter-enable registers and the environment configuration.\<close>

theorem machine_registers_isolated:
  assumes "mode_of s < RV_PRIV_MODE_MACHINE"
  shows "mode_of (execute instr s) \<le> mode_of s \<and>
    mregs (csr_of (execute instr s)) = mregs (csr_of s)"
  using mode.I_execute [of s "mode_of s" instr] mregs.I_execute [of s "mregs (csr_of s)" instr] assms
  by simp

theorem machine_registers_isolated_witness:
  "mode_of (execute 0x30559073 demo) \<le> RV_PRIV_MODE_USER \<and>
   mregs (csr_of (execute 0x30559073 demo)) = replicate 11 0"
proof -
  have "mregs (csr_of demo) = replicate 11 0"
    by (simp add: mregs_def demo_cpu numeral_eq_Suc)
  then show ?thesis
    using machine_registers_isolated [of demo "0x30559073"] by (simp add: demo_cpu priv_order)
qed

text \<open>C18. Access to a control register above the current mode, by any of the six instructions, is
  refused: the whole effect is the illegal-instruction trap.\<close>

theorem csr_access_refused:
  assumes "\<not> trapped s" "mode_of s < csrPrivMode (ucast iimm)"
    and "f3 \<in> {1, 2, 3, 5, 6, 7}"
  shows "doSYSTEM f3 iimm rd rs1 isz s = trap TRAP_INST_ILL s"
proof -
  have r: "readCSR s (ucast iimm) = (trap TRAP_INST_ILL s, 0)"
    using assms(1,2) by (simp add: readCSR_def)
  have "csrSwap (ucast iimm) d rd s = trap TRAP_INST_ILL s"
    "csrModify (ucast iimm) f rs1 rd s = trap TRAP_INST_ILL s" for d f
    by (simp_all add: csrSwap_def csrModify_def r Let_def)
  with assms(3) show ?thesis
    unfolding doSYSTEM_def Let_def by (elim insertE) simp_all
qed

theorem csr_access_refused_witness:
  "doSYSTEM 1 0x300 5 6 4 demo = trap TRAP_INST_ILL demo"
proof (rule csr_access_refused)
  show "mode_of demo < csrPrivMode (ucast (0x300 :: 32 word))"
    by (simp add: demo_cpu) code_simp
qed (simp_all add: demo_cpu)


section \<open>Entering and leaving a trap handler\<close>

text \<open>The status word on entry to machine mode and to supervisor mode.\<close>

lemma bit_enterM:
  assumes "valid_xlen TYPE('x::len)"
  shows "bit (mstatus (csr_of (enterM (s :: 'x vm)))) n \<longleftrightarrow>
    (if n = 3 then False else if n = 7 then bit (mstatus (csr_of s)) 3
     else if n = 11 then odd (priv_code (mode_of s)) else if n = 12 then 2 \<le> priv_code (mode_of s)
     else bit (mstatus (csr_of s)) n)"
  using valid_xlen_ge [OF assms]
  by (auto simp: enterM_def Let_def bitwise mask_bits bit_MSTATUS_MPP [OF assms] dest: bit_imp_le_length)

lemma bit_enterS:
  assumes "valid_xlen TYPE('x::len)"
  shows "bit (mstatus (csr_of (enterS (s :: 'x vm)))) n \<longleftrightarrow>
    (if n = 1 then False else if n = 5 then bit (mstatus (csr_of s)) 1
     else if n = 8 then odd (priv_code (mode_of s)) else bit (mstatus (csr_of s)) n)"
  using valid_xlen_ge [OF assms]
  by (auto simp: enterS_def Let_def bitwise mask_bits bit_MSTATUS_SPP [OF assms] dest: bit_imp_le_length)

lemma enter_MPP:
  assumes "valid_xlen TYPE('x::len)"
  shows "MSTATUS_GET_MPP (mstatus (csr_of (enterM (s :: 'x vm)))) = mode_of s"
  by (simp add: enterM_def Let_def MSTATUS_GET_MPP_written [OF assms])

lemma enter_SPP:
  assumes "valid_xlen TYPE('x::len)" "mode_of s \<le> RV_PRIV_MODE_SUPERVISOR"
  shows "MSTATUS_GET_SPP (mstatus (csr_of (enterS (s :: 'x vm)))) = mode_of s"
  using assms(2)
  by (cases "mode_of s") (simp_all add: MSTATUS_GET_SPP_bit [OF assms(1)] bit_enterS [OF assms(1)] priv_order)

text \<open>The address a handler starts at: the base, or for interrupts in vectored mode the entry of
  the cause.\<close>

definition trap_vector :: "'x::len word \<Rightarrow> 'x word \<Rightarrow> 'x word" where
  "trap_vector xtvec cause =
     (xtvec AND NOT 3) +
       (if bit cause (LENGTH('x) - 1) \<and> xtvec AND 3 = 1 then 4 * (cause AND NOT CPU_SIGN_BIT) else 0)"

lemma and_CPU_SIGN_BIT: "(v AND CPU_SIGN_BIT = 0) \<longleftrightarrow> \<not> bit (v :: 'x::len word) (LENGTH('x) - 1)"
  using and_exp_eq_0_iff [of v "LENGTH('x) - 1"] by (simp add: CPU_SIGN_BIT_def push_bit_eq_mult)

lemma enter_simps [simp]:
  "mode_of (enterM s) = RV_PRIV_MODE_MACHINE" "mode_of (enterS s) = RV_PRIV_MODE_SUPERVISOR"
  "mepc (csr_of (enterM s)) = pc_of s" "sepc (csr_of (enterS s)) = pc_of s"
  "mcause (csr_of (enterM s)) = trapCause (cpu s)" "scause (csr_of (enterS s)) = trapCause (cpu s)"
  "trapped (enterM s) = trapped s" "trapped (enterS s) = trapped s"
  "Rx (cpu (enterM s)) = Rx (cpu s)" "Rx (cpu (enterS s)) = Rx (cpu s)"
  "virtualSBI (cpu (enterM s)) = virtualSBI (cpu s)" "virtualSBI (cpu (enterS s)) = virtualSBI (cpu s)"
  "pc_of (enterM s) = pc_of s" "pc_of (enterS s) = pc_of s"
  by (simp_all add: enterM_def enterS_def Let_def readPC_def)

text \<open>The state in which the handler is chosen: the trap has been taken note of.\<close>

definition trap_taken :: "'x::len vm \<Rightarrow> 'x vm" where
  "trap_taken s = s\<lparr>cpu := (cpu s)\<lparr>cpu_trap := False, cpu_wfi := False\<rparr>\<rparr>"

lemma trap_taken_simps [simp]:
  "mode_of (trap_taken s) = mode_of s" "csr_of (trap_taken s) = csr_of s" "pc_of (trap_taken s) = pc_of s"
  "Rx (cpu (trap_taken s)) = Rx (cpu s)" "\<not> trapped (trap_taken s)"
  "trapCause (cpu (trap_taken s)) = trapCause (cpu s)" "virtualSBI (cpu (trap_taken s)) = virtualSBI (cpu s)"
  by (simp_all add: trap_taken_def)

lemma doTrap_machine:
  assumes "\<not> trapDelegate (cpu s)" "\<not> virtualSBI (cpu s)"
  shows "doTrap s = writePC (trap_vector (mtvec (csr_of s)) (trapCause (cpu s))) (enterM (trap_taken s))"
  using assms by (simp add: doTrap_def Let_def trap_vector_def and_CPU_SIGN_BIT flip: trap_taken_def)

lemma doTrap_supervisor:
  assumes "trapDelegate (cpu s)"
  shows "doTrap s = writePC (trap_vector (stvec (csr_of s)) (trapCause (cpu s))) (enterS (trap_taken s))"
  using assms by (simp add: doTrap_def Let_def trap_vector_def and_CPU_SIGN_BIT flip: trap_taken_def)

lemma writePC_fields [simp]:
  "csr_of (writePC pc s) = csr_of s" "Rx (cpu (writePC pc s)) = Rx (cpu s)"
  "pc_of (writePC pc s) = (if trapped s then pc_of s else pc)"
  by (simp_all add: writePC_def)

text \<open>C19. Entry to a machine-mode handler: the processor is in machine mode at the vector address,
  the address and the cause of the trap and the mode it came from are recorded, interrupts are
  disabled and their former state is kept, and the trap is no longer pending.\<close>

theorem machine_trap_entry:
  assumes v: "valid_xlen TYPE('x::len)" and "\<not> trapDelegate (cpu s)" "\<not> virtualSBI (cpu (s :: 'x vm))"
  shows "\<not> trapped (doTrap s) \<and> mode_of (doTrap s) = RV_PRIV_MODE_MACHINE \<and>
    pc_of (doTrap s) = trap_vector (mtvec (csr_of s)) (trapCause (cpu s)) \<and>
    mepc (csr_of (doTrap s)) = pc_of s \<and> mcause (csr_of (doTrap s)) = trapCause (cpu s) \<and>
    MSTATUS_GET_MPP (mstatus (csr_of (doTrap s))) = mode_of s \<and>
    \<not> bit (mstatus (csr_of (doTrap s))) 3 \<and>
    (bit (mstatus (csr_of (doTrap s))) 7 \<longleftrightarrow> bit (mstatus (csr_of s)) 3) \<and>
    Rx (cpu (doTrap s)) = Rx (cpu s)"
  by (simp add: doTrap_machine [OF assms(2,3)] enter_MPP [OF v] bit_enterM [OF v])

definition demo_noSBI :: "32 vm" where
  "demo_noSBI = demo\<lparr>cpu := (cpu demo)\<lparr>virtualSBI := False, PC := 0x80000040, cpu_trap := True,
     trapCause := 0x80000007, csr := (csr_of demo)\<lparr>mtvec := 0x80001001, mstatus := 0x8\<rparr>\<rparr>\<rparr>"

theorem machine_trap_entry_witness:
  "pc_of (doTrap demo_noSBI) = 0x8000101C \<and> mepc (csr_of (doTrap demo_noSBI)) = 0x80000040 \<and>
   MSTATUS_GET_MPP (mstatus (csr_of (doTrap demo_noSBI))) = RV_PRIV_MODE_USER"
proof -
  have "trap_vector 0x80001001 (0x80000007 :: 32 word) = 0x8000101C"
    by code_simp
  then show ?thesis
    using machine_trap_entry [of demo_noSBI] by (simp add: demo_noSBI_def demo_cpu)
qed

text \<open>The two return instructions as the decoder reads them.\<close>

lemma execute_base:
  assumes "instr AND 3 = (3 :: 32 word)"
  shows "execute instr s =
    (let u = (jumpTable ! opcode_of instr) instr s in writePC (readPC u + 4) u)"
  using assms by (simp add: execute_def execCext_def execInstr_def)

lemma execute_mret:
  "execute 0x30200073 s = (let u = xret RV_PRIV_MODE_MACHINE 4 s in writePC (readPC u + 4) u)"
proof -
  have "opcode_of 0x30200073 = 28" "DECODE_FUNCT3 0x30200073 = 0" "DECODE_IIMM 0x30200073 = 0x302"
    by code_simp+
  then show ?thesis
    by (subst execute_base) (simp_all add: jumpTable_def decodeSYSTEM_def doSYSTEM_def)
qed

lemma execute_sret:
  "execute 0x10200073 s = (let u = xret RV_PRIV_MODE_SUPERVISOR 4 s in writePC (readPC u + 4) u)"
proof -
  have "opcode_of 0x10200073 = 28" "DECODE_FUNCT3 0x10200073 = 0" "DECODE_IIMM 0x10200073 = 0x102"
    by code_simp+
  then show ?thesis
    by (subst execute_base) (simp_all add: jumpTable_def decodeSYSTEM_def doSYSTEM_def)
qed

lemma priv_le_machine: "x \<le> RV_PRIV_MODE_MACHINE"
  by (cases x) (simp_all add: priv_order)

text \<open>What a return does when it is allowed.\<close>

lemma xret_machine:
  assumes v: "valid_xlen TYPE('x::len)" and m: "mode_of (s :: 'x vm) = RV_PRIV_MODE_MACHINE" "\<not> trapped s"
  shows "mode_of (xret RV_PRIV_MODE_MACHINE k s) = MSTATUS_GET_MPP (mstatus (csr_of s)) \<and>
    pc_of (xret RV_PRIV_MODE_MACHINE k s) = mepc (csr_of s) - of_int k \<and>
    \<not> trapped (xret RV_PRIV_MODE_MACHINE k s) \<and> Rx (cpu (xret RV_PRIV_MODE_MACHINE k s)) = Rx (cpu s) \<and>
    (bit (mstatus (csr_of (xret RV_PRIV_MODE_MACHINE k s))) 3 \<longleftrightarrow> bit (mstatus (csr_of s)) 7) \<and>
    (n \<noteq> 3 \<and> n \<noteq> 7 \<and> n \<noteq> 11 \<and> n \<noteq> 12 \<and> n \<noteq> 17 \<longrightarrow>
      bit (mstatus (csr_of (xret RV_PRIV_MODE_MACHINE k s))) n = bit (mstatus (csr_of s)) n)"
proof -
  have "MSTATUS_GET_MPP (xret_ie RV_PRIV_MODE_MACHINE (mstatus (csr_of s))) =
      MSTATUS_GET_MPP (mstatus (csr_of s))"
    by (simp add: MSTATUS_GET_MPP_bit [OF v] bit_xret_ie [OF v])
  then show ?thesis
    using m valid_xlen_ge [OF v]
    by (auto simp: xret_def Let_def split_def xret_mode_eq [OF v] bit_xret_ie [OF v] bitwise mask_bits
        dest: bit_imp_le_length)
qed

lemma xret_supervisor:
  assumes v: "valid_xlen TYPE('x::len)" and m: "mode_of (s :: 'x vm) = RV_PRIV_MODE_SUPERVISOR" "\<not> trapped s"
    and "\<not> bit (mstatus (csr_of s)) 22"
  shows "mode_of (xret RV_PRIV_MODE_SUPERVISOR k s) = MSTATUS_GET_SPP (mstatus (csr_of s)) \<and>
    pc_of (xret RV_PRIV_MODE_SUPERVISOR k s) = sepc (csr_of s) - of_int k \<and>
    \<not> trapped (xret RV_PRIV_MODE_SUPERVISOR k s) \<and>
    Rx (cpu (xret RV_PRIV_MODE_SUPERVISOR k s)) = Rx (cpu s) \<and>
    (bit (mstatus (csr_of (xret RV_PRIV_MODE_SUPERVISOR k s))) 1 \<longleftrightarrow> bit (mstatus (csr_of s)) 5)"
proof -
  have "MSTATUS_GET_SPP (xret_ie RV_PRIV_MODE_SUPERVISOR (mstatus (csr_of s))) =
      MSTATUS_GET_SPP (mstatus (csr_of s))"
    by (simp add: MSTATUS_GET_SPP_bit [OF v] bit_xret_ie [OF v])
  then show ?thesis
    using m assms(4) valid_xlen_ge [OF v]
    by (auto simp: xret_def Let_def split_def xret_mode_eq [OF v] bit_xret_ie [OF v] bitwise mask_bits
        dest: bit_imp_le_length)
qed

text \<open>C11. Entering a machine-mode handler and leaving it with \<^verbatim>\<open>mret\<close> is the identity on what the
  interrupted program can see: the program counter, the mode, the registers and the interrupt
  enable are those at the trap.\<close>

theorem trap_mret_roundtrip:
  assumes v: "valid_xlen TYPE('x::len)" and d: "\<not> trapDelegate (cpu s)" "\<not> virtualSBI (cpu (s :: 'x vm))"
  shows "pc_of (execute 0x30200073 (doTrap s)) = pc_of s \<and>
    mode_of (execute 0x30200073 (doTrap s)) = mode_of s \<and>
    Rx (cpu (execute 0x30200073 (doTrap s))) = Rx (cpu s) \<and>
    (bit (mstatus (csr_of (execute 0x30200073 (doTrap s)))) 3 \<longleftrightarrow> bit (mstatus (csr_of s)) 3)"
  using xret_machine [OF v, of "doTrap s" 4]
  by (simp add: execute_mret Let_def readPC_def doTrap_machine [OF d] enter_MPP [OF v] bit_enterM [OF v])

theorem trap_mret_roundtrip_witness:
  "pc_of (execute 0x30200073 (doTrap demo_noSBI)) = 0x80000040 \<and>
   mode_of (execute 0x30200073 (doTrap demo_noSBI)) = RV_PRIV_MODE_USER \<and>
   bit (mstatus (csr_of (execute 0x30200073 (doTrap demo_noSBI)))) 3"
proof -
  have "bit (8 :: 32 word) 3"
    by code_simp
  then show ?thesis
    using trap_mret_roundtrip [of demo_noSBI] by (simp add: demo_noSBI_def demo_cpu)
qed

text \<open>C20. The same for a trap delegated to supervisor mode and \<^verbatim>\<open>sret\<close>, when \<^verbatim>\<open>sret\<close> is not itself
  set to trap and the trap came from user or supervisor mode.\<close>

theorem trap_sret_roundtrip:
  assumes v: "valid_xlen TYPE('x::len)" and d: "trapDelegate (cpu (s :: 'x vm))"
    and m: "mode_of s \<le> RV_PRIV_MODE_SUPERVISOR" and t: "\<not> bit (mstatus (csr_of s)) 22"
  shows "pc_of (execute 0x10200073 (doTrap s)) = pc_of s \<and>
    mode_of (execute 0x10200073 (doTrap s)) = mode_of s \<and>
    Rx (cpu (execute 0x10200073 (doTrap s))) = Rx (cpu s) \<and>
    (bit (mstatus (csr_of (execute 0x10200073 (doTrap s)))) 1 \<longleftrightarrow> bit (mstatus (csr_of s)) 1)"
  using xret_supervisor [OF v, of "doTrap s" 4] m t
  by (simp add: execute_sret Let_def readPC_def doTrap_supervisor [OF d] enter_SPP [OF v] bit_enterS [OF v])

theorem trap_sret_roundtrip_witness:
  "pc_of (execute 0x10200073 (doTrap (demo_noSBI\<lparr>cpu := (cpu demo_noSBI)\<lparr>trapDelegate := True\<rparr>\<rparr>))) = 0x80000040"
proof -
  have "\<not> bit (8 :: 32 word) 22"
    by code_simp
  then show ?thesis
    using trap_sret_roundtrip [of "demo_noSBI\<lparr>cpu := (cpu demo_noSBI)\<lparr>trapDelegate := True\<rparr>\<rparr>"]
    by (simp add: demo_noSBI_def demo_cpu priv_order)
qed

end
