(* ===== verification/Sbi_Props.thy ===== *)
theory Sbi_Props
  imports Priv_Props
begin

text \<open>
  The properties of the built-in firmware: calls return to the supervisor with their results, the
  timer call and the forwarding of the timer interrupt, and the debug console.
\<close>

section \<open>What the firmware leaves alone\<close>

definition sbi_frame :: "'x::len vm \<Rightarrow> 'x vm \<Rightarrow> bool" where
  "sbi_frame s t \<longleftrightarrow> Rx (cpu t) = Rx (cpu s) \<and> mode_of t = mode_of s \<and> trapped t = trapped s \<and>
     mstatus (csr_of t) = mstatus (csr_of s) \<and> mepc (csr_of t) = mepc (csr_of s)"

lemma sbi_frame_port:
  assumes "port_frame s t"
  shows "sbi_frame s t"
proof -
  have c: "core (cpu t) = core (cpu s)"
    using assms by (simp add: port_frame_def)
  show ?thesis
    using core_fields [OF c] core_csr_fields [OF core_fields(9) [OF c]] by (simp add: sbi_frame_def)
qed

lemma sbi_frame_mie [simp]: "sbi_frame s (upd_csr (mie_update f) t) \<longleftrightarrow> sbi_frame s t"
  by (simp add: sbi_frame_def)

lemma sbi_frame_refl [simp]: "sbi_frame s s"
  by (simp add: sbi_frame_def)

lemma sbi_frame_timer: "sbi_frame s (fst (handleTimerExt fid s))"
  by (simp add: handleTimerExt_def Let_def sbi_frame_port aclint_setMtimecmp_port)

lemma sbi_frame_dbg: "sbi_frame s (fst (handleDbgConExt fid s))"
  by (simp add: handleDbgConExt_def Let_def split_def sbi_frame_port dbgLoop_frame)

lemma sbi_handleEcall_frame:
  obtains err val where "Rx (cpu (sbi_handleEcall s)) = (Rx (cpu s))[CPU_REG_A0 := err, CPU_REG_A1 := val]"
    "mode_of (sbi_handleEcall s) = mode_of s" "trapped (sbi_handleEcall s) = trapped s"
    "mstatus (csr_of (sbi_handleEcall s)) = mstatus (csr_of s)"
    "mepc (csr_of (sbi_handleEcall s)) = mepc (csr_of s)"
proof -
  define h where "h = (if rv_peekRx s CPU_REG_A7 = SBI_EID_BASE then (s, handleBaseExt s (rv_peekRx s CPU_REG_A6))
     else if rv_peekRx s CPU_REG_A7 = SBI_EID_TIMER then handleTimerExt (rv_peekRx s CPU_REG_A6) s
     else if rv_peekRx s CPU_REG_A7 = SBI_EID_DBGCON then handleDbgConExt (rv_peekRx s CPU_REG_A6) s
     else (c_assert False s, (of_int SBI_ERR_NOT_SUPPORTED, 0)))"
  have e: "sbi_handleEcall s = rv_pokeRx CPU_REG_A1 (snd (snd h)) (rv_pokeRx CPU_REG_A0 (fst (snd h)) (fst h))"
    unfolding sbi_handleEcall_def Let_def split_def h_def by simp
  have "sbi_frame s (c_assert False s)"
    by (simp add: sbi_frame_def c_assert_def)
  then have "sbi_frame s (fst h)"
    unfolding h_def by (simp add: sbi_frame_timer sbi_frame_dbg)
  then show ?thesis
    by (intro that [of "fst (snd h)" "snd (snd h)"]) (simp_all add: e rv_pokeRx_def sbi_frame_def)
qed

section \<open>Calls\<close>

lemma no_sign_bit:
  assumes "valid_xlen TYPE('x::len)" "unat v < 2 ^ 31"
  shows "\<not> bit (v :: 'x word) (LENGTH('x) - 1)"
proof -
  have "(2 :: nat) ^ 31 \<le> 2 ^ (LENGTH('x) - 1)"
    using valid_xlen_ge [OF assms(1)] by (intro power_increasing) simp_all
  with assms(2) have "\<not> bit (unat v) (LENGTH('x) - 1)"
    by (simp add: bit_nat_def)
  then show ?thesis
    by (simp add: bit_unsigned_iff)
qed

lemma and_not_sign:
  assumes "\<not> bit (v :: 'x::len word) (LENGTH('x) - 1)"
  shows "v AND NOT CPU_SIGN_BIT = v"
  using assms by (intro bit_word_eqI) (auto simp: bitwise mask_bits)

lemma small_cause:
  assumes "valid_xlen TYPE('x::len)" "k < 2 ^ 31"
  shows "(of_nat k :: 'x word) AND NOT CPU_SIGN_BIT = of_nat k"
    "\<not> bit (of_nat k :: 'x word) (LENGTH('x) - 1)"
proof -
  have "unat (of_nat k :: 'x word) \<le> k"
    by (simp add: unat_of_nat)
  with assms(2) no_sign_bit [OF assms(1)] show "\<not> bit (of_nat k :: 'x word) (LENGTH('x) - 1)"
    by (meson le_less_trans)
  then show "(of_nat k :: 'x word) AND NOT CPU_SIGN_BIT = of_nat k"
    by (rule and_not_sign)
qed

lemma doTrap_ecall:
  assumes "\<not> trapDelegate (cpu s)" "virtualSBI (cpu s)" "trapCause (cpu s) = 9"
    and "valid_xlen TYPE('x::len)"
  shows "doTrap (s :: 'x vm) = xret RV_PRIV_MODE_MACHINE (- 4) (sbi_handleEcall (enterM (trap_taken s)))"
  using assms(1-3) small_cause [OF assms(4), of 9]
  by (simp add: doTrap_def Let_def flip: trap_taken_def)

subsection \<open>Assertions\<close>

text \<open>A read that ends before the last byte of the address space trips no assertion of the memory.\<close>

lemma bus_read_asserts:
  fixes s :: "'x::len vm"
  assumes v: "valid_xlen TYPE('x)" and w: "wf_platform s" and n: "buf \<noteq> []"
    and a: "unat a + length buf < 2 ^ LENGTH('x)"
  shows "assert_failed (fst (snd (bus_read s a buf))) = assert_failed s"
proof (cases "findDevice s a (length buf)")
  case (Some x)
  obtain d off where x: "x = (d, off)"
    by (cases x)
  then have r: "in_region s d (unat a) (length buf)" and o: "off = a - of_nat (region_base d)"
    using findDevice_iff [OF v w a, of d off] n Some by auto
  have "assert_failed (fst (cbRead d s off buf)) = assert_failed s"
  proof (cases d)
    case RAM
    then show ?thesis
      using dev_range [OF r] region_sizes(4) [OF v w] w mem_read_ok [of s off buf] n
      by (simp add: cbRead_def o wf_platform_def wf_devs_def)
  next
    case UART0
    then show ?thesis
      using uart_cbRead_frame [of s off buf] by (simp add: cbRead_def uart_frame_def)
  next
    case PLIC
    then show ?thesis
      using plic_cbRead_frame [of s off buf] by (simp add: cbRead_def plic_frame_def)
  next
    case ACLINT
    then show ?thesis
      by (simp add: cbRead_def aclint_cbRead_def Let_def)
  qed
  then show ?thesis
    using Some x dev_cb_of [OF wf_platform_devs [OF w], of d] by (simp add: bus_read_def split_def)
qed (simp add: bus_read_def)

lemma dbgLoop_asserts:
  fixes s :: "'x::len vm"
  assumes "valid_xlen TYPE('x)" "wf_platform s" "unat a + unat n < 2 ^ LENGTH('x)"
  shows "assert_failed (snd (dbgLoop a n i s)) = assert_failed s"
  using assms
proof (induction a n i s rule: dbgLoop.induct)
  case (1 a n i s)
  obtain ok t buf where r: "bus_read s (a + i) [uninit s] = (ok, t, buf)"
    by (cases "bus_read s (a + i) [uninit s]")
  show ?case
  proof (cases "i < n")
    case True
    then have "unat (a + i) = unat a + unat i"
      using 1(4) by (intro unat_plus_if' [THEN trans]) (simp add: word_less_nat_alt)
    with True have t: "assert_failed t = assert_failed s"
      using bus_read_asserts [OF 1(2,3), of "[uninit s]" "a + i"] 1(4) by (simp add: r word_less_nat_alt)
    have "wf_platform (ui_putch (hd buf) t)"
      using bus_port.port_rd_frame [of s "a + i" "[uninit s]"] 1(3)
      by (simp add: r ui_putch_def wf_platform_def port_frame_def wf_devs_def)
    with 1 True t r show ?thesis
      by (subst dbgLoop.simps) (auto simp: ui_putch_def)
  qed (subst dbgLoop.simps, simp)
qed

text \<open>The calls the firmware carries out: those of the three extensions it implements.\<close>

definition sbi_implemented :: "'x::len vm \<Rightarrow> bool" where
  "sbi_implemented s \<longleftrightarrow> readReg s 17 \<in> {SBI_EID_BASE, SBI_EID_TIMER, SBI_EID_DBGCON}"

lemma sbi_handleEcall_asserts:
  fixes s :: "'x::len vm"
  assumes v: "valid_xlen TYPE('x)" and w: "wf_platform s"
  shows "sbi_implemented s \<Longrightarrow> (readReg s 17 = SBI_EID_DBGCON \<Longrightarrow> unat (readReg s 11) + unat (readReg s 10) < 2 ^ LENGTH('x)) \<Longrightarrow>
      assert_failed (sbi_handleEcall s) = assert_failed s"
    and "\<not> sbi_implemented s \<Longrightarrow> assert_failed (sbi_handleEcall s)"
proof -
  have t: "assert_failed (fst (handleTimerExt f s)) = assert_failed s" for f
    using aclint_frame_dev(5) [OF aclint_setMtimecmp_frame [where s = s]]
    by (simp add: handleTimerExt_def Let_def)
  show "\<not> sbi_implemented s \<Longrightarrow> assert_failed (sbi_handleEcall s)"
    by (simp add: sbi_handleEcall_def sbi_implemented_def rv_peekRx_def rv_pokeRx_def readReg_def cpu_reg_defs c_assert_def)
  assume i: "sbi_implemented s" and r: "readReg s 17 = SBI_EID_DBGCON \<Longrightarrow> unat (readReg s 11) + unat (readReg s 10) < 2 ^ LENGTH('x)"
  have d: "assert_failed (fst (handleDbgConExt f s)) = assert_failed s" if "readReg s 17 = SBI_EID_DBGCON" for f
    using dbgLoop_asserts [OF v w r [OF that], of 0] by (simp add: handleDbgConExt_def Let_def split_def rv_peekRx_def readReg_def cpu_reg_defs)
  show "assert_failed (sbi_handleEcall s) = assert_failed s"
    using i t d by (auto simp: sbi_handleEcall_def sbi_implemented_def rv_peekRx_def rv_pokeRx_def readReg_def cpu_reg_defs split_def Let_def)
qed

text \<open>C22. A call of the built-in firmware from supervisor mode. If the call names one of the three
  extensions that are implemented (base, timer, debug console), it comes back to the instruction after the
  call, in the mode it was made from, with the interrupt enable of that mode and every register except the two
  result registers unchanged, and no assertion of the emulator fails on the way (for a console write: when its
  bytes end before the last byte of the address space). A call of any other extension fails an assertion.\<close>

theorem sbi_call_returns:
  fixes s :: "'x::len vm"
  assumes v: "valid_xlen TYPE('x)" and w: "wf_platform s" and d: "\<not> trapDelegate (cpu s)" "virtualSBI (cpu s)"
    and c: "trapCause (cpu s) = of_nat (trap_code TRAP_CALL_S)"
  shows "if readReg s 17 \<in> {SBI_EID_BASE, SBI_EID_TIMER, SBI_EID_DBGCON}
    then \<not> trapped (doTrap s) \<and> pc_of (doTrap s) = pc_of s + 4 \<and> mode_of (doTrap s) = mode_of s \<and>
      (bit (mstatus (csr_of (doTrap s))) 1 \<longleftrightarrow> bit (mstatus (csr_of s)) 1) \<and>
      (r \<noteq> 10 \<and> r \<noteq> 11 \<longrightarrow> readReg (doTrap s) r = readReg s r) \<and>
      ((readReg s 17 = SBI_EID_DBGCON \<longrightarrow> unat (readReg s 11) + unat (readReg s 10) < 2 ^ LENGTH('x)) \<longrightarrow>
        assert_failed (doTrap s) = assert_failed s)
    else assert_failed (doTrap s)"
proof -
  define t where "t = enterM (trap_taken s)"
  obtain err val where f: "Rx (cpu (sbi_handleEcall t)) = (Rx (cpu t))[CPU_REG_A0 := err, CPU_REG_A1 := val]"
    "mode_of (sbi_handleEcall t) = mode_of t" "trapped (sbi_handleEcall t) = trapped t"
    "mstatus (csr_of (sbi_handleEcall t)) = mstatus (csr_of t)"
    "mepc (csr_of (sbi_handleEcall t)) = mepc (csr_of t)"
    by (rule sbi_handleEcall_frame)
  have e: "doTrap s = xret RV_PRIV_MODE_MACHINE (- 4) (sbi_handleEcall t)"
    using doTrap_ecall [OF d _ v] c by (simp add: t_def)
  have k: "wf_platform t" "readReg t q = readReg s q" "assert_failed t = assert_failed s" for q
    using w by (simp_all add: t_def enterM_def trap_taken_def Let_def readReg_def wf_platform_def wf_devs_def)
  have "\<not> trapped (doTrap s) \<and> pc_of (doTrap s) = pc_of s + 4 \<and> mode_of (doTrap s) = mode_of s \<and>
      (bit (mstatus (csr_of (doTrap s))) 1 \<longleftrightarrow> bit (mstatus (csr_of s)) 1) \<and>
      (r \<noteq> 10 \<and> r \<noteq> 11 \<longrightarrow> readReg (doTrap s) r = readReg s r)"
    using xret_machine [OF v, of "sbi_handleEcall t" "- 4" 1] f
    by (simp add: e t_def enter_MPP [OF v] bit_enterM [OF v] readReg_def cpu_reg_defs)
  moreover have "assert_failed (doTrap s) = assert_failed (sbi_handleEcall t)"
    by (simp add: e xret_def split_def Let_def writePC_def)
  ultimately show ?thesis
    using sbi_handleEcall_asserts [OF v k(1)] by (simp add: sbi_implemented_def k)
qed

text \<open>The example machine in supervisor mode, stopped at a call of the firmware.\<close>

definition demo_call :: "32 word \<Rightarrow> 32 word \<Rightarrow> 32 word \<Rightarrow> 32 word \<Rightarrow> 32 vm" where
  "demo_call eid fid a0 a1 = demo\<lparr>cpu := (cpu demo)\<lparr>
     Rx := (Rx (cpu demo))[17 := eid, 16 := fid, 10 := a0, 11 := a1], PC := 0x80000100,
     cpu_trap := True, trapCause := 9, cpu_mode := RV_PRIV_MODE_SUPERVISOR\<rparr>\<rparr>"

lemma wf_demo_call [simp]: "wf_vm (demo_call eid fid a0 a1)"
  using wf_demo by (simp add: demo_call_def wf_vm_def wf_cpu_def wf_platform_def wf_devs_def)

lemma demo_call_simps:
  "\<not> trapDelegate (cpu (demo_call eid fid a0 a1))" "virtualSBI (cpu (demo_call eid fid a0 a1))"
  "trapCause (cpu (demo_call eid fid a0 a1)) = 9" "pc_of (demo_call eid fid a0 a1) = 0x80000100"
  "mode_of (demo_call eid fid a0 a1) = RV_PRIV_MODE_SUPERVISOR"
  "readReg (demo_call eid fid a0 a1) 17 = eid" "readReg (demo_call eid fid a0 a1) 16 = fid"
  "readReg (demo_call eid fid a0 a1) 10 = a0" "readReg (demo_call eid fid a0 a1) 11 = a1"
  "ram (demo_call eid fid a0 a1) = ram demo" "vm_stdout (demo_call eid fid a0 a1) = vm_stdout demo"
  by (simp_all add: demo_call_def demo_cpu readReg_def)

theorem sbi_call_returns_witness:
  "pc_of (doTrap (demo_call 0x10 0 0 0)) = 0x80000104 \<and>
   mode_of (doTrap (demo_call 0x10 0 0 0)) = RV_PRIV_MODE_SUPERVISOR \<and>
   assert_failed (doTrap (demo_call 0x735049 0 0 0))"
  using sbi_call_returns [of "demo_call 0x10 0 0 0" 0] sbi_call_returns [of "demo_call 0x735049 0 0 0" 0]
    wf_demo_call [unfolded wf_vm_def]
  by (simp add: demo_call_simps SBI_EID_BASE_def SBI_EID_TIMER_def SBI_EID_DBGCON_def)

lemma xret_outside [simp]:
  "aclint (xret m k s) = aclint s" "mie (csr_of (xret m k s)) = mie (csr_of s)"
  "mip (csr_of (xret m k s)) = mip (csr_of s)" "vm_stdout (xret m k s) = vm_stdout s"
  "ram (xret m k s) = ram s" "host_ub (xret m k s) = host_ub s" "Rx (cpu (xret m k s)) = Rx (cpu s)"
  by (simp_all add: xret_def split_def Let_def writePC_def)

lemma enterM_outside [simp]:
  "aclint (enterM (trap_taken s)) = aclint s" "mie (csr_of (enterM (trap_taken s))) = mie (csr_of s)"
  "mhartid (csr_of (enterM (trap_taken s))) = mhartid (csr_of s)"
  "vm_stdout (enterM (trap_taken s)) = vm_stdout s" "ram (enterM (trap_taken s)) = ram s"
  "host_ub (enterM (trap_taken s)) = host_ub s" "mip (csr_of (enterM (trap_taken s))) = mip (csr_of s)"
  by (simp_all add: enterM_def trap_taken_def Let_def)

lemma peek_enterM [simp]:
  "rv_peekRx (enterM (trap_taken s)) r = rv_peekRx s r" "sbi_time (enterM (trap_taken s)) = sbi_time s"
  by (simp_all add: rv_peekRx_def sbi_time_def)

lemma setMtimecmp_effect:
  assumes "wf_aclint (aclint s)" "h = 0"
  shows "mtimecmp (aclint (aclint_setMtimecmp h v s)) = [v]"
    "timer_settled (aclint (aclint_setMtimecmp h v s))"
    "mtime (aclint (aclint_setMtimecmp h v s)) = mtime (aclint s)"
proof -
  define t where "t = s\<lparr>aclint := (aclint s)\<lparr>mtimecmp := (mtimecmp (aclint s))[h := v]\<rparr>\<rparr>"
  have e: "aclint_setMtimecmp h v s = updateMtimer t"
    using assms by (simp add: aclint_setMtimecmp_def t_def wf_aclint_def ACLINT_HARTS_def)
  have w: "wf_aclint (aclint t)"
    using assms(1) by (simp add: t_def wf_aclint_def)
  show "timer_settled (aclint (aclint_setMtimecmp h v s))"
    unfolding e by (rule updateMtimer_settles [OF w])
  show "mtimecmp (aclint (aclint_setMtimecmp h v s)) = [v]"
    "mtime (aclint (aclint_setMtimecmp h v s)) = mtime (aclint s)"
    unfolding e using assms by (auto simp: t_def wf_aclint_def ACLINT_HARTS_def length_Suc_conv)
qed

text \<open>C23. The timer call programs the comparator of the hart with the requested time, enables the
  machine timer interrupt (unless the time asked for is the one the code takes to mean never),
  leaves the clock alone and reports success.\<close>

theorem sbi_timer_call:
  fixes s :: "'x::len vm"
  assumes v: "valid_xlen TYPE('x)" and w: "wf_vm s"
    and d: "\<not> trapDelegate (cpu s)" "virtualSBI (cpu s)"
    and c: "trapCause (cpu s) = of_nat (trap_code TRAP_CALL_S)"
    and a: "readReg s 17 = SBI_EID_TIMER" "readReg s 16 = 0"
  shows "mtimecmp (aclint (doTrap s)) ! 0 = sbi_time s \<and> timer_settled (aclint (doTrap s)) \<and>
    mtime (aclint (doTrap s)) = mtime (aclint s) \<and>
    (bit (mie (csr_of (doTrap s))) 7 \<longleftrightarrow> sbi_time s \<noteq> NOT 1) \<and>
    readReg (doTrap s) 10 = 0 \<and> readReg (doTrap s) 11 = 0"
proof -
  define t where "t = enterM (trap_taken s)"
  define u where "u = aclint_setMtimecmp 0 (sbi_time s) t"
  have h: "mhartid (csr_of s) = 0" "wf_aclint (aclint s)" "length (Rx (cpu s)) = 32"
    using w by (simp_all add: wf_vm_def wf_cpu_def wf_platform_def wf_devs_def)
  have b: "SBI_EID_TIMER \<noteq> (SBI_EID_BASE :: 'x word)"
    using v unfolding SBI_EID_TIMER_def SBI_EID_BASE_def by (auto simp: valid_xlen_def word_eq_iff_unsigned)
  have "sbi_handleEcall t = rv_pokeRx CPU_REG_A1 0 (rv_pokeRx CPU_REG_A0 0 (fst (handleTimerExt 0 t)))"
    using a b by (simp add: sbi_handleEcall_def t_def rv_peekRx_def readReg_def cpu_reg_defs handleTimerExt_def
        Let_def)
  moreover have "fst (handleTimerExt 0 t) = upd_csr (mie_update (\<lambda>v. if sbi_time s = NOT 1
      then v AND NOT (irq_mask IRQ_MACHINE_TMR_INT) else v OR irq_mask IRQ_MACHINE_TMR_INT)) u"
    using h by (simp add: handleTimerExt_def Let_def u_def t_def rv_getHartID_def)
  moreover have "Rx (cpu u) = Rx (cpu s)"
    using sbi_frame_port [OF aclint_setMtimecmp_port, of t 0 "sbi_time s"]
    by (simp add: sbi_frame_def u_def t_def)
  moreover have "doTrap s = xret RV_PRIV_MODE_MACHINE (- 4) (sbi_handleEcall t)"
    using doTrap_ecall [OF d _ v] c by (simp add: t_def)
  ultimately show ?thesis
    using setMtimecmp_effect [of t 0 "sbi_time s"] h valid_xlen_ge [OF v]
    by (auto simp: rv_pokeRx_def readReg_def cpu_reg_defs u_def t_def bitwise mask_bits)
qed

theorem sbi_timer_call_witness:
  "mtimecmp (aclint (doTrap (demo_call 0x54494D45 0 1000 0))) ! 0 = 1000"
proof -
  have "sbi_time (demo_call 0x54494D45 0 1000 0) = 1000"
    by (simp add: sbi_time_def demo_call_def demo_cpu rv_peekRx_def cpu_reg_defs)
  then show ?thesis
    using sbi_timer_call [of "demo_call 0x54494D45 0 1000 0"]
    by (simp add: demo_call_simps SBI_EID_TIMER_def)
qed

text \<open>C24. A machine timer interrupt under the built-in firmware reaches the supervisor: its timer
  interrupt becomes pending, the machine timer interrupt is disabled until the next timer call, and
  the interrupted program continues where it was, in its mode, with its registers.\<close>

theorem sbi_forwards_timer:
  fixes s :: "'x::len vm"
  assumes v: "valid_xlen TYPE('x)" and d: "\<not> trapDelegate (cpu s)" "virtualSBI (cpu s)"
    and c: "trapCause (cpu s) = of_nat (irq_code IRQ_MACHINE_TMR_INT) OR CPU_SIGN_BIT"
  shows "bit (mip (csr_of (doTrap s))) (irq_code IRQ_SUPERVISOR_TMR_INT) \<and>
    \<not> bit (mie (csr_of (doTrap s))) (irq_code IRQ_MACHINE_TMR_INT) \<and>
    \<not> trapped (doTrap s) \<and> cpu_irq (cpu (doTrap s)) \<and>
    pc_of (doTrap s) = pc_of s \<and> mode_of (doTrap s) = mode_of s \<and> Rx (cpu (doTrap s)) = Rx (cpu s)"
proof -
  define t where "t = enterM (trap_taken s)"
  define w where "w = aclint_setMtimecmp (unat (mhartid (csr_of t))) (ucast (CPU_UINT_MAX :: 'x word)) t"
  define u where "u = rv_setInterrupt IRQ_SUPERVISOR_TMR_INT
     (upd_csr (mie_update (\<lambda>v. v AND NOT (irq_mask IRQ_MACHINE_TMR_INT))) w)"
  have l: "trapCause (cpu s) AND NOT CPU_SIGN_BIT = 7"
    using small_cause [OF v, of 7] unfolding c by (simp add: bit.conj_disj_distrib2)
  have "bit (trapCause (cpu s)) (LENGTH('x) - 1)"
    unfolding c by (simp add: bit_or_iff mask_bits)
  moreover have "(7 :: 'x word) \<noteq> 9"
    using v by (auto simp: valid_xlen_def word_eq_iff_unsigned)
  ultimately have e: "doTrap s = xret RV_PRIV_MODE_MACHINE 0 (sbi_handleInterrupt t)"
    using d l by (simp add: doTrap_def Let_def and_CPU_SIGN_BIT t_def flip: trap_taken_def)
  have m: "sbi_handleInterrupt t = u"
    using l by (simp add: sbi_handleInterrupt_def t_def u_def w_def)
  have "sbi_frame t w"
    unfolding w_def by (intro sbi_frame_port aclint_setMtimecmp_port)
  then have f: "sbi_frame t u"
    by (simp add: u_def irq_line_defs sbi_frame_def)
  have i: "cpu_irq (cpu (xret RV_PRIV_MODE_MACHINE 0 u)) = cpu_irq (cpu u)"
    by (simp add: xret_def split_def Let_def writePC_def trap_def)
  have p: "bit (mip (csr_of u)) 5" "\<not> bit (mie (csr_of u)) 7" "cpu_irq (cpu u)"
    using bit_mip_setInterrupt [OF v] valid_xlen_ge [OF v]
    by (simp_all add: u_def) (simp_all add: irq_line_defs bitwise mask_bits)
  show ?thesis
    unfolding e m using xret_machine [OF v, of u 0 0] f p
    by (simp add: i sbi_frame_def t_def enter_MPP [OF v])
qed

theorem sbi_forwards_timer_witness:
  "bit (mip (csr_of (doTrap (cpu_update (trapCause_update (\<lambda>_. 0x80000007)) (demo_call 0 0 0 0))))) 5 \<and>
   pc_of (doTrap (cpu_update (trapCause_update (\<lambda>_. 0x80000007)) (demo_call 0 0 0 0))) = 0x80000100"
proof -
  have "(of_nat 7 OR CPU_SIGN_BIT :: 32 word) = 0x80000007"
    by code_simp
  then show ?thesis
    using sbi_forwards_timer [of "cpu_update (trapCause_update (\<lambda>_. 0x80000007)) (demo_call 0 0 0 0)"]
    by (simp add: demo_call_simps)
qed

section \<open>The debug console\<close>

lemma wf_platform_stdout [simp]:
  "wf_platform (s\<lparr>vm_stdout := x\<rparr>) = wf_platform s" "in_region (s\<lparr>vm_stdout := x\<rparr>) d a n = in_region s d a n"
  by (simp_all add: wf_platform_def wf_devs_def in_region_def region_size_def device_of_def
      split: dev_id.split)

lemma slice_Suc:
  assumes "off < length xs"
  shows "slice_at off (Suc k) xs = xs ! off # slice_at (Suc off) k xs"
  using assms by (simp add: slice_at_def Cons_nth_drop_Suc [symmetric])

lemma dbgLoop_prints:
  fixes s :: "'x::len vm"
  assumes v: "valid_xlen TYPE('x)" and w: "wf_platform s" and k: "unat i + k = unat n"
    and r: "in_region s RAM (unat a + unat i) k"
  shows "dbgLoop a n i s = (False, s\<lparr>vm_stdout :=
    vm_stdout s @ slice_at (unat a + unat i - region_base RAM) k (mem_data (ram s))\<rparr>)"
  using w k r
proof (induction k arbitrary: i s)
  case 0
  then have "\<not> i < n"
    by (simp add: word_less_nat_alt)
  then show ?case
    by (subst dbgLoop.simps) (simp add: slice_at_def)
next
  case (Suc k)
  define off where "off = unat a + unat i - region_base RAM"
  have b: "region_base RAM \<le> unat a + unat i" "unat a + unat i + Suc k \<le> region_base RAM + length (mem_data (ram s))"
    using Suc.prems(3) region_sizes(4) [OF v Suc.prems(1)] by (simp_all add: in_region_def)
  have l: "unat a + unat i + Suc k < 2 ^ LENGTH('x)"
    by (rule in_ram_nowrap [OF v Suc.prems(1,3)])
  have ai: "unat (a + i) = unat a + unat i"
    using l by (simp add: unat_word_ariths)
  have i1: "unat (i + 1) = unat i + 1" and "i < n"
    using Suc.prems(2) l unat_plus_of_nat [of i 1] by (simp_all add: word_less_nat_alt)
  have "in_region s RAM (unat (a + i)) 1"
    using Suc.prems(3) by (simp add: ai in_region_def)
  then have "bus_read s (a + i) [uninit s] = (True, s, slice_at off 1 (mem_data (ram s)))"
    using bus_read_ram [OF v Suc.prems(1), of "a + i" "[uninit s]"] by (simp add: ai off_def)
  moreover have "slice_at off 1 (mem_data (ram s)) = [mem_data (ram s) ! off]"
    using b slice_Suc [of off "mem_data (ram s)" 0] by (simp add: off_def slice_at_def)
  moreover have n: "in_region s RAM (Suc (unat a + unat i)) k"
    using Suc.prems(3) by (simp add: in_region_def)
  then have "dbgLoop a n (i + 1) (ui_putch c s) = (False, s\<lparr>vm_stdout :=
      vm_stdout s @ c # slice_at (Suc off) k (mem_data (ram s))\<rparr>)" for c
    using Suc.IH [of "ui_putch c s" "i + 1"] Suc.prems(1,2) n b
    by (simp add: ui_putch_def i1 off_def Suc_diff_le)
  ultimately show ?case
    using \<open>i < n\<close> b slice_Suc [of off "mem_data (ram s)" k]
    by (subst dbgLoop.simps) (simp add: off_def)
qed

text \<open>C21. The console call prints: when the bytes named by the caller lie in memory, exactly those
  bytes are appended to the output, in order, and success is reported with their number.\<close>

theorem sbi_console_prints:
  fixes s :: "'x::len vm"
  assumes v: "valid_xlen TYPE('x)" and w: "wf_vm s"
    and d: "\<not> trapDelegate (cpu s)" "virtualSBI (cpu s)"
    and c: "trapCause (cpu s) = of_nat (trap_code TRAP_CALL_S)"
    and a: "readReg s 17 = SBI_EID_DBGCON" "readReg s 16 = 0"
    and r: "in_region s RAM (unat (readReg s 11)) (unat (readReg s 10))"
  shows "vm_stdout (doTrap s) = vm_stdout s @
      slice_at (unat (readReg s 11) - region_base RAM) (unat (readReg s 10)) (mem_data (ram s)) \<and>
    readReg (doTrap s) 10 = 0 \<and> readReg (doTrap s) 11 = readReg s 10 \<and> ram (doTrap s) = ram s"
proof -
  define t where "t = enterM (trap_taken s)"
  have l: "length (Rx (cpu s)) = 32" "wf_platform s"
    using w by (simp_all add: wf_vm_def wf_cpu_def)
  have ne: "(SBI_EID_DBGCON :: 'x word) \<noteq> SBI_EID_BASE" "(SBI_EID_DBGCON :: 'x word) \<noteq> SBI_EID_TIMER"
    using v unfolding SBI_EID_DBGCON_def SBI_EID_BASE_def SBI_EID_TIMER_def
    by (auto simp: valid_xlen_def word_eq_iff_unsigned)
  have "wf_platform t" "in_region t RAM x n = in_region s RAM x n" for x n
    using l(2) by (simp_all add: t_def enterM_def trap_taken_def Let_def wf_platform_def wf_devs_def
        in_region_def region_size_def device_of_def)
  then have "dbgLoop (readReg s 11) (readReg s 10) 0 t = (False, t\<lparr>vm_stdout := vm_stdout s @
      slice_at (unat (readReg s 11) - region_base RAM) (unat (readReg s 10)) (mem_data (ram s))\<rparr>)"
    using dbgLoop_prints [OF v, of t 0 "unat (readReg s 10)" "readReg s 10" "readReg s 11"] r
    by (simp add: t_def)
  then have "sbi_handleEcall t = rv_pokeRx CPU_REG_A1 (readReg s 10) (rv_pokeRx CPU_REG_A0 0
      (t\<lparr>vm_stdout := vm_stdout s @
        slice_at (unat (readReg s 11) - region_base RAM) (unat (readReg s 10)) (mem_data (ram s))\<rparr>))"
    using a ne by (simp add: sbi_handleEcall_def handleDbgConExt_def t_def readReg_def rv_peekRx_def
        cpu_reg_defs Let_def)
  moreover have "doTrap s = xret RV_PRIV_MODE_MACHINE (- 4) (sbi_handleEcall t)"
    using doTrap_ecall [OF d _ v] c by (simp add: t_def)
  ultimately show ?thesis
    using l(1) by (simp add: rv_pokeRx_def readReg_def cpu_reg_defs t_def)
qed

theorem sbi_console_prints_witness:
  "vm_stdout (doTrap (demo_call 0x4442434E 0 2 0x80000000)) = vm_stdout demo @ [0, 0]"
proof -
  have "in_region (demo_call 0x4442434E 0 2 0x80000000) RAM 0x80000000 2"
    using demo_in_ram [of "0x80000000" 2]
    by (simp add: in_region_def region_size_def device_of_def demo_call_simps)
  moreover have "slice_at 0 2 (mem_data (ram demo)) = [0, 0]"
  proof -
    have "slice_at 0 2 (mem_data (ram demo)) = replicate 2 0"
      by (simp add: demo_ram slice_at_def)
    then show ?thesis
      by (simp add: numeral_2_eq_2)
  qed
  ultimately show ?thesis
    using sbi_console_prints [of "demo_call 0x4442434E 0 2 0x80000000"]
    by (simp add: demo_call_simps SBI_EID_DBGCON_def region_base_def)
qed

end
