(* ===== verification/Dos_Ui.thy ===== *)
theory Dos_Ui
  imports VM_State
begin

text \<open>
  The status line of the DOS build, \<^verbatim>\<open>src/src/ui.c\<close> under \<^verbatim>\<open>CONFIG_DOS\<close>: eighty cells of character
  and attribute kept in \<^verbatim>\<open>_ui.statusLine\<close> and copied to the first row of the text screen. An
  \<^verbatim>\<open>unsigned int\<close> has 16 bits there. A store behind the last cell of the line is undefined
  behaviour of the host and is recorded in \<open>ui_ub\<close>. \<open>videoMem\<close> holds the cells of the screen as
  far as this module writes them; what the console output of the C library puts there is not
  modelled.
\<close>

section \<open>State\<close>

datatype UIPageStatus = UI_PS_IDLE | UI_PS_RD | UI_PS_WR

record ui_state =
  statusLine :: "16 word list"
  pageStatus :: "16 word"
  ui_idling :: bool
  swapRdKb :: "32 word"
  swapWrKb :: "32 word"
  videoMem :: "16 word list"
  ui_ub :: bool

section \<open>Number formatting\<close>

text \<open>The conversions \<^verbatim>\<open>%u\<close> of \<^verbatim>\<open>sprintf\<close> with a field width, padded with blanks or zeros.\<close>

fun dec_digits :: "nat \<Rightarrow> string" where
  "dec_digits n = (if n < 10 then [char_of (48 + n)] else dec_digits (n div 10) @ [char_of (48 + n mod 10)])"

declare dec_digits.simps [simp del]

definition pad_left :: "char \<Rightarrow> nat \<Rightarrow> string \<Rightarrow> string" where
  "pad_left c w str = replicate (w - length str) c @ str"

section \<open>Operations\<close>

definition printStatusLine :: "ui_state \<Rightarrow> ui_state" where
  "printStatusLine u = u\<lparr>videoMem := splice_at 0 (statusLine u) (videoMem u)\<rparr>"

definition pokeVideoMem :: "nat \<Rightarrow> 16 word \<Rightarrow> ui_state \<Rightarrow> ui_state" where
  "pokeVideoMem offset d u = u\<lparr>videoMem := (videoMem u)[offset := d]\<rparr>"

definition renderPageStatus :: "ui_state \<Rightarrow> ui_state" where
  "renderPageStatus u =
     (let d = if ui_idling u then of_char CHR '' '' else pageStatus u
      in pokeVideoMem 0 d (u\<lparr>statusLine := (statusLine u)[0 := d]\<rparr>))"

definition ui_init :: "ui_state \<Rightarrow> ui_state" where
  "ui_init u = u\<lparr>statusLine := replicate 80 0, pageStatus := of_char CHR '' '', ui_idling := False,
     swapRdKb := 0, swapWrKb := 0\<rparr>"

definition ui_rerender :: "ui_state \<Rightarrow> ui_state" where
  "ui_rerender = printStatusLine"

text \<open>The loop that stores a string into the line with an attribute in the upper byte.\<close>

primrec putText :: "nat \<Rightarrow> 16 word \<Rightarrow> string \<Rightarrow> ui_state \<Rightarrow> ui_state" where
  "putText i attr [] u = u"
| "putText i attr (c # cs) u =
     putText (Suc i) attr cs
       (if i < length (statusLine u) then u\<lparr>statusLine := (statusLine u)[i := attr OR of_char c]\<rparr>
        else u\<lparr>ui_ub := True\<rparr>)"

definition ui_cps :: "32 word \<Rightarrow> ui_state \<Rightarrow> ui_state" where
  "ui_cps cps u =
     printStatusLine (putText (80 - 8) (push_bit 8 2) (pad_left CHR '' '' 8 (dec_digits (unat cps))) u)"

definition ui_time :: "64 word \<Rightarrow> ui_state \<Rightarrow> ui_state" where
  "ui_time ms u =
     (let sec = ms div 1000; min = sec div 60;
          h = ucast (min div 60) :: 16 word; m = ucast (min mod 60) :: 16 word;
          s = ucast (sec mod 60) :: 16 word
      in printStatusLine (putText 1 (push_bit 8 3)
           (pad_left CHR '' '' 5 (dec_digits (unat h)) @ '':'' @ pad_left CHR ''0'' 2 (dec_digits (unat m)) @
            '':'' @ pad_left CHR ''0'' 2 (dec_digits (unat s))) u))"

definition ui_idle :: "bool \<Rightarrow> ui_state \<Rightarrow> ui_state" where
  "ui_idle b u = renderPageStatus (u\<lparr>ui_idling := b\<rparr>)"

definition ui_page_status :: "UIPageStatus \<Rightarrow> ui_state \<Rightarrow> ui_state" where
  "ui_page_status st u =
     renderPageStatus (u\<lparr>pageStatus :=
       (case st of UI_PS_IDLE \<Rightarrow> push_bit 12 2 | UI_PS_RD \<Rightarrow> push_bit 12 1 | UI_PS_WR \<Rightarrow> push_bit 12 4)
       OR of_char CHR '' ''\<rparr>)"

definition ui_swapRd :: "nat \<Rightarrow> ui_state \<Rightarrow> ui_state" where
  "ui_swapRd kb u =
     (let t = u\<lparr>swapRdKb := swapRdKb u + of_nat kb\<rparr>
      in printStatusLine (putText 14 (push_bit 8 9)
           (''R: '' @ pad_left CHR '' '' 8 (dec_digits (unat (swapRdKb t))) @ ''K'') t))"

definition ui_swapWr :: "nat \<Rightarrow> ui_state \<Rightarrow> ui_state" where
  "ui_swapWr kb u =
     (let t = u\<lparr>swapWrKb := swapWrKb u + of_nat kb\<rparr>
      in printStatusLine (putText 32 (push_bit 8 6)
           (''W: '' @ pad_left CHR '' '' 8 (dec_digits (unat (swapWrKb t))) @ ''K'') t))"

section \<open>The line is never left, up to eight digits of speed\<close>

lemma length_dec_digits: "0 < k \<Longrightarrow> length (dec_digits n) \<le> k \<longleftrightarrow> n < 10 ^ k"
proof (induction n arbitrary: k rule: dec_digits.induct)
  case (1 n)
  show ?case
  proof (cases "n < 10")
    case True
    moreover have "(10 :: nat) ^ 1 \<le> 10 ^ k"
      using 1(2) by (intro power_increasing) auto
    ultimately show ?thesis
      using 1(2) by (subst dec_digits.simps) simp
  next
    case False
    show ?thesis
    proof (cases "k = 1")
      case True
      have "dec_digits (n div 10) \<noteq> []"
        by (subst dec_digits.simps) simp
      with False True show ?thesis
        by (subst dec_digits.simps) (simp add: not_le)
    next
      case k: False
      then obtain j where j: "k = Suc j" "0 < j"
        using 1(2) by (cases k) auto
      have "n div 10 < 10 ^ j \<longleftrightarrow> n < 10 ^ k"
        by (simp add: j div_less_iff_less_mult mult.commute)
      with False 1(1) [of j] j show ?thesis
        by (subst dec_digits.simps) simp
    qed
  qed
qed

lemma length_pad_left [simp]: "length (pad_left c w str) = max w (length str)"
  by (simp add: pad_left_def)

lemma length_putText [simp]: "length (statusLine (putText i attr str u)) = length (statusLine u)"
  by (induction str arbitrary: i u) simp_all

lemma putText_ub:
  "ui_ub (putText i attr str u) \<longleftrightarrow>
     ui_ub u \<or> str \<noteq> [] \<and> length (statusLine u) < i + length str"
proof (induction str arbitrary: i u)
  case (Cons c str)
  then show ?case
    by (cases str) auto
qed simp

lemma status_simps [simp]:
  "statusLine (printStatusLine u) = statusLine u" "ui_ub (printStatusLine u) = ui_ub u"
  "length (statusLine (renderPageStatus u)) = length (statusLine u)"
  "ui_ub (renderPageStatus u) = ui_ub u"
  by (simp_all add: printStatusLine_def renderPageStatus_def pokeVideoMem_def Let_def)

lemma dec_digits_32: "length (dec_digits (unat (w :: 32 word))) \<le> 10"
  using unsigned_less [of w, where 'a = nat] by (simp add: length_dec_digits)

lemma dec_digits_16: "length (dec_digits (unat (w :: 16 word))) \<le> 5"
  using unsigned_less [of w, where 'a = nat] by (simp add: length_dec_digits)

lemma ui_length [simp]:
  "length (statusLine (ui_cps n u)) = length (statusLine u)"
  "length (statusLine (ui_time ms u)) = length (statusLine u)"
  "length (statusLine (ui_idle b u)) = length (statusLine u)"
  "length (statusLine (ui_page_status st u)) = length (statusLine u)"
  "length (statusLine (ui_swapRd kb u)) = length (statusLine u)"
  "length (statusLine (ui_swapWr kb u)) = length (statusLine u)"
  by (simp_all add: ui_cps_def ui_time_def ui_idle_def ui_page_status_def ui_swapRd_def ui_swapWr_def
      Let_def)

lemma ui_swap_ub [simp]:
  assumes "length (statusLine u) = 80"
  shows "ui_ub (ui_swapRd kb u) = ui_ub u" "ui_ub (ui_swapWr kb u) = ui_ub u"
    "ui_ub (ui_page_status st u) = ui_ub u" "ui_ub (ui_idle b u) = ui_ub u"
  using assms dec_digits_32 [of "swapRdKb u + of_nat kb"] dec_digits_32 [of "swapWrKb u + of_nat kb"]
  by (simp_all add: ui_swapRd_def ui_swapWr_def putText_ub ui_page_status_def ui_idle_def Let_def max_def)

lemma ui_time_ub:
  assumes "length (statusLine u) = 80"
  shows "ui_ub (ui_time ms u) = ui_ub u"
  using assms dec_digits_16 [of "ucast (ms div 1000 div 60 div 60)"]
    dec_digits_16 [of "ucast (ms div 1000 div 60 mod 60)"] dec_digits_16 [of "ucast (ms div 1000 mod 60)"]
  by (simp add: ui_time_def putText_ub Let_def max_def)

lemma ui_cps_ub:
  assumes "length (statusLine u) = 80"
  shows "ui_ub (ui_cps n u) \<longleftrightarrow> ui_ub u \<or> 10 ^ 8 \<le> unat n"
proof -
  have "pad_left CHR '' '' 8 (dec_digits (unat n)) \<noteq> []"
    by (simp flip: length_greater_0_conv)
  then show ?thesis
    using assms length_dec_digits [of 8 "unat n"]
    by (auto simp: ui_cps_def putText_ub)
qed

end
