(* ===== verification/Paged_Memory.thy ===== *)
theory Paged_Memory
  imports Dos_Ui Flat_Memory
begin

text \<open>
  Guest memory of the DOS build, \<^verbatim>\<open>src/src/memory.c\<close> and \<^verbatim>\<open>memory.h\<close> under \<^verbatim>\<open>CONFIG_DOS\<close>: the guest's
  memory lives in one to eight swap files and a fixed number of pages is held in conventional
  memory, in a doubly linked list ordered by last use. The pages are the array \<^verbatim>\<open>pages\<close> and a
  \<^verbatim>\<open>struct _memPage *\<close> is an index into it. \<^verbatim>\<open>unsigned long\<close> has 32 bits and \<^verbatim>\<open>unsigned int\<close> 16.

  The services of DOS (\<^verbatim>\<open>_dos_open\<close>, \<^verbatim>\<open>_dos_creat\<close>, \<^verbatim>\<open>_dos_close\<close>, \<^verbatim>\<open>_dos_read\<close>, \<^verbatim>\<open>_dos_write\<close> and
  function 42h of interrupt 21h) are the argument \<open>api\<close>, on a state \<open>'f\<close> of the file system that
  only they touch; whether \<^verbatim>\<open>_fmalloc\<close> succeeds for a page is an argument too. Ghost fields: a page
  knows whether it has been freed, and \<open>pm_ub\<close> records an access outside \<^verbatim>\<open>swapFiles\<close>, a file name
  longer than its buffer and the second release of a page. \<^verbatim>\<open>MEMORY_STATS\<close> is never defined.
\<close>

section \<open>State\<close>

definition MEM_PAGES :: "'x::len itself \<Rightarrow> nat" where
  "MEM_PAGES T = (if CONFIG_RV64 T then 80 else 160)"

definition MEM_PAGE_ADDR_SHIFT :: "'x::len itself \<Rightarrow> nat" where
  "MEM_PAGE_ADDR_SHIFT T = (if CONFIG_RV64 T then 12 else 11)"

definition MEM_PAGE_SIZE :: "'x::len itself \<Rightarrow> nat" where
  "MEM_PAGE_SIZE T = 2 ^ MEM_PAGE_ADDR_SHIFT T"

definition MEM_PAGE_OFFSET_MASK :: "'x::len itself \<Rightarrow> 32 word" where
  "MEM_PAGE_OFFSET_MASK T = of_nat (MEM_PAGE_SIZE T) - 1"

definition MEM_PAGE_ADDR_MASK :: "'x::len itself \<Rightarrow> 32 word" where
  "MEM_PAGE_ADDR_MASK T = NOT (MEM_PAGE_OFFSET_MASK T)"

definition MAX_SWAP_FILES :: nat where "MAX_SWAP_FILES = 8"

record mem_page =
  pg_addr :: "32 word"
  pg_dirty :: bool
  pg_data :: "byte list option"
  pg_next :: "nat option"
  pg_prev :: "nat option"
  pg_freed :: bool

record (overloaded) ('x, 'f) dos_memory =
  pages :: "mem_page list"
  lruListHead :: nat
  swapFiles :: "int list"
  filePosMask :: "32 word"
  fileNoShift :: nat
  pm_dev :: "'x::len device"
  files :: 'f
  ui :: ui_state
  pm_ub :: bool

section \<open>DOS files\<close>

text \<open>\<open>dos_open\<close> and \<open>dos_creat\<close> answer the handle, \<open>None\<close> standing for an error code; \<open>dos_read\<close> the
  bytes transferred; \<open>dos_write\<close> their number; \<open>dos_int21_42 al bx cx dx\<close> the registers \<^verbatim>\<open>dx\<close> and
  \<^verbatim>\<open>ax\<close>, \<open>None\<close> standing for a set carry flag.\<close>

record 'f dos_api =
  dos_open :: "string \<Rightarrow> 'f \<Rightarrow> int option \<times> 'f"
  dos_creat :: "string \<Rightarrow> 'f \<Rightarrow> int option \<times> 'f"
  dos_close :: "int \<Rightarrow> 'f \<Rightarrow> 'f"
  dos_read :: "int \<Rightarrow> nat \<Rightarrow> 'f \<Rightarrow> byte list \<times> 'f"
  dos_write :: "int \<Rightarrow> byte list \<Rightarrow> 'f \<Rightarrow> nat \<times> 'f"
  dos_int21_42 :: "8 word \<Rightarrow> int \<Rightarrow> 16 word \<Rightarrow> 16 word \<Rightarrow> 'f \<Rightarrow> (16 word \<times> 16 word) option \<times> 'f"

definition dosFOpen :: "'f dos_api \<Rightarrow> string \<Rightarrow> 'f \<Rightarrow> int \<times> 'f" where
  "dosFOpen api name f =
     (case dos_open api name f of
        (Some h, f1) \<Rightarrow> (h, f1)
      | (None, f1) \<Rightarrow>
          (case dos_creat api name f1 of (Some h, f2) \<Rightarrow> (h, f2) | (None, f2) \<Rightarrow> (- 1, f2)))"

definition dosFRead :: "'f dos_api \<Rightarrow> int \<Rightarrow> nat \<Rightarrow> 'f \<Rightarrow> byte list \<times> 'f" where
  "dosFRead api file sz f = (case dos_read api file sz f of (bs, f1) \<Rightarrow> (take sz bs, f1))"

definition dosFWrite :: "'f dos_api \<Rightarrow> int \<Rightarrow> byte list \<Rightarrow> 'f \<Rightarrow> nat \<times> 'f" where
  "dosFWrite api file buf f = dos_write api file buf f"

definition DOS_SEEK_SET :: "8 word" where "DOS_SEEK_SET = 0"
definition DOS_SEEK_CUR :: "8 word" where "DOS_SEEK_CUR = 1"
definition DOS_SEEK_END :: "8 word" where "DOS_SEEK_END = 2"

definition dosFSeek :: "'f dos_api \<Rightarrow> int \<Rightarrow> 32 word \<Rightarrow> 8 word \<Rightarrow> 'f \<Rightarrow> bool \<times> 'f" where
  "dosFSeek api file offset whence f =
     (case dos_int21_42 api whence file (ucast (drop_bit 16 offset)) (ucast offset) f of
        (r, f1) \<Rightarrow> (r \<noteq> None, f1))"

definition dosFTell :: "'f dos_api \<Rightarrow> int \<Rightarrow> 'f \<Rightarrow> 32 word \<times> 'f" where
  "dosFTell api file f =
     (case dos_int21_42 api DOS_SEEK_CUR file 0 0 f of
        (None, f1) \<Rightarrow> (- 1, f1)
      | (Some (dx, ax), f1) \<Rightarrow> (push_bit 16 (ucast dx) OR ucast ax, f1))"

section \<open>The list of pages\<close>

abbreviation upd_page :: "nat \<Rightarrow> (mem_page \<Rightarrow> mem_page) \<Rightarrow> ('x::len, 'f) dos_memory \<Rightarrow> ('x, 'f) dos_memory" where
  "upd_page i g m \<equiv> m\<lparr>pages := (pages m)[i := g (pages m ! i)]\<rparr>"

abbreviation upd_ui :: "(ui_state \<Rightarrow> ui_state) \<Rightarrow> ('x::len, 'f) dos_memory \<Rightarrow> ('x, 'f) dos_memory" where
  "upd_ui g m \<equiv> ui_update g m"

text \<open>\<^verbatim>\<open>INFO\<close> and \<^verbatim>\<open>ERROR\<close> print to standard error and repaint the status line.\<close>

abbreviation log_line :: "('x::len, 'f) dos_memory \<Rightarrow> ('x, 'f) dos_memory" where
  "log_line m \<equiv> upd_ui ui_rerender m"

definition swapLruHead :: "nat \<Rightarrow> ('x::len, 'f) dos_memory \<Rightarrow> ('x, 'f) dos_memory" where
  "swapLruHead page m =
     (let m1 = (case pg_prev (pages m ! page) of None \<Rightarrow> m
                | Some p \<Rightarrow> upd_page p (pg_next_update (\<lambda>_. pg_next (pages m ! page))) m);
          m2 = (case pg_next (pages m1 ! page) of None \<Rightarrow> m1
                | Some n \<Rightarrow> upd_page n (pg_prev_update (\<lambda>_. pg_prev (pages m1 ! page))) m1);
          m3 = upd_page page (\<lambda>p. p\<lparr>pg_next := Some (lruListHead m2), pg_prev := None\<rparr>) m2;
          m4 = upd_page (lruListHead m3) (pg_prev_update (\<lambda>_. Some page)) m3
      in m4\<lparr>lruListHead := page\<rparr>)"

section \<open>Swapping\<close>

text \<open>\<open>None\<close> is an index outside the array.\<close>

definition lookupSwapFile :: "('x::len, 'f) dos_memory \<Rightarrow> 32 word \<Rightarrow> int option" where
  "lookupSwapFile m pageAddr =
     (let i = unat (drop_bit (fileNoShift m) pageAddr)
      in if i < MAX_SWAP_FILES then Some (swapFiles m ! i) else None)"

abbreviation page_bytes :: "mem_page \<Rightarrow> byte list" where
  "page_bytes p \<equiv> case_option [] (\<lambda>bs. bs) (pg_data p)"

definition storePage :: "'f dos_api \<Rightarrow> nat \<Rightarrow> ('x::len, 'f) dos_memory \<Rightarrow> ('x, 'f) dos_memory" where
  "storePage api i m =
     (case lookupSwapFile m (pg_addr (pages m ! i)) of
        None \<Rightarrow> m\<lparr>pm_ub := True\<rparr>
      | Some swap \<Rightarrow>
          (case dosFSeek api swap (pg_addr (pages m ! i) AND filePosMask m) DOS_SEEK_SET (files m) of (ok, f1) \<Rightarrow>
             if \<not> ok then log_line (m\<lparr>files := f1\<rparr>)
             else (case dosFWrite api swap (page_bytes (pages m ! i)) f1 of (n, f2) \<Rightarrow>
               if n \<noteq> MEM_PAGE_SIZE TYPE('x) then log_line (m\<lparr>files := f2\<rparr>)
               else upd_ui (ui_swapWr (MEM_PAGE_SIZE TYPE('x) div 1024)) (m\<lparr>files := f2\<rparr>))))"

text \<open>A short read has overwritten the beginning of the buffer.\<close>

definition loadPage :: "'f dos_api \<Rightarrow> 32 word \<Rightarrow> nat \<Rightarrow> ('x::len, 'f) dos_memory \<Rightarrow> ('x, 'f) dos_memory" where
  "loadPage api pageAddr i m =
     (case lookupSwapFile m pageAddr of
        None \<Rightarrow> m\<lparr>pm_ub := True\<rparr>
      | Some swap \<Rightarrow>
          (case dosFSeek api swap (pageAddr AND filePosMask m) DOS_SEEK_SET (files m) of (ok, f1) \<Rightarrow>
             if \<not> ok then log_line (m\<lparr>files := f1\<rparr>)
             else (case dosFRead api swap (MEM_PAGE_SIZE TYPE('x)) f1 of (bs, f2) \<Rightarrow>
               let m2 = upd_page i (pg_data_update (map_option (splice_at 0 bs))) (m\<lparr>files := f2\<rparr>) in
               if length bs \<noteq> MEM_PAGE_SIZE TYPE('x) then log_line m2
               else upd_ui (ui_swapRd (MEM_PAGE_SIZE TYPE('x) div 1024))
                      (upd_page i (\<lambda>p. p\<lparr>pg_addr := pageAddr, pg_dirty := False\<rparr>) m2))))"

text \<open>The search along the list: the page found, or the last one.\<close>

partial_function (option) findPage :: "mem_page list \<Rightarrow> 32 word \<Rightarrow> nat \<Rightarrow> (bool \<times> nat) option" where
  "findPage ps pageAddr page =
     (if pg_addr (ps ! page) = pageAddr then Some (True, page)
      else case pg_next (ps ! page) of None \<Rightarrow> Some (False, page) | Some n \<Rightarrow> findPage ps pageAddr n)"

definition lookupPage ::
  "'f dos_api \<Rightarrow> 32 word \<Rightarrow> ('x::len, 'f) dos_memory \<Rightarrow> (nat \<times> ('x, 'f) dos_memory) option" where
  "lookupPage api addr m =
     (let pageAddr = addr AND MEM_PAGE_ADDR_MASK TYPE('x) in
      case findPage (pages m) pageAddr (lruListHead m) of
        None \<Rightarrow> None
      | Some (True, page) \<Rightarrow> Some (page, if page \<noteq> lruListHead m then swapLruHead page m else m)
      | Some (False, page) \<Rightarrow>
          let m1 = swapLruHead page m;
              m2 = (if pg_dirty (pages m1 ! page)
                    then storePage api page (upd_ui (ui_page_status UI_PS_WR) m1) else m1);
              m3 = loadPage api pageAddr page (upd_ui (ui_page_status UI_PS_RD) m2)
          in Some (page, upd_ui (ui_page_status UI_PS_IDLE) m3))"

section \<open>Reading, writing, comparing\<close>

text \<open>The loops over the pages an access spans; \<open>n\<close> is what is left of \<^verbatim>\<open>size\<close>.\<close>

definition page_offset :: "'x::len itself \<Rightarrow> 32 word \<Rightarrow> nat" where
  "page_offset T localAddr = unat (localAddr AND MEM_PAGE_OFFSET_MASK T)"

definition chunk_size :: "'x::len itself \<Rightarrow> 32 word \<Rightarrow> nat \<Rightarrow> nat" where
  "chunk_size T localAddr n = min (MEM_PAGE_SIZE T - page_offset T localAddr) n"

lemma page_size_word:
  "MEM_PAGE_OFFSET_MASK TYPE('x::len) = mask (MEM_PAGE_ADDR_SHIFT TYPE('x))"
  "MEM_PAGE_ADDR_SHIFT TYPE('x) \<le> 12"
  by (simp_all add: MEM_PAGE_OFFSET_MASK_def MEM_PAGE_SIZE_def MEM_PAGE_ADDR_SHIFT_def mask_eq_exp_minus_1)

lemma page_offset_mod: "page_offset TYPE('x::len) a = unat a mod MEM_PAGE_SIZE TYPE('x)"
  by (simp add: page_offset_def page_size_word MEM_PAGE_SIZE_def unat_and_mask)

lemma page_offset_less [simp]: "page_offset TYPE('x::len) a < MEM_PAGE_SIZE TYPE('x)"
  by (simp add: page_offset_mod MEM_PAGE_SIZE_def)

lemma chunk_size_pos: "0 < n \<Longrightarrow> 0 < chunk_size TYPE('x::len) a n"
  by (simp add: chunk_size_def)

function readLoop ::
  "'f dos_api \<Rightarrow> 32 word \<Rightarrow> nat \<Rightarrow> ('x::len, 'f) dos_memory \<Rightarrow> (byte list \<times> ('x, 'f) dos_memory) option" where
  "readLoop api localAddr n m =
     (if n = 0 then Some ([], m)
      else case lookupPage api localAddr m of
        None \<Rightarrow> None
      | Some (page, m1) \<Rightarrow>
          let c = chunk_size TYPE('x) localAddr n;
              bs = slice_at (page_offset TYPE('x) localAddr) c (page_bytes (pages m1 ! page))
          in map_option (apfst ((@) bs)) (readLoop api (localAddr + of_nat c) (n - c) m1))"
  by pat_completeness auto
termination
  by (relation "measure (\<lambda>(api, a, n, m). n)") (auto simp: chunk_size_pos)

function writeLoop ::
  "'f dos_api \<Rightarrow> 32 word \<Rightarrow> byte list \<Rightarrow> ('x::len, 'f) dos_memory \<Rightarrow> ('x, 'f) dos_memory option" where
  "writeLoop api localAddr buf m =
     (if buf = [] then Some m
      else case lookupPage api localAddr m of
        None \<Rightarrow> None
      | Some (page, m1) \<Rightarrow>
          let c = chunk_size TYPE('x) localAddr (length buf);
              m2 = upd_page page (\<lambda>p. p\<lparr>pg_dirty := True,
                     pg_data := map_option (splice_at (page_offset TYPE('x) localAddr) (take c buf)) (pg_data p)\<rparr>) m1
          in writeLoop api (localAddr + of_nat c) (drop c buf) m2)"
  by pat_completeness auto
termination
  by (relation "measure (\<lambda>(api, a, buf, m). length buf)") (auto simp: chunk_size_pos)

function cmpLoop ::
  "'f dos_api \<Rightarrow> 32 word \<Rightarrow> byte list \<Rightarrow> ('x::len, 'f) dos_memory \<Rightarrow> (int \<times> ('x, 'f) dos_memory) option" where
  "cmpLoop api localAddr buf m =
     (if buf = [] then Some (0, m)
      else case lookupPage api localAddr m of
        None \<Rightarrow> None
      | Some (page, m1) \<Rightarrow>
          let c = chunk_size TYPE('x) localAddr (length buf);
              res = memcmp (slice_at (page_offset TYPE('x) localAddr) c (page_bytes (pages m1 ! page))) (take c buf)
          in if res \<noteq> 0 then Some (res, m1) else cmpLoop api (localAddr + of_nat c) (drop c buf) m1)"
  by pat_completeness auto
termination
  by (relation "measure (\<lambda>(api, a, buf, m). length buf)") (auto simp: chunk_size_pos)

declare readLoop.simps [simp del] writeLoop.simps [simp del] cmpLoop.simps [simp del]

definition dos_mem_read ::
  "'f dos_api \<Rightarrow> 'x word \<Rightarrow> nat \<Rightarrow> ('x::len, 'f) dos_memory \<Rightarrow> (byte list \<times> ('x, 'f) dos_memory) option" where
  "dos_mem_read api addr sz m = readLoop api (ucast addr) sz m"

definition dos_mem_write ::
  "'f dos_api \<Rightarrow> 'x word \<Rightarrow> byte list \<Rightarrow> ('x::len, 'f) dos_memory \<Rightarrow> ('x, 'f) dos_memory option" where
  "dos_mem_write api addr buf m = writeLoop api (ucast addr) buf m"

definition dos_mem_cmp ::
  "'f dos_api \<Rightarrow> 'x word \<Rightarrow> byte list \<Rightarrow> ('x::len, 'f) dos_memory \<Rightarrow> (int \<times> ('x, 'f) dos_memory) option" where
  "dos_mem_cmp api addr buf m = cmpLoop api (ucast addr) buf m"

section \<open>Construction and destruction\<close>

definition nSwFilesValid :: "nat \<Rightarrow> bool" where
  "nSwFilesValid nSwapFiles \<longleftrightarrow> nSwapFiles \<in> set [1, 2, 4, 8]"

text \<open>\<^verbatim>\<open>mem_destroy\<close>: each page is written back when there are swap files, and freed; then the files
  are closed.\<close>

definition freePage :: "nat \<Rightarrow> ('x::len, 'f) dos_memory \<Rightarrow> ('x, 'f) dos_memory" where
  "freePage i m =
     (if pg_data (pages m ! i) = None then m
      else if pg_freed (pages m ! i) then m\<lparr>pm_ub := True\<rparr>
      else upd_page i (pg_freed_update (\<lambda>_. True)) m)"

definition destroyPage :: "'f dos_api \<Rightarrow> nat \<Rightarrow> ('x::len, 'f) dos_memory \<Rightarrow> ('x, 'f) dos_memory" where
  "destroyPage api i m =
     freePage i
       (if fileNoShift m \<noteq> 0 then
          (case lookupSwapFile m (pg_addr (pages m ! i)) of
             None \<Rightarrow> m\<lparr>pm_ub := True\<rparr>
           | Some h \<Rightarrow> if 0 \<le> h then storePage api i m else m)
        else m)"

definition closeSwap :: "'f dos_api \<Rightarrow> nat \<Rightarrow> ('x::len, 'f) dos_memory \<Rightarrow> ('x, 'f) dos_memory" where
  "closeSwap api i m =
     (if 0 \<le> swapFiles m ! i then m\<lparr>files := dos_close api (swapFiles m ! i) (files m)\<rparr> else m)"

definition dos_mem_destroy :: "'f dos_api \<Rightarrow> ('x::len, 'f) dos_memory \<Rightarrow> ('x, 'f) dos_memory" where
  "dos_mem_destroy api m =
     fold (closeSwap api) [0..<MAX_SWAP_FILES] (fold (destroyPage api) [0..<MEM_PAGES TYPE('x)] m)"

text \<open>\<^verbatim>\<open>memset(self, 0, sizeof(*self))\<close>.\<close>

definition zero_page :: mem_page where
  "zero_page = \<lparr>pg_addr = 0, pg_dirty = False, pg_data = None, pg_next = None, pg_prev = None,
     pg_freed = False\<rparr>"

definition zero_memory :: "('x::len, 'f) dos_memory \<Rightarrow> ('x, 'f) dos_memory" where
  "zero_memory m = m\<lparr>pages := replicate (MEM_PAGES TYPE('x)) zero_page, lruListHead := 0,
     swapFiles := replicate MAX_SWAP_FILES 0, filePosMask := 0, fileNoShift := 0,
     pm_dev := \<lparr>dev_size = 0, dev_cb = None\<rparr>\<rparr>"

text \<open>The allocation of the pages; the second component is whether it succeeded.\<close>

fun allocLoop :: "(nat \<Rightarrow> bool) \<Rightarrow> nat list \<Rightarrow> ('x::len, 'f) dos_memory \<Rightarrow> bool \<times> ('x, 'f) dos_memory" where
  "allocLoop malloc_ok [] m = (True, m)"
| "allocLoop malloc_ok (i # is) m =
     (if \<not> malloc_ok i then (False, log_line m)
      else allocLoop malloc_ok is
             (upd_page i (pg_data_update (\<lambda>_. Some (replicate (MEM_PAGE_SIZE TYPE('x)) 0))) m))"

text \<open>Position mask and file number shift from the trailing zeros of the file size. The loop does
  not end when the size is zero.\<close>

partial_function (option) maskLoop :: "32 word \<Rightarrow> 32 word \<Rightarrow> nat \<Rightarrow> (32 word \<times> nat) option" where
  "maskLoop n posMask noShift =
     (if n AND 1 = 0 then maskLoop (drop_bit 1 n) (push_bit 1 posMask OR 1) (Suc noShift)
      else Some (posMask, noShift))"

text \<open>Growing a file to its size; \<open>None\<close> is a loop that does not end. The counter of the pages is an \<^verbatim>\<open>int\<close>, which
  has 16 bits on this host: counting past \<open>0x7FFF\<close> is undefined.\<close>

partial_function (option) extendLoop ::
  "'f dos_api \<Rightarrow> int \<Rightarrow> 16 word \<Rightarrow> 32 word \<Rightarrow> 32 word \<Rightarrow> ('x::len, 'f) dos_memory \<Rightarrow>
    (bool \<times> ('x, 'f) dos_memory) option" where
  "extendLoop api h n swapPos nFileSize m =
     (if \<not> swapPos < nFileSize then Some (True, m)
      else case dosFWrite api h (replicate (MEM_PAGE_SIZE TYPE('x)) 0) (files m) of (k, f1) \<Rightarrow>
        if k \<noteq> MEM_PAGE_SIZE TYPE('x) then Some (False, log_line (m\<lparr>files := f1\<rparr>))
        else extendLoop api h (n + 1) (swapPos + of_nat (MEM_PAGE_SIZE TYPE('x))) nFileSize
               (if unat n mod 256 = 0 then log_line (m\<lparr>files := f1, pm_ub := (pm_ub m \<or> n = 0x7FFF)\<rparr>)
                else m\<lparr>files := f1, pm_ub := (pm_ub m \<or> n = 0x7FFF)\<rparr>))"

definition swap_name :: "string \<Rightarrow> nat \<Rightarrow> string" where
  "swap_name swapLocation i =
     swapLocation @ [CHR 0x5C] @ ''ram'' @ pad_left CHR ''0'' 2 (dec_digits i) @ ''.swp''"

text \<open>Opening swap file \<open>i\<close>: open or create, grow, close and open again.\<close>

definition openSwap ::
  "'f dos_api \<Rightarrow> string \<Rightarrow> 32 word \<Rightarrow> nat \<Rightarrow> ('x::len, 'f) dos_memory \<Rightarrow> (bool \<times> ('x, 'f) dos_memory) option" where
  "openSwap api swapLocation nFileSize i m0 =
     (let fileName = swap_name swapLocation i;
          m = (if 256 \<le> length fileName then m0\<lparr>pm_ub := True\<rparr> else m0);
          (h, f1) = dosFOpen api fileName (files m);
          m1 = (log_line m)\<lparr>files := f1, swapFiles := (swapFiles m)[i := h]\<rparr>
      in if h < 0 then Some (False, log_line m1)
         else
           let f2 = snd (dosFSeek api h 0 DOS_SEEK_END (files m1));
               (swapPos, f3) = dosFTell api h f2
           in case extendLoop api h 0 swapPos nFileSize (m1\<lparr>files := f3\<rparr>) of
                None \<Rightarrow> None
              | Some (False, m2) \<Rightarrow> Some (False, m2)
              | Some (True, m2) \<Rightarrow>
                  let (h', f4) = dosFOpen api fileName (dos_close api h (files m2));
                      m3 = m2\<lparr>files := f4, swapFiles := (swapFiles m2)[i := h']\<rparr>
                  in if h' < 0 then Some (False, log_line m3) else Some (True, m3))"

fun openLoop ::
  "'f dos_api \<Rightarrow> string \<Rightarrow> 32 word \<Rightarrow> nat list \<Rightarrow> ('x::len, 'f) dos_memory \<Rightarrow> (bool \<times> ('x, 'f) dos_memory) option" where
  "openLoop api swapLocation nFileSize [] m = Some (True, m)"
| "openLoop api swapLocation nFileSize (i # is) m =
     (case openSwap api swapLocation nFileSize i m of
        None \<Rightarrow> None
      | Some (False, m1) \<Rightarrow> Some (False, m1)
      | Some (True, m1) \<Rightarrow> openLoop api swapLocation nFileSize is m1)"

text \<open>The initial contents of page \<open>i\<close> and its place in the list.\<close>

definition initPage :: "'f dos_api \<Rightarrow> nat \<Rightarrow> ('x::len, 'f) dos_memory \<Rightarrow> ('x, 'f) dos_memory" where
  "initPage api i m =
     (let m1 = upd_ui (ui_page_status UI_PS_IDLE)
                 (loadPage api (of_nat (MEM_PAGE_SIZE TYPE('x)) * of_nat i) i
                   (upd_ui (ui_page_status UI_PS_RD) m));
          m2 = (if i < MEM_PAGES TYPE('x) - 1 then upd_page i (pg_next_update (\<lambda>_. Some (i + 1))) m1 else m1)
      in if i > 0 then upd_page i (pg_prev_update (\<lambda>_. Some (i - 1))) m2 else m2)"

definition swap_file_size :: "'x::len word \<Rightarrow> nat \<Rightarrow> 32 word" where
  "swap_file_size sz nSwapFiles =
     align_up (ucast (sz div of_nat nSwapFiles)) (of_nat (MEM_PAGE_SIZE TYPE('x)))"

definition dos_mem_init ::
  "'f dos_api \<Rightarrow> (nat \<Rightarrow> bool) \<Rightarrow> 'x::len word \<Rightarrow> string \<Rightarrow> nat \<Rightarrow> ('x, 'f) dos_memory \<Rightarrow>
    (bool \<times> ('x, 'f) dos_memory) option" where
  "dos_mem_init api malloc_ok sz swapLocation nSwapFiles m0 =
     (let m = log_line (zero_memory m0) in
      if \<not> nSwFilesValid nSwapFiles then Some (False, log_line m)
      else case allocLoop malloc_ok [0..<MEM_PAGES TYPE('x)] (log_line m) of
        (False, m1) \<Rightarrow> Some (False, dos_mem_destroy api m1)
      | (True, m1) \<Rightarrow>
          let nFileSize = swap_file_size sz nSwapFiles in
          case maskLoop nFileSize 0 0 of
            None \<Rightarrow> None
          | Some (posMask, noShift) \<Rightarrow>
              let m2 = log_line (m1\<lparr>filePosMask := posMask, fileNoShift := noShift\<rparr>);
                  m3 = m2\<lparr>swapFiles := replicate MAX_SWAP_FILES (- 1)\<rparr>
              in case openLoop api swapLocation nFileSize [0..<nSwapFiles] m3 of
                   None \<Rightarrow> None
                 | Some (False, m4) \<Rightarrow> Some (False, dos_mem_destroy api m4)
                 | Some (True, m4) \<Rightarrow>
                     let m5 = fold (initPage api) [0..<MEM_PAGES TYPE('x)] m4
                     in Some (True, m5\<lparr>lruListHead := 0,
                          pm_dev := \<lparr>dev_size = sz, dev_cb = Some RAM\<rparr>\<rparr>))"

end
