(* ===== verification/Lru_List.thy ===== *)
theory Lru_List
  imports Paged_Memory
begin

text \<open>
  The doubly linked list of pages is a list: the pointers kept by \<^verbatim>\<open>_swapLruHead\<close> link the pages in
  one chain, moving a page to the front is moving it to the front of the list, and the search of
  \<^verbatim>\<open>_lookupPage\<close> is a search along that list that always ends.
\<close>

section \<open>Doubly linked lists\<close>

text \<open>\<open>links nx pv p xs n\<close>: the chain \<open>xs\<close> is entered from \<open>p\<close> and left to \<open>n\<close>.\<close>

fun links :: "(nat \<Rightarrow> nat option) \<Rightarrow> (nat \<Rightarrow> nat option) \<Rightarrow> nat option \<Rightarrow> nat list \<Rightarrow> nat option \<Rightarrow> bool" where
  "links nx pv p [] n \<longleftrightarrow> True"
| "links nx pv p (x # xs) n \<longleftrightarrow>
     pv x = p \<and> nx x = (case xs of [] \<Rightarrow> n | y # _ \<Rightarrow> Some y) \<and> links nx pv (Some x) xs n"

lemma links_append:
  "links nx pv p (xs @ ys) n \<longleftrightarrow>
     links nx pv p xs (case ys of [] \<Rightarrow> n | y # _ \<Rightarrow> Some y) \<and>
     links nx pv (if xs = [] then p else Some (last xs)) ys n"
  by (induction nx pv p xs n rule: links.induct) (auto split: list.split)

lemma links_frame:
  "(\<And>x. x \<in> set xs \<Longrightarrow> nx' x = nx x \<and> pv' x = pv x) \<Longrightarrow> links nx' pv' p xs n = links nx pv p xs n"
  by (induction nx pv p xs n rule: links.induct) auto

text \<open>Changing where a chain is entered and left only concerns its two ends.\<close>

lemma links_ends:
  assumes "links nx pv p xs n" "distinct xs" "xs \<noteq> []"
    and "\<And>x. x \<in> set xs \<Longrightarrow> nx' x = (if x = last xs then n' else nx x)"
    and "\<And>x. x \<in> set xs \<Longrightarrow> pv' x = (if x = hd xs then p' else pv x)"
  shows "links nx' pv' p' xs n'"
  using assms
proof (induction xs arbitrary: p p' pv')
  case (Cons x xs)
  show ?case
  proof (cases xs)
    case Nil
    then show ?thesis
      using Cons.prems by simp
  next
    case (Cons y ys)
    have "links nx' pv' (Some x) xs n'"
    proof (cases "xs = []")
      case False
      show ?thesis
      proof (rule Cons.IH [where p = "Some x"])
        show "links nx pv (Some x) xs n"
          using Cons.prems(1) by simp
        show "pv' z = (if z = hd xs then Some x else pv z)" if "z \<in> set xs" for z
        proof -
          have "pv (hd xs) = Some x"
            using Cons.prems(1) Cons by simp
          moreover have "pv' z = pv z"
            using Cons.prems(2) Cons.prems(5) [of z] that by auto
          ultimately show ?thesis
            by simp
        qed
      qed (use Cons.prems False in auto)
    qed simp
    with Cons Cons.prems show ?thesis
      by (auto split: option.split)
  qed
qed simp

definition nexts :: "mem_page list \<Rightarrow> nat \<Rightarrow> nat option" where
  "nexts ps i = pg_next (ps ! i)"

definition prevs :: "mem_page list \<Rightarrow> nat \<Rightarrow> nat option" where
  "prevs ps i = pg_prev (ps ! i)"

text \<open>The list of pages in the order of last use.\<close>

definition lru_list :: "('x::len, 'f) dos_memory \<Rightarrow> nat list \<Rightarrow> bool" where
  "lru_list m xs \<longleftrightarrow> distinct xs \<and> set xs = {..<length (pages m)} \<and> xs \<noteq> [] \<and> hd xs = lruListHead m \<and>
     links (nexts (pages m)) (prevs (pages m)) None xs None"

text \<open>A page without its place in the list.\<close>

definition cell :: "mem_page \<Rightarrow> mem_page" where
  "cell p = p\<lparr>pg_next := None, pg_prev := None\<rparr>"

lemma cell_fields:
  assumes "cell p = cell q"
  shows "pg_addr p = pg_addr q" "pg_dirty p = pg_dirty q" "pg_data p = pg_data q" "pg_freed p = pg_freed q"
  using arg_cong [OF assms, of pg_addr] arg_cong [OF assms, of pg_dirty] arg_cong [OF assms, of pg_data]
    arg_cong [OF assms, of pg_freed]
  by (simp_all add: cell_def)

text \<open>What moving a page to the front does to the pointers.\<close>

lemma swapLruHead_pointers:
  assumes l: "lru_list m (ys @ page # zs)" and y: "ys \<noteq> []"
  defines "ps' \<equiv> pages (swapLruHead page m)"
  shows "nexts ps' j = (if j = page then Some (hd ys) else if j = last ys then
        (case zs of [] \<Rightarrow> None | z # _ \<Rightarrow> Some z) else nexts (pages m) j)"
    and "prevs ps' j = (if j = hd ys then Some page else if j = page then None
        else if zs \<noteq> [] \<and> j = hd zs then Some (last ys) else prevs (pages m) j)"
    and "length ps' = length (pages m)"
    and "j < length (pages m) \<Longrightarrow> cell (ps' ! j) = cell (pages m ! j)"
proof -
  have d: "distinct (ys @ page # zs)" and s: "set (ys @ page # zs) = {..<length (pages m)}"
    and h: "hd ys = lruListHead m"
    and k: "links (nexts (pages m)) (prevs (pages m)) None (ys @ page # zs) None"
    using l y by (auto simp: lru_list_def)
  have p: "pg_prev (pages m ! page) = Some (last ys)"
    and n: "pg_next (pages m ! page) = (case zs of [] \<Rightarrow> None | z # _ \<Rightarrow> Some z)"
    using k y by (auto simp: links_append nexts_def prevs_def split: list.splits)
  have i: "last ys \<in> set ys" "hd ys \<in> set ys" "zs \<noteq> [] \<Longrightarrow> hd zs \<in> set zs"
    using y by simp_all
  have "zs \<noteq> [] \<Longrightarrow> x \<in> set ys \<Longrightarrow> hd zs \<noteq> x \<and> hd zs \<noteq> page" for x
    using d by (cases zs) auto
  with i d have ne: "last ys \<noteq> page" "hd ys \<noteq> page" "zs \<noteq> [] \<Longrightarrow> hd zs \<noteq> page \<and> hd zs \<noteq> hd ys \<and> hd zs \<noteq> last ys"
    by auto
  have mem: "x \<in> set (ys @ page # zs) \<Longrightarrow> x < length (pages m)" for x
    unfolding s by simp
  have b: "last ys < length (pages m)" "hd ys < length (pages m)" "page < length (pages m)"
    "zs \<noteq> [] \<Longrightarrow> hd zs < length (pages m)"
    by (rule mem; simp add: y)+
  show "length ps' = length (pages m)"
    by (simp add: ps'_def swapLruHead_def Let_def split: option.split)
  show "nexts ps' j = (if j = page then Some (hd ys) else if j = last ys then
        (case zs of [] \<Rightarrow> None | z # _ \<Rightarrow> Some z) else nexts (pages m) j)"
    using p n ne b h
    by (cases zs) (auto simp: ps'_def swapLruHead_def Let_def nexts_def nth_list_update)
  show "prevs ps' j = (if j = hd ys then Some page else if j = page then None
        else if zs \<noteq> [] \<and> j = hd zs then Some (last ys) else prevs (pages m) j)"
    using p n ne b h
    by (cases zs) (auto simp: ps'_def swapLruHead_def Let_def prevs_def nth_list_update)
  show "cell (ps' ! j) = cell (pages m ! j)" if "j < length (pages m)"
    using p n ne b h that
    by (cases zs) (auto simp: ps'_def swapLruHead_def Let_def cell_def nth_list_update)
qed

lemma lru_list_swap:
  assumes l: "lru_list m (ys @ page # zs)" and y: "ys \<noteq> []"
  shows "lru_list (swapLruHead page m) (page # ys @ zs)"
proof -
  note P = swapLruHead_pointers [OF l y]
  have d: "distinct (ys @ page # zs)"
    and k: "links (nexts (pages m)) (prevs (pages m)) None (ys @ page # zs) None"
    using l by (simp_all add: lru_list_def)
  have i: "last ys \<in> set ys" "hd ys \<in> set ys"
    using y by simp_all
  define nx pv where "nx = nexts (pages (swapLruHead page m))" and "pv = prevs (pages (swapLruHead page m))"
  have w: "links (nexts (pages m)) (prevs (pages m)) None ys (Some page)"
    and z: "links (nexts (pages m)) (prevs (pages m)) (Some page) zs None"
    using k y by (simp_all add: links_append)
  from w have "links nx pv (Some page) ys (case zs of [] \<Rightarrow> None | z # _ \<Rightarrow> Some z)"
  proof (rule links_ends)
    fix x assume x: "x \<in> set ys"
    then have "x \<noteq> page" "zs = [] \<or> x \<noteq> hd zs"
      using d by (cases zs, auto)+
    then show "nx x = (if x = last ys then case zs of [] \<Rightarrow> None | z # _ \<Rightarrow> Some z else nexts (pages m) x)"
      "pv x = (if x = hd ys then Some page else prevs (pages m) x)"
      by (auto simp: nx_def pv_def P)
  qed (use d y in auto)
  moreover have "links nx pv (Some (last ys)) zs None"
  proof (cases "zs = []")
    case False
    from z show ?thesis
    proof (rule links_ends)
      fix x assume x: "x \<in> set zs"
      then have "x \<noteq> page" "x \<noteq> hd ys" "x \<noteq> last ys"
        using d i by auto
      moreover have "nexts (pages m) (last zs) = None"
        using z False by (induction zs arbitrary: page) (auto split: list.splits)
      ultimately show "nx x = (if x = last zs then None else nexts (pages m) x)"
        "pv x = (if x = hd zs then Some (last ys) else prevs (pages m) x)"
        using False by (auto simp: nx_def pv_def P)
    qed (use d False in auto)
  qed simp
  moreover have "nx page = Some (hd ys)" "pv page = None"
    using d i by (auto simp: nx_def pv_def P)
  ultimately have "links nx pv None (page # ys @ zs) None"
    using y by (cases ys) (auto simp: links_append split: list.split)
  moreover have "lruListHead (swapLruHead page m) = page"
    by (simp add: swapLruHead_def Let_def)
  ultimately show ?thesis
    using l P(3) by (auto simp: lru_list_def nx_def pv_def)
qed

text \<open>The search finds the first page in the list that has the address, or stops at the last one.\<close>

lemma findPage_links:
  assumes "links (nexts ps) pv p xs None" "xs \<noteq> []"
  shows "findPage ps a (hd xs) =
    Some (case List.find (\<lambda>i. pg_addr (ps ! i) = a) xs of Some i \<Rightarrow> (True, i) | None \<Rightarrow> (False, last xs))"
  using assms
proof (induction xs arbitrary: p)
  case (Cons x xs)
  show ?case
  proof (cases "pg_addr (ps ! x) = a \<or> xs = []")
    case True
    then show ?thesis
      using Cons.prems by (subst findPage.simps) (auto simp: nexts_def)
  next
    case False
    then obtain y ys where y: "xs = y # ys"
      by (cases xs) auto
    then have "pg_next (ps ! x) = Some y"
      using Cons.prems by (simp add: nexts_def)
    with False have "findPage ps a (hd (x # xs)) = findPage ps a y"
      by (subst findPage.simps) simp
    with False y Cons.IH [of "Some x"] Cons.prems show ?thesis
      by (auto split: option.split)
  qed
qed simp

lemma swapLruHead_rest [simp]:
  "swapFiles (swapLruHead i m) = swapFiles m" "filePosMask (swapLruHead i m) = filePosMask m"
  "fileNoShift (swapLruHead i m) = fileNoShift m" "files (swapLruHead i m) = files m"
  "pm_dev (swapLruHead i m) = pm_dev m" "ui (swapLruHead i m) = ui m" "pm_ub (swapLruHead i m) = pm_ub m"
  by (simp_all add: swapLruHead_def Let_def split: option.split)

end
