(* ===== verification/Paged_Refine.thy ===== *)
theory Paged_Refine
  imports Lru_List
begin

text \<open>
  The paged memory of the DOS build is a flat memory: a lookup leaves the bytes of the memory as they
  are, and reading, writing and comparing across any number of pages act on these bytes as the flat
  memory does. The pages in core and the swap files together
  make up the bytes; what the proofs rely on in DOS is the predicate \<open>dos_io\<close>.
\<close>

section \<open>The file system as the memory sees it\<close>

text \<open>What is observed of DOS: the files by name, the name behind an open handle, the position of a
  handle.\<close>

record 'f fs_view =
  fs_disk :: "'f \<Rightarrow> string \<Rightarrow> byte list option"
  fs_hnd :: "'f \<Rightarrow> int \<Rightarrow> string option"
  fs_pos :: "'f \<Rightarrow> int \<Rightarrow> nat"

definition same_files :: "'f fs_view \<Rightarrow> 'f \<Rightarrow> 'f \<Rightarrow> bool" where
  "same_files V f g \<longleftrightarrow> fs_hnd V g = fs_hnd V f \<and> fs_disk V g = fs_disk V f"

definition file_at :: "'f fs_view \<Rightarrow> 'f \<Rightarrow> int \<Rightarrow> byte list option" where
  "file_at V f h = Option.bind (fs_hnd V f h) (fs_disk V f)"

text \<open>Moving, reading and overwriting inside an open file do not fail.\<close>

definition dos_io :: "'f dos_api \<Rightarrow> 'f fs_view \<Rightarrow> bool" where
  "dos_io api V \<longleftrightarrow>
     (\<forall>f h c off. file_at V f h = Some c \<and> unat off \<le> length c \<longrightarrow>
        (\<exists>r g. dos_int21_42 api DOS_SEEK_SET h (ucast (drop_bit 16 off)) (ucast (off :: 32 word)) f = (Some r, g) \<and>
           same_files V f g \<and> fs_pos V g h = unat off)) \<and>
     (\<forall>f h c n. file_at V f h = Some c \<and> fs_pos V f h + n \<le> length c \<longrightarrow>
        (\<exists>g. dos_read api h n f = (slice_at (fs_pos V f h) n c, g) \<and> same_files V f g)) \<and>
     (\<forall>f h name c buf. fs_hnd V f h = Some name \<and> fs_disk V f name = Some c \<and> fs_pos V f h + length buf \<le> length c \<longrightarrow>
        (\<exists>g. dos_write api h buf f = (length buf, g) \<and> fs_hnd V g = fs_hnd V f \<and>
           fs_disk V g = (fs_disk V f)(name \<mapsto> splice_at (fs_pos V f h) buf c)))"

lemma same_files_file: "same_files V f g \<Longrightarrow> file_at V g h = file_at V f h"
  by (simp add: same_files_def file_at_def)

lemma dosFSeek_ok:
  assumes "dos_io api V" "file_at V f h = Some c" "unat off \<le> length c"
  obtains g where "dosFSeek api h off DOS_SEEK_SET f = (True, g)" "same_files V f g" "fs_pos V g h = unat off"
proof -
  obtain r g where "dos_int21_42 api DOS_SEEK_SET h (ucast (drop_bit 16 off)) (ucast off) f = (Some r, g)"
    "same_files V f g" "fs_pos V g h = unat off"
    using assms unfolding dos_io_def by blast
  with that show ?thesis
    by (simp add: dosFSeek_def)
qed

lemma dosFRead_ok:
  assumes "dos_io api V" "file_at V f h = Some c" "fs_pos V f h + n \<le> length c"
  obtains g where "dosFRead api h n f = (slice_at (fs_pos V f h) n c, g)" "same_files V f g"
proof -
  obtain g where "dos_read api h n f = (slice_at (fs_pos V f h) n c, g)" "same_files V f g"
    using assms unfolding dos_io_def by blast
  with that show ?thesis
    by (simp add: dosFRead_def slice_at_def)
qed

lemma dosFWrite_ok:
  assumes "dos_io api V" "fs_hnd V f h = Some name" "fs_disk V f name = Some c"
    and "fs_pos V f h + length buf \<le> length c"
  obtains g where "dosFWrite api h buf f = (length buf, g)" "fs_hnd V g = fs_hnd V f"
    "fs_disk V g = (fs_disk V f)(name \<mapsto> splice_at (fs_pos V f h) buf c)"
  using assms unfolding dos_io_def dosFWrite_def by blast

section \<open>The bytes of the memory\<close>

text \<open>The geometry of the swap files: their number, the bytes they hold together, and the bytes
  they store for the page at an address.\<close>

definition swap_count :: "('x::len, 'f) dos_memory \<Rightarrow> nat" where
  "swap_count m = length (takeWhile ((\<le>) 0) (swapFiles m))"

definition total_size :: "('x::len, 'f) dos_memory \<Rightarrow> nat" where
  "total_size m = swap_count m * 2 ^ fileNoShift m"

definition swap_handle :: "('x::len, 'f) dos_memory \<Rightarrow> nat \<Rightarrow> int" where
  "swap_handle m a = swapFiles m ! (a div 2 ^ fileNoShift m)"

definition swap_at :: "'f fs_view \<Rightarrow> ('x::len, 'f) dos_memory \<Rightarrow> nat \<Rightarrow> byte list" where
  "swap_at V m a = slice_at (a mod 2 ^ fileNoShift m) (MEM_PAGE_SIZE TYPE('x)) (the (file_at V (files m) (swap_handle m a)))"

definition swap_ok :: "'f fs_view \<Rightarrow> ('x::len, 'f) dos_memory \<Rightarrow> bool" where
  "swap_ok V m \<longleftrightarrow> length (swapFiles m) = MAX_SWAP_FILES \<and>
     MEM_PAGE_ADDR_SHIFT TYPE('x) \<le> fileNoShift m \<and> filePosMask m = mask (fileNoShift m) \<and>
     total_size m \<le> 2 ^ 32 \<and>
     (\<forall>j < swap_count m. \<exists>name c. fs_hnd V (files m) (swapFiles m ! j) = Some name \<and>
        fs_disk V (files m) name = Some c \<and> 2 ^ fileNoShift m \<le> length c) \<and>
     (\<forall>i < swap_count m. \<forall>j < swap_count m. i \<noteq> j \<longrightarrow>
        fs_hnd V (files m) (swapFiles m ! i) \<noteq> fs_hnd V (files m) (swapFiles m ! j))"

definition pg_at :: "('x::len, 'f) dos_memory \<Rightarrow> nat \<Rightarrow> nat" where
  "pg_at m i = unat (pg_addr (pages m ! i))"

definition synced :: "'f fs_view \<Rightarrow> ('x::len, 'f) dos_memory \<Rightarrow> nat \<Rightarrow> bool" where
  "synced V m i \<longleftrightarrow> page_bytes (pages m ! i) = swap_at V m (pg_at m i)"

text \<open>Every page in core is a different page of the memory, and the clean ones agree with the swap
  files.\<close>

definition pages_ok :: "'f fs_view \<Rightarrow> ('x::len, 'f) dos_memory \<Rightarrow> bool" where
  "pages_ok V m \<longleftrightarrow> length (pages m) = MEM_PAGES TYPE('x) \<and>
     (\<forall>i < length (pages m). \<exists>bs. pg_data (pages m ! i) = Some bs \<and> length bs = MEM_PAGE_SIZE TYPE('x)) \<and>
     (\<forall>i < length (pages m). MEM_PAGE_SIZE TYPE('x) dvd pg_at m i \<and> pg_at m i < total_size m \<and>
        \<not> pg_freed (pages m ! i)) \<and>
     inj_on (pg_at m) {..<length (pages m)} \<and>
     (\<forall>i < length (pages m). pg_dirty (pages m ! i) \<or> synced V m i)"

definition wf_paged :: "'f fs_view \<Rightarrow> ('x::len, 'f) dos_memory \<Rightarrow> bool" where
  "wf_paged V m \<longleftrightarrow> (\<exists>xs. lru_list m xs) \<and> swap_ok V m \<and> pages_ok V m"

text \<open>The page at an address: in core, or else in its swap file.\<close>

definition page_view :: "'f fs_view \<Rightarrow> ('x::len, 'f) dos_memory \<Rightarrow> nat \<Rightarrow> byte list" where
  "page_view V m a =
     (case List.find (\<lambda>i. pg_at m i = a) [0..<length (pages m)] of
        Some i \<Rightarrow> page_bytes (pages m ! i) | None \<Rightarrow> swap_at V m a)"

definition bytes_of :: "'f fs_view \<Rightarrow> ('x::len, 'f) dos_memory \<Rightarrow> byte list" where
  "bytes_of V m =
     map (\<lambda>k. page_view V m (k - k mod MEM_PAGE_SIZE TYPE('x)) ! (k mod MEM_PAGE_SIZE TYPE('x))) [0..<total_size m]"

lemma length_bytes_of [simp]: "length (bytes_of V m) = total_size m"
  by (simp add: bytes_of_def)

lemma page_size_pos [simp]: "0 < MEM_PAGE_SIZE TYPE('x::len)"
  by (simp add: MEM_PAGE_SIZE_def)

lemma pages_inj:
  assumes "pages_ok V m" "i < length (pages m)" "j < length (pages m)"
  shows "pg_at m i = pg_at m j \<longleftrightarrow> i = j"
  using assms unfolding pages_ok_def inj_on_def by blast

lemma page_view_in:
  assumes "pages_ok V m" "i < length (pages m)"
  shows "page_view V m (pg_at m i) = page_bytes (pages m ! i)"
proof -
  have "List.find (\<lambda>j. pg_at m j = pg_at m i) [0..<length (pages m)] = Some i"
  proof -
    have "pg_at m j \<noteq> pg_at m i" if "j < i" for j
      using pages_inj [OF assms(1), of j i] assms(2) that by simp
    with assms(2) show ?thesis
      by (auto simp: find_Some_iff)
  qed
  then show ?thesis
    by (simp add: page_view_def)
qed

lemma page_view_out:
  assumes "\<And>i. i < length (pages m) \<Longrightarrow> pg_at m i \<noteq> a"
  shows "page_view V m a = swap_at V m a"
proof -
  have "List.find (\<lambda>j. pg_at m j = a) [0..<length (pages m)] = None"
    using assms by (auto simp: find_None_iff)
  then show ?thesis
    by (simp add: page_view_def)
qed

lemma page_data:
  fixes m :: "('x::len, 'f) dos_memory"
  assumes "pages_ok V m" "i < length (pages m)"
  obtains bs where "pg_data (pages m ! i) = Some bs" "length bs = MEM_PAGE_SIZE TYPE('x)"
  using assms unfolding pages_ok_def by blast

text \<open>Two memories with the same pages and the same swap files hold the same bytes.\<close>

lemma bytes_of_eqI:
  fixes m m' :: "('x::len, 'f) dos_memory"
  assumes "total_size m' = total_size m"
    and "\<And>a. a < total_size m \<Longrightarrow> MEM_PAGE_SIZE TYPE('x) dvd a \<Longrightarrow> page_view V m' a = page_view V m a"
  shows "bytes_of V m' = bytes_of V m"
proof -
  have "page_view V m' (k - k mod MEM_PAGE_SIZE TYPE('x)) = page_view V m (k - k mod MEM_PAGE_SIZE TYPE('x))"
    if "k < total_size m" for k
    using that by (intro assms(2) less_imp_diff_less dvd_minus_mod)
  with assms(1) show ?thesis
    by (simp add: bytes_of_def)
qed

lemma find_upt: "List.find P [0..<n] = Some i \<Longrightarrow> i < n \<and> P i"
  by (auto simp: find_Some_iff)

definition same_content :: "'f fs_view \<Rightarrow> ('x::len, 'f) dos_memory \<Rightarrow> ('x, 'f) dos_memory \<Rightarrow> bool" where
  "same_content V m m' \<longleftrightarrow> length (pages m') = length (pages m) \<and>
     (\<forall>i < length (pages m). cell (pages m' ! i) = cell (pages m ! i)) \<and>
     swapFiles m' = swapFiles m \<and> filePosMask m' = filePosMask m \<and> fileNoShift m' = fileNoShift m \<and>
     same_files V (files m) (files m')"

lemma same_geometry:
  assumes "swapFiles m' = swapFiles m" "fileNoShift m' = fileNoShift m"
  shows "swap_count m' = swap_count m" "total_size m' = total_size m" "swap_handle m' = swap_handle m"
  using assms by (simp_all add: swap_count_def total_size_def swap_handle_def fun_eq_iff)

lemma same_content_ok:
  assumes s: "same_content V m m'"
  shows "swap_ok V m' = swap_ok V m" "pages_ok V m' = pages_ok V m" "bytes_of V m' = bytes_of V m"
proof -
  have g: "swapFiles m' = swapFiles m" "fileNoShift m' = fileNoShift m" "filePosMask m' = filePosMask m"
    and l: "length (pages m') = length (pages m)" and f: "same_files V (files m) (files m')"
    using s by (auto simp: same_content_def)
  note geo = same_geometry [OF g(1,2)]
  have c: "pg_addr (pages m' ! i) = pg_addr (pages m ! i)" "pg_dirty (pages m' ! i) = pg_dirty (pages m ! i)"
    "pg_data (pages m' ! i) = pg_data (pages m ! i)" "pg_freed (pages m' ! i) = pg_freed (pages m ! i)"
    if "i < length (pages m)" for i
    using that s cell_fields [of "pages m' ! i" "pages m ! i"] by (auto simp: same_content_def)
  have a: "pg_at m' i = pg_at m i" if "i < length (pages m)" for i
    using c that by (simp add: pg_at_def)
  have w: "swap_at V m' a = swap_at V m a" for a
    by (simp add: swap_at_def geo g same_files_file [OF f])
  have y: "synced V m' i = synced V m i" if "i < length (pages m)" for i
    by (simp add: synced_def c a that w)
  show "swap_ok V m' = swap_ok V m"
    using f by (simp add: swap_ok_def g geo same_files_def)
  have "inj_on (pg_at m') {..<length (pages m)} = inj_on (pg_at m) {..<length (pages m)}"
    by (intro inj_on_cong) (simp add: a)
  then show "pages_ok V m' = pages_ok V m"
    using l by (auto simp: pages_ok_def geo c a y)
  have "List.find (\<lambda>i. pg_at m' i = b) [0..<length (pages m)] = List.find (\<lambda>i. pg_at m i = b) [0..<length (pages m)]"
    for b
    by (rule find_cong) (simp_all add: a)
  then have "page_view V m' b = page_view V m b" for b
    unfolding page_view_def l
    by (cases "List.find (\<lambda>i. pg_at m i = b) [0..<length (pages m)]") (auto simp: c w dest: find_upt)
  then show "bytes_of V m' = bytes_of V m"
    using geo(2) by (rule bytes_of_eqI [rotated])
qed

lemma same_content_swap:
  assumes "lru_list m (ys @ page # zs)" "ys \<noteq> []"
  shows "same_content V m (swapLruHead page m)"
  using swapLruHead_pointers(3,4) [OF assms] by (simp add: same_content_def same_files_def)

lemma same_content_ui [simp]: "same_content V m (upd_ui g m)"
  by (simp add: same_content_def same_files_def)

section \<open>Swapping keeps the bytes\<close>

lemma unat_drop_bit: "unat (drop_bit n (a :: 'a::len word)) = unat a div 2 ^ n"
  by (subst unsigned_drop_bit_eq) (simp add: drop_bit_eq_div take_bit_nat_eq_self)

lemma swap_file_of:
  fixes m :: "('x::len, 'f) dos_memory"
  assumes "swap_ok V m" "unat a < total_size m"
  shows "lookupSwapFile m a = Some (swap_handle m (unat a))" "unat a div 2 ^ fileNoShift m < swap_count m"
    "unat (a AND filePosMask m) = unat a mod 2 ^ fileNoShift m"
proof -
  show d: "unat a div 2 ^ fileNoShift m < swap_count m"
    using assms(2) by (simp add: total_size_def less_mult_imp_div_less)
  moreover have "swap_count m \<le> MAX_SWAP_FILES"
    using assms(1) length_takeWhile_le [of "(\<le>) 0" "swapFiles m"] by (simp add: swap_ok_def swap_count_def)
  ultimately show "lookupSwapFile m a = Some (swap_handle m (unat a))"
    by (simp add: lookupSwapFile_def unat_drop_bit swap_handle_def)
  show "unat (a AND filePosMask m) = unat a mod 2 ^ fileNoShift m"
    using assms(1) by (simp add: swap_ok_def unat_and_mask)
qed

lemma page_fits:
  fixes m :: "('x::len, 'f) dos_memory"
  assumes "swap_ok V m" "MEM_PAGE_SIZE TYPE('x) dvd a"
  shows "a mod 2 ^ fileNoShift m + MEM_PAGE_SIZE TYPE('x) \<le> 2 ^ fileNoShift m"
proof -
  have "MEM_PAGE_SIZE TYPE('x) dvd 2 ^ fileNoShift m"
    using assms(1) by (simp add: swap_ok_def MEM_PAGE_SIZE_def le_imp_power_dvd)
  then obtain k where k: "2 ^ fileNoShift m = MEM_PAGE_SIZE TYPE('x) * k"
    by (auto elim: dvdE)
  moreover obtain j where "a = MEM_PAGE_SIZE TYPE('x) * j"
    using assms(2) by (auto elim: dvdE)
  moreover have "0 < k"
    using k by (cases k) (auto simp: zero_power)
  then have "j mod k + 1 \<le> k"
    by (simp add: Suc_leI)
  then have "MEM_PAGE_SIZE TYPE('x) * (j mod k + 1) \<le> MEM_PAGE_SIZE TYPE('x) * k"
    by (rule mult_le_mono2)
  ultimately show ?thesis
    by (simp add: mult_mod_right [symmetric])
qed

lemma swap_file_open:
  fixes m :: "('x::len, 'f) dos_memory"
  assumes "swap_ok V m" "a < total_size m"
  obtains name c where "fs_hnd V (files m) (swap_handle m a) = Some name"
    "fs_disk V (files m) name = Some c" "2 ^ fileNoShift m \<le> length c"
    "file_at V (files m) (swap_handle m a) = Some c"
proof -
  have "a div 2 ^ fileNoShift m < swap_count m"
    using assms(2) by (simp add: total_size_def less_mult_imp_div_less)
  then obtain name c where "fs_hnd V (files m) (swap_handle m a) = Some name"
    "fs_disk V (files m) name = Some c" "2 ^ fileNoShift m \<le> length c"
    using assms(1) unfolding swap_ok_def swap_handle_def by blast
  with that show ?thesis
    by (simp add: file_at_def)
qed

lemma length_swap_at:
  fixes m :: "('x::len, 'f) dos_memory"
  assumes "swap_ok V m" "a < total_size m" "MEM_PAGE_SIZE TYPE('x) dvd a"
  shows "length (swap_at V m a) = MEM_PAGE_SIZE TYPE('x)"
proof -
  obtain c where "2 ^ fileNoShift m \<le> length c" "file_at V (files m) (swap_handle m a) = Some c"
    by (rule swap_file_open [OF assms(1,2)])
  with page_fits [OF assms(1,3)] show ?thesis
    by (simp add: swap_at_def)
qed

lemma dvd_apart: "i \<noteq> j \<Longrightarrow> (n :: nat) dvd i \<Longrightarrow> n dvd j \<Longrightarrow> i + n \<le> j \<or> j + n \<le> i"
proof -
  assume "i \<noteq> j" "n dvd i" "n dvd j"
  then obtain a b where "i = n * a" "j = n * b" "a \<noteq> b"
    by (auto elim!: dvdE)
  moreover from this have "a + 1 \<le> b \<or> b + 1 \<le> a"
    by linarith
  then have "n * (a + 1) \<le> n * b \<or> n * (b + 1) \<le> n * a"
    by (metis mult_le_mono2)
  ultimately show ?thesis
    by (simp add: add.commute)
qed

text \<open>Overwriting the place of one page in its swap file changes what is stored for that page only.\<close>

lemma swap_write_fits:
  fixes m :: "('x::len, 'f) dos_memory"
  assumes w: "swap_ok V m" and a: "a < total_size m" "MEM_PAGE_SIZE TYPE('x) dvd a"
    and n: "fs_hnd V (files m) (swap_handle m a) = Some name" "fs_disk V (files m) name = Some c"
    and l: "length bs = MEM_PAGE_SIZE TYPE('x)"
  shows "a mod 2 ^ fileNoShift m + length bs \<le> 2 ^ fileNoShift m" "2 ^ fileNoShift m \<le> length c"
proof -
  show "a mod 2 ^ fileNoShift m + length bs \<le> 2 ^ fileNoShift m"
    using page_fits [OF w a(2)] l by simp
  obtain name' c' where "fs_hnd V (files m) (swap_handle m a) = Some name'"
    "fs_disk V (files m) name' = Some c'" "2 ^ fileNoShift m \<le> length c'"
    by (rule swap_file_open [OF w a(1)])
  with n show "2 ^ fileNoShift m \<le> length c"
    by simp
qed

lemma swap_ok_write:
  fixes m :: "('x::len, 'f) dos_memory"
  assumes w: "swap_ok V m" and n: "fs_disk V (files m) name = Some c" "length c' = length c"
    and g: "fs_hnd V g = fs_hnd V (files m)" "fs_disk V g = (fs_disk V (files m))(name \<mapsto> c')"
  shows "swap_ok V (m\<lparr>files := g\<rparr>)"
proof -
  have geo: "swap_count (m\<lparr>files := g\<rparr>) = swap_count m" "total_size (m\<lparr>files := g\<rparr>) = total_size m"
    by (rule same_geometry; simp)+
  have "\<exists>nm c. fs_hnd V g (swapFiles m ! j) = Some nm \<and> fs_disk V g nm = Some c \<and> 2 ^ fileNoShift m \<le> length c"
    if "j < swap_count m" for j
  proof -
    obtain nm d where "fs_hnd V (files m) (swapFiles m ! j) = Some nm" "fs_disk V (files m) nm = Some d"
      "2 ^ fileNoShift m \<le> length d"
      using w \<open>j < swap_count m\<close> unfolding swap_ok_def by blast
    with n show ?thesis
      by (cases "nm = name") (auto simp: g)
  qed
  with w show ?thesis
    by (simp add: swap_ok_def geo g)
qed

text \<open>Two pages of one swap file do not overlap, and two pages of different files do not meet.\<close>

lemma pages_apart:
  assumes "q dvd a" "q dvd b" "q dvd (2 :: nat) ^ sh" "b div 2 ^ sh = a div 2 ^ sh" "b \<noteq> a"
  shows "b mod 2 ^ sh + q \<le> a mod 2 ^ sh \<or> a mod 2 ^ sh + q \<le> b mod 2 ^ sh"
proof (rule dvd_apart)
  show "b mod 2 ^ sh \<noteq> a mod 2 ^ sh"
    using assms(4,5) by (metis div_mult_mod_eq)
qed (use assms in \<open>simp_all add: dvd_mod\<close>)

lemma swap_at_same_file:
  fixes m :: "('x::len, 'f) dos_memory"
  assumes w: "swap_ok V m" and a: "a < total_size m" "MEM_PAGE_SIZE TYPE('x) dvd a" "MEM_PAGE_SIZE TYPE('x) dvd b"
    and n: "fs_hnd V (files m) (swap_handle m a) = Some name" "fs_disk V (files m) name = Some c"
    and l: "length bs = MEM_PAGE_SIZE TYPE('x)" and h: "fs_hnd V g = fs_hnd V (files m)"
    and d: "fs_disk V g = (fs_disk V (files m))(name \<mapsto> splice_at (a mod 2 ^ fileNoShift m) bs c)"
    and f: "b div 2 ^ fileNoShift m = a div 2 ^ fileNoShift m"
  shows "swap_at V (m\<lparr>files := g\<rparr>) b = (if b = a then bs else swap_at V m b)"
proof -
  define sh where "sh = fileNoShift m"
  note fit = swap_write_fits [OF w a(1,2) n l, folded sh_def]
  have e: "swap_handle m b = swap_handle m a" "swap_handle (m\<lparr>files := g\<rparr>) = swap_handle m"
    using f by (simp_all add: swap_handle_def fun_eq_iff)
  have x: "swap_at V (m\<lparr>files := g\<rparr>) b = slice_at (b mod 2 ^ sh) (MEM_PAGE_SIZE TYPE('x)) (splice_at (a mod 2 ^ sh) bs c)"
    "swap_at V m b = slice_at (b mod 2 ^ sh) (MEM_PAGE_SIZE TYPE('x)) c"
    by (simp_all add: swap_at_def e file_at_def h n d sh_def)
  show ?thesis
  proof (cases "b = a")
    case True
    have "slice_at (a mod 2 ^ sh) (length bs) (splice_at (a mod 2 ^ sh) bs c) = bs"
      using fit by simp
    with True x l show ?thesis
      by simp
  next
    case False
    have "MEM_PAGE_SIZE TYPE('x) dvd 2 ^ sh"
      using w by (simp add: swap_ok_def MEM_PAGE_SIZE_def le_imp_power_dvd sh_def)
    from pages_apart [OF a(2,3) this] False f fit x l page_fits [OF w a(3)] show ?thesis
      by (simp add: sh_def slice_splice_disjoint)
  qed
qed

lemma swap_at_other_file:
  fixes m :: "('x::len, 'f) dos_memory"
  assumes w: "swap_ok V m" and a: "a < total_size m" "b < total_size m"
    and n: "fs_hnd V (files m) (swap_handle m a) = Some name" and h: "fs_hnd V g = fs_hnd V (files m)"
    and d: "fs_disk V g = (fs_disk V (files m))(name \<mapsto> c')"
    and f: "b div 2 ^ fileNoShift m \<noteq> a div 2 ^ fileNoShift m"
  shows "swap_at V (m\<lparr>files := g\<rparr>) b = swap_at V m b"
proof -
  have "a div 2 ^ fileNoShift m < swap_count m" "b div 2 ^ fileNoShift m < swap_count m"
    using a by (simp_all add: total_size_def less_mult_imp_div_less)
  with f w have "fs_hnd V (files m) (swap_handle m b) \<noteq> fs_hnd V (files m) (swap_handle m a)"
    by (simp add: swap_ok_def swap_handle_def)
  then have "file_at V g (swap_handle m b) = file_at V (files m) (swap_handle m b)"
    using n by (cases "fs_hnd V (files m) (swap_handle m b)") (auto simp: file_at_def h d)
  moreover have "swap_handle (m\<lparr>files := g\<rparr>) = swap_handle m"
    by (simp add: swap_handle_def fun_eq_iff)
  ultimately show ?thesis
    by (simp add: swap_at_def)
qed

lemma swap_at_write:
  fixes m :: "('x::len, 'f) dos_memory"
  assumes w: "swap_ok V m" and a: "a < total_size m" "MEM_PAGE_SIZE TYPE('x) dvd a"
    and n: "fs_hnd V (files m) (swap_handle m a) = Some name" "fs_disk V (files m) name = Some c"
    and l: "length bs = MEM_PAGE_SIZE TYPE('x)" and h: "fs_hnd V g = fs_hnd V (files m)"
    and d: "fs_disk V g = (fs_disk V (files m))(name \<mapsto> splice_at (a mod 2 ^ fileNoShift m) bs c)"
  shows "swap_ok V (m\<lparr>files := g\<rparr>)"
    and "b < total_size m \<Longrightarrow> MEM_PAGE_SIZE TYPE('x) dvd b \<Longrightarrow>
      swap_at V (m\<lparr>files := g\<rparr>) b = (if b = a then bs else swap_at V m b)"
proof -
  show "swap_ok V (m\<lparr>files := g\<rparr>)"
    by (rule swap_ok_write [OF w n(2) _ h d]) (use swap_write_fits [OF w a n l] in simp)
  assume b: "b < total_size m" "MEM_PAGE_SIZE TYPE('x) dvd b"
  show "swap_at V (m\<lparr>files := g\<rparr>) b = (if b = a then bs else swap_at V m b)"
  proof (cases "b div 2 ^ fileNoShift m = a div 2 ^ fileNoShift m")
    case True
    then show ?thesis
      by (rule swap_at_same_file [OF w a b(2) n l h d])
  next
    case False
    then show ?thesis
      using swap_at_other_file [OF w a(1) b(1) n(1) h d] by auto
  qed
qed

lemma storePage_ok:
  fixes m :: "('x::len, 'f) dos_memory"
  assumes io: "dos_io api V" and w: "swap_ok V m" "pages_ok V m" and i: "i < length (pages m)"
  obtains g u where "storePage api i m = m\<lparr>files := g, ui := u\<rparr>" "swap_ok V (m\<lparr>files := g\<rparr>)"
    "\<And>b. b < total_size m \<Longrightarrow> MEM_PAGE_SIZE TYPE('x) dvd b \<Longrightarrow>
       swap_at V (m\<lparr>files := g\<rparr>) b = (if b = pg_at m i then page_bytes (pages m ! i) else swap_at V m b)"
proof -
  define a where "a = pg_addr (pages m ! i)"
  have a: "unat a < total_size m" "MEM_PAGE_SIZE TYPE('x) dvd unat a"
    using w(2) i by (auto simp: pages_ok_def pg_at_def a_def)
  obtain bs where bs: "pg_data (pages m ! i) = Some bs" "length bs = MEM_PAGE_SIZE TYPE('x)"
    by (rule page_data [OF w(2) i])
  obtain name c where n: "fs_hnd V (files m) (swap_handle m (unat a)) = Some name"
    "fs_disk V (files m) name = Some c" "2 ^ fileNoShift m \<le> length c"
    "file_at V (files m) (swap_handle m (unat a)) = Some c"
    by (rule swap_file_open [OF w(1) a(1)])
  note s = swap_file_of [OF w(1) a(1)]
  have fit: "unat a mod 2 ^ fileNoShift m + length bs \<le> length c"
    using page_fits [OF w(1) a(2)] n(3) bs(2) by simp
  obtain f1 where f1: "dosFSeek api (swap_handle m (unat a)) (a AND filePosMask m) DOS_SEEK_SET (files m) = (True, f1)"
    "same_files V (files m) f1" "fs_pos V f1 (swap_handle m (unat a)) = unat a mod 2 ^ fileNoShift m"
    using dosFSeek_ok [OF io n(4), of "a AND filePosMask m"] fit by (auto simp: s(3))
  have k: "fs_hnd V f1 (swap_handle m (unat a)) = Some name" "fs_disk V f1 name = Some c"
    "fs_pos V f1 (swap_handle m (unat a)) + length bs \<le> length c"
    using f1(2,3) n fit by (simp_all add: same_files_def)
  obtain g where g: "dosFWrite api (swap_handle m (unat a)) bs f1 = (length bs, g)"
    "fs_hnd V g = fs_hnd V f1" "fs_disk V g = (fs_disk V f1)(name \<mapsto> splice_at (unat a mod 2 ^ fileNoShift m) bs c)"
    using dosFWrite_ok [OF io k] by (auto simp: f1(3))
  have "storePage api i m = m\<lparr>files := g, ui := ui_swapWr (MEM_PAGE_SIZE TYPE('x) div 1024) (ui m)\<rparr>"
    using s(1) f1(1) g(1) bs by (simp add: storePage_def a_def)
  moreover note swap_at_write [OF w(1) a n(1,2) bs(2), of g]
  ultimately show ?thesis
    using that g(2,3) f1(2) bs by (auto simp: same_files_def pg_at_def a_def)
qed

lemma loadPage_ok:
  fixes m :: "('x::len, 'f) dos_memory"
  assumes io: "dos_io api V" and w: "swap_ok V m" and i: "i < length (pages m)"
    and d: "pg_data (pages m ! i) = Some bs" "length bs = MEM_PAGE_SIZE TYPE('x)"
    and a: "unat a < total_size m" "MEM_PAGE_SIZE TYPE('x) dvd unat a"
  obtains g u where "same_files V (files m) g"
    "loadPage api a i m = upd_page i (\<lambda>p. p\<lparr>pg_addr := a, pg_dirty := False,
       pg_data := Some (swap_at V m (unat a))\<rparr>) (m\<lparr>files := g, ui := u\<rparr>)"
proof -
  define h where "h = swap_handle m (unat a)"
  obtain name c where n: "2 ^ fileNoShift m \<le> length c" "file_at V (files m) h = Some c"
    unfolding h_def by (rule swap_file_open [OF w a(1)])
  note s = swap_file_of [OF w a(1)]
  have fit: "unat a mod 2 ^ fileNoShift m + MEM_PAGE_SIZE TYPE('x) \<le> length c"
    using page_fits [OF w a(2)] n(1) by simp
  obtain f1 where f1: "dosFSeek api h (a AND filePosMask m) DOS_SEEK_SET (files m) = (True, f1)"
    "same_files V (files m) f1" "fs_pos V f1 h = unat a mod 2 ^ fileNoShift m"
    using dosFSeek_ok [OF io n(2), of "a AND filePosMask m"] fit by (auto simp: s(3))
  have k: "file_at V f1 h = Some c" "fs_pos V f1 h + MEM_PAGE_SIZE TYPE('x) \<le> length c"
    using same_files_file [OF f1(2)] n(2) f1(3) fit by simp_all
  obtain g where r: "dosFRead api h (MEM_PAGE_SIZE TYPE('x)) f1 =
      (slice_at (fs_pos V f1 h) (MEM_PAGE_SIZE TYPE('x)) c, g)" and g2: "same_files V f1 g"
    by (rule dosFRead_ok [OF io k])
  have g: "dosFRead api h (MEM_PAGE_SIZE TYPE('x)) f1 = (swap_at V m (unat a), g)"
    using r n(2) by (simp add: f1(3) swap_at_def h_def [symmetric])
  have l: "length (swap_at V m (unat a)) = MEM_PAGE_SIZE TYPE('x)"
    by (rule length_swap_at [OF w a])
  then have "splice_at 0 (swap_at V m (unat a)) bs = swap_at V m (unat a)"
    using d(2) by (simp add: splice_at_def)
  with s(1) f1(1) g l i d have "loadPage api a i m = upd_page i (\<lambda>p. p\<lparr>pg_addr := a, pg_dirty := False,
       pg_data := Some (swap_at V m (unat a))\<rparr>) (m\<lparr>files := g, ui := ui_swapRd (MEM_PAGE_SIZE TYPE('x) div 1024) (ui m)\<rparr>)"
    by (cases "pages m ! i") (simp add: loadPage_def h_def)
  with that f1(2) g2 show ?thesis
    by (auto simp: same_files_def)
qed

lemma total_size_upd [simp]:
  "total_size (m\<lparr>files := g\<rparr>) = total_size m" "total_size (m\<lparr>ui := u\<rparr>) = total_size m"
  "total_size (m\<lparr>pages := ps\<rparr>) = total_size m" "total_size (upd_ui v m) = total_size m"
  "total_size (swapLruHead i m) = total_size m"
  by (rule same_geometry; simp)+

text \<open>Replacing an unneeded page: when page \<open>i\<close> agrees with the swap files, loading another page
  into it leaves the bytes of the memory alone.\<close>

text \<open>A page in step with its file may be exchanged for another page of the files.\<close>

lemma bytes_of_replaced:
  fixes m m' :: "('x::len, 'f) dos_memory"
  assumes w: "pages_ok V m" and p: "pages_ok V m'" and i: "i < length (pages m)" "synced V m i"
    and l: "length (pages m') = length (pages m)" and geo: "total_size m' = total_size m"
    and s: "\<And>b. swap_at V m' b = swap_at V m b"
    and at: "\<And>j. j < length (pages m) \<Longrightarrow> pg_at m' j = (if j = i then a else pg_at m j)"
    and other: "\<And>j. j \<noteq> i \<Longrightarrow> pages m' ! j = pages m ! j"
    and self: "pg_data (pages m' ! i) = Some (swap_at V m a)"
    and new: "\<And>j. j < length (pages m) \<Longrightarrow> pg_at m j \<noteq> a"
  shows "bytes_of V m' = bytes_of V m"
proof (rule bytes_of_eqI)
  fix b assume b: "b < total_size m" "MEM_PAGE_SIZE TYPE('x) dvd b"
  consider "b = a" | "b = pg_at m i" "b \<noteq> a" | j where "j < length (pages m)" "j \<noteq> i" "b = pg_at m j"
    | "b \<noteq> a" "\<forall>j < length (pages m). pg_at m j \<noteq> b"
    by blast
  then show "page_view V m' b = page_view V m b"
  proof cases
    case 1
    then show ?thesis
      using page_view_in [OF p, of i] page_view_out [of m a V] new i self by (simp add: at l)
  next
    case 2
    have "pg_at m' j \<noteq> b" if "j < length (pages m')" for j
      using that 2 i pages_inj [OF w, of j i] by (simp add: l at)
    then have "page_view V m' b = swap_at V m b"
      using page_view_out [of m' b V] s by simp
    with 2 i page_view_in [OF w i(1)] show ?thesis
      by (simp add: synced_def)
  next
    case 3
    then show ?thesis
      using page_view_in [OF p, of j] page_view_in [OF w, of j] by (simp add: at l other)
  next
    case 4
    then have "pg_at m' j \<noteq> b" if "j < length (pages m')" for j
      using that by (simp add: l at)
    with 4 show ?thesis
      using page_view_out [of m' b V] page_view_out [of m b V] s by simp
  qed
qed (simp add: geo)

lemma replace_page:
  fixes m :: "('x::len, 'f) dos_memory" and u :: ui_state
  assumes w: "swap_ok V m" "pages_ok V m" and i: "i < length (pages m)" "synced V m i"
    and a: "unat a < total_size m" "MEM_PAGE_SIZE TYPE('x) dvd unat a"
    and new: "\<And>j. j < length (pages m) \<Longrightarrow> pg_at m j \<noteq> unat a"
    and g: "same_files V (files m) g"
  defines "m' \<equiv> upd_page i (\<lambda>p. p\<lparr>pg_addr := a, pg_dirty := False,
       pg_data := Some (swap_at V m (unat a))\<rparr>) (m\<lparr>files := g, ui := u\<rparr>)"
  shows "swap_ok V m'" "pages_ok V m'" "bytes_of V m' = bytes_of V m"
proof -
  have geo: "swap_count m' = swap_count m" "total_size m' = total_size m" "swap_handle m' = swap_handle m"
    by (rule same_geometry; simp add: m'_def)+
  have s: "swap_at V m' b = swap_at V m b" for b
    using same_files_file [OF g] by (simp add: swap_at_def geo) (simp add: m'_def)
  have at: "pg_at m' j = (if j = i then unat a else pg_at m j)" if "j < length (pages m)" for j
    using that by (simp add: m'_def pg_at_def nth_list_update)
  have other: "pages m' ! j = pages m ! j" if "j \<noteq> i" for j
    using that by (simp add: m'_def)
  have self: "pg_data (pages m' ! i) = Some (swap_at V m (unat a))" "pg_freed (pages m' ! i) = pg_freed (pages m ! i)"
    using i by (simp_all add: m'_def)
  show "swap_ok V m'"
    using w(1) g unfolding swap_ok_def geo by (simp add: m'_def same_files_def)
  have l: "length (pages m') = length (pages m)"
    by (simp add: m'_def)
  have "synced V m' i"
    using i by (simp add: synced_def self s at)
  moreover have "synced V m' j = synced V m j" if "j < length (pages m)" "j \<noteq> i" for j
    using that by (simp add: synced_def s at other)
  moreover have "inj_on (pg_at m') {..<length (pages m)}"
    using new not_sym [OF new]
    by (intro inj_onI) (auto simp: at pages_inj [OF w(2)] split: if_splits)
  ultimately show p: "pages_ok V m'"
    using w(2) a length_swap_at [OF w(1) a] self unfolding pages_ok_def l geo
    by (metis at lessThan_iff other)
  show "bytes_of V m' = bytes_of V m"
    by (rule bytes_of_replaced [OF w(2) p i l geo(2) s at other self(1) new])
qed

text \<open>After a dirty page has been written back, it agrees with the swap files.\<close>

lemma bytes_of_flushed:
  fixes m m' :: "('x::len, 'f) dos_memory"
  assumes w: "pages_ok V m" and p: "pages_ok V m'" and i: "i < length (pages m)"
    and e: "pages m' = pages m" "pg_at m' = pg_at m" "total_size m' = total_size m"
    and s: "\<And>b. b < total_size m \<Longrightarrow> MEM_PAGE_SIZE TYPE('x) dvd b \<Longrightarrow> b \<noteq> pg_at m i \<Longrightarrow> swap_at V m' b = swap_at V m b"
  shows "bytes_of V m' = bytes_of V m"
proof (rule bytes_of_eqI)
  fix b assume b: "b < total_size m" "MEM_PAGE_SIZE TYPE('x) dvd b"
  show "page_view V m' b = page_view V m b"
  proof (cases "\<exists>j < length (pages m). pg_at m j = b")
    case True
    then show ?thesis
      using page_view_in [OF p] page_view_in [OF w] e by metis
  next
    case False
    with i have "b \<noteq> pg_at m i"
      by auto
    with False b show ?thesis
      using page_view_out [of m' b V] page_view_out [of m b V] by (simp add: s e)
  qed
qed (simp add: e)

lemma flush_page:
  fixes m :: "('x::len, 'f) dos_memory"
  assumes io: "dos_io api V" and w: "swap_ok V m" "pages_ok V m" and i: "i < length (pages m)"
  defines "m' \<equiv> if pg_dirty (pages m ! i) then storePage api i (upd_ui (ui_page_status UI_PS_WR) m) else m"
  obtains g u where "m' = m\<lparr>files := g, ui := u\<rparr>" "swap_ok V m'" "pages_ok V m'" "synced V m' i"
    "bytes_of V m' = bytes_of V m"
proof (cases "pg_dirty (pages m ! i)")
  case False
  then have "synced V m i"
    using w(2) i unfolding pages_ok_def by blast
  with False that [where g = "files m" and u = "ui m"] w show ?thesis
    by (simp add: m'_def)
next
  case True
  define n where "n = upd_ui (ui_page_status UI_PS_WR) m"
  have n: "swap_ok V n" "pages_ok V n" "pages n = pages m" "total_size n = total_size m"
    "pg_at n = pg_at m" "swap_at V n = swap_at V m"
    using w same_content_ok(1,2) [OF same_content_ui, of V "ui_page_status UI_PS_WR" m]
    by (simp_all add: n_def pg_at_def swap_at_def swap_handle_def fun_eq_iff)
  obtain g u where e: "storePage api i n = n\<lparr>files := g, ui := u\<rparr>" and so: "swap_ok V (n\<lparr>files := g\<rparr>)"
    and at: "\<And>b. b < total_size m \<Longrightarrow> MEM_PAGE_SIZE TYPE('x) dvd b \<Longrightarrow>
       swap_at V (n\<lparr>files := g\<rparr>) b = (if b = pg_at m i then page_bytes (pages m ! i) else swap_at V m b)"
    using storePage_ok [OF io n(1,2), of i] i unfolding n by metis
  have m': "m' = m\<lparr>files := g, ui := u\<rparr>"
    using True e by (simp add: m'_def n_def)
  have sw: "swap_at V m' b = swap_at V (n\<lparr>files := g\<rparr>) b" for b
    by (simp add: m' n_def swap_at_def swap_handle_def)
  have pp: "pages m' = pages m" "pg_at m' = pg_at m" "total_size m' = total_size m"
    by (simp_all add: m' pg_at_def fun_eq_iff)
  have ad: "pg_at m j < total_size m" "MEM_PAGE_SIZE TYPE('x) dvd pg_at m j" if "j < length (pages m)" for j
    using w(2) that by (auto simp: pages_ok_def)
  have s: "synced V m' i"
    using ad [OF i] by (simp add: synced_def sw at pp)
  have "synced V m' j = synced V m j" if "j < length (pages m)" "j \<noteq> i" for j
    using that ad [of j] pages_inj [OF w(2), of j i] i by (simp add: synced_def sw at pp)
  with s have p: "pages_ok V m'"
    using w(2) unfolding pages_ok_def pp by metis
  have "bytes_of V m' = bytes_of V m"
    by (rule bytes_of_flushed [OF w(2) p i pp]) (simp add: sw at)
  moreover have "swap_ok V m'"
    using so same_content_ok(1) [OF same_content_ui, of V "\<lambda>_. u" "n\<lparr>files := g\<rparr>"] e True
    by (simp add: m'_def n_def)
  ultimately show ?thesis
    using that m' p s by blast
qed

lemma lru_list_upd:
  assumes "lru_list m xs" "length (pages m') = length (pages m)" "lruListHead m' = lruListHead m"
    and "\<And>j. j < length (pages m) \<Longrightarrow> nexts (pages m') j = nexts (pages m) j \<and> prevs (pages m') j = prevs (pages m) j"
  shows "lru_list m' xs"
proof -
  have "links (nexts (pages m')) (prevs (pages m')) None xs None = links (nexts (pages m)) (prevs (pages m)) None xs None"
    using assms(1,4) by (intro links_frame) (auto simp: lru_list_def)
  with assms show ?thesis
    by (simp add: lru_list_def)
qed

lemma page_addr_word:
  "unat (a AND MEM_PAGE_ADDR_MASK TYPE('x::len)) = unat a - unat a mod MEM_PAGE_SIZE TYPE('x)"
proof -
  define k where "k = MEM_PAGE_ADDR_SHIFT TYPE('x)"
  have "(a AND mask k) AND (a AND NOT (mask k)) = 0" "(a AND mask k) OR (a AND NOT (mask k)) = a"
    by (auto intro!: bit_word_eqI simp: bit_simps)
  then have "a AND NOT (mask k) = a - (a AND mask k)"
    using word_plus_and_or [of "a AND mask k" "a AND NOT (mask k)"] by (simp add: algebra_simps)
  moreover have "a AND mask k \<le> a"
    by (simp add: word_le_nat_alt unat_and_mask)
  ultimately show ?thesis
    by (simp add: MEM_PAGE_ADDR_MASK_def page_size_word MEM_PAGE_SIZE_def unat_sub unat_and_mask flip: k_def)
qed

section \<open>Looking up a page\<close>

lemma last_split:
  assumes "2 \<le> length xs"
  obtains ys where "xs = ys @ [last xs]" "ys \<noteq> []"
proof -
  have "xs \<noteq> []" "0 < length (butlast xs)"
    using assms by auto
  then have "xs = butlast xs @ [last xs]" "butlast xs \<noteq> []"
    using length_greater_0_conv by (simp, blast)
  with that show ?thesis
    by blast
qed

text \<open>Moving a page of the list to the front when it is not there yet.\<close>

lemma move_front:
  assumes l: "lru_list m xs" and i: "i \<in> set xs"
  defines "m' \<equiv> if i \<noteq> lruListHead m then swapLruHead i m else m"
  shows "lru_list m' (i # remove1 i xs)" "same_content V m m'"
proof -
  obtain ys zs where s: "xs = ys @ i # zs" "i \<notin> set ys"
    using split_list_first [OF i] by blast
  then have r: "remove1 i xs = ys @ zs"
    by (simp add: remove1_append)
  have "lru_list m' (i # remove1 i xs) \<and> same_content V m m'"
  proof (cases "ys = []")
    case True
    then have "i = lruListHead m"
      using l s by (auto simp: lru_list_def)
    with True l s show ?thesis
      by (simp add: m'_def same_content_def same_files_def)
  next
    case False
    then have "hd ys = lruListHead m"
      using l s by (auto simp: lru_list_def)
    with hd_in_set [OF False] s(2) have "i \<noteq> lruListHead m"
      by auto
    with False l s r show ?thesis
      using lru_list_swap [of m ys i zs] same_content_swap [of m ys i zs V] by (simp add: m'_def)
  qed
  then show "lru_list m' (i # remove1 i xs)" "same_content V m m'"
    by simp_all
qed

text \<open>What a lookup promises: the page with the address is in core at the front of the list, the bytes
  are the same, and if a page had to give way it was the least recently used.\<close>

definition served :: "'f fs_view \<Rightarrow> ('x::len, 'f) dos_memory \<Rightarrow> nat list \<Rightarrow> 32 word \<Rightarrow> nat \<Rightarrow> ('x, 'f) dos_memory \<Rightarrow> bool" where
  "served V m xs a i m' \<longleftrightarrow> swap_ok V m' \<and> pages_ok V m' \<and> lru_list m' (i # remove1 i xs) \<and>
     bytes_of V m' = bytes_of V m \<and> i < length (pages m') \<and>
     pg_at m' i = unat a - unat a mod MEM_PAGE_SIZE TYPE('x) \<and> total_size m' = total_size m \<and>
     pm_ub m' = pm_ub m \<and> pm_dev m' = pm_dev m \<and>
     ((\<forall>j < length (pages m). pg_at m j \<noteq> pg_at m' i) \<longrightarrow> i = last xs)"

lemma served_hit:
  fixes m :: "('x::len, 'f) dos_memory"
  assumes w: "swap_ok V m" "pages_ok V m" and l: "lru_list m xs" and i: "i \<in> set xs"
    and at: "pg_at m i = unat a - unat a mod MEM_PAGE_SIZE TYPE('x)"
  shows "served V m xs a i (if i \<noteq> lruListHead m then swapLruHead i m else m)"
proof -
  define m' where "m' = (if i \<noteq> lruListHead m then swapLruHead i m else m)"
  note fr = move_front [OF l i, folded m'_def]
  have sc: "same_content V m m'"
    by (rule fr(2))
  note sm = same_content_ok [OF sc]
  have b: "i < length (pages m)" "length (pages m') = length (pages m)"
    using i l sc by (auto simp: same_content_def lru_list_def)
  then have "pg_at m' i = pg_at m i"
    using cell_fields(1) [of "pages m' ! i" "pages m ! i"] sc by (simp add: same_content_def pg_at_def)
  moreover have "total_size m' = total_size m" "pm_ub m' = pm_ub m" "pm_dev m' = pm_dev m"
    by (simp_all add: m'_def)
  ultimately have "served V m xs a i m'"
    using w sm fr(1) at b unfolding served_def by metis
  then show ?thesis
    by (simp add: m'_def)
qed

lemma served_miss:
  fixes m :: "('x::len, 'f) dos_memory"
  assumes io: "dos_io api V" and w: "swap_ok V m" "pages_ok V m" and l: "lru_list m (ys @ [i])" "ys \<noteq> []"
    and b: "unat b = unat a - unat a mod MEM_PAGE_SIZE TYPE('x)" "unat b < total_size m" "MEM_PAGE_SIZE TYPE('x) dvd unat b"
    and new: "\<And>j. j < length (pages m) \<Longrightarrow> pg_at m j \<noteq> unat b"
  defines "m1 \<equiv> swapLruHead i m"
  defines "m2 \<equiv> if pg_dirty (pages m1 ! i) then storePage api i (upd_ui (ui_page_status UI_PS_WR) m1) else m1"
  defines "m3 \<equiv> loadPage api b i (upd_ui (ui_page_status UI_PS_RD) m2)"
  shows "served V m (ys @ [i]) a i (upd_ui (ui_page_status UI_PS_IDLE) m3)"
proof -
  have i: "i < length (pages m)" and r: "remove1 i (ys @ [i]) = ys"
    using l by (auto simp: lru_list_def remove1_append remove1_idem)
  have l1: "lru_list m1 (i # ys)" and s1: "same_content V m m1"
    using lru_list_swap [of m ys i "[]"] same_content_swap [of m ys i "[]"] l by (simp_all add: m1_def)
  note sm = same_content_ok [OF s1]
  have p1: "length (pages m1) = length (pages m)"
    using s1 by (simp add: same_content_def)
  have at1: "pg_at m1 j = pg_at m j" if "j < length (pages m)" for j
    using s1 that cell_fields(1) [of "pages m1 ! j" "pages m ! j"] by (simp add: same_content_def pg_at_def)
  have i1: "i < length (pages m1)"
    by (simp add: p1 i)
  obtain g u where m2: "m2 = m1\<lparr>files := g, ui := u\<rparr>" and w2: "swap_ok V m2" "pages_ok V m2" "synced V m2 i"
    and b2: "bytes_of V m2 = bytes_of V m1"
    using flush_page [OF io _ _ i1] w sm unfolding m2_def by metis
  define n where "n = upd_ui (ui_page_status UI_PS_RD) m2"
  have n: "pages n = pages m1" "total_size n = total_size m"
    by (simp_all add: n_def m2 m1_def)
  have at: "pg_at n j = pg_at m1 j" for j
    by (simp add: pg_at_def n)
  have w3: "swap_ok V n" "pages_ok V n" "bytes_of V n = bytes_of V m" and y: "synced V n i"
    using same_content_ok [OF same_content_ui, of V "ui_page_status UI_PS_RD" m2] w2 b2 sm(3)
    by (simp_all add: n_def synced_def swap_at_def swap_handle_def pg_at_def)
  obtain bs where d: "pg_data (pages n ! i) = Some bs" "length bs = MEM_PAGE_SIZE TYPE('x)"
  proof -
    have "i < length (pages n)"
      using i1 n by simp
    from page_data [OF w3(2) this] that show ?thesis
      by blast
  qed
  obtain g' u' where g: "same_files V (files n) g'" and m3: "m3 = upd_page i (\<lambda>p. p\<lparr>pg_addr := b, pg_dirty := False,
       pg_data := Some (swap_at V n (unat b))\<rparr>) (n\<lparr>files := g', ui := u'\<rparr>)"
  proof -
    have "i < length (pages n)" "unat b < total_size n"
      using i1 b n by simp_all
    from loadPage_ok [OF io w3(1) this(1) d this(2) b(3)] that show ?thesis
      unfolding m3_def n_def [symmetric] by blast
  qed
  have "swap_ok V m3" "pages_ok V m3" "bytes_of V m3 = bytes_of V m"
    using replace_page [OF w3(1,2) _ y _ _ _ g, of b u'] i1 b new at at1 p1 w3(3)
    unfolding m3 by (simp_all add: n)
  moreover have "lru_list m3 (i # ys)"
    using l1 by (rule lru_list_upd) (auto simp: m3 n_def m2 nexts_def prevs_def nth_list_update i1)
  then have "lru_list (upd_ui (ui_page_status UI_PS_IDLE) m3) (i # ys)"
    by (rule lru_list_upd) simp_all
  moreover have "pg_at m3 i = unat b" "i < length (pages m3)" "total_size m3 = total_size m" "pm_ub m3 = pm_ub m"
    "pm_dev m3 = pm_dev m"
    using i1 by (simp_all add: m3 pg_at_def n_def m2 m1_def)
  ultimately show ?thesis
    using same_content_ok [OF same_content_ui, of V "ui_page_status UI_PS_IDLE" m3] b(1) r
    by (simp add: served_def pg_at_def)
qed

lemma lookupPage_ok:
  fixes m :: "('x::len, 'f) dos_memory"
  assumes io: "dos_io api V" and w: "swap_ok V m" "pages_ok V m" and l: "lru_list m xs"
    and a: "unat a < total_size m"
  obtains i m' where "lookupPage api a m = Some (i, m')" "served V m xs a i m'"
proof -
  define b where "b = a AND MEM_PAGE_ADDR_MASK TYPE('x)"
  have b: "unat b = unat a - unat a mod MEM_PAGE_SIZE TYPE('x)" "unat b < total_size m" "MEM_PAGE_SIZE TYPE('x) dvd unat b"
    using a page_addr_word [of a, where 'x = 'x] less_imp_diff_less [of "unat a" "total_size m"]
    by (simp_all add: b_def dvd_minus_mod)
  have f: "findPage (pages m) b (lruListHead m) =
      Some (case List.find (\<lambda>i. pg_addr (pages m ! i) = b) xs of Some i \<Rightarrow> (True, i) | None \<Rightarrow> (False, last xs))"
    using findPage_links [of "pages m" "prevs (pages m)" None xs b] l by (simp add: lru_list_def)
  have xs: "set xs = {..<length (pages m)}" "distinct xs"
    using l by (auto simp: lru_list_def)
  show ?thesis
  proof (cases "List.find (\<lambda>i. pg_addr (pages m ! i) = b) xs")
    case (Some i)
    then have "i \<in> set xs" "pg_at m i = unat b"
      by (auto simp: find_Some_iff pg_at_def)
    with served_hit [OF w l] that f Some b(1) show ?thesis
      by (simp add: lookupPage_def b_def)
  next
    case None
    then have new: "pg_at m j \<noteq> unat b" if "j < length (pages m)" for j
      using that xs(1) by (auto simp: find_None_iff pg_at_def word_unat_eq_iff)
    have "2 \<le> length xs"
      using distinct_card [OF xs(2)] xs(1) w(2) by (simp add: pages_ok_def MEM_PAGES_def)
    then obtain ys where ys: "xs = ys @ [last xs]" "ys \<noteq> []"
      by (rule last_split)
    with served_miss [OF io w _ ys(2) b new, of "last xs"] l that f None show ?thesis
      by (simp add: lookupPage_def b_def Let_def)
  qed
qed

section \<open>Reading, writing and comparing are what they are on flat memory\<close>

text \<open>A piece of a page is a piece of the memory.\<close>

lemma chunk_bounds:
  assumes "0 < n" "unat a + n \<le> 2 ^ 32"
  shows "page_offset TYPE('x::len) a + chunk_size TYPE('x) a n \<le> MEM_PAGE_SIZE TYPE('x)"
    "chunk_size TYPE('x) a n \<le> n" "0 < chunk_size TYPE('x) a n"
    "chunk_size TYPE('x) a n < n \<Longrightarrow> unat (a + of_nat (chunk_size TYPE('x) a n)) = unat a + chunk_size TYPE('x) a n"
proof -
  show "page_offset TYPE('x) a + chunk_size TYPE('x) a n \<le> MEM_PAGE_SIZE TYPE('x)"
    using page_offset_less [of a, where 'x = 'x] unfolding chunk_size_def by linarith
  show "chunk_size TYPE('x) a n \<le> n" "0 < chunk_size TYPE('x) a n"
    using assms(1) by (simp_all add: chunk_size_def)
  show "unat (a + of_nat (chunk_size TYPE('x) a n)) = unat a + chunk_size TYPE('x) a n"
    if "chunk_size TYPE('x) a n < n"
    using assms(2) that by (intro unat_plus_of_nat) simp
qed

lemma nth_bytes_of:
  fixes m :: "('x::len, 'f) dos_memory"
  assumes p: "pages_ok V m" and i: "i < length (pages m)"
    and a: "pg_at m i = a - a mod MEM_PAGE_SIZE TYPE('x)" and k: "a mod MEM_PAGE_SIZE TYPE('x) + k < MEM_PAGE_SIZE TYPE('x)"
    and t: "a + k < total_size m"
  shows "bytes_of V m ! (a + k) = page_bytes (pages m ! i) ! (a mod MEM_PAGE_SIZE TYPE('x) + k)"
proof -
  have "(a + k) mod MEM_PAGE_SIZE TYPE('x) = a mod MEM_PAGE_SIZE TYPE('x) + k"
    using k by (metis mod_add_left_eq mod_less)
  moreover from this have "a + k - (a + k) mod MEM_PAGE_SIZE TYPE('x) = pg_at m i"
    using a by simp
  ultimately show ?thesis
    using t page_view_in [OF p i] by (simp add: bytes_of_def)
qed

lemma read_chunk:
  fixes m :: "('x::len, 'f) dos_memory"
  assumes s: "served V m0 xs a i m" and n: "0 < n" "unat a + n \<le> total_size m" "unat a + n \<le> 2 ^ 32"
  shows "slice_at (page_offset TYPE('x) a) (chunk_size TYPE('x) a n) (page_bytes (pages m ! i)) =
    slice_at (unat a) (chunk_size TYPE('x) a n) (bytes_of V m)"
proof -
  note c = chunk_bounds [OF n(1,3), where 'x = 'x]
  have p: "pages_ok V m" "i < length (pages m)" "pg_at m i = unat a - unat a mod MEM_PAGE_SIZE TYPE('x)"
    using s by (auto simp: served_def)
  have l: "length (page_bytes (pages m ! i)) = MEM_PAGE_SIZE TYPE('x)"
    by (rule page_data [OF p(1,2)]) simp
  show ?thesis
  proof (rule nth_equalityI)
    show "length (slice_at (page_offset TYPE('x) a) (chunk_size TYPE('x) a n) (page_bytes (pages m ! i))) =
      length (slice_at (unat a) (chunk_size TYPE('x) a n) (bytes_of V m))"
      using c n l by simp
    fix k assume "k < length (slice_at (page_offset TYPE('x) a) (chunk_size TYPE('x) a n) (page_bytes (pages m ! i)))"
    then have "k < chunk_size TYPE('x) a n"
      using c l by simp
    with c n l nth_bytes_of [OF p, of k] show "slice_at (page_offset TYPE('x) a) (chunk_size TYPE('x) a n) (page_bytes (pages m ! i)) ! k =
      slice_at (unat a) (chunk_size TYPE('x) a n) (bytes_of V m) ! k"
      by (simp add: page_offset_mod)
  qed
qed

lemma same_page:
  fixes a k l P :: nat
  assumes "a mod P + l \<le> P"
  shows "a \<le> k \<and> k < a + l \<longleftrightarrow> k - k mod P = a - a mod P \<and> a mod P \<le> k mod P \<and> k mod P < a mod P + l"
proof
  assume k: "a \<le> k \<and> k < a + l"
  have "k div P = a div P"
  proof (rule div_nat_eqI)
    show "P * (a div P) \<le> k"
      using k times_div_less_eq_dividend [of P a] by linarith
    show "k < P * Suc (a div P)"
      using k assms mult_div_mod_eq [of P a] unfolding mult_Suc_right by linarith
  qed
  then have "k - k mod P = a - a mod P"
    by (simp add: minus_mod_eq_mult_div)
  with k show "k - k mod P = a - a mod P \<and> a mod P \<le> k mod P \<and> k mod P < a mod P + l"
    using mod_less_eq_dividend [of k P] mod_less_eq_dividend [of a P] by linarith
next
  assume "k - k mod P = a - a mod P \<and> a mod P \<le> k mod P \<and> k mod P < a mod P + l"
  then show "a \<le> k \<and> k < a + l"
    using mod_less_eq_dividend [of k P] mod_less_eq_dividend [of a P] by linarith
qed

text \<open>Changing the contents of one page in core changes the bytes of that page.\<close>

lemma bytes_page_upd:
  fixes m m' :: "('x::len, 'f) dos_memory"
  assumes p: "pages_ok V m" "pages_ok V m'"
    and geo: "total_size m' = total_size m" "swap_at V m' = swap_at V m" "pg_at m' = pg_at m"
      "length (pages m') = length (pages m)"
    and i: "i < length (pages m)" and other: "\<And>j. j \<noteq> i \<Longrightarrow> pages m' ! j = pages m ! j"
    and k: "k < total_size m"
  shows "bytes_of V m' ! k =
    (if k - k mod MEM_PAGE_SIZE TYPE('x) = pg_at m i then page_bytes (pages m' ! i) ! (k mod MEM_PAGE_SIZE TYPE('x))
     else bytes_of V m ! k)"
proof -
  have "page_view V m' a = (if a = pg_at m i then page_bytes (pages m' ! i) else page_view V m a)" for a
  proof (cases "\<exists>j < length (pages m). pg_at m j = a")
    case True
    then show ?thesis
      using page_view_in [OF p(2)] page_view_in [OF p(1)] geo other pages_inj [OF p(1)] i by metis
  next
    case False
    then show ?thesis
      using page_view_out [of m' a V] page_view_out [of m a V] geo i by auto
  qed
  with k geo(1) show ?thesis
    by (simp add: bytes_of_def)
qed

lemma write_chunk:
  fixes m :: "('x::len, 'f) dos_memory"
  assumes s: "served V m0 xs a i m" and n: "bs \<noteq> []" "unat a + length bs \<le> total_size m" "unat a + length bs \<le> 2 ^ 32"
    and c: "length bs \<le> MEM_PAGE_SIZE TYPE('x) - page_offset TYPE('x) a"
  defines "m' \<equiv> upd_page i (\<lambda>p. p\<lparr>pg_dirty := True,
     pg_data := map_option (splice_at (page_offset TYPE('x) a) bs) (pg_data p)\<rparr>) m"
  shows "swap_ok V m'" "pages_ok V m'" "lru_list m' (i # remove1 i xs)"
    "bytes_of V m' = splice_at (unat a) bs (bytes_of V m)"
proof -
  define P where "P = MEM_PAGE_SIZE TYPE('x)"
  have p: "pages_ok V m" "i < length (pages m)" "pg_at m i = unat a - unat a mod P" "swap_ok V m"
    "lru_list m (i # remove1 i xs)"
    using s by (auto simp: served_def P_def)
  obtain d where d: "pg_data (pages m ! i) = Some d" "length d = P"
    unfolding P_def by (rule page_data [OF p(1,2)])
  have o: "page_offset TYPE('x) a = unat a mod P" "unat a mod P + length bs \<le> P"
    using c page_offset_less [of a, where 'x = 'x] unfolding page_offset_mod P_def by linarith+
  have geo: "total_size m' = total_size m" "swap_at V m' = swap_at V m" "pg_at m' = pg_at m"
    "length (pages m') = length (pages m)"
    using p(2) by (auto simp: m'_def swap_at_def swap_handle_def pg_at_def fun_eq_iff nth_list_update)
  have self: "pg_data (pages m' ! i) = Some (splice_at (unat a mod P) bs d)" "pg_dirty (pages m' ! i)"
    "pg_freed (pages m' ! i) = pg_freed (pages m ! i)"
    using p(2) d o by (simp_all add: m'_def)
  have other: "pages m' ! j = pages m ! j" if "j \<noteq> i" for j
    using that by (simp add: m'_def)
  show "swap_ok V m'"
    using p(4) unfolding swap_ok_def geo by (simp add: m'_def swap_count_def)
  have y: "synced V m' j = synced V m j" if "j \<noteq> i" for j
    using that by (simp add: synced_def geo other)
  show q: "pages_ok V m'"
    using p(1) self d o y unfolding pages_ok_def geo P_def [symmetric]
    by (metis length_splice other)
  show "lru_list m' (i # remove1 i xs)"
    using p(5) by (rule lru_list_upd) (auto simp: m'_def nexts_def prevs_def nth_list_update p(2))
  show "bytes_of V m' = splice_at (unat a) bs (bytes_of V m)"
  proof (rule nth_equalityI)
    show "length (bytes_of V m') = length (splice_at (unat a) bs (bytes_of V m))"
      using n geo by simp
    fix k assume k: "k < length (bytes_of V m')"
    have "k mod P < P"
      by (simp add: P_def)
    moreover have "unat a \<le> k \<and> k < unat a + length bs \<longleftrightarrow>
        k - k mod P = pg_at m i \<and> unat a mod P \<le> k mod P \<and> k mod P < unat a mod P + length bs"
      using same_page [OF o(2), of k] p(3) by simp
    moreover have "k - unat a = k mod P - unat a mod P" if "k - k mod P = pg_at m i" "unat a mod P \<le> k mod P"
      using that p(3) mod_less_eq_dividend [of k P] mod_less_eq_dividend [of "unat a" P] by linarith
    ultimately show "bytes_of V m' ! k = splice_at (unat a) bs (bytes_of V m) ! k"
      using n k geo d o bytes_page_upd [OF p(1) q geo p(2) other, of k] self(1) page_view_in [OF p(1,2)]
      by (auto simp: nth_splice bytes_of_def P_def)
  qed
qed

definition kept :: "'f fs_view \<Rightarrow> ('x::len, 'f) dos_memory \<Rightarrow> ('x, 'f) dos_memory \<Rightarrow> bool" where
  "kept V m m' \<longleftrightarrow> wf_paged V m' \<and> total_size m' = total_size m \<and> pm_ub m' = pm_ub m \<and> pm_dev m' = pm_dev m"

lemma kept_trans: "kept V m m' \<Longrightarrow> kept V m' m'' \<Longrightarrow> kept V m m''"
  by (simp add: kept_def)

lemma slice_append: "c \<le> n \<Longrightarrow> slice_at a c xs @ slice_at (a + c) (n - c) xs = slice_at a n xs"
  using take_add [of c "n - c" "drop a xs"] by (simp add: slice_at_def add.commute)

lemma splice_append:
  assumes "a + length xs + length ys \<le> length zs"
  shows "splice_at (a + length xs) ys (splice_at a xs zs) = splice_at a (xs @ ys) zs"
  using assms by (simp add: splice_at_def ac_simps)

lemma memcmp_append:
  "length as = length cs \<Longrightarrow> memcmp (as @ bs) (cs @ ds) = (if memcmp as cs \<noteq> 0 then memcmp as cs else memcmp bs ds)"
  by (induction as cs rule: list_induct2) auto

text \<open>A lookup in a well-formed memory.\<close>

lemma lookup_step:
  assumes "dos_io api V" "wf_paged V m" "unat a < total_size m"
  obtains xs i m' where "lookupPage api a m = Some (i, m')" "served V m xs a i m'" "kept V m m'"
    "bytes_of V m' = bytes_of V m"
proof -
  obtain xs where xs: "lru_list m xs" and w: "swap_ok V m" "pages_ok V m"
    using assms(2) by (auto simp: wf_paged_def)
  obtain i m' where "lookupPage api a m = Some (i, m')" "served V m xs a i m'"
    by (rule lookupPage_ok [OF assms(1) w xs assms(3)])
  with that show ?thesis
    by (auto simp: served_def kept_def wf_paged_def)
qed

lemma total_size_le: "wf_paged V m \<Longrightarrow> total_size m \<le> 2 ^ 32"
  by (simp add: wf_paged_def swap_ok_def)

lemma readLoop_ok:
  fixes m :: "('x::len, 'f) dos_memory"
  assumes io: "dos_io api V" and w: "wf_paged V m" and n: "unat a + n \<le> total_size m"
  shows "\<exists>m'. readLoop api a n m = Some (slice_at (unat a) n (bytes_of V m), m') \<and> kept V m m' \<and>
    bytes_of V m' = bytes_of V m"
  using w n
proof (induction n arbitrary: a m rule: less_induct)
  case (less n)
  show ?case
  proof (cases "n = 0")
    case True
    then show ?thesis
      using less.prems by (subst readLoop.simps) (simp add: slice_at_def kept_def)
  next
    case False
    define c where "c = chunk_size TYPE('x) a n"
    have n: "0 < n" "unat a + n \<le> 2 ^ 32" "unat a < total_size m"
      using False less.prems total_size_le [OF less.prems(1)] by simp_all
    note cb = chunk_bounds [OF n(1,2), where 'x = 'x, folded c_def]
    obtain xs i m1 where l: "lookupPage api a m = Some (i, m1)" and s: "served V m xs a i m1"
      and k: "kept V m m1" and b: "bytes_of V m1 = bytes_of V m"
      by (rule lookup_step [OF io less.prems(1) n(3)])
    have t: "total_size m1 = total_size m" "wf_paged V m1"
      using k by (simp_all add: kept_def)
    have r: "slice_at (page_offset TYPE('x) a) c (page_bytes (pages m1 ! i)) = slice_at (unat a) c (bytes_of V m)"
      using read_chunk [OF s n(1) _ n(2)] less.prems(2) t(1) b by (simp add: c_def)
    have "\<exists>m'. readLoop api (a + of_nat c) (n - c) m1 =
        Some (slice_at (unat a + c) (n - c) (bytes_of V m), m') \<and> kept V m1 m' \<and> bytes_of V m' = bytes_of V m1"
    proof (cases "c < n")
      case True
      then show ?thesis
        using less.IH [of "n - c" m1 "a + of_nat c"] cb t less.prems(2) b by simp
    next
      case False
      then show ?thesis
        using t by (subst readLoop.simps) (simp add: slice_at_def kept_def)
    qed
    then obtain m' where "readLoop api (a + of_nat c) (n - c) m1 = Some (slice_at (unat a + c) (n - c) (bytes_of V m), m')"
      "kept V m m'" "bytes_of V m' = bytes_of V m"
      using kept_trans [OF k] b by auto
    with False l r cb(2) show ?thesis
      by (subst readLoop.simps) (simp add: Let_def c_def [symmetric] slice_append)
  qed
qed

lemma writeLoop_ok:
  fixes m :: "('x::len, 'f) dos_memory"
  assumes io: "dos_io api V" and w: "wf_paged V m" and n: "unat a + length buf \<le> total_size m"
  shows "\<exists>m'. writeLoop api a buf m = Some m' \<and> kept V m m' \<and> bytes_of V m' = splice_at (unat a) buf (bytes_of V m)"
  using w n
proof (induction "length buf" arbitrary: a m buf rule: less_induct)
  case less
  show ?case
  proof (cases "buf = []")
    case True
    then show ?thesis
      using less.prems by (subst writeLoop.simps) (simp add: splice_at_def kept_def)
  next
    case False
    define c where "c = chunk_size TYPE('x) a (length buf)"
    have n: "0 < length buf" "unat a + length buf \<le> 2 ^ 32" "unat a < total_size m"
      using False less.prems total_size_le [OF less.prems(1)] by (simp_all add: length_greater_0_conv [symmetric] del: length_greater_0_conv)
    note cb = chunk_bounds [OF n(1,2), where 'x = 'x, folded c_def]
    obtain xs i m1 where l: "lookupPage api a m = Some (i, m1)" and s: "served V m xs a i m1"
      and k: "kept V m m1" and b: "bytes_of V m1 = bytes_of V m"
      by (rule lookup_step [OF io less.prems(1) n(3)])
    have t: "total_size m1 = total_size m"
      using k by (simp add: kept_def)
    define m2 where "m2 = upd_page i (\<lambda>p. p\<lparr>pg_dirty := True,
      pg_data := map_option (splice_at (page_offset TYPE('x) a) (take c buf)) (pg_data p)\<rparr>) m1"
    have tk: "take c buf \<noteq> []" "length (take c buf) = c" "unat a + c \<le> total_size m1" "unat a + c \<le> 2 ^ 32"
      "c \<le> MEM_PAGE_SIZE TYPE('x) - page_offset TYPE('x) a"
      using cb False n less.prems(2) t by (auto simp: min_def)
    have w2: "swap_ok V m2" "pages_ok V m2" "lru_list m2 (i # remove1 i xs)"
      and b2: "bytes_of V m2 = splice_at (unat a) (take c buf) (bytes_of V m)"
      using write_chunk [OF s tk(1)] tk b unfolding m2_def by simp_all
    have k2: "kept V m m2" "total_size m2 = total_size m"
      using k w2 t by (auto simp: kept_def wf_paged_def m2_def)
    have "\<exists>m'. writeLoop api (a + of_nat c) (drop c buf) m2 = Some m' \<and> kept V m2 m' \<and>
        bytes_of V m' = splice_at (unat a + c) (drop c buf) (bytes_of V m2)"
    proof (cases "c < length buf")
      case True
      then show ?thesis
        using less.hyps [of "drop c buf" m2 "a + of_nat c"] cb k2 less.prems(2) by (simp add: kept_def)
    next
      case False
      then show ?thesis
        using k2 by (subst writeLoop.simps) (simp add: splice_at_def kept_def)
    qed
    then obtain m' where m': "writeLoop api (a + of_nat c) (drop c buf) m2 = Some m'" "kept V m m'"
      "bytes_of V m' = splice_at (unat a + c) (drop c buf) (bytes_of V m2)"
      using kept_trans [OF k2(1)] by auto
    moreover have "splice_at (unat a + c) (drop c buf) (bytes_of V m2) = splice_at (unat a) buf (bytes_of V m)"
      using splice_append [of "unat a" "take c buf" "drop c buf" "bytes_of V m"] less.prems(2) tk(2) cb(2) b2 by simp
    ultimately show ?thesis
      using False l by (subst writeLoop.simps) (simp add: Let_def c_def [symmetric] m2_def [symmetric])
  qed
qed

lemma cmpLoop_ok:
  fixes m :: "('x::len, 'f) dos_memory"
  assumes io: "dos_io api V" and w: "wf_paged V m" and n: "unat a + length buf \<le> total_size m"
  shows "\<exists>m'. cmpLoop api a buf m = Some (memcmp (slice_at (unat a) (length buf) (bytes_of V m)) buf, m') \<and>
    kept V m m' \<and> bytes_of V m' = bytes_of V m"
  using w n
proof (induction "length buf" arbitrary: a m buf rule: less_induct)
  case less
  show ?case
  proof (cases "buf = []")
    case True
    then show ?thesis
      using less.prems by (subst cmpLoop.simps) (simp add: kept_def)
  next
    case False
    define c where "c = chunk_size TYPE('x) a (length buf)"
    have n: "0 < length buf" "unat a + length buf \<le> 2 ^ 32" "unat a < total_size m"
      using False less.prems total_size_le [OF less.prems(1)] by (simp_all add: length_greater_0_conv [symmetric] del: length_greater_0_conv)
    note cb = chunk_bounds [OF n(1,2), where 'x = 'x, folded c_def]
    obtain xs i m1 where l: "lookupPage api a m = Some (i, m1)" and s: "served V m xs a i m1"
      and k: "kept V m m1" and b: "bytes_of V m1 = bytes_of V m"
      by (rule lookup_step [OF io less.prems(1) n(3)])
    have t: "total_size m1 = total_size m" "wf_paged V m1"
      using k by (simp_all add: kept_def)
    define u where "u = slice_at (unat a) c (bytes_of V m)"
    define v where "v = slice_at (unat a + c) (length buf - c) (bytes_of V m)"
    have r: "slice_at (page_offset TYPE('x) a) c (page_bytes (pages m1 ! i)) = u"
      using read_chunk [OF s n(1) _ n(2)] less.prems(2) t(1) b by (simp add: c_def u_def)
    have uv: "slice_at (unat a) (length buf) (bytes_of V m) = u @ v" "length u = length (take c buf)"
      using cb less.prems(2) by (simp_all add: u_def v_def slice_append)
    have cmp: "memcmp (u @ v) buf = (if memcmp u (take c buf) \<noteq> 0 then memcmp u (take c buf) else memcmp v (drop c buf))"
      using memcmp_append [OF uv(2), of v "drop c buf"] by simp
    have "\<exists>m'. cmpLoop api (a + of_nat c) (drop c buf) m1 = Some (memcmp v (drop c buf), m') \<and>
        kept V m1 m' \<and> bytes_of V m' = bytes_of V m1"
    proof (cases "c < length buf")
      case True
      then show ?thesis
        using less.hyps [of "drop c buf" m1 "a + of_nat c"] cb t less.prems(2) b by (simp add: v_def)
    next
      case False
      then show ?thesis
        using t by (subst cmpLoop.simps) (simp add: kept_def v_def)
    qed
    then obtain m' where m': "cmpLoop api (a + of_nat c) (drop c buf) m1 = Some (memcmp v (drop c buf), m')"
      "kept V m m'" "bytes_of V m' = bytes_of V m"
      using kept_trans [OF k] b by auto
    show ?thesis
      using False l r m' k b by (subst cmpLoop.simps) (auto simp: Let_def c_def [symmetric] uv(1) cmp)
  qed
qed

section \<open>The interface of guest memory\<close>

text \<open>What the rest of the program relies on, whichever memory it is built with: an access inside the
  memory returns, a read yields the bytes and changes nothing, a write replaces them.\<close>

locale byte_memory =
  fixes inv :: "'s \<Rightarrow> bool" and contents :: "'s \<Rightarrow> byte list"
    and rd :: "'x::len word \<Rightarrow> nat \<Rightarrow> 's \<Rightarrow> (byte list \<times> 's) option"
    and wr :: "'x word \<Rightarrow> byte list \<Rightarrow> 's \<Rightarrow> 's option"
  assumes rd_ok: "inv s \<Longrightarrow> 0 < n \<Longrightarrow> unat a + n \<le> length (contents s) \<Longrightarrow>
      \<exists>t. rd a n s = Some (slice_at (unat a) n (contents s), t) \<and> inv t \<and> contents t = contents s"
    and wr_ok: "inv s \<Longrightarrow> buf \<noteq> [] \<Longrightarrow> unat a + length buf \<le> length (contents s) \<Longrightarrow>
      \<exists>t. wr a buf s = Some t \<and> inv t \<and> contents t = splice_at (unat a) buf (contents s)"
begin

text \<open>What has been written is read back, and disjoint bytes are not affected.\<close>

lemma wr_rd:
  assumes "inv s" "buf \<noteq> []" "unat a + length buf \<le> length (contents s)"
  obtains t u where "wr a buf s = Some t" "rd a (length buf) t = Some (buf, u)"
    "inv u" "contents u = contents t"
proof -
  obtain t where t: "wr a buf s = Some t" "inv t" "contents t = splice_at (unat a) buf (contents s)"
    using wr_ok [OF assms] by blast
  moreover have "0 < length buf"
    using assms(2) by simp
  ultimately show ?thesis
    using rd_ok [OF t(2), of "length buf" a] that assms(3) by auto
qed

lemma wr_rd_other:
  assumes "inv s" "buf \<noteq> []" "unat a + length buf \<le> length (contents s)"
    and "0 < n" "unat b + n \<le> length (contents s)" "unat b + n \<le> unat a \<or> unat a + length buf \<le> unat b"
  obtains t u where "wr a buf s = Some t" "rd b n t = Some (slice_at (unat b) n (contents s), u)"
proof -
  obtain t where t: "wr a buf s = Some t" "inv t" "contents t = splice_at (unat a) buf (contents s)"
    using wr_ok [OF assms(1-3)] by blast
  with rd_ok [OF t(2) assms(4), of b] that slice_splice_disjoint [OF assms(3,5,6)] assms(3,5) show ?thesis
    by auto
qed

end

text \<open>The flat memory provides it.\<close>

interpretation flat: byte_memory "\<lambda>s :: 'x::len vm. wf_ram (ram s)" "\<lambda>s. mem_data (ram s)"
  "\<lambda>a n s. Some (prod.swap (mem_read s a (replicate n 0)))" "\<lambda>a buf s. Some (mem_write s a buf)"
proof
  fix s :: "'x vm" and n and a :: "'x word"
  assume "wf_ram (ram s)" "0 < n" "unat a + n \<le> length (mem_data (ram s))"
  then show "\<exists>t. Some (prod.swap (mem_read s a (replicate n 0))) = Some (slice_at (unat a) n (mem_data (ram s)), t) \<and>
      wf_ram (ram t) \<and> mem_data (ram t) = mem_data (ram s)"
    using mem_read_ok [of s a "replicate n 0"] by (auto simp: replicate_empty)
next
  fix s :: "'x vm" and buf :: "byte list" and a :: "'x word"
  assume "wf_ram (ram s)" "buf \<noteq> []" "unat a + length buf \<le> length (mem_data (ram s))"
  then show "\<exists>t. Some (mem_write s a buf) = Some t \<and> wf_ram (ram t) \<and>
      mem_data (ram t) = splice_at (unat a) buf (mem_data (ram s))"
    using wf_ram_mem_write [of s a buf] mem_write_ok [of s a buf] by simp
qed

text \<open>So does the paged memory, on a DOS that keeps its promises.\<close>

lemma unat_ucast_32:
  assumes "unat (a :: 'x::len word) < 2 ^ 32"
  shows "unat (ucast a :: 32 word) = unat a"
  using assms by (simp add: unsigned_ucast_eq take_bit_nat_eq_self)

lemma dos_mem_access:
  fixes m :: "('x::len, 'f) dos_memory"
  assumes "dos_io api V" "wf_paged V m"
  shows "0 < n \<Longrightarrow> unat a + n \<le> total_size m \<Longrightarrow>
      \<exists>m'. dos_mem_read api a n m = Some (slice_at (unat a) n (bytes_of V m), m') \<and> kept V m m' \<and>
        bytes_of V m' = bytes_of V m"
    and "buf \<noteq> [] \<Longrightarrow> unat a + length buf \<le> total_size m \<Longrightarrow>
      \<exists>m'. dos_mem_write api a buf m = Some m' \<and> kept V m m' \<and>
        bytes_of V m' = splice_at (unat a) buf (bytes_of V m)"
    and "buf \<noteq> [] \<Longrightarrow> unat a + length buf \<le> total_size m \<Longrightarrow>
      \<exists>m'. dos_mem_cmp api a buf m = Some (memcmp (slice_at (unat a) (length buf) (bytes_of V m)) buf, m') \<and>
        kept V m m' \<and> bytes_of V m' = bytes_of V m"
proof -
  have u: "unat (ucast a :: 32 word) = unat a" if "0 < k" "unat a + k \<le> total_size m" for k
    using that total_size_le [OF assms(2)] by (intro unat_ucast_32) linarith
  show "0 < n \<Longrightarrow> unat a + n \<le> total_size m \<Longrightarrow>
      \<exists>m'. dos_mem_read api a n m = Some (slice_at (unat a) n (bytes_of V m), m') \<and> kept V m m' \<and>
        bytes_of V m' = bytes_of V m"
    using readLoop_ok [OF assms, of "ucast a" n] u [of n] by (simp add: dos_mem_read_def)
  show "buf \<noteq> [] \<Longrightarrow> unat a + length buf \<le> total_size m \<Longrightarrow>
      \<exists>m'. dos_mem_write api a buf m = Some m' \<and> kept V m m' \<and>
        bytes_of V m' = splice_at (unat a) buf (bytes_of V m)"
    using writeLoop_ok [OF assms, of "ucast a" buf] u [of "length buf"] by (simp add: dos_mem_write_def)
  show "buf \<noteq> [] \<Longrightarrow> unat a + length buf \<le> total_size m \<Longrightarrow>
      \<exists>m'. dos_mem_cmp api a buf m = Some (memcmp (slice_at (unat a) (length buf) (bytes_of V m)) buf, m') \<and>
        kept V m m' \<and> bytes_of V m' = bytes_of V m"
    using cmpLoop_ok [OF assms, of "ucast a" buf] u [of "length buf"] by (simp add: dos_mem_cmp_def)
qed

interpretation paged: byte_memory "\<lambda>m :: ('x::len, 'f) dos_memory. dos_io api V \<and> wf_paged V m" "bytes_of V"
  "dos_mem_read api" "dos_mem_write api" for api V
proof
  fix m :: "('x, 'f) dos_memory" and n and a :: "'x word"
  assume w: "dos_io api V \<and> wf_paged V m" and n: "0 < n" "unat a + n \<le> length (bytes_of V m)"
  then show "\<exists>t. dos_mem_read api a n m = Some (slice_at (unat a) n (bytes_of V m), t) \<and>
      (dos_io api V \<and> wf_paged V t) \<and> bytes_of V t = bytes_of V m"
    using dos_mem_access(1) [of api V m n a] by (auto simp: kept_def)
next
  fix m :: "('x, 'f) dos_memory" and buf :: "byte list" and a :: "'x word"
  assume w: "dos_io api V \<and> wf_paged V m" and n: "buf \<noteq> []" "unat a + length buf \<le> length (bytes_of V m)"
  then show "\<exists>t. dos_mem_write api a buf m = Some t \<and> (dos_io api V \<and> wf_paged V t) \<and>
      bytes_of V t = splice_at (unat a) buf (bytes_of V m)"
    using dos_mem_access(2) [of api V m buf a] by (auto simp: kept_def)
qed

end
