(* ===== verification/Paged_Init.thy ===== *)
theory Paged_Init
  imports Paged_Refine
begin

text \<open>
  Setting up the paged memory: \<^verbatim>\<open>mem_init\<close> returns for every memory size the command line accepts,
  whatever DOS answers, and when it reports success on a DOS that keeps its promises
  (\<open>dos_io\<close>, \<open>dos_files\<close>) the memory is well-formed and its bytes are those of the swap files,
  provided the size is a power of two.
\<close>

section \<open>The two loops return\<close>

lemma maskLoop_bit:
  assumes "bit n j" "\<And>i. i < j \<Longrightarrow> \<not> bit n i"
  shows "maskLoop n posMask k = Some (push_bit j posMask OR mask j, k + j)"
  using assms
proof (induction j arbitrary: n posMask k)
  case 0
  then show ?case
    by (subst maskLoop.simps) (simp add: and_one_eq bit_0 mod_2_eq_odd)
next
  case (Suc j)
  have "\<not> bit n 0"
    using Suc.prems(2) by blast
  then have "n AND 1 = 0"
    by (simp add: and_one_eq bit_0 mod_2_eq_odd)
  then have "maskLoop n posMask k = maskLoop (drop_bit 1 n) (push_bit 1 posMask OR 1) (Suc k)"
    by (subst maskLoop.simps) simp
  also have "\<dots> = Some (push_bit j (push_bit 1 posMask OR 1) OR mask j, Suc k + j)"
    using Suc.prems by (intro Suc.IH) (simp_all add: bit_drop_bit_eq)
  also have "push_bit j (push_bit 1 posMask OR 1) OR mask j = push_bit (Suc j) posMask OR mask (Suc j)"
    by (intro bit_word_eqI) (auto simp: bit_simps less_Suc_eq)
  finally show ?case
    by simp
qed

lemma maskLoop_returns:
  assumes "n \<noteq> 0"
  obtains posMask k where "maskLoop n 0 0 = Some (posMask, k)"
proof -
  obtain i where "bit n i"
    using assms by (auto simp: bit_eq_iff)
  then have "bit n (LEAST i. bit n i)" "\<And>i. i < (LEAST i. bit n i) \<Longrightarrow> \<not> bit n i"
    by (auto intro: LeastI dest: not_less_Least)
  from maskLoop_bit [OF this, of 0 0] that show ?thesis
    by blast
qed

lemma page_size_bounds: "1024 < MEM_PAGE_SIZE TYPE('x::len)" "MEM_PAGE_SIZE TYPE('x) \<le> 4096"
  by (simp_all add: MEM_PAGE_SIZE_def MEM_PAGE_ADDR_SHIFT_def)

lemma extend_pos:
  assumes "unat nFileSize \<le> 2 ^ 31" "swapPos < nFileSize"
  shows "unat (swapPos + of_nat (MEM_PAGE_SIZE TYPE('x::len)) :: 32 word) = unat swapPos + MEM_PAGE_SIZE TYPE('x)"
  using assms page_size_bounds [where 'x = 'x] by (intro unat_plus_of_nat) (simp add: word_less_nat_alt)

lemma extendLoop_returns:
  assumes s: "unat nFileSize \<le> 2 ^ 31"
  shows "extendLoop api h n swapPos nFileSize (m :: ('x::len, 'f) dos_memory) \<noteq> None"
proof (induction "unat nFileSize - unat swapPos" arbitrary: n swapPos m rule: less_induct)
  case less
  show ?case
  proof (cases "swapPos < nFileSize")
    case True
    define q where "q = (swapPos + of_nat (MEM_PAGE_SIZE TYPE('x)) :: 32 word)"
    have "unat nFileSize - unat q < unat nFileSize - unat swapPos"
      using extend_pos [OF s True, where 'x = 'x] True page_size_bounds(1) [where 'x = 'x]
      by (simp add: q_def word_less_nat_alt)
    from less [OF this] True show ?thesis
      by (subst extendLoop.simps) (auto simp: q_def split: prod.split)
  qed (subst extendLoop.simps, simp)
qed

section \<open>The size of a swap file\<close>

lemma unat_div_of_nat:
  assumes "n \<in> set [1, 2, 4, 8]" "valid_xlen TYPE('x::len)"
  shows "unat (sz div of_nat n :: 'x word) = unat sz div n"
proof -
  have "(8 :: nat) < 2 ^ LENGTH('x)"
    using assms(2) by (auto simp: valid_xlen_def)
  then have "unat (of_nat n :: 'x word) = n"
    using assms(1) by (auto simp: unat_of_nat)
  then show ?thesis
    by (simp add: unat_div)
qed

lemma swap_file_size_eq:
  fixes sz :: "'x::len word"
  assumes x: "valid_xlen TYPE('x)" and n: "n \<in> set [1, 2, 4, 8]"
    and sz: "unat sz = mb * 2 ^ 20" "mb \<le> 1024"
  shows "unat (swap_file_size sz n) = mb * (2 ^ 20 div n)"
proof -
  define P where "P = MEM_PAGE_SIZE TYPE('x)"
  define k where "k = MEM_PAGE_ADDR_SHIFT TYPE('x)"
  have d: "unat sz div n = mb * (2 ^ 20 div n)"
    using n by (auto simp: sz)
  have b: "mb * (2 ^ 20 div n) \<le> 2 ^ 30"
  proof -
    have "mb * (2 ^ 20 div n) \<le> 1024 * 2 ^ 20"
      using sz(2) by (intro mult_le_mono) (simp_all add: div_le_dividend)
    then show ?thesis by simp
  qed
  define w where "w = (ucast (sz div of_nat n) :: 32 word)"
  have w: "unat w = mb * (2 ^ 20 div n)"
    using b unat_div_of_nat [OF n x, of sz] d by (simp add: w_def unat_ucast_32)
  have dv: "P dvd unat w"
  proof -
    have "(2 :: nat) ^ k dvd 2 ^ 20 div n"
      using n page_size_word(2) [where 'x = 'x] by (auto simp: k_def MEM_PAGE_ADDR_SHIFT_def)
    then show ?thesis
      unfolding w P_def MEM_PAGE_SIZE_def k_def [symmetric] by (rule dvd_mult)
  qed
  have u: "unat (w + (of_nat P - 1)) = unat w + (P - 1)"
  proof -
    have "of_nat P - 1 = (of_nat (P - 1) :: 32 word)"
      using page_size_bounds(1) [where 'x = 'x] by (simp add: P_def of_nat_diff)
    moreover have "unat w + (P - 1) < 2 ^ 32"
      using b page_size_bounds(2) [where 'x = 'x] by (simp add: w P_def)
    ultimately show ?thesis
      by (simp add: unat_plus_of_nat)
  qed
  have "swap_file_size sz n = (w + (of_nat P - 1)) AND MEM_PAGE_ADDR_MASK TYPE('x)"
    by (simp add: swap_file_size_def align_up_def align_down_def w_def P_def MEM_PAGE_ADDR_MASK_def
        MEM_PAGE_OFFSET_MASK_def algebra_simps)
  then have "unat (swap_file_size sz n) = unat w + (P - 1) - (unat w + (P - 1)) mod P"
    by (simp add: page_addr_word u [unfolded P_def] P_def)
  also have "(unat w + (P - 1)) mod P = P - 1"
  proof -
    have "(unat w + (P - 1)) mod P = (P - 1) mod P"
      using dv by (auto elim!: dvdE)
    then show ?thesis
      by (simp add: P_def)
  qed
  finally show ?thesis
    by (simp add: w)
qed

section \<open>mem\_init returns\<close>

lemma openSwap_returns:
  assumes "unat nFileSize \<le> 2 ^ 31"
  shows "openSwap api loc nFileSize i (m :: ('x::len, 'f) dos_memory) \<noteq> None"
  by (simp add: openSwap_def Let_def split_def extendLoop_returns [OF assms] del: not_None_eq
      split: option.split bool.split)

lemma openLoop_returns:
  assumes "unat nFileSize \<le> 2 ^ 31"
  shows "openLoop api loc nFileSize is (m :: ('x::len, 'f) dos_memory) \<noteq> None"
  by (induction "is" arbitrary: m)
    (simp_all add: openSwap_returns [OF assms] del: not_None_eq split: option.split bool.split)

lemma dos_mem_init_returns:
  fixes sz :: "'x::len word" and m :: "('x, 'f) dos_memory"
  assumes x: "valid_xlen TYPE('x)" and sz: "unat sz = mb * 2 ^ 20" "0 < mb" "mb \<le> 1024"
  shows "dos_mem_init api malloc_ok sz loc n m \<noteq> None"
proof (cases "nSwFilesValid n")
  case True
  then have n: "n \<in> set [1, 2, 4, 8]"
    by (simp add: nSwFilesValid_def)
  define f where "f = swap_file_size sz n"
  have u: "unat f = mb * (2 ^ 20 div n)"
    unfolding f_def by (rule swap_file_size_eq [OF x n sz(1,3)])
  then have "0 < unat f"
    using sz(2) n by auto
  then have "f \<noteq> 0"
    by auto
  then obtain pm k where mk: "maskLoop f 0 0 = Some (pm, k)"
    by (rule maskLoop_returns)
  have b: "unat f \<le> 2 ^ 31"
  proof -
    have "mb * (2 ^ 20 div n) \<le> 1024 * 2 ^ 20"
      using sz(3) by (intro mult_le_mono) (simp_all add: div_le_dividend)
    with u show ?thesis by simp
  qed
  show ?thesis
    using True mk unfolding f_def
    by (simp add: dos_mem_init_def Let_def openLoop_returns [OF b, unfolded f_def] del: not_None_eq
        split: prod.split bool.split option.split)
qed (simp add: dos_mem_init_def Let_def)

section \<open>Opening and growing the swap files\<close>

definition opened :: "'f fs_view \<Rightarrow> 'f \<Rightarrow> 'f \<Rightarrow> int \<Rightarrow> string \<Rightarrow> bool" where
  "opened V f g h name \<longleftrightarrow> 0 \<le> h \<and> fs_hnd V f h = None \<and> fs_hnd V g = (fs_hnd V f)(h \<mapsto> name)"

text \<open>Opening succeeds only on an existing file and creating makes a new empty one, each on a handle
  not in use; both may fail, and what keeps an existing file from being opened keeps it from being
  created anew. A handle can be closed, moved to the end of its file and asked for its position, and
  writing at the end appends as much as there is room for.\<close>

definition dos_open_law :: "'f dos_api \<Rightarrow> 'f fs_view \<Rightarrow> bool" where
  "dos_open_law api V \<longleftrightarrow> (\<forall>f name.
     case fs_disk V f name of
       None \<Rightarrow> \<exists>g. dos_open api name f = (None, g) \<and> same_files V f g
     | Some c \<Rightarrow> (\<exists>h g. dos_open api name f = (Some h, g) \<and> opened V f g h name \<and> fs_disk V g = fs_disk V f) \<or>
         (\<exists>g g'. dos_open api name f = (None, g) \<and> dos_creat api name g = (None, g')))"

definition dos_creat_law :: "'f dos_api \<Rightarrow> 'f fs_view \<Rightarrow> bool" where
  "dos_creat_law api V \<longleftrightarrow> (\<forall>f name. fs_disk V f name = None \<longrightarrow>
     (\<exists>h g. dos_creat api name f = (Some h, g) \<and> opened V f g h name \<and> fs_disk V g = (fs_disk V f)(name \<mapsto> [])) \<or>
     (\<exists>g. dos_creat api name f = (None, g)))"

definition dos_close_law :: "'f dos_api \<Rightarrow> 'f fs_view \<Rightarrow> bool" where
  "dos_close_law api V \<longleftrightarrow> (\<forall>f h. fs_hnd V (dos_close api h f) = (fs_hnd V f)(h := None) \<and>
     fs_disk V (dos_close api h f) = fs_disk V f)"

definition dos_end_law :: "'f dos_api \<Rightarrow> 'f fs_view \<Rightarrow> bool" where
  "dos_end_law api V \<longleftrightarrow> (\<forall>f h c. file_at V f h = Some c \<and> length c < 2 ^ 32 \<longrightarrow>
     (\<exists>r g. dos_int21_42 api DOS_SEEK_END h 0 0 f = (Some r, g) \<and> same_files V f g \<and> fs_pos V g h = length c))"

definition dos_tell_law :: "'f dos_api \<Rightarrow> 'f fs_view \<Rightarrow> bool" where
  "dos_tell_law api V \<longleftrightarrow> (\<forall>f h c p. file_at V f h = Some c \<and> fs_pos V f h = unat p \<longrightarrow>
     (\<exists>g. dos_int21_42 api DOS_SEEK_CUR h 0 0 f = (Some (ucast (drop_bit 16 p), ucast (p :: 32 word)), g) \<and>
        same_files V f g \<and> fs_pos V g h = unat p))"

definition dos_append_law :: "'f dos_api \<Rightarrow> 'f fs_view \<Rightarrow> bool" where
  "dos_append_law api V \<longleftrightarrow> (\<forall>f h name c buf.
     fs_hnd V f h = Some name \<and> fs_disk V f name = Some c \<and> fs_pos V f h = length c \<longrightarrow>
     (\<exists>k g. dos_write api h buf f = (k, g) \<and> k \<le> length buf \<and> fs_hnd V g = fs_hnd V f \<and>
        fs_disk V g = (fs_disk V f)(name \<mapsto> c @ take k buf) \<and> fs_pos V g h = length c + k))"

definition dos_files :: "'f dos_api \<Rightarrow> 'f fs_view \<Rightarrow> bool" where
  "dos_files api V \<longleftrightarrow> dos_open_law api V \<and> dos_creat_law api V \<and> dos_close_law api V \<and> dos_end_law api V \<and>
     dos_tell_law api V \<and> dos_append_law api V"

lemma dosFOpen_ok:
  assumes d: "dos_files api V" and o: "dosFOpen api name f = (h, g)" "0 \<le> h"
  shows "opened V f g h name" "fs_disk V g = (fs_disk V f)(name \<mapsto> case_option [] (\<lambda>c. c) (fs_disk V f name))"
proof -
  have l: "dos_open_law api V" "dos_creat_law api V"
    using d by (simp_all add: dos_files_def)
  note o_law = spec [OF spec [OF l(1) [unfolded dos_open_law_def], of f], of name]
  have "opened V f g h name \<and> fs_disk V g = (fs_disk V f)(name \<mapsto> case_option [] (\<lambda>c. c) (fs_disk V f name))"
  proof (cases "fs_disk V f name")
    case None
    then obtain g1 where g1: "dos_open api name f = (None, g1)" "same_files V f g1"
      using o_law by auto
    then have "fs_disk V g1 name = None"
      using None by (simp add: same_files_def)
    then consider h' g' where "dos_creat api name g1 = (Some h', g')" "opened V g1 g' h' name"
        "fs_disk V g' = (fs_disk V g1)(name \<mapsto> [])"
      | g' where "dos_creat api name g1 = (None, g')"
      using l(2) unfolding dos_creat_law_def by blast
    then show ?thesis
      using o g1 None by cases (auto simp: dosFOpen_def opened_def same_files_def)
  next
    case (Some c)
    then consider h' g' where "dos_open api name f = (Some h', g')" "opened V f g' h' name" "fs_disk V g' = fs_disk V f"
      | g1 g' where "dos_open api name f = (None, g1)" "dos_creat api name g1 = (None, g')"
      using o_law by auto
    then show ?thesis
      using o Some by cases (auto simp: dosFOpen_def)
  qed
  then show "opened V f g h name" "fs_disk V g = (fs_disk V f)(name \<mapsto> case_option [] (\<lambda>c. c) (fs_disk V f name))"
    by simp_all
qed

lemma dosFTell_end:
  assumes d: "dos_files api V" and c: "file_at V f h = Some c" "length c < 2 ^ 32"
  obtains g where "dosFTell api h (snd (dosFSeek api h 0 DOS_SEEK_END f)) = (of_nat (length c), g)"
    "same_files V f g" "fs_pos V g h = length c"
proof -
  define p where "p = (of_nat (length c) :: 32 word)"
  have p: "unat p = length c"
    using c(2) by (simp add: p_def unat_of_nat)
  have l: "dos_end_law api V" "dos_tell_law api V"
    using d by (simp_all add: dos_files_def)
  obtain r g1 where g1: "dos_int21_42 api DOS_SEEK_END h 0 0 f = (Some r, g1)" "same_files V f g1" "fs_pos V g1 h = length c"
    using l(1) c unfolding dos_end_law_def by blast
  have "file_at V g1 h = Some c" "fs_pos V g1 h = unat p"
    using same_files_file [OF g1(2)] g1(3) c p by simp_all
  then obtain g where g: "dos_int21_42 api DOS_SEEK_CUR h 0 0 g1 = (Some (ucast (drop_bit 16 p), ucast p), g)"
    "same_files V g1 g" "fs_pos V g h = unat p"
    using l(2) unfolding dos_tell_law_def by blast
  have j: "push_bit 16 (ucast (ucast (drop_bit 16 w) :: 16 word)) OR ucast (ucast w :: 16 word) = w" for w :: "32 word"
    by (intro bit_word_eqI) (auto simp: bit_simps)
  have "dosFTell api h (snd (dosFSeek api h 0 DOS_SEEK_END f)) = (p, g)"
    using g1(1) g(1) by (simp add: dosFTell_def dosFSeek_def j)
  with that g g1(2) p show ?thesis
    by (simp add: same_files_def p_def)
qed

lemma extendLoop_ok:
  fixes m :: "('x::len, 'f) dos_memory"
  assumes d: "dos_files api V" and s: "unat F \<le> 2 ^ 31"
    and e: "extendLoop api h n (of_nat (length c)) F m = Some (True, m')"
    and f: "fs_hnd V (files m) h = Some name" "fs_disk V (files m) name = Some c" "fs_pos V (files m) h = length c"
      "length c < 2 ^ 32"
  shows "\<exists>g u b k. m' = m\<lparr>files := g, ui := u, pm_ub := b\<rparr> \<and> fs_hnd V g = fs_hnd V (files m) \<and>
    fs_disk V g = (fs_disk V (files m))(name \<mapsto> c @ replicate k 0) \<and> unat F \<le> length c + k"
  using e f
proof (induction "unat F - length c" arbitrary: n c m rule: less_induct)
  case less
  define w where "w = (of_nat (length c) :: 32 word)"
  have u: "unat w = length c"
    using less.prems(5) by (simp add: w_def unat_of_nat)
  show ?case
  proof (cases "w < F")
    case False
    have "m' = m"
      using less.prems(1) False by (subst (asm) extendLoop.simps) (simp add: w_def)
    moreover have "fs_disk V (files m) = (fs_disk V (files m))(name \<mapsto> c @ replicate 0 0)"
      using less.prems(3) by auto
    moreover have "unat F \<le> length c + 0"
      using False u by (simp add: word_less_nat_alt)
    ultimately show ?thesis
      by (intro exI [of _ "files m"] exI [of _ "ui m"] exI [of _ "pm_ub m"] exI [of _ 0]) simp
  next
    case True
    define P where "P = MEM_PAGE_SIZE TYPE('x)"
    obtain k g where g: "dos_write api h (replicate P 0) (files m) = (k, g)" "k \<le> P"
      "fs_hnd V g = fs_hnd V (files m)" "fs_disk V g = (fs_disk V (files m))(name \<mapsto> c @ take k (replicate P 0))"
      "fs_pos V g h = length c + k"
      using d less.prems(2-4) unfolding dos_files_def dos_append_law_def by (metis length_replicate)
    define b1 where "b1 = (pm_ub m \<or> n = 0x7FFF)"
    define m1 where "m1 = (if unat n mod 256 = 0 then log_line (m\<lparr>files := g, pm_ub := b1\<rparr>) else m\<lparr>files := g, pm_ub := b1\<rparr>)"
    have r: "k = P" "extendLoop api h (n + 1) (w + of_nat P) F m1 = Some (True, m')"
      using less.prems(1) True g(1) unfolding m1_def b1_def
      by (subst (asm) extendLoop.simps; auto simp: w_def P_def dosFWrite_def split: if_splits)+
    obtain u1 where m1: "m1 = m\<lparr>files := g, ui := u1, pm_ub := b1\<rparr>"
      by (cases "unat n mod 256 = 0") (auto simp: m1_def intro: that [of "ui m"] that [of "ui_rerender (ui m)"])
    then have f1: "files m1 = g"
      by simp
    define c1 where "c1 = c @ replicate P (0 :: byte)"
    have l1: "length c1 = length c + P" "length c1 < 2 ^ 32" "of_nat (length c1) = w + of_nat P"
      "unat F - length c1 < unat F - length c"
      using True u s page_size_bounds [where 'x = 'x] by (simp_all add: c1_def w_def P_def word_less_nat_alt)
    have "\<exists>g' u b k'. m' = m1\<lparr>files := g', ui := u, pm_ub := b\<rparr> \<and> fs_hnd V g' = fs_hnd V (files m1) \<and>
      fs_disk V g' = (fs_disk V (files m1))(name \<mapsto> c1 @ replicate k' 0) \<and> unat F \<le> length c1 + k'"
      using r g less.prems(2) l1 by (intro less.hyps) (simp_all add: f1 c1_def)
    then obtain g' u' b' k' where x: "m' = m1\<lparr>files := g', ui := u', pm_ub := b'\<rparr>" "fs_hnd V g' = fs_hnd V g"
      "fs_disk V g' = (fs_disk V g)(name \<mapsto> c1 @ replicate k' 0)" "unat F \<le> length c1 + k'"
      unfolding f1 by blast
    have "m' = m\<lparr>files := g', ui := u', pm_ub := b'\<rparr>" "fs_hnd V g' = fs_hnd V (files m)"
      "fs_disk V g' = (fs_disk V (files m))(name \<mapsto> c @ replicate (P + k') 0)" "unat F \<le> length c + (P + k')"
      using x m1 g(3,4) by (simp_all add: c1_def replicate_add)
    then show ?thesis
      by blast
  qed
qed

text \<open>One swap file set up.\<close>

lemma openSwap_eq:
  assumes o1: "dosFOpen api (swap_name loc i) (files m) = (h, f1)" "0 \<le> h"
    and f3: "dosFTell api h (snd (dosFSeek api h 0 DOS_SEEK_END f1)) = (n, f3)"
  obtains u b where "openSwap api loc F i m =
     (case extendLoop api h 0 n F (m\<lparr>files := f3, ui := u, swapFiles := (swapFiles m)[i := h], pm_ub := b\<rparr>) of
        None \<Rightarrow> None
      | Some (False, m2) \<Rightarrow> Some (False, m2)
      | Some (True, m2) \<Rightarrow>
          let (h', f4) = dosFOpen api (swap_name loc i) (dos_close api h (files m2));
              m3 = m2\<lparr>files := f4, swapFiles := (swapFiles m2)[i := h']\<rparr>
          in if h' < 0 then Some (False, log_line m3) else Some (True, m3))"
proof -
  define m0 where "m0 = (if 256 \<le> length (swap_name loc i) then m\<lparr>pm_ub := True\<rparr> else m)"
  define m1 where "m1 = (log_line m0)\<lparr>swapFiles := (swapFiles m0)[i := h], files := f3\<rparr>"
  have "m1 = m\<lparr>files := f3, ui := ui m1, swapFiles := (swapFiles m)[i := h], pm_ub := pm_ub m1\<rparr>"
    by (cases m) (simp add: m1_def m0_def)
  then obtain u b where m1: "m1 = m\<lparr>files := f3, ui := u, swapFiles := (swapFiles m)[i := h], pm_ub := b\<rparr>"
    by blast
  show ?thesis
    by (rule that [where u = u and b = b], unfold m1 [symmetric]) (use o1 f3 in \<open>simp add: openSwap_def Let_def m1_def m0_def\<close>)
qed

definition reopened :: "'f dos_api \<Rightarrow> string \<Rightarrow> nat \<Rightarrow> int \<Rightarrow> ('x::len, 'f) dos_memory \<Rightarrow> (bool \<times> ('x, 'f) dos_memory) option" where
  "reopened api loc i h m2 = (let (h', f4) = dosFOpen api (swap_name loc i) (dos_close api h (files m2));
      m3 = m2\<lparr>files := f4, swapFiles := (swapFiles m2)[i := h']\<rparr>
    in if h' < 0 then Some (False, log_line m3) else Some (True, m3))"

text \<open>Up to the second opening: the file is open, has been extended, and the handle is recorded.\<close>

lemma openSwap_extended:
  fixes m :: "('x::len, 'f) dos_memory"
  assumes d: "dos_files api V" and s: "unat F \<le> 2 ^ 31" and o: "openSwap api loc F i m = Some (True, m')"
    and c: "length c0 < 2 ^ 32" and c0: "c0 = case_option [] (\<lambda>c. c) (fs_disk V (files m) (swap_name loc i))"
  obtains h m2 g2 u2 b k where "m2 = m\<lparr>files := g2, ui := u2, swapFiles := (swapFiles m)[i := h], pm_ub := b\<rparr>"
    "fs_hnd V (files m) h = None" "fs_hnd V g2 = (fs_hnd V (files m))(h \<mapsto> swap_name loc i)"
    "fs_disk V g2 = (fs_disk V (files m))(swap_name loc i \<mapsto> c0 @ replicate k 0)" "unat F \<le> length c0 + k"
    "reopened api loc i h m2 = Some (True, m')"
proof -
  define name where "name = swap_name loc i"
  obtain h f1 where o1: "dosFOpen api name (files m) = (h, f1)"
    by fastforce
  have h: "0 \<le> h"
    using o o1 by (auto simp: openSwap_def Let_def name_def split: if_splits prod.splits)
  note op1 = dosFOpen_ok [OF d o1 h, unfolded name_def, folded c0]
  have fa: "file_at V f1 h = Some c0"
    using op1 by (simp add: file_at_def opened_def)
  obtain f3 where f3: "dosFTell api h (snd (dosFSeek api h 0 DOS_SEEK_END f1)) = (of_nat (length c0), f3)"
    "same_files V f1 f3" "fs_pos V f3 h = length c0"
    by (rule dosFTell_end [OF d fa c])
  obtain u b where eq: "openSwap api loc F i m =
     (case extendLoop api h 0 (of_nat (length c0)) F (m\<lparr>files := f3, ui := u, swapFiles := (swapFiles m)[i := h], pm_ub := b\<rparr>) of
        None \<Rightarrow> None | Some (False, m2) \<Rightarrow> Some (False, m2)
      | Some (True, m2) \<Rightarrow> reopened api loc i h m2)"
    unfolding reopened_def by (rule openSwap_eq [OF o1 [unfolded name_def] h f3(1)])
  define m1 where "m1 = m\<lparr>files := f3, ui := u, swapFiles := (swapFiles m)[i := h], pm_ub := b\<rparr>"
  obtain m2 where e: "extendLoop api h 0 (of_nat (length c0)) F m1 = Some (True, m2)"
    and rest: "reopened api loc i h m2 = Some (True, m')"
    using o eq unfolding m1_def [symmetric] by (auto split: option.splits bool.splits)
  have m1: "fs_hnd V (files m1) h = Some name" "fs_disk V (files m1) name = Some c0" "fs_pos V (files m1) h = length c0"
    using op1 f3 by (simp_all add: m1_def opened_def same_files_def name_def)
  from extendLoop_ok [OF d s e m1 c] obtain g2 u2 b2 k where "m2 = m1\<lparr>files := g2, ui := u2, pm_ub := b2\<rparr>"
    "fs_hnd V g2 = fs_hnd V (files m1)" "fs_disk V g2 = (fs_disk V (files m1))(name \<mapsto> c0 @ replicate k 0)" "unat F \<le> length c0 + k"
    by blast
  then show thesis
    using op1 f3(2) by (intro that [where h = h and ?u2.0 = u2 and ?g2.0 = g2 and b = b2 and k = k, OF _ _ _ _ _ rest])
      (simp_all add: m1_def opened_def same_files_def name_def)
qed

lemma openSwap_ok:
  fixes m :: "('x::len, 'f) dos_memory"
  assumes d: "dos_files api V" and s: "unat F \<le> 2 ^ 31" and o: "openSwap api loc F i m = Some (True, m')"
    and c: "\<And>c. fs_disk V (files m) (swap_name loc i) = Some c \<Longrightarrow> length c < 2 ^ 32"
  obtains h g u b k where "m' = m\<lparr>files := g, ui := u, swapFiles := (swapFiles m)[i := h], pm_ub := b\<rparr>" "0 \<le> h"
    "fs_hnd V (files m) h = None" "fs_hnd V g = (fs_hnd V (files m))(h \<mapsto> swap_name loc i)"
    "fs_disk V g = (fs_disk V (files m))(swap_name loc i \<mapsto>
       case_option [] (\<lambda>c. c) (fs_disk V (files m) (swap_name loc i)) @ replicate k 0)"
    "unat F \<le> length (case_option [] (\<lambda>c. c) (fs_disk V (files m) (swap_name loc i))) + k"
proof -
  define name where "name = swap_name loc i"
  define c0 where "c0 = case_option [] (\<lambda>c. c) (fs_disk V (files m) name)"
  have l0: "length c0 < 2 ^ 32"
    using c by (auto simp: c0_def name_def split: option.split)
  obtain h m2 g2 u2 b k where m2: "m2 = m\<lparr>files := g2, ui := u2, swapFiles := (swapFiles m)[i := h], pm_ub := b\<rparr>"
    and g2: "fs_hnd V (files m) h = None" "fs_hnd V g2 = (fs_hnd V (files m))(h \<mapsto> name)"
      "fs_disk V g2 = (fs_disk V (files m))(name \<mapsto> c0 @ replicate k 0)" "unat F \<le> length c0 + k"
    and rest: "reopened api loc i h m2 = Some (True, m')"
    unfolding name_def by (rule openSwap_extended [OF d s o l0 c0_def [unfolded name_def]])
  define f4 where "f4 = dos_close api h (files m2)"
  have f4: "fs_hnd V f4 = fs_hnd V (files m)" "fs_disk V f4 = (fs_disk V (files m))(name \<mapsto> c0 @ replicate k 0)"
    using d g2 by (auto simp: f4_def m2 dos_files_def dos_close_law_def)
  obtain h' g where o2: "dosFOpen api name f4 = (h', g)"
    by fastforce
  have h': "0 \<le> h'" "m' = m2\<lparr>files := g, swapFiles := (swapFiles m2)[i := h']\<rparr>"
    using rest o2 by (simp_all add: reopened_def f4_def [symmetric] name_def Let_def split: if_splits)
  note op2 = dosFOpen_ok [OF d o2 h'(1)]
  show ?thesis
    by (rule that [where h = h' and g = g and u = u2 and b = b and k = k]) (use h' op2 f4 g2(4) in \<open>simp_all add: m2 opened_def c0_def name_def\<close>)
qed

lemma swap_name_inj:
  assumes "i < 8" "j < 8" "swap_name loc i = swap_name loc j"
  shows "i = j"
proof -
  have "distinct (map (\<lambda>i. pad_left CHR ''0'' 2 (dec_digits i)) [0, 1, 2, 3, 4, 5, 6, 7])"
    by code_simp
  moreover have "[0, 1, 2, 3, 4, 5, 6, 7] = [0..<8::nat]"
    by code_simp
  ultimately have "inj_on (\<lambda>i. pad_left CHR ''0'' 2 (dec_digits i)) (set [0..<8])"
    by (simp only: distinct_map)
  with assms show ?thesis
    by (auto simp: swap_name_def inj_on_def)
qed

definition swap_bytes :: "'f fs_view \<Rightarrow> string \<Rightarrow> 'f \<Rightarrow> nat \<Rightarrow> byte list" where
  "swap_bytes V loc f j = case_option [] (\<lambda>c. c) (fs_disk V f (swap_name loc j))"

text \<open>The first \<open>k\<close> swap files are open and large enough; nothing but zeros has been added to them.\<close>

definition swap_set :: "'f fs_view \<Rightarrow> string \<Rightarrow> 32 word \<Rightarrow> 'f \<Rightarrow> nat \<Rightarrow> ('x::len, 'f) dos_memory \<Rightarrow> bool" where
  "swap_set V loc F f0 k m \<longleftrightarrow> length (swapFiles m) = MAX_SWAP_FILES \<and>
     (\<forall>j < k. 0 \<le> swapFiles m ! j \<and> fs_hnd V (files m) (swapFiles m ! j) = Some (swap_name loc j) \<and>
        (\<exists>z. fs_disk V (files m) (swap_name loc j) = Some (swap_bytes V loc f0 j @ replicate z 0) \<and>
           unat F \<le> length (swap_bytes V loc f0 j) + z)) \<and>
     (\<forall>j < MAX_SWAP_FILES. k \<le> j \<longrightarrow> swapFiles m ! j = - 1 \<and>
        fs_disk V (files m) (swap_name loc j) = fs_disk V f0 (swap_name loc j))"

lemma swap_set_step:
  fixes m :: "('x::len, 'f) dos_memory"
  assumes d: "dos_files api V" and s: "unat F \<le> 2 ^ 31" and i: "i < MAX_SWAP_FILES" "swap_set V loc F f0 i m"
    and c: "\<And>c. fs_disk V f0 (swap_name loc i) = Some c \<Longrightarrow> length c < 2 ^ 32"
    and o: "openSwap api loc F i m = Some (True, m')"
  shows "swap_set V loc F f0 (Suc i) m' \<and> pages m' = pages m \<and> fileNoShift m' = fileNoShift m \<and>
    filePosMask m' = filePosMask m"
proof -
  have old: "fs_disk V (files m) (swap_name loc i) = fs_disk V f0 (swap_name loc i)" "length (swapFiles m) = MAX_SWAP_FILES"
    using i by (simp_all add: swap_set_def)
  then have c': "\<And>c. fs_disk V (files m) (swap_name loc i) = Some c \<Longrightarrow> length c < 2 ^ 32"
    using c by simp
  obtain h g u b z where m': "m' = m\<lparr>files := g, ui := u, swapFiles := (swapFiles m)[i := h], pm_ub := b\<rparr>" "0 \<le> h"
    and hn: "fs_hnd V (files m) h = None" "fs_hnd V g = (fs_hnd V (files m))(h \<mapsto> swap_name loc i)"
    and dk: "fs_disk V g = (fs_disk V (files m))(swap_name loc i \<mapsto> swap_bytes V loc f0 i @ replicate z 0)"
      "unat F \<le> length (swap_bytes V loc f0 i) + z"
    unfolding swap_bytes_def old(1) [symmetric] by (rule openSwap_ok [OF d s o c'])
  have ne: "swap_name loc j \<noteq> swap_name loc i" if "j < MAX_SWAP_FILES" "j \<noteq> i" for j
    using swap_name_inj [of j i loc] that i(1) by (auto simp: MAX_SWAP_FILES_def)
  have "swap_set V loc F f0 (Suc i) m'"
    unfolding swap_set_def
  proof (intro conjI allI impI)
    fix j assume j: "j < Suc i"
    show "0 \<le> swapFiles m' ! j"
      using i j m' old(2) by (cases "j = i") (auto simp: swap_set_def)
    have "j \<noteq> i \<Longrightarrow> swapFiles m ! j \<noteq> h"
      using i j hn(1) by (auto simp: swap_set_def)
    then show "fs_hnd V (files m') (swapFiles m' ! j) = Some (swap_name loc j)"
      using i j m' old(2) hn by (cases "j = i") (auto simp: swap_set_def)
    show "\<exists>z. fs_disk V (files m') (swap_name loc j) = Some (swap_bytes V loc f0 j @ replicate z 0) \<and>
        unat F \<le> length (swap_bytes V loc f0 j) + z"
    proof (cases "j = i")
      case True
      then show ?thesis
        using m' dk by auto
    next
      case False
      then have "fs_disk V (files m') (swap_name loc j) = fs_disk V (files m) (swap_name loc j)"
        using ne [of j] i(1) j by (simp add: m' dk)
      with False i(2) j show ?thesis
        by (simp add: swap_set_def)
    qed
  next
    fix j assume "j < MAX_SWAP_FILES" "Suc i \<le> j"
    with i(2) ne [of j] show "swapFiles m' ! j = - 1" "fs_disk V (files m') (swap_name loc j) = fs_disk V f0 (swap_name loc j)"
      by (auto simp: swap_set_def m' dk)
  qed (simp add: m' old)
  then show ?thesis
    by (simp add: m')
qed

lemma openLoop_ok:
  fixes m :: "('x::len, 'f) dos_memory"
  assumes d: "dos_files api V" and s: "unat F \<le> 2 ^ 31" and n: "n \<le> MAX_SWAP_FILES"
    and c: "\<And>i c. i < n \<Longrightarrow> fs_disk V f0 (swap_name loc i) = Some c \<Longrightarrow> length c < 2 ^ 32"
    and k: "k \<le> n" "swap_set V loc F f0 k m" "openLoop api loc F [k..<n] m = Some (True, m')"
  shows "swap_set V loc F f0 n m' \<and> pages m' = pages m \<and> fileNoShift m' = fileNoShift m \<and>
    filePosMask m' = filePosMask m"
  using k
proof (induction "n - k" arbitrary: k m)
  case (Suc x)
  then have k: "k < n" "[k..<n] = k # [Suc k..<n]"
    by (simp_all add: upt_conv_Cons)
  obtain m1 where m1: "openSwap api loc F k m = Some (True, m1)" "openLoop api loc F [Suc k..<n] m1 = Some (True, m')"
    using Suc.prems(3) k by (auto split: option.splits bool.splits)
  have "k < MAX_SWAP_FILES"
    using k n by simp
  from swap_set_step [OF d s this Suc.prems(2) c [OF k(1)] m1(1)] Suc.hyps(1) [of "Suc k" m1] Suc.hyps(2) k m1(2)
  show ?case
    by simp
qed simp

section \<open>Filling the pages\<close>

lemma allocLoop_ok:
  fixes m :: "('x::len, 'f) dos_memory"
  assumes "allocLoop malloc_ok is m = (True, m')"
  shows "\<exists>ps. m' = m\<lparr>pages := ps\<rparr> \<and> length ps = length (pages m) \<and>
    (\<forall>i < length ps. ps ! i = (if i \<in> set is then (pages m ! i)\<lparr>pg_data := Some (replicate (MEM_PAGE_SIZE TYPE('x)) 0)\<rparr>
       else pages m ! i))"
  using assms
proof (induction malloc_ok "is" m rule: allocLoop.induct)
  case (1 malloc_ok m)
  then show ?case
    by (intro exI [of _ "pages m"]) simp
next
  case (2 malloc_ok i "is" m)
  define q where "q = upd_page i (pg_data_update (\<lambda>_. Some (replicate (MEM_PAGE_SIZE TYPE('x)) 0))) m"
  have "malloc_ok i" "allocLoop malloc_ok is q = (True, m')"
    using 2(2) by (auto simp: q_def split: if_splits)
  with 2(1) obtain ps where ps: "m' = q\<lparr>pages := ps\<rparr>" "length ps = length (pages q)"
    "\<forall>i < length ps. ps ! i = (if i \<in> set is then (pages q ! i)\<lparr>pg_data := Some (replicate (MEM_PAGE_SIZE TYPE('x)) 0)\<rparr>
       else pages q ! i)"
    by (auto simp: q_def)
  have "pages q ! j = (if j = i then (pages m ! j)\<lparr>pg_data := Some (replicate (MEM_PAGE_SIZE TYPE('x)) 0)\<rparr> else pages m ! j)"
    if "j < length (pages m)" for j
    using that by (cases "j = i") (simp_all add: q_def)
  moreover have "length (pages q) = length (pages m)" "m' = m\<lparr>pages := ps\<rparr>"
    by (simp_all add: ps(1)) (simp_all add: q_def)
  ultimately show ?case
    using ps(2,3) by (intro exI [of _ ps]) auto
qed

text \<open>Page \<open>i\<close> as \<^verbatim>\<open>mem_init\<close> leaves it.\<close>

definition first_page :: "'f fs_view \<Rightarrow> ('x::len, 'f) dos_memory \<Rightarrow> nat \<Rightarrow> mem_page \<Rightarrow> mem_page" where
  "first_page V m i p = p\<lparr>pg_addr := of_nat (MEM_PAGE_SIZE TYPE('x)) * of_nat i, pg_dirty := False,
     pg_data := Some (swap_at V m (MEM_PAGE_SIZE TYPE('x) * i)),
     pg_next := if i < MEM_PAGES TYPE('x) - 1 then Some (i + 1) else pg_next p,
     pg_prev := if i > 0 then Some (i - 1) else pg_prev p\<rparr>"

lemma page_addr_of:
  assumes "i < MEM_PAGES TYPE('x::len)"
  shows "unat (of_nat (MEM_PAGE_SIZE TYPE('x)) * of_nat i :: 32 word) = MEM_PAGE_SIZE TYPE('x) * i"
    "MEM_PAGE_SIZE TYPE('x) * i < 2 ^ 20"
proof -
  have "MEM_PAGE_SIZE TYPE('x) * MEM_PAGES TYPE('x) < 2 ^ 20"
    by (simp add: MEM_PAGE_SIZE_def MEM_PAGES_def MEM_PAGE_ADDR_SHIFT_def)
  moreover have "MEM_PAGE_SIZE TYPE('x) * i \<le> MEM_PAGE_SIZE TYPE('x) * MEM_PAGES TYPE('x)"
    using assms by (intro mult_le_mono2) simp
  ultimately show l: "MEM_PAGE_SIZE TYPE('x) * i < 2 ^ 20"
    by linarith
  then show "unat (of_nat (MEM_PAGE_SIZE TYPE('x)) * of_nat i :: 32 word) = MEM_PAGE_SIZE TYPE('x) * i"
    by (simp add: unat_of_nat flip: of_nat_mult)
qed

lemma initPage_ok:
  fixes m :: "('x::len, 'f) dos_memory"
  assumes io: "dos_io api V" and w: "swap_ok V m" "2 ^ 20 \<le> total_size m" and i: "i < MEM_PAGES TYPE('x)" "i < length (pages m)"
    and d: "pg_data (pages m ! i) = Some bs" "length bs = MEM_PAGE_SIZE TYPE('x)"
  obtains g u where "same_files V (files m) g"
    "initPage api i m = m\<lparr>files := g, ui := u, pages := (pages m)[i := first_page V m i (pages m ! i)]\<rparr>"
proof -
  define a where "a = (of_nat (MEM_PAGE_SIZE TYPE('x)) * of_nat i :: 32 word)"
  define n where "n = upd_ui (ui_page_status UI_PS_RD) m"
  have a: "unat a = MEM_PAGE_SIZE TYPE('x) * i" "unat a < total_size m"
    using page_addr_of [OF i(1)] w(2) by (simp_all add: a_def)
  have n: "swap_ok V n" "i < length (pages n)" "pg_data (pages n ! i) = Some bs" "unat a < total_size n"
    "MEM_PAGE_SIZE TYPE('x) dvd unat a" "swap_at V n = swap_at V m" "files n = files m" "pages n = pages m"
    using w i d a same_content_ok(1) [OF same_content_ui, of V "ui_page_status UI_PS_RD" m]
    by (simp_all add: n_def swap_at_def swap_handle_def fun_eq_iff)
  obtain g u where g: "same_files V (files n) g"
    and e: "loadPage api a i n = upd_page i (\<lambda>p. p\<lparr>pg_addr := a, pg_dirty := False,
       pg_data := Some (swap_at V n (unat a))\<rparr>) (n\<lparr>files := g, ui := u\<rparr>)"
    by (rule loadPage_ok [OF io n(1,2,3) d(2) n(4,5)])
  have "initPage api i m = m\<lparr>files := g, ui := ui_page_status UI_PS_IDLE u, pages := (pages m)[i := first_page V m i (pages m ! i)]\<rparr>"
    using i(2) a(1) unfolding initPage_def a_def [symmetric] n_def [symmetric] e n
    by (cases m, cases "pages m ! i") (auto simp: n_def first_page_def a_def Let_def)
  with that g n(7) show ?thesis
    by simp
qed

lemma fill_pages:
  fixes m :: "('x::len, 'f) dos_memory"
  assumes io: "dos_io api V" and w: "swap_ok V m" "2 ^ 20 \<le> total_size m"
    and l: "length (pages m) = MEM_PAGES TYPE('x)" and k: "k \<le> MEM_PAGES TYPE('x)"
    and d: "\<And>i. i < MEM_PAGES TYPE('x) \<Longrightarrow> \<exists>bs. pg_data (pages m ! i) = Some bs \<and> length bs = MEM_PAGE_SIZE TYPE('x)"
  shows "\<exists>g u. fold (initPage api) [0..<k] m = m\<lparr>files := g, ui := u,
      pages := map (\<lambda>i. if i < k then first_page V m i (pages m ! i) else pages m ! i) [0..<MEM_PAGES TYPE('x)]\<rparr> \<and>
    same_files V (files m) g"
  using k
proof (induction k)
  case 0
  have "map (\<lambda>i. pages m ! i) [0..<MEM_PAGES TYPE('x)] = pages m"
    using l by (metis map_nth)
  then show ?case
    by (intro exI [of _ "files m"] exI [of _ "ui m"]) (simp add: same_files_def)
next
  case (Suc k)
  define ps where "ps = map (\<lambda>i. if i < k then first_page V m i (pages m ! i) else pages m ! i) [0..<MEM_PAGES TYPE('x)]"
  obtain g u where g: "fold (initPage api) [0..<k] m = m\<lparr>files := g, ui := u, pages := ps\<rparr>" "same_files V (files m) g"
    using Suc unfolding ps_def by auto
  define n where "n = m\<lparr>files := g, ui := u, pages := ps\<rparr>"
  have sk: "swap_at V n = swap_at V m" "total_size n = total_size m" "swap_ok V n"
    using w(1) same_files_file [OF g(2)] g(2)
    by (simp_all add: n_def swap_at_def swap_handle_def fun_eq_iff swap_ok_def swap_count_def same_files_def)
  have p: "pages n ! k = pages m ! k" "k < length (pages n)" "k < MEM_PAGES TYPE('x)" "2 ^ 20 \<le> total_size n"
    using Suc.prems w(2) sk by (simp_all add: n_def ps_def)
  obtain bs where bs: "pg_data (pages n ! k) = Some bs" "length bs = MEM_PAGE_SIZE TYPE('x)"
    using d [OF p(3)] p(1) by auto
  obtain g' u' where g': "same_files V (files n) g'"
    "initPage api k n = n\<lparr>files := g', ui := u', pages := (pages n)[k := first_page V n k (pages n ! k)]\<rparr>"
    by (rule initPage_ok [OF io sk(3) p(4,3,2) bs])
  have "first_page V n k (pages n ! k) = first_page V m k (pages m ! k)"
    by (simp add: first_page_def sk p)
  moreover have "ps[k := first_page V m k (pages m ! k)] =
      map (\<lambda>i. if i < Suc k then first_page V m i (pages m ! i) else pages m ! i) [0..<MEM_PAGES TYPE('x)]"
    by (rule nth_equalityI) (auto simp: ps_def nth_list_update less_Suc_eq)
  ultimately have "fold (initPage api) [0..<Suc k] m = m\<lparr>files := g', ui := u',
      pages := map (\<lambda>i. if i < Suc k then first_page V m i (pages m ! i) else pages m ! i) [0..<MEM_PAGES TYPE('x)]\<rparr>"
    using g(1) g'(2) by (simp add: n_def)
  then show ?case
    using g(2) g'(1) by (auto simp: n_def same_files_def)
qed

section \<open>mem\_init yields a well-formed memory\<close>

lemma first_links:
  fixes N :: nat
  assumes "\<And>i. i < N \<Longrightarrow> nx i = (if i < N - 1 then Some (i + 1) else None)"
    and "\<And>i. i < N \<Longrightarrow> pv i = (if i > 0 then Some (i - 1) else None)" and "k \<le> N"
  shows "links nx pv (if k = 0 then None else Some (k - 1)) [k..<N] None"
  using assms(3)
proof (induction "N - k" arbitrary: k)
  case (Suc x)
  then have k: "[k..<N] = k # [Suc k..<N]" "k < N"
    by (simp_all add: upt_conv_Cons)
  have "nx k = (case [Suc k..<N] of [] \<Rightarrow> None | y # _ \<Rightarrow> Some y)"
    using k(2) assms(1) [of k] by (cases "Suc k < N") (auto simp: upt_conv_Cons)
  with Suc.hyps(1) [of "Suc k"] Suc.hyps(2) k assms(2) [of k] show ?case
    by simp
qed simp

lemma filled_pages_ok:
  fixes m :: "('x::len, 'f) dos_memory" and u :: ui_state and d :: "'x device"
  assumes w: "swap_ok V m" "2 ^ 20 \<le> total_size m" and l: "length (pages m) = MEM_PAGES TYPE('x)"
    and z: "\<And>i. i < MEM_PAGES TYPE('x) \<Longrightarrow> pg_next (pages m ! i) = None \<and> pg_prev (pages m ! i) = None \<and> \<not> pg_freed (pages m ! i)"
    and g: "same_files V (files m) g"
  defines "m' \<equiv> m\<lparr>files := g, ui := u, pages := map (\<lambda>i. first_page V m i (pages m ! i)) [0..<MEM_PAGES TYPE('x)],
     lruListHead := 0, pm_dev := d\<rparr>"
  shows "wf_paged V m'" "total_size m' = total_size m"
    "a < total_size m \<Longrightarrow> MEM_PAGE_SIZE TYPE('x) dvd a \<Longrightarrow> page_view V m' a = swap_at V m a"
proof -
  define N where "N = MEM_PAGES TYPE('x)"
  have N: "0 < N"
    by (simp add: N_def MEM_PAGES_def)
  have p: "length (pages m') = N" "\<And>i. i < N \<Longrightarrow> pages m' ! i = first_page V m i (pages m ! i)"
    by (simp_all add: m'_def N_def)
  have geo: "swap_count m' = swap_count m" "total_size m' = total_size m" "swap_handle m' = swap_handle m"
    by (rule same_geometry; simp add: m'_def)+
  then show "total_size m' = total_size m"
    by simp
  have s: "swap_at V m' b = swap_at V m b" for b
    using same_files_file [OF g] by (simp add: swap_at_def geo) (simp add: m'_def)
  have so: "swap_ok V m'"
    using w(1) g unfolding swap_ok_def geo by (simp add: m'_def same_files_def)
  have at: "pg_at m' i = MEM_PAGE_SIZE TYPE('x) * i" if "i < N" for i
    using p(2) [OF that] page_addr_of(1) [of i, where 'x = 'x] that by (simp add: pg_at_def first_page_def N_def)
  have b: "MEM_PAGE_SIZE TYPE('x) * i < total_size m" if "i < N" for i
    using page_addr_of(2) [of i, where 'x = 'x] that w(2) by (simp add: N_def)
  have "synced V m' i" if "i < N" for i
    using that p(2) [OF that] by (simp add: synced_def s at first_page_def)
  moreover have "inj_on (pg_at m') {..<N}"
    by (intro inj_onI) (simp add: at MEM_PAGE_SIZE_def)
  moreover have "length (swap_at V m (MEM_PAGE_SIZE TYPE('x) * i)) = MEM_PAGE_SIZE TYPE('x)" if "i < N" for i
    using length_swap_at [OF w(1) b [OF that]] by simp
  ultimately have po: "pages_ok V m'"
    using z by (simp add: pages_ok_def p geo at b first_page_def N_def [symmetric])
  have "links (nexts (pages m')) (prevs (pages m')) (if (0::nat) = 0 then None else Some (0 - 1)) [0..<N] None"
    using z by (intro first_links) (simp_all add: nexts_def prevs_def p first_page_def N_def [symmetric])
  then have "lru_list m' [0..<N]"
    using N by (simp add: lru_list_def p atLeast0LessThan) (simp add: m'_def)
  with so po show "wf_paged V m'"
    by (auto simp: wf_paged_def)
  assume a: "a < total_size m" "MEM_PAGE_SIZE TYPE('x) dvd a"
  show "page_view V m' a = swap_at V m a"
  proof (cases "\<exists>i < N. pg_at m' i = a")
    case True
    then show ?thesis
      using page_view_in [OF po] p by (auto simp: at first_page_def)
  next
    case False
    then show ?thesis
      using page_view_out [of m' a V] by (simp add: p s)
  qed
qed

text \<open>The geometry when the size of a file is a power of two.\<close>

lemma swap_set_ok:
  fixes m :: "('x::len, 'f) dos_memory"
  assumes s: "swap_set V loc F f0 n m" and n: "n \<le> MAX_SWAP_FILES"
    and sh: "unat F = 2 ^ sh" "fileNoShift m = sh" "filePosMask m = mask sh" "MEM_PAGE_ADDR_SHIFT TYPE('x) \<le> sh"
      "n * 2 ^ sh \<le> 2 ^ 32"
  shows "swap_ok V m" "total_size m = n * 2 ^ sh"
proof -
  have "takeWhile ((\<le>) 0) (swapFiles m) = take n (swapFiles m)"
    using s by (intro takeWhile_eq_take_P_nth) (auto simp: swap_set_def)
  then have c: "swap_count m = n"
    using s n by (simp add: swap_count_def swap_set_def)
  then show t: "total_size m = n * 2 ^ sh"
    by (simp add: total_size_def sh)
  have "fs_hnd V (files m) (swapFiles m ! i) \<noteq> fs_hnd V (files m) (swapFiles m ! j)"
    if "i < n" "j < n" "i \<noteq> j" for i j
    using s that swap_name_inj [of i j loc] n by (auto simp: swap_set_def MAX_SWAP_FILES_def)
  moreover have "\<exists>name c. fs_hnd V (files m) (swapFiles m ! j) = Some name \<and>
      fs_disk V (files m) name = Some c \<and> 2 ^ sh \<le> length c" if "j < n" for j
    using s that sh(1) by (auto simp: swap_set_def)
  ultimately show "swap_ok V m"
    using s sh t by (simp add: swap_ok_def c swap_set_def)
qed

text \<open>Swap files that did not exist before hold zeros.\<close>

lemma swap_at_zero:
  fixes m :: "('x::len, 'f) dos_memory"
  assumes s: "swap_set V loc F f0 n m" and w: "swap_ok V m" "swap_count m = n"
    and new: "\<And>i. i < n \<Longrightarrow> fs_disk V f0 (swap_name loc i) = None"
    and a: "a < total_size m" "MEM_PAGE_SIZE TYPE('x) dvd a"
  shows "swap_at V m a = replicate (MEM_PAGE_SIZE TYPE('x)) 0"
proof -
  define j where "j = a div 2 ^ fileNoShift m"
  have j: "j < n"
    using a(1) w(2) by (simp add: j_def total_size_def less_mult_imp_div_less)
  obtain z where z: "file_at V (files m) (swap_handle m a) = Some (replicate z 0)"
    using s j new [OF j] by (auto simp: swap_set_def file_at_def swap_handle_def j_def [symmetric] swap_bytes_def)
  have "length (swap_at V m a) = MEM_PAGE_SIZE TYPE('x)"
    by (rule length_swap_at [OF w(1) a])
  then show ?thesis
    using z by (simp add: swap_at_def slice_at_def)
qed

lemma bytes_of_zero:
  fixes m :: "('x::len, 'f) dos_memory"
  assumes "\<And>a. a < total_size m \<Longrightarrow> MEM_PAGE_SIZE TYPE('x) dvd a \<Longrightarrow>
    page_view V m a = replicate (MEM_PAGE_SIZE TYPE('x)) 0"
  shows "bytes_of V m = replicate (total_size m) 0"
proof (rule nth_equalityI)
  fix k assume k: "k < length (bytes_of V m)"
  then have "page_view V m (k - k mod MEM_PAGE_SIZE TYPE('x)) = replicate (MEM_PAGE_SIZE TYPE('x)) 0"
    by (intro assms) (simp_all add: less_imp_diff_less dvd_minus_mod)
  with k show "bytes_of V m ! k = replicate (total_size m) 0 ! k"
    by (simp add: bytes_of_def)
qed simp

lemma pow2_file_size:
  assumes "n \<in> set [1, 2, 4, 8]" "k \<le> 10"
  obtains sh where "2 ^ k * (2 ^ 20 div n) = (2 :: nat) ^ sh" "17 \<le> sh" "sh \<le> 30" "n * 2 ^ sh = 2 ^ k * (2 :: nat) ^ 20"
proof -
  from assms(1) consider "n = 1" | "n = 2" | "n = 4" | "n = 8"
    by auto
  then show ?thesis
  proof cases
    case 1
    with that [of "k + 20"] assms(2) show ?thesis by (simp add: power_add)
  next
    case 2
    with that [of "k + 19"] assms(2) show ?thesis by (simp add: power_add)
  next
    case 3
    with that [of "k + 18"] assms(2) show ?thesis by (simp add: power_add)
  next
    case 4
    with that [of "k + 17"] assms(2) show ?thesis by (simp add: power_add)
  qed
qed

text \<open>The phases of a construction that succeeds.\<close>

lemma dos_mem_init_phases:
  fixes m :: "('x::len, 'f) dos_memory"
  assumes r: "dos_mem_init api malloc_ok sz loc n m = Some (True, m')"
    and mk: "maskLoop (swap_file_size sz n) 0 0 = Some (pm, sh)"
  obtains m1 m4 where "n \<in> set [1, 2, 4, 8]"
    "allocLoop malloc_ok [0..<MEM_PAGES TYPE('x)] (log_line (log_line (zero_memory m))) = (True, m1)"
    "openLoop api loc (swap_file_size sz n) [0..<n] ((log_line (m1\<lparr>filePosMask := pm, fileNoShift := sh\<rparr>))
       \<lparr>swapFiles := replicate MAX_SWAP_FILES (- 1)\<rparr>) = Some (True, m4)"
    "m' = (fold (initPage api) [0..<MEM_PAGES TYPE('x)] m4)
       \<lparr>lruListHead := 0, pm_dev := \<lparr>dev_size = sz, dev_cb = Some RAM\<rparr>\<rparr>"
  using r mk
  by (auto simp: dos_mem_init_def Let_def nSwFilesValid_def intro: that
      split: if_splits prod.splits option.splits bool.splits)

lemma init_file_size:
  fixes sz :: "'x::len word"
  assumes x: "valid_xlen TYPE('x)" and n: "n \<in> set [1, 2, 4, 8]" and sz: "unat sz = 2 ^ k * 2 ^ 20" "k \<le> 10"
  obtains sh where "17 \<le> sh" "n * 2 ^ sh = unat sz" "n * 2 ^ sh \<le> (2 :: nat) ^ 32"
    "unat (swap_file_size sz n) = 2 ^ sh" "unat (swap_file_size sz n) \<le> 2 ^ 31"
    "maskLoop (swap_file_size sz n) 0 0 = Some (mask sh, sh)"
proof -
  define F where "F = swap_file_size sz n"
  obtain sh where sh: "2 ^ k * (2 ^ 20 div n) = (2 :: nat) ^ sh" "17 \<le> sh" "sh \<le> 30" "n * 2 ^ sh = 2 ^ k * (2 :: nat) ^ 20"
    by (rule pow2_file_size [OF n sz(2)])
  have k: "2 ^ k \<le> (1024 :: nat)"
    using sz(2) power_increasing [of k 10 "2 :: nat"] by simp
  then have F: "unat F = 2 ^ sh"
    unfolding F_def sh(1) [symmetric] by (intro swap_file_size_eq [OF x n sz(1)])
  then have "of_nat (unat F) = (2 ^ sh :: 32 word)"
    by simp
  then have "maskLoop F 0 0 = Some (mask sh, sh)"
    using maskLoop_bit [of F sh 0 0] sh(3) by (simp add: bit_exp_iff)
  moreover have "unat F \<le> 2 ^ 31"
    unfolding F by (intro power_increasing) (use sh(3) in simp_all)
  moreover have "n * 2 ^ sh \<le> (1024 :: nat) * 2 ^ 20"
    unfolding sh(4) using k by (rule mult_le_mono1)
  ultimately show ?thesis
    using that [of sh] sh F by (simp add: F_def sz(1))
qed

lemma init_opened:
  fixes sz :: "'x::len word" and m :: "('x, 'f) dos_memory"
  assumes d: "dos_files api V" and n: "n \<in> set [1, 2, 4, 8]"
    and F: "unat (swap_file_size sz n) \<le> 2 ^ 31" "maskLoop (swap_file_size sz n) 0 0 = Some (mask sh, sh)"
    and c: "\<And>i c. i < n \<Longrightarrow> fs_disk V (files m) (swap_name loc i) = Some c \<Longrightarrow> length c < 2 ^ 32"
    and r: "dos_mem_init api malloc_ok sz loc n m = Some (True, m')"
  obtains m4 where "swap_set V loc (swap_file_size sz n) (files m) n m4" "fileNoShift m4 = sh" "filePosMask m4 = mask sh"
    "length (pages m4) = MEM_PAGES TYPE('x)"
    "\<forall>i < MEM_PAGES TYPE('x). pages m4 ! i = zero_page\<lparr>pg_data := Some (replicate (MEM_PAGE_SIZE TYPE('x)) 0)\<rparr>"
    "m' = (fold (initPage api) [0..<MEM_PAGES TYPE('x)] m4)\<lparr>lruListHead := 0, pm_dev := \<lparr>dev_size = sz, dev_cb = Some RAM\<rparr>\<rparr>"
proof -
  define m0 where "m0 = log_line (log_line (zero_memory m))"
  obtain m1 m4 where m1: "allocLoop malloc_ok [0..<MEM_PAGES TYPE('x)] m0 = (True, m1)"
    and m4': "openLoop api loc (swap_file_size sz n) [0..<n] ((log_line (m1\<lparr>filePosMask := mask sh, fileNoShift := sh\<rparr>))
       \<lparr>swapFiles := replicate MAX_SWAP_FILES (- 1)\<rparr>) = Some (True, m4)"
    and m': "m' = (fold (initPage api) [0..<MEM_PAGES TYPE('x)] m4)\<lparr>lruListHead := 0, pm_dev := \<lparr>dev_size = sz, dev_cb = Some RAM\<rparr>\<rparr>"
    unfolding m0_def by (rule dos_mem_init_phases [OF r F(2)])
  define m3 where "m3 = (log_line (m1\<lparr>filePosMask := mask sh, fileNoShift := sh\<rparr>))\<lparr>swapFiles := replicate MAX_SWAP_FILES (- 1)\<rparr>"
  obtain ps where ps: "m1 = m0\<lparr>pages := ps\<rparr>" "length ps = MEM_PAGES TYPE('x)"
    "\<And>i. i < MEM_PAGES TYPE('x) \<Longrightarrow> ps ! i = zero_page\<lparr>pg_data := Some (replicate (MEM_PAGE_SIZE TYPE('x)) 0)\<rparr>"
    using allocLoop_ok [OF m1] by (auto simp: m0_def zero_memory_def)
  have n8: "n \<le> MAX_SWAP_FILES" "0 \<le> n"
    using n by (auto simp: MAX_SWAP_FILES_def)
  have "swap_set V loc (swap_file_size sz n) (files m) 0 m3"
    by (simp add: swap_set_def m3_def ps(1) m0_def zero_memory_def)
  from openLoop_ok [OF d F(1) n8(1) c n8(2) this m4' [folded m3_def]]
  have m4: "swap_set V loc (swap_file_size sz n) (files m) n m4" "pages m4 = ps" "fileNoShift m4 = sh" "filePosMask m4 = mask sh"
    by (simp_all add: m3_def ps(1))
  show ?thesis
    by (rule that [OF m4(1,3,4) _ _ m']) (simp_all add: m4(2) ps)
qed

lemma dos_mem_init_ok:
  fixes sz :: "'x::len word" and m :: "('x, 'f) dos_memory"
  assumes x: "valid_xlen TYPE('x)" and io: "dos_io api V" and d: "dos_files api V"
    and sz: "unat sz = 2 ^ k * 2 ^ 20" "k \<le> 10"
    and c: "\<And>i c. i < n \<Longrightarrow> fs_disk V (files m) (swap_name loc i) = Some c \<Longrightarrow> length c < 2 ^ 32"
    and r: "dos_mem_init api malloc_ok sz loc n m = Some (True, m')"
  shows "wf_paged V m'" "total_size m' = unat sz"
    "(\<forall>i < n. fs_disk V (files m) (swap_name loc i) = None) \<longrightarrow> bytes_of V m' = replicate (unat sz) 0"
proof -
  let ?N = "MEM_PAGES TYPE('x)"
  have n: "n \<in> set [1, 2, 4, 8]"
    using r by (auto simp: dos_mem_init_def Let_def nSwFilesValid_def split: if_splits)
  then have n8: "n \<le> MAX_SWAP_FILES"
    by (auto simp: MAX_SWAP_FILES_def)
  obtain sh where sh: "17 \<le> sh" "n * 2 ^ sh = unat sz" "n * 2 ^ sh \<le> (2 :: nat) ^ 32"
    and F: "unat (swap_file_size sz n) = 2 ^ sh" "unat (swap_file_size sz n) \<le> 2 ^ 31"
      "maskLoop (swap_file_size sz n) 0 0 = Some (mask sh, sh)"
    by (rule init_file_size [OF x n sz])
  obtain m4 where m4: "swap_set V loc (swap_file_size sz n) (files m) n m4" "fileNoShift m4 = sh" "filePosMask m4 = mask sh"
    and ps: "length (pages m4) = ?N"
      "\<forall>i < ?N. pages m4 ! i = zero_page\<lparr>pg_data := Some (replicate (MEM_PAGE_SIZE TYPE('x)) 0)\<rparr>"
    and m': "m' = (fold (initPage api) [0..<?N] m4)\<lparr>lruListHead := 0, pm_dev := \<lparr>dev_size = sz, dev_cb = Some RAM\<rparr>\<rparr>"
    by (rule init_opened [OF d n F(2,3) c r])
  have "MEM_PAGE_ADDR_SHIFT TYPE('x) \<le> sh"
    using page_size_word(2) [where 'x = 'x] sh(1) by simp
  note ok = swap_set_ok [OF m4(1) n8 F(1) m4(2,3) this sh(3)]
  have big: "2 ^ 20 \<le> total_size m4"
    unfolding ok(2) sh(2) sz(1) by simp
  obtain g u where fill: "fold (initPage api) [0..<?N] m4 = m4\<lparr>files := g, ui := u,
      pages := map (\<lambda>i. if i < ?N then first_page V m4 i (pages m4 ! i) else pages m4 ! i) [0..<?N]\<rparr>"
    "same_files V (files m4) g"
    using fill_pages [OF io ok(1) big, of ?N] ps by auto
  have "map (\<lambda>i. if i < ?N then first_page V m4 i (pages m4 ! i) else pages m4 ! i) [0..<?N] =
      map (\<lambda>i. first_page V m4 i (pages m4 ! i)) [0..<?N]"
    by simp
  with m' fill(1) have m'': "m' = m4\<lparr>files := g, ui := u, pages := map (\<lambda>i. first_page V m4 i (pages m4 ! i)) [0..<?N],
     lruListHead := 0, pm_dev := \<lparr>dev_size = sz, dev_cb = Some RAM\<rparr>\<rparr>"
    by simp
  have z: "pg_next (pages m4 ! i) = None \<and> pg_prev (pages m4 ! i) = None \<and> \<not> pg_freed (pages m4 ! i)" if "i < ?N" for i
    using ps(2) that by (simp add: zero_page_def)
  note fin = filled_pages_ok [OF ok(1) big ps(1) z fill(2), where u = u and d = "\<lparr>dev_size = sz, dev_cb = Some RAM\<rparr>", folded m'']
  show "wf_paged V m'"
    by (rule fin(1))
  show t: "total_size m' = unat sz"
    by (simp add: fin(2) ok(2) sh(2))
  have "swap_count m4 = n"
    using ok(2) by (simp add: total_size_def m4(2))
  from swap_at_zero [OF m4(1) ok(1) this] fin(2,3) t
  show "(\<forall>i < n. fs_disk V (files m) (swap_name loc i) = None) \<longrightarrow> bytes_of V m' = replicate (unat sz) 0"
    using bytes_of_zero [of m' V] by simp
qed

end
