(* ===== verification/Dos_Main.thy ===== *)
theory Dos_Main
  imports Paged_Init VM_Main
begin

text \<open>
  The command line of the DOS build and the memory it asks for (\<^verbatim>\<open>_parseArgs\<close> and \<^verbatim>\<open>main\<close> of
  \<^verbatim>\<open>src/src/main.c\<close> with \<^verbatim>\<open>CONFIG_DOS\<close>). On that host an \<^verbatim>\<open>unsigned int\<close> has 16 bits and an
  \<^verbatim>\<open>unsigned long\<close> 32.
\<close>

section \<open>Options\<close>

record dos_options =
  dos_kernelFile :: "string option"
  dos_binFile :: "string option"
  dos_swapLocation :: "string option"
  dos_nSwapFiles :: "16 word"
  dos_noSBI :: bool
  dos_memSizeMb :: "16 word"

datatype dos_opt = DOS_OPT_k string | DOS_OPT_b string | DOS_OPT_s string | DOS_OPT_n string | DOS_OPT_no_sbi
  | DOS_OPT_m string | DOS_OPT_other

primrec dos_parseLoop :: "dos_opt list \<Rightarrow> dos_options \<Rightarrow> bool \<times> dos_options" where
  "dos_parseLoop [] op = (True, op)"
| "dos_parseLoop (x # xs) op =
     (case x of
        DOS_OPT_k f \<Rightarrow> dos_parseLoop xs (op\<lparr>dos_kernelFile := Some f\<rparr>)
      | DOS_OPT_b f \<Rightarrow> dos_parseLoop xs (op\<lparr>dos_binFile := Some f\<rparr>)
      | DOS_OPT_s f \<Rightarrow> dos_parseLoop xs (op\<lparr>dos_swapLocation := Some f\<rparr>)
      | DOS_OPT_n v \<Rightarrow> dos_parseLoop xs (op\<lparr>dos_nSwapFiles := ucast (strtoul10 v :: 32 word)\<rparr>)
      | DOS_OPT_no_sbi \<Rightarrow> dos_parseLoop xs (op\<lparr>dos_noSBI := True\<rparr>)
      | DOS_OPT_m v \<Rightarrow> dos_parseLoop xs (op\<lparr>dos_memSizeMb := ucast (strtoul10 v :: 32 word)\<rparr>)
      | DOS_OPT_other \<Rightarrow> (False, op))"

definition dos_parseArgs :: "dos_opt list \<Rightarrow> bool \<times> dos_options" where
  "dos_parseArgs xs =
     (case dos_parseLoop xs \<lparr>dos_kernelFile = None, dos_binFile = None, dos_swapLocation = None, dos_nSwapFiles = 0,
         dos_noSBI = False, dos_memSizeMb = 0\<rparr> of (ok, op) \<Rightarrow>
        if \<not> ok then (False, op)
        else if dos_kernelFile op \<noteq> None \<and> dos_binFile op \<noteq> None then (False, op)
        else if dos_kernelFile op = None \<and> dos_binFile op = None then (False, op)
        else if dos_memSizeMb op < 1 \<or> dos_memSizeMb op > 1024 then (False, op)
        else if dos_swapLocation op = None then (False, op)
        else
          let op' = (if dos_nSwapFiles op = 0 then op\<lparr>dos_nSwapFiles := 1\<rparr> else op) in
          if dos_nSwapFiles op' \<noteq> 1 \<and> dos_nSwapFiles op' \<noteq> 2 \<and> dos_nSwapFiles op' \<noteq> 4 \<and> dos_nSwapFiles op' \<noteq> 8
          then (False, op') else (True, op'))"

section \<open>The memory\<close>

text \<open>The start of \<^verbatim>\<open>main\<close> up to the memory. The struct \<^verbatim>\<open>_vm\<close> is static, so all zero when the program starts. A
  refused command line logs its message and the usage, which redraws the status line; both error exits run
  \<^verbatim>\<open>_vmDestroy\<close>, whose only part with an effect here is \<^verbatim>\<open>mem_destroy\<close>.\<close>

definition dos_ram_init ::
  "'f dos_api \<Rightarrow> (nat \<Rightarrow> bool) \<Rightarrow> dos_opt list \<Rightarrow> ('x::len, 'f) dos_memory \<Rightarrow> (bool \<times> ('x, 'f) dos_memory) option" where
  "dos_ram_init api malloc_ok args m0 =
     (let m = upd_ui ui_init (zero_memory m0) in
      case dos_parseArgs args of (ok, op) \<Rightarrow>
        if \<not> ok then Some (False, dos_mem_destroy api (log_line m))
        else (case dos_mem_init api malloc_ok (ucast ((ucast (dos_memSizeMb op) :: 64 word) * 1024 * 1024))
              (the (dos_swapLocation op)) (unat (dos_nSwapFiles op)) m of
            None \<Rightarrow> None
          | Some (False, m1) \<Rightarrow> Some (False, dos_mem_destroy api m1)
          | Some (True, m1) \<Rightarrow> Some (True, m1)))"

lemma dos_parseArgs_accepted:
  assumes "dos_parseArgs xs = (True, op)"
  shows "1 \<le> unat (dos_memSizeMb op)" "unat (dos_memSizeMb op) \<le> 1024" "dos_swapLocation op \<noteq> None"
    "nSwFilesValid (unat (dos_nSwapFiles op))" "(dos_kernelFile op = None) \<noteq> (dos_binFile op = None)"
proof -
  have "\<not> dos_memSizeMb op < 1 \<and> \<not> 1024 < dos_memSizeMb op \<and> dos_swapLocation op \<noteq> None \<and>
      dos_nSwapFiles op \<in> {1, 2, 4, 8} \<and> (dos_kernelFile op = None) \<noteq> (dos_binFile op = None)"
    using assms by (auto simp: dos_parseArgs_def Let_def split: prod.splits if_splits)
  then show "1 \<le> unat (dos_memSizeMb op)" "unat (dos_memSizeMb op) \<le> 1024" "dos_swapLocation op \<noteq> None"
    "nSwFilesValid (unat (dos_nSwapFiles op))" "(dos_kernelFile op = None) \<noteq> (dos_binFile op = None)"
    by (auto simp: word_less_nat_alt not_less nSwFilesValid_def)
qed

lemma dos_ram_init_accepted:
  fixes m :: "('x::len, 'f) dos_memory"
  assumes x: "valid_xlen TYPE('x)" and p: "dos_parseArgs args = (True, op)"
  obtains sz :: "'x word" and r where "unat sz = unat (dos_memSizeMb op) * 2 ^ 20"
    "dos_mem_init api malloc_ok sz (the (dos_swapLocation op)) (unat (dos_nSwapFiles op))
       (upd_ui ui_init (zero_memory m)) = Some r"
    "dos_ram_init api malloc_ok args m = Some (fst r, if fst r then snd r else dos_mem_destroy api (snd r))"
proof -
  note a = dos_parseArgs_accepted [OF p]
  define sz where "sz = (ucast ((ucast (dos_memSizeMb op) :: 64 word) * 1024 * 1024) :: 'x word)"
  have sz: "unat sz = unat (dos_memSizeMb op) * 2 ^ 20"
    using unat_megabytes [OF x a(2)] by (simp add: sz_def)
  then obtain r where r: "dos_mem_init api malloc_ok sz (the (dos_swapLocation op)) (unat (dos_nSwapFiles op))
      (upd_ui ui_init (zero_memory m)) = Some r"
    using dos_mem_init_returns [OF x, of sz "unat (dos_memSizeMb op)"] a(1,2) by fastforce
  have "dos_ram_init api malloc_ok args m = Some (fst r, if fst r then snd r else dos_mem_destroy api (snd r))"
    using r [unfolded sz_def] by (cases r) (auto simp: dos_ram_init_def p Let_def split: bool.split)
  with that sz r show ?thesis
    by blast
qed

lemma dos_ram_init_returns:
  fixes m :: "('x::len, 'f) dos_memory"
  assumes x: "valid_xlen TYPE('x)"
  shows "\<exists>r. dos_ram_init api malloc_ok args m = Some r"
proof (cases "fst (dos_parseArgs args)")
  case True
  then obtain op where "dos_parseArgs args = (True, op)"
    by (metis prod.collapse)
  then show ?thesis
    by (rule dos_ram_init_accepted [OF x, of args _ api malloc_ok m]) blast
qed (auto simp: dos_ram_init_def Let_def split_def)

section \<open>Giving up before there is a memory\<close>

text \<open>Destroying the zeroed struct: there is no page to store or to free, but every entry of \<^verbatim>\<open>swapFiles\<close> is 0, which
  counts as an open file, so handle 0 is closed once for each.\<close>

lemma destroy_zero_pages:
  fixes m :: "('x::len, 'f) dos_memory"
  assumes "pages m = replicate (MEM_PAGES TYPE('x)) zero_page" "fileNoShift m = 0" "\<forall>i \<in> set is. i < MEM_PAGES TYPE('x)"
  shows "fold (destroyPage api) is m = m"
  using assms by (induction "is") (simp_all add: destroyPage_def freePage_def zero_page_def)

lemma close_zero_files:
  assumes "swapFiles m = replicate MAX_SWAP_FILES 0" "\<forall>i \<in> set is. i < MAX_SWAP_FILES"
  shows "fold (closeSwap api) is m = m\<lparr>files := (dos_close api 0 ^^ length is) (files m)\<rparr>"
  using assms
proof (induction "is" arbitrary: m)
  case (Cons i "is")
  then show ?case
    by (simp add: closeSwap_def funpow_swap1)
qed simp

lemma dos_ram_init_refused:
  fixes m :: "('x::len, 'f) dos_memory"
  assumes "\<not> fst (dos_parseArgs args)"
  obtains m' where "dos_ram_init api malloc_ok args m = Some (False, m')"
    "files m' = (dos_close api 0 ^^ MAX_SWAP_FILES) (files m)"
proof -
  define m1 where "m1 = log_line (upd_ui ui_init (zero_memory m))"
  have m1: "pages m1 = replicate (MEM_PAGES TYPE('x)) zero_page" "fileNoShift m1 = 0"
    "swapFiles m1 = replicate MAX_SWAP_FILES 0" "files m1 = files m"
    by (simp_all add: m1_def zero_memory_def)
  have "dos_mem_destroy api m1 = m1\<lparr>files := (dos_close api 0 ^^ MAX_SWAP_FILES) (files m)\<rparr>"
    unfolding dos_mem_destroy_def using destroy_zero_pages [OF m1(1,2)] close_zero_files [OF m1(3)] m1(4) by simp
  then show ?thesis
    using that assms by (simp add: dos_ram_init_def Let_def split_def m1_def)
qed

end
