(* ===== verification/Paged_Props.thy ===== *)
theory Paged_Props
  imports Dos_Main Device_Props
begin

text \<open>
  Properties of the DOS build: its paged memory refines the flat memory of the other build, its
  construction, what goes wrong when the memory size is not a power of two or a page cannot be
  loaded, and the bounds of the status line. The witnesses run on \<open>ram_dos\<close>, a file system held in
  memory.
\<close>

section \<open>A file system in memory\<close>

record ram_dos =
  rd_disk :: "string \<Rightarrow> byte list option"
  rd_hnd :: "int \<Rightarrow> string option"
  rd_pos :: "int \<Rightarrow> nat"
  rd_next :: int

definition rd_alloc :: "string \<Rightarrow> ram_dos \<Rightarrow> int option \<times> ram_dos" where
  "rd_alloc name f =
     (if 0 \<le> rd_next f \<and> rd_hnd f (rd_next f) = None
      then (Some (rd_next f), f\<lparr>rd_hnd := (rd_hnd f)(rd_next f \<mapsto> name), rd_next := rd_next f + 1\<rparr>)
      else (None, f))"

definition rd_file :: "ram_dos \<Rightarrow> int \<Rightarrow> byte list" where
  "rd_file f h = (case rd_hnd f h of None \<Rightarrow> [] | Some name \<Rightarrow> case_option [] (\<lambda>c. c) (rd_disk f name))"

definition rd_seek :: "8 word \<Rightarrow> int \<Rightarrow> 16 word \<Rightarrow> 16 word \<Rightarrow> ram_dos \<Rightarrow> (16 word \<times> 16 word) option \<times> ram_dos" where
  "rd_seek al h cx dx f =
     (let off = unat (push_bit 16 (ucast cx) OR ucast dx :: 32 word);
          p = (if al = 0 then off else if al = 1 then rd_pos f h + off else length (rd_file f h) + off);
          w = of_nat p :: 32 word
      in (Some (ucast (drop_bit 16 w), ucast w), f\<lparr>rd_pos := (rd_pos f)(h := p)\<rparr>))"

definition rd_write :: "int \<Rightarrow> byte list \<Rightarrow> ram_dos \<Rightarrow> nat \<times> ram_dos" where
  "rd_write h buf f =
     (case rd_hnd f h of
        None \<Rightarrow> (0, f)
      | Some name \<Rightarrow> (length buf, f\<lparr>rd_disk := (rd_disk f)(name \<mapsto> splice_at (rd_pos f h) buf (rd_file f h)),
           rd_pos := (rd_pos f)(h := rd_pos f h + length buf)\<rparr>))"

definition ram_api :: "ram_dos dos_api" where
  "ram_api = \<lparr>dos_open = (\<lambda>name f. if rd_disk f name = None then (None, f) else rd_alloc name f),
     dos_creat = (\<lambda>name f. case rd_alloc name f of
        (None, g) \<Rightarrow> (None, g) | (Some h, g) \<Rightarrow> (Some h, g\<lparr>rd_disk := (rd_disk g)(name \<mapsto> [])\<rparr>)),
     dos_close = (\<lambda>h f. f\<lparr>rd_hnd := (rd_hnd f)(h := None)\<rparr>),
     dos_read = (\<lambda>h n f. (slice_at (rd_pos f h) n (rd_file f h), f\<lparr>rd_pos := (rd_pos f)(h := rd_pos f h + n)\<rparr>)),
     dos_write = rd_write, dos_int21_42 = rd_seek\<rparr>"

definition ram_view :: "ram_dos fs_view" where
  "ram_view = \<lparr>fs_disk = rd_disk, fs_hnd = rd_hnd, fs_pos = rd_pos\<rparr>"

lemma join_words:
  "push_bit 16 (ucast (ucast (drop_bit 16 w) :: 16 word)) OR ucast (ucast w :: 16 word) = (w :: 32 word)"
  by (intro bit_word_eqI) (auto simp: bit_simps)

lemma rd_file_at: "file_at ram_view f h = Some c \<Longrightarrow> rd_file f h = c"
  by (auto simp: file_at_def ram_view_def rd_file_def bind_eq_Some_conv)

lemma ram_io: "dos_io ram_api ram_view"
  unfolding dos_io_def
proof (intro conjI allI impI; (elim conjE)?)
  fix f h c and off :: "32 word"
  show "\<exists>r g. dos_int21_42 ram_api DOS_SEEK_SET h (ucast (drop_bit 16 off)) (ucast off) f = (Some r, g) \<and>
      same_files ram_view f g \<and> fs_pos ram_view g h = unat off"
    by (simp add: ram_api_def rd_seek_def Let_def join_words DOS_SEEK_SET_def same_files_def ram_view_def)
next
  fix f h c n assume "file_at ram_view f h = Some c"
  from rd_file_at [OF this] show "\<exists>g. dos_read ram_api h n f = (slice_at (fs_pos ram_view f h) n c, g) \<and> same_files ram_view f g"
    by (simp add: ram_api_def ram_view_def same_files_def)
next
  fix f h name c buf assume a: "fs_hnd ram_view f h = Some name" "fs_disk ram_view f name = Some c"
  then have "rd_file f h = c"
    by (simp add: rd_file_def ram_view_def)
  with a show "\<exists>g. dos_write ram_api h buf f = (length buf, g) \<and> fs_hnd ram_view g = fs_hnd ram_view f \<and>
      fs_disk ram_view g = (fs_disk ram_view f)(name \<mapsto> splice_at (fs_pos ram_view f h) buf c)"
    by (simp add: ram_api_def ram_view_def rd_write_def)
qed

lemma ram_files: "dos_files ram_api ram_view"
  unfolding dos_files_def
proof (intro conjI)
  show "dos_open_law ram_api ram_view" "dos_creat_law ram_api ram_view"
    by (auto simp: dos_open_law_def dos_creat_law_def ram_api_def ram_view_def same_files_def rd_alloc_def opened_def
        split: option.split)
  show "dos_close_law ram_api ram_view"
    by (simp add: dos_close_law_def ram_api_def ram_view_def)
  show "dos_end_law ram_api ram_view"
    using rd_file_at by (auto simp: dos_end_law_def ram_api_def rd_seek_def DOS_SEEK_END_def same_files_def ram_view_def Let_def)
  show "dos_tell_law ram_api ram_view"
    by (auto simp: dos_tell_law_def ram_api_def rd_seek_def DOS_SEEK_CUR_def same_files_def ram_view_def Let_def)
  show "dos_append_law ram_api ram_view"
    by (auto simp: dos_append_law_def ram_api_def ram_view_def rd_write_def rd_file_def splice_at_def)
qed

text \<open>A memory before its construction, with one swap file of zeros on the disk.\<close>

definition ram_ui :: ui_state where
  "ram_ui = \<lparr>statusLine = replicate 80 0, pageStatus = 32, ui_idling = False, swapRdKb = 0, swapWrKb = 0,
     videoMem = replicate 2000 0, ui_ub = False\<rparr>"

definition ram_mem :: "nat \<Rightarrow> (32, ram_dos) dos_memory" where
  "ram_mem len = \<lparr>pages = [], lruListHead = 0, swapFiles = [], filePosMask = 0, fileNoShift = 0,
     pm_dev = \<lparr>dev_size = 0, dev_cb = None\<rparr>,
     files = \<lparr>rd_disk = [swap_name ''C:'' 0 \<mapsto> replicate len 0], rd_hnd = Map.empty, rd_pos = (\<lambda>_. 0), rd_next = 5\<rparr>,
     ui = ram_ui, pm_ub = False\<rparr>"

lemma allocLoop_all: "fst (allocLoop (\<lambda>_. True) is m) = True \<and> files (snd (allocLoop (\<lambda>_. True) is m)) = files m"
  by (induction "is" arbitrary: m) simp_all

lemma ram_open:
  assumes "rd_disk f name = Some c" "0 \<le> rd_next f" "rd_hnd f (rd_next f) = None"
  shows "dosFOpen ram_api name f = (rd_next f, f\<lparr>rd_hnd := (rd_hnd f)(rd_next f \<mapsto> name), rd_next := rd_next f + 1\<rparr>)"
  using assms by (simp add: dosFOpen_def ram_api_def rd_alloc_def)

lemma ram_end:
  "dosFTell ram_api h (snd (dosFSeek ram_api h 0 DOS_SEEK_END f)) =
     (of_nat (length (rd_file f h)), f\<lparr>rd_pos := (rd_pos f)(h := length (rd_file f h))\<rparr>)"
  by (simp add: dosFTell_def dosFSeek_def ram_api_def rd_seek_def Let_def DOS_SEEK_END_def DOS_SEEK_CUR_def join_words)

lemma ram_openSwap:
  fixes m :: "('x::len, ram_dos) dos_memory"
  assumes f: "files m = files (ram_mem len)" and l: "unat F \<le> len" "len < 2 ^ 32"
  shows "\<exists>m'. openSwap ram_api ''C:'' F 0 m = Some (True, m')"
proof -
  define name where "name = swap_name ''C:'' 0"
  have e: "\<not> of_nat len < F"
    using l by (simp add: word_less_nat_alt unat_of_nat)
  have x: "extendLoop ram_api 5 0 (of_nat len) F m1 = Some (True, m1)" for m1 :: "('x, ram_dos) dos_memory"
    using e by (subst extendLoop.simps) simp
  define g where "g = (files m)\<lparr>rd_hnd := [5 \<mapsto> name], rd_next := 6\<rparr>"
  have o: "dosFOpen ram_api name (files m) = (5, g)" "length (rd_file g 5) = len"
    by (simp_all add: f ram_mem_def name_def g_def ram_open rd_file_def)
  have "dosFOpen ram_api name (dos_close ram_api 5 (g\<lparr>rd_pos := p\<rparr>)) =
      (6, g\<lparr>rd_pos := p, rd_hnd := [6 \<mapsto> name], rd_next := 7\<rparr>)" for p
    by (simp add: ram_open ram_api_def [THEN arg_cong, of dos_close] g_def f ram_mem_def name_def)
  with o x show ?thesis
    by (simp add: openSwap_def name_def [symmetric] Let_def ram_end)
qed

text \<open>On this file system the construction succeeds when the swap file is large enough.\<close>

lemma ram_init:
  assumes l: "unat (swap_file_size (sz :: 32 word) 1) \<le> len" "len < 2 ^ 32" and z: "swap_file_size sz 1 \<noteq> 0"
    and fs: "files s = files (ram_mem len)"
  obtains m where "dos_mem_init ram_api (\<lambda>_. True) sz ''C:'' 1 s = Some (True, m)"
proof -
  obtain pm k where k: "maskLoop (swap_file_size sz 1) 0 0 = Some (pm, k)"
    by (rule maskLoop_returns [OF z])
  define m0 where "m0 = log_line (log_line (zero_memory s))"
  define m1 where "m1 = snd (allocLoop (\<lambda>_. True) [0..<MEM_PAGES TYPE(32)] m0)"
  have m1: "allocLoop (\<lambda>_. True) [0..<MEM_PAGES TYPE(32)] m0 = (True, m1)"
    using allocLoop_all [of "[0..<MEM_PAGES TYPE(32)]" m0] unfolding m1_def by (simp add: prod_eq_iff)
  have f: "files m1 = files (ram_mem len)"
    using fs allocLoop_all [of "[0..<MEM_PAGES TYPE(32)]" m0] by (simp add: m1_def m0_def zero_memory_def)
  define m3 where "m3 = (log_line (m1\<lparr>filePosMask := pm, fileNoShift := k\<rparr>))\<lparr>swapFiles := replicate MAX_SWAP_FILES (- 1)\<rparr>"
  obtain m4 where "openSwap ram_api ''C:'' (swap_file_size sz 1) 0 m3 = Some (True, m4)"
    using ram_openSwap [of m3 len, OF _ l] f by (auto simp: m3_def)
  then have o: "openLoop ram_api ''C:'' (swap_file_size sz 1) [0..<1] m3 = Some (True, m4)"
    by simp
  show ?thesis
    using that m1 k o unfolding dos_mem_init_def Let_def
    by (simp add: nSwFilesValid_def m0_def [symmetric] m3_def [symmetric])
qed

section \<open>The paged memory is a memory\<close>

text \<open>C6. The paged memory of the DOS build refines the flat memory of the other build: on states that hold
  the same bytes, reading, writing and comparing any range inside the memory return, give the same
  bytes and the same result, and leave states that again hold the same bytes.\<close>

theorem paged_refines_flat:
  fixes m :: "('x::len, 'f) dos_memory" and s :: "'x vm"
  assumes io: "dos_io api V" and w: "wf_paged V m" "wf_ram (ram s)" and e: "mem_data (ram s) = bytes_of V m"
    and a: "buf \<noteq> []" "unat a + length buf \<le> total_size m"
  shows "(\<exists>m'. dos_mem_read api a (length buf) m = Some (snd (mem_read s a buf), m') \<and> wf_paged V m' \<and>
       bytes_of V m' = mem_data (ram (fst (mem_read s a buf)))) \<and>
     (\<exists>m'. dos_mem_write api a buf m = Some m' \<and> wf_paged V m' \<and>
       bytes_of V m' = mem_data (ram (mem_write s a buf))) \<and>
     (\<exists>m'. dos_mem_cmp api a buf m = Some (snd (mem_cmp s a buf), m') \<and> wf_paged V m' \<and>
       bytes_of V m' = bytes_of V m)"
proof -
  have l: "unat a + length buf \<le> length (mem_data (ram s))" "0 < length buf"
    using a e by simp_all
  note flat = mem_read_ok [OF w(2) l(1) a(1)] mem_write_ok [OF w(2) l(1) a(1)]
  have "snd (mem_cmp s a buf) = memcmp (slice_at (unat a) (length buf) (mem_data (ram s))) buf"
    using l(1) by (simp add: mem_cmp_def Let_def)
  with dos_mem_access(1) [OF io w(1) l(2) a(2)] dos_mem_access(2,3) [OF io w(1) a] flat e show ?thesis
    by (auto simp: kept_def)
qed

lemma demo_swap_size: "unat (swap_file_size (0x100000 :: 32 word) 1) = 0x100000"
  using swap_file_size_eq [of 1 "0x100000 :: 32 word" 1] by simp

text \<open>A constructed memory of one megabyte on this file system.\<close>

lemma demo_paged:
  obtains m where "dos_mem_init ram_api (\<lambda>_. True) (0x100000 :: 32 word) ''C:'' 1 (ram_mem 0x100000) = Some (True, m)"
    "wf_paged ram_view m" "total_size m = 0x100000"
proof -
  have "swap_file_size (0x100000 :: 32 word) 1 \<noteq> 0"
  proof
    assume "swap_file_size (0x100000 :: 32 word) 1 = 0"
    with demo_swap_size show False
      by simp
  qed
  moreover have "unat (swap_file_size (0x100000 :: 32 word) 1) \<le> 0x100000" "(0x100000 :: nat) < 2 ^ 32"
    using demo_swap_size by simp_all
  ultimately obtain m where m: "dos_mem_init ram_api (\<lambda>_. True) (0x100000 :: 32 word) ''C:'' 1 (ram_mem 0x100000) = Some (True, m)"
    using ram_init [OF _ _ _ refl] by blast
  have c: "length x < 2 ^ 32"
    if "i < 1" "fs_disk ram_view (files (ram_mem 0x100000)) (swap_name ''C:'' i) = Some x" for i x
    using that by (auto simp: ram_view_def ram_mem_def split: if_splits)
  have sz: "unat (0x100000 :: 32 word) = 2 ^ 0 * 2 ^ 20"
    by simp
  show ?thesis
    using that [OF m] dos_mem_init_ok(1,2) [OF _ ram_io ram_files sz _ c m] by simp
qed

theorem paged_refines_flat_witness:
  "\<exists>m m' :: (32, ram_dos) dos_memory. dos_mem_write ram_api 0xFFFFE [1, 2] m = Some m' \<and>
     bytes_of ram_view m' = splice_at 0xFFFFE [1, 2] (bytes_of ram_view m)"
proof -
  obtain m where w: "wf_paged ram_view m" "total_size (m :: (32, ram_dos) dos_memory) = 0x100000"
    by (rule demo_paged)
  define s where "s = (zero_vm 0 :: 32 vm)\<lparr>ram := \<lparr>mem_data = bytes_of ram_view m,
      mem_dev = \<lparr>dev_size = 0x100000, dev_cb = Some RAM\<rparr>\<rparr>\<rparr>"
  have s: "wf_ram (ram s)" "mem_data (ram s) = bytes_of ram_view m"
    using w(2) by (simp_all add: s_def wf_ram_def)
  have b: "unat (0xFFFFE :: 32 word) + length [1, 2 :: byte] \<le> total_size m" "[1, 2 :: byte] \<noteq> []"
    by (simp_all add: w(2))
  then have "mem_data (ram (mem_write s 0xFFFFE [1, 2])) = splice_at (unat (0xFFFFE :: 32 word)) [1, 2] (bytes_of ram_view m)"
    using s w(2) by (subst mem_write_ok) simp_all
  with paged_refines_flat [OF ram_io w(1) s b(2,1)] show ?thesis
    by auto
qed

section \<open>Construction\<close>

text \<open>The construction enters nothing behind the files it was asked for.\<close>

lemma extendLoop_frame:
  "extendLoop api h n p F m = Some r \<Longrightarrow>
     swapFiles (snd r) = swapFiles m \<and> fileNoShift (snd r) = fileNoShift m"
  by (erule extendLoop.raw_induct [rotated, where P = "\<lambda>api h n p F m r.
      swapFiles (snd r) = swapFiles m \<and> fileNoShift (snd r) = fileNoShift m"])
    (auto split: if_splits prod.splits)

lemma openSwap_frame:
  assumes "openSwap api loc F i m = Some (ok, m')"
  shows "length (swapFiles m') = length (swapFiles m)" "j \<noteq> i \<Longrightarrow> swapFiles m' ! j = swapFiles m ! j"
    "fileNoShift m' = fileNoShift m" "ok \<Longrightarrow> i < length (swapFiles m) \<Longrightarrow> 0 \<le> swapFiles m' ! i"
  using assms
  by (auto simp: openSwap_def Let_def dest!: extendLoop_frame split: if_splits prod.splits option.splits bool.splits)

lemma openLoop_frame:
  assumes "openLoop api loc F is m = Some (ok, m')"
  shows "(j \<notin> set is \<longrightarrow> swapFiles m' ! j = swapFiles m ! j) \<and> fileNoShift m' = fileNoShift m"
  using assms
proof (induction "is" arbitrary: m)
  case (Cons i "is")
  then obtain b m1 where o: "openSwap api loc F i m = Some (b, m1)"
    by (auto split: option.splits)
  with Cons openSwap_frame [OF o] show ?case
    by (cases b) auto
qed simp

lemma openLoop_opened:
  assumes "openLoop api loc F is m = Some (True, m')" "j \<in> set is" "j < length (swapFiles m)" "distinct is"
  shows "0 \<le> swapFiles m' ! j"
  using assms
proof (induction "is" arbitrary: m)
  case (Cons i "is")
  then obtain m1 where o: "openSwap api loc F i m = Some (True, m1)" "openLoop api loc F is m1 = Some (True, m')"
    by (auto split: option.splits bool.splits)
  note f = openSwap_frame [OF o(1)] and g = openLoop_frame [OF o(2), of j]
  show ?case
  proof (cases "j = i")
    case True
    then show ?thesis
      using Cons.prems f(4) g by simp
  next
    case False
    then show ?thesis
      using Cons.IH [OF o(2)] Cons.prems f(1) by simp
  qed
qed simp

lemma initPage_frame:
  "swapFiles (initPage api i m) = swapFiles m" "fileNoShift (initPage api i m) = fileNoShift m"
  by (simp_all add: initPage_def loadPage_def Let_def split: option.split prod.split)

lemma fill_frame:
  "swapFiles (fold (initPage api) is m) = swapFiles m \<and> fileNoShift (fold (initPage api) is m) = fileNoShift m"
  by (induction "is" arbitrary: m) (simp_all add: initPage_frame)

lemma init_files:
  fixes m :: "('x::len, 'f) dos_memory"
  assumes r: "dos_mem_init api malloc_ok sz loc n m = Some (True, m')"
  shows "dev_size (pm_dev m') = sz" "i < MAX_SWAP_FILES \<Longrightarrow> 0 \<le> swapFiles m' ! i \<longleftrightarrow> i < n"
proof -
  obtain pm sh where "maskLoop (swap_file_size sz n) 0 0 = Some (pm, sh)"
    using r by (auto simp: dos_mem_init_def Let_def split: if_splits prod.splits bool.splits option.splits)
  then obtain m1 m4 where n: "n \<in> set [1, 2, 4, 8]"
    and o: "openLoop api loc (swap_file_size sz n) [0..<n] ((log_line (m1\<lparr>filePosMask := pm, fileNoShift := sh\<rparr>))
       \<lparr>swapFiles := replicate MAX_SWAP_FILES (- 1)\<rparr>) = Some (True, m4)"
    and m': "m' = (fold (initPage api) [0..<MEM_PAGES TYPE('x)] m4)
       \<lparr>lruListHead := 0, pm_dev := \<lparr>dev_size = sz, dev_cb = Some RAM\<rparr>\<rparr>"
    by (rule dos_mem_init_phases [OF r])
  show "dev_size (pm_dev m') = sz"
    by (simp add: m')
  show "i < MAX_SWAP_FILES \<Longrightarrow> 0 \<le> swapFiles m' ! i \<longleftrightarrow> i < n"
    using openLoop_frame [OF o, of i] openLoop_opened [OF o, of i] by (cases "i < n") (simp_all add: m' fill_frame)
qed

text \<open>C37. Setting up the paged memory always comes to an end: for every command line and whatever DOS and the
  allocator answer, the program either stops with an error or has its memory. It has it only if the
  command line names a swap location, an allowed number of swap files and a size of 1 to 1024 megabytes; then
  this is the size of the memory and exactly the swap files asked for are open. And when the command line is
  refused, the way out closes the file handle 0 once for every entry of the table of swap files.\<close>

theorem dos_memory_starts:
  fixes m :: "('x::len, 'f) dos_memory"
  assumes x: "valid_xlen TYPE('x)"
  shows "\<exists>ok m'. dos_ram_init api malloc_ok args m = Some (ok, m') \<and>
    (ok \<longrightarrow> (\<exists>op. dos_parseArgs args = (True, op) \<and> dos_swapLocation op \<noteq> None \<and> dos_nSwapFiles op \<in> {1, 2, 4, 8} \<and>
       1 \<le> unat (dos_memSizeMb op) \<and> unat (dos_memSizeMb op) \<le> 1024 \<and>
       unat (dev_size (pm_dev m')) = unat (dos_memSizeMb op) * 2 ^ 20 \<and>
       (\<forall>i < MAX_SWAP_FILES. 0 \<le> swapFiles m' ! i \<longleftrightarrow> i < unat (dos_nSwapFiles op)))) \<and>
    (\<not> fst (dos_parseArgs args) \<longrightarrow> \<not> ok \<and> files m' = (dos_close api 0 ^^ MAX_SWAP_FILES) (files m))"
proof (cases "fst (dos_parseArgs args)")
  case False
  show ?thesis
    by (rule dos_ram_init_refused [OF False, of api malloc_ok m]) (use False in auto)
next
  case True
  then obtain op where p: "dos_parseArgs args = (True, op)"
    by (metis prod.collapse)
  note a = dos_parseArgs_accepted [OF p]
  obtain sz :: "'x word" and r where sz: "unat sz = unat (dos_memSizeMb op) * 2 ^ 20"
    and r: "dos_mem_init api malloc_ok sz (the (dos_swapLocation op)) (unat (dos_nSwapFiles op))
       (upd_ui ui_init (zero_memory m)) = Some r"
    and e: "dos_ram_init api malloc_ok args m = Some (fst r, if fst r then snd r else dos_mem_destroy api (snd r))"
    by (rule dos_ram_init_accepted [OF x p])
  have "dos_nSwapFiles op \<in> {1, 2, 4, 8}"
    using a(4) by (auto simp: nSwFilesValid_def word_unat_eq_iff)
  moreover have "unat (dev_size (pm_dev (snd r))) = unat (dos_memSizeMb op) * 2 ^ 20"
    "\<forall>i < MAX_SWAP_FILES. 0 \<le> swapFiles (snd r) ! i \<longleftrightarrow> i < unat (dos_nSwapFiles op)" if "fst r"
    using init_files [of api malloc_ok sz _ _ _ "snd r"] r that sz by (metis prod.collapse)+
  ultimately show ?thesis
    using p a e by auto
qed

theorem dos_memory_starts_witness:
  "\<exists>m :: (32, ram_dos) dos_memory. dos_ram_init ram_api (\<lambda>_. True)
     [DOS_OPT_b ''a.bin'', DOS_OPT_s ''C:'', DOS_OPT_m ''1''] (ram_mem 0x100000) = Some (True, m) \<and>
     unat (dev_size (pm_dev m)) = 2 ^ 20 \<and> 0 \<le> swapFiles m ! 0 \<and> swapFiles m ! 1 < 0"
proof -
  let ?args = "[DOS_OPT_b ''a.bin'', DOS_OPT_s ''C:'', DOS_OPT_m ''1'']"
  have p: "dos_parseArgs ?args = (True, \<lparr>dos_kernelFile = None, dos_binFile = Some ''a.bin'',
      dos_swapLocation = Some ''C:'', dos_nSwapFiles = 1, dos_noSBI = False, dos_memSizeMb = 1\<rparr>)"
    by (simp add: dos_parseArgs_def strtoul10_def is_space_def is_digit_def digits_value_def)
  obtain m where "dos_mem_init ram_api (\<lambda>_. True) (0x100000 :: 32 word) ''C:'' 1
      (upd_ui ui_init (zero_memory (ram_mem 0x100000))) = Some (True, m)"
    by (rule ram_init [where sz = "0x100000" and len = "0x100000" and s = "upd_ui ui_init (zero_memory (ram_mem 0x100000))"])
      (use demo_swap_size in \<open>auto simp: zero_memory_def\<close>)
  then have "dos_ram_init ram_api (\<lambda>_. True) ?args (ram_mem 0x100000) = Some (True, m)"
    by (simp add: dos_ram_init_def p Let_def)
  then show ?thesis
    using dos_memory_starts [of ram_api "\<lambda>_. True" ?args "ram_mem 0x100000 :: (32, ram_dos) dos_memory"] p
    by (auto simp: MAX_SWAP_FILES_def simp flip: not_le)
qed

text \<open>C38. When it reports success and the memory size is a power of two, the memory is well-formed and has
  the requested size, and all its bytes are zero if the swap files are new.\<close>

theorem paged_init_wf:
  fixes sz :: "'x::len word" and m :: "('x, 'f) dos_memory"
  assumes "valid_xlen TYPE('x)" "dos_io api V" "dos_files api V" "unat sz = 2 ^ k * 2 ^ 20" "k \<le> 10"
    and "\<And>i c. i < n \<Longrightarrow> fs_disk V (files m) (swap_name loc i) = Some c \<Longrightarrow> length c < 2 ^ 32"
    and "dos_mem_init api malloc_ok sz loc n m = Some (True, m')"
  shows "wf_paged V m' \<and> total_size m' = unat sz \<and>
    ((\<forall>i < n. fs_disk V (files m) (swap_name loc i) = None) \<longrightarrow> bytes_of V m' = replicate (unat sz) 0)"
  using dos_mem_init_ok [OF assms] by simp

theorem paged_init_wf_witness:
  "\<exists>m. dos_mem_init ram_api (\<lambda>_. True) (0x100000 :: 32 word) ''C:'' 1 (ram_mem 0x100000) = Some (True, m) \<and>
     wf_paged ram_view m \<and> total_size m = 0x100000"
proof -
  obtain m where m: "dos_mem_init ram_api (\<lambda>_. True) (0x100000 :: 32 word) ''C:'' 1 (ram_mem 0x100000) = Some (True, m)"
    by (rule demo_paged)
  have c: "length x < 2 ^ 32"
    if "i < 1" "fs_disk ram_view (files (ram_mem 0x100000)) (swap_name ''C:'' i) = Some x" for i x
    using that by (auto simp: ram_view_def ram_mem_def split: if_splits)
  have sz: "unat (0x100000 :: 32 word) = 2 ^ 0 * 2 ^ 20"
    by simp
  show ?thesis
    using paged_init_wf [OF _ ram_io ram_files sz _ c m] m by simp
qed

lemma init_geometry:
  fixes m :: "('x::len, 'f) dos_memory"
  assumes r: "dos_mem_init api malloc_ok sz loc n m = Some (True, m')"
    and b: "bit (swap_file_size sz n) j" "\<And>i. i < j \<Longrightarrow> \<not> bit (swap_file_size sz n) i"
  shows "fileNoShift m' = j" "n \<le> i \<Longrightarrow> i < MAX_SWAP_FILES \<Longrightarrow> swapFiles m' ! i = - 1" "n \<in> set [1, 2, 4, 8]"
proof -
  obtain m1 m4 where n: "n \<in> set [1, 2, 4, 8]"
    and o: "openLoop api loc (swap_file_size sz n) [0..<n] ((log_line (m1\<lparr>filePosMask := mask j, fileNoShift := j\<rparr>))
       \<lparr>swapFiles := replicate MAX_SWAP_FILES (- 1)\<rparr>) = Some (True, m4)"
    and m': "m' = (fold (initPage api) [0..<MEM_PAGES TYPE('x)] m4)
       \<lparr>lruListHead := 0, pm_dev := \<lparr>dev_size = sz, dev_cb = Some RAM\<rparr>\<rparr>"
    using maskLoop_bit [OF b, of 0 0] by (auto intro: dos_mem_init_phases [OF r])
  show "n \<in> set [1, 2, 4, 8]"
    by (rule n)
  show "fileNoShift m' = j"
    using openLoop_frame [OF o] by (simp add: m' fill_frame)
  show "n \<le> i \<Longrightarrow> i < MAX_SWAP_FILES \<Longrightarrow> swapFiles m' ! i = - 1"
    using openLoop_frame [OF o, of i] by (simp add: m' fill_frame)
qed

lemma lowest_bit:
  assumes "unat (F :: 'a::len word) = q * 2 ^ j" "odd q"
  shows "bit F j" "i < j \<Longrightarrow> \<not> bit F i"
proof -
  have b: "bit F i \<longleftrightarrow> bit (q * 2 ^ j) i" for i
    using bit_unsigned_iff [of F i, where 'a = nat] assms(1) by (auto simp: possible_bit_def)
  show "bit F j"
    using assms(2) unfolding b by (simp add: bit_iff_odd)
  show "\<not> bit F i" if less: "i < j"
  proof -
    obtain k where j: "j = i + Suc k"
      using less by (auto simp: less_iff_Suc_add)
    have "q * 2 ^ j div 2 ^ i = 2 * (q * 2 ^ k)"
      by (simp add: j power_add ac_simps)
    then show ?thesis
      unfolding b by (simp add: bit_iff_odd)
  qed
qed

lemma swap_file_count:
  assumes "n \<in> set [1, 2, 4, 8]"
  obtains i where "n = (2 :: nat) ^ i" "i \<le> 3"
proof -
  from assms consider "n = 2 ^ 0" | "n = 2 ^ 1" | "n = 2 ^ 2" | "n = 2 ^ 3"
    by auto
  then show ?thesis
    by cases (erule that; simp)+
qed

text \<open>C39. When the memory size is not a power of two, the swap files do not cover the memory: for \<open>q\<close> odd
  and greater than one, the page at \<open>2^e\<close> megabytes lies inside a memory of \<open>q * 2^e\<close>
  megabytes, but \<^verbatim>\<open>_lookupSwapFile\<close> finds no open file for it: it answers the marker of an unused entry
  or reads behind the array.\<close>

theorem swap_geometry_broken:
  fixes m :: "('x::len, 'f) dos_memory"
  assumes x: "valid_xlen TYPE('x)" and sz: "unat sz = q * 2 ^ e * 2 ^ 20" "q * 2 ^ e \<le> 1024" "odd q" "1 < q"
    and r: "dos_mem_init api malloc_ok sz loc n m = Some (True, m')"
  shows "2 ^ (e + 20) < unat sz \<and>
    (lookupSwapFile m' (2 ^ (e + 20)) = Some (- 1) \<or> lookupSwapFile m' (2 ^ (e + 20)) = None)"
proof -
  have n: "n \<in> set [1, 2, 4, 8]"
    using r by (auto simp: dos_mem_init_def Let_def nSwFilesValid_def split: if_splits)
  then obtain i where i: "n = 2 ^ i" "i \<le> 3"
    by (rule swap_file_count)
  have lt: "2 ^ (e + 20) < unat sz"
    unfolding sz(1) power_add using sz(4) by simp
  have "1 * 2 ^ e \<le> q * 2 ^ e"
    using sz(4) by (intro mult_le_mono1) simp
  from order_trans [OF this sz(2)] have "(2 :: nat) ^ e \<le> 2 ^ 10"
    by simp
  then have e10: "e \<le> 10"
    by (rule power_le_imp_le_exp [rotated]) simp
  have "unat (swap_file_size sz n) = q * 2 ^ e * (2 ^ 20 div n)"
    by (rule swap_file_size_eq [OF x n sz(1,2)])
  also have "\<dots> = q * 2 ^ (e + 20 - i)"
  proof -
    have "(2 :: nat) ^ 20 div n = 2 ^ (20 - i)"
      unfolding i(1) by (rule power_diff [symmetric]) (use i(2) in simp_all)
    moreover have "e + 20 - i = e + (20 - i)"
      using i(2) by simp
    ultimately show ?thesis
      by (simp only: power_add mult.assoc)
  qed
  finally have F: "unat (swap_file_size sz n) = q * 2 ^ (e + 20 - i)" .
  note g = init_geometry [OF r lowest_bit [OF F sz(3)]]
  have "(2 :: nat) ^ (e + 20) < 2 ^ 32"
    using e10 by (intro power_strict_increasing) simp_all
  then have "unat (of_nat (2 ^ (e + 20)) :: 32 word) = 2 ^ (e + 20)"
    by (simp only: unat_of_nat) simp
  then have "unat (2 ^ (e + 20) :: 32 word) = 2 ^ (e + 20)"
    by (simp only: of_nat_power of_nat_numeral)
  moreover have "(2 :: nat) ^ (e + 20) div 2 ^ (e + 20 - i) = n"
  proof -
    have "(2 :: nat) ^ (e + 20) = 2 ^ (e + 20 - i) * n"
      unfolding i(1) power_add [symmetric] using i(2) by simp
    then show ?thesis
      by (metis nonzero_mult_div_cancel_left power_not_zero zero_neq_numeral)
  qed
  ultimately have "unat (drop_bit (fileNoShift m') (2 ^ (e + 20) :: 32 word)) = n"
    by (simp only: unat_drop_bit g(1))
  with g(2) [of n] lt show ?thesis
    by (simp add: lookupSwapFile_def Let_def)
qed

theorem swap_geometry_broken_witness:
  "\<exists>m. dos_mem_init ram_api (\<lambda>_. True) (0x300000 :: 32 word) ''C:'' 1 (ram_mem 0x300000) = Some (True, m) \<and>
     lookupSwapFile m 0x100000 \<in> {Some (- 1), None}"
proof -
  have s: "unat (swap_file_size (0x300000 :: 32 word) 1) = 0x300000"
    using swap_file_size_eq [of 1 "0x300000 :: 32 word" 3] by simp
  then have "swap_file_size (0x300000 :: 32 word) 1 \<noteq> 0"
    by (metis unat_0 zero_neq_numeral)
  moreover have "unat (swap_file_size (0x300000 :: 32 word) 1) \<le> 0x300000" "(0x300000 :: nat) < 2 ^ 32"
    using s by simp_all
  ultimately obtain m where m: "dos_mem_init ram_api (\<lambda>_. True) (0x300000 :: 32 word) ''C:'' 1 (ram_mem 0x300000) = Some (True, m)"
    using ram_init [OF _ _ _ refl] by blast
  have "unat (0x300000 :: 32 word) = 3 * 2 ^ 0 * 2 ^ 20"
    by simp
  from swap_geometry_broken [OF _ this _ _ _ m] m show ?thesis
    by auto
qed

section \<open>The status line\<close>

text \<open>C40. The status line of the DOS screen: no update but that of the speed ever writes outside its eighty
  cells, and the speed does exactly when it has more than eight digits.\<close>

theorem status_line_bounds:
  assumes "length (statusLine u) = 80"
  shows "(ui_ub (ui_swapRd kb u) \<longleftrightarrow> ui_ub u) \<and> (ui_ub (ui_swapWr kb u) \<longleftrightarrow> ui_ub u) \<and>
    (ui_ub (ui_page_status st u) \<longleftrightarrow> ui_ub u) \<and> (ui_ub (ui_idle b u) \<longleftrightarrow> ui_ub u) \<and>
    (ui_ub (ui_time ms u) \<longleftrightarrow> ui_ub u) \<and> (ui_ub (ui_cps n u) \<longleftrightarrow> ui_ub u \<or> 10 ^ 8 \<le> unat n)"
  using assms by (simp add: ui_time_ub ui_cps_ub)

theorem status_line_bounds_witness:
  "\<not> ui_ub (ui_time 0xFFFFFFFF ram_ui) \<and> ui_ub (ui_cps 100000000 ram_ui)"
  using status_line_bounds [of ram_ui 0 UI_PS_RD True "0xFFFFFFFF" 100000000] by (simp add: ram_ui_def)

end
