(* ===== verification/Boot_Props.thy ===== *)
theory Boot_Props
  imports Device_Props
begin

text \<open>
  From the command line to the first instruction: the device tree is built, describes the machine and lies
  at the end of memory, the image lies at its start, and the hart starts with the registers the boot
  convention asks for.
\<close>

section \<open>The description of the machine\<close>

lemma describe_ok:
  fixes s :: "'x::len vm"
  assumes x: "valid_xlen TYPE('x)" and l: "length bytes = bufsize"
  obtains f where "describe (Some bytes) s = (True, \<lparr>dt_buf = Some f, nextPhandle = 3, inSOC = True, uart0Phandle = 3,
      intcPhandle = 1, plicPhandle = 2, memAddr = RAM_BASE, memSize = mem_size s, dt_ub = False\<rparr>)"
    "in_buffer f ((((cpu_tokens TYPE('x) @ soc_tokens TYPE('x)) @
       flatten (clint_node ACLINT_BASE (dev_size (aclint_dev (aclint s))))) @
       flatten (plic_node PLIC_BASE (dev_size (plic_dev (plic s))) (of_nat PLIC_INTERRUPTS))) @
       flatten (serial_node UART_BASE (dev_size (uart_dev (uart0 s))) (of_nat NS16550A_IRQ)))" "306 \<le> room f"
proof -
  obtain f1 where f1: "dt_init (Some bytes) = (True, (zero_device_tree :: 'x device_tree)\<lparr>dt_buf := Some f1,
      nextPhandle := 1, intcPhandle := 1, inSOC := True\<rparr>)" (is "_ = (True, ?t1)")
    "in_buffer f1 (cpu_tokens TYPE('x) @ soc_tokens TYPE('x))" "1132 \<le> room f1"
    by (rule dt_init_ok [OF x l])
  let ?t2 = "?t1\<lparr>memAddr := RAM_BASE, memSize := mem_size s\<rparr>"
  have m: "dt_addMemeory RAM_BASE (mem_size s) ?t1 = (True, ?t2)"
    by (rule dt_addMemeory_ok) simp
  have t2: "dt_buf ?t2 = Some f1" "inSOC ?t2" "intcPhandle ?t2 = 1"
    by simp_all
  obtain f2 where f2: "dt_addAclint ACLINT_BASE (dev_size (aclint_dev (aclint s))) ?t2 = (True, ?t2\<lparr>dt_buf := Some f2\<rparr>)"
      "in_buffer f2 ((cpu_tokens TYPE('x) @ soc_tokens TYPE('x)) @ flatten (clint_node ACLINT_BASE (dev_size (aclint_dev (aclint s)))))"
      "1132 - 160 \<le> room f2"
    by (rule dt_addAclint_ok [OF x t2(1) f1(2,3) _ t2(2,3)]) simp
  let ?t3 = "?t2\<lparr>dt_buf := Some f2\<rparr>"
  have t3: "dt_buf ?t3 = Some f2" "inSOC ?t3" "intcPhandle ?t3 = 1" "nextPhandle ?t3 = 1"
    by simp_all
  obtain f3 where f3: "dt_addPlic PLIC_BASE (dev_size (plic_dev (plic s))) (of_nat PLIC_INTERRUPTS) ?t3 =
       (True, ?t3\<lparr>dt_buf := Some f3, nextPhandle := 2, plicPhandle := 2\<rparr>)"
      "in_buffer f3 (((cpu_tokens TYPE('x) @ soc_tokens TYPE('x)) @ flatten (clint_node ACLINT_BASE (dev_size (aclint_dev (aclint s))))) @
         flatten (plic_node PLIC_BASE (dev_size (plic_dev (plic s))) (of_nat PLIC_INTERRUPTS)))"
      "1132 - 160 - 330 \<le> room f3"
    by (rule dt_addPlic_ok [OF x t3(1) f2(2,3) _ t3(2-4)]) simp
  let ?t4 = "?t3\<lparr>dt_buf := Some f3, nextPhandle := 2, plicPhandle := 2\<rparr>"
  have t4: "dt_buf ?t4 = Some f3" "inSOC ?t4" "nextPhandle ?t4 = 2" "plicPhandle ?t4 = 2" "uart0Phandle ?t4 = 0"
    by (simp_all add: zero_device_tree_def)
  obtain f4 where f4: "dt_addNs16550a UART_BASE (dev_size (uart_dev (uart0 s))) (of_nat NS16550A_IRQ) ?t4 =
       (True, ?t4\<lparr>dt_buf := Some f4, nextPhandle := 3, uart0Phandle := 3\<rparr>)"
      "in_buffer f4 ((((cpu_tokens TYPE('x) @ soc_tokens TYPE('x)) @ flatten (clint_node ACLINT_BASE (dev_size (aclint_dev (aclint s))))) @
         flatten (plic_node PLIC_BASE (dev_size (plic_dev (plic s))) (of_nat PLIC_INTERRUPTS))) @
         flatten (serial_node UART_BASE (dev_size (uart_dev (uart0 s))) (of_nat NS16550A_IRQ)))"
      "1132 - 160 - 330 - 336 \<le> room f4"
    by (rule dt_addNs16550a_ok [OF x t4(1) f3(2,3) _ t4(2-5)]) simp
  have "describe (Some bytes) s = (True, ?t4\<lparr>dt_buf := Some f4, nextPhandle := 3, uart0Phandle := 3\<rparr>)"
    unfolding describe_def dt_then_def by (simp only: f1(1) fst_conv snd_conv if_True m f2(1) f3(1) f4(1))
  then show ?thesis
    using that f4(2,3) by (simp add: zero_device_tree_def)
qed

definition machine_dt :: "'x::len vm \<Rightarrow> dt_node" where
  "machine_dt s = machine_tree (RAM_BASE, mem_size s) (ACLINT_BASE, dev_size (aclint_dev (aclint s)))
     (PLIC_BASE, dev_size (plic_dev (plic s))) (of_nat PLIC_INTERRUPTS) (UART_BASE, dev_size (uart_dev (uart0 s)))
     (of_nat NS16550A_IRQ)"

lemma buildDeviceTree_ok:
  fixes s :: "'x::len vm"
  assumes x: "valid_xlen TYPE('x)" and l: "length bytes = bufsize"
  obtains blob where "fdt_decode blob = Some (flatten (machine_dt s))" "length blob \<le> bufsize"
    "buildDeviceTree (Some bytes) s =
       (let a = align_down (mem_size s + RAM_BASE - of_nat (length blob)) (of_nat (sizeof_word TYPE('x)))
        in Some (a, snd (bus_write s a blob)))"
proof -
  obtain f where d: "describe (Some bytes) s = (True, \<lparr>dt_buf = Some f, nextPhandle = 3, inSOC = True, uart0Phandle = 3,
      intcPhandle = 1, plicPhandle = 2, memAddr = RAM_BASE, memSize = mem_size s, dt_ub = False\<rparr>)" (is "_ = (True, ?dt)")
    "in_buffer f ((((cpu_tokens TYPE('x) @ soc_tokens TYPE('x)) @
       flatten (clint_node ACLINT_BASE (dev_size (aclint_dev (aclint s))))) @
       flatten (plic_node PLIC_BASE (dev_size (plic_dev (plic s))) (of_nat PLIC_INTERRUPTS))) @
       flatten (serial_node UART_BASE (dev_size (uart_dev (uart0 s))) (of_nat NS16550A_IRQ)))" "306 \<le> room f"
    by (rule describe_ok [OF x l])
  have t: "dt_buf ?dt = Some f" "inSOC ?dt" "uart0Phandle ?dt = 3"
    by simp_all
  obtain f' where f': "dt_finish ?dt = Some (True, ?dt\<lparr>dt_buf := Some f', inSOC := False\<rparr>)"
      "unat (fdt_totalsize f') \<le> bufsize"
      "fdt_decode (take (unat (fdt_totalsize f')) (fdt_image f')) =
        Some (((((cpu_tokens TYPE('x) @ soc_tokens TYPE('x)) @
       flatten (clint_node ACLINT_BASE (dev_size (aclint_dev (aclint s))))) @
       flatten (plic_node PLIC_BASE (dev_size (plic_dev (plic s))) (of_nat PLIC_INTERRUPTS))) @
       flatten (serial_node UART_BASE (dev_size (uart_dev (uart0 s))) (of_nat NS16550A_IRQ))) @
       end_tokens (memAddr ?dt) (memSize ?dt))"
    by (rule dt_finish_ok [OF x t(1) d(2,3) _ t(2,3)]) simp
  show ?thesis
  proof (rule that)
    let ?blob = "take (unat (fdt_totalsize f')) (fdt_image f')"
    show "fdt_decode ?blob = Some (flatten (machine_dt s))"
      using f'(3) unfolding machine_dt_def flatten_machine by simp
    show "length ?blob \<le> bufsize"
      using f'(2) by simp
    show "buildDeviceTree (Some bytes) s =
       (let a = align_down (mem_size s + RAM_BASE - of_nat (length ?blob)) (of_nat (sizeof_word TYPE('x)))
        in Some (a, snd (bus_write s a ?blob)))"
      unfolding buildDeviceTree_def by (simp add: d(1) f'(1) dt_data_def Let_def del: length_take)
  qed
qed

lemma buildDeviceTree_returns:
  assumes "valid_xlen TYPE('x::len)" "\<And>bytes. m = Some bytes \<Longrightarrow> length bytes = bufsize"
  shows "\<exists>r. buildDeviceTree m (s :: 'x vm) = Some r"
proof (cases m)
  case None
  then show ?thesis
    by (simp add: buildDeviceTree_def describe_def dt_init_def dt_then_def)
next
  case (Some bytes)
  with assms obtain blob where "buildDeviceTree (Some bytes) s =
       (let a = align_down (mem_size s + RAM_BASE - of_nat (length blob)) (of_nat (sizeof_word TYPE('x)))
        in Some (a, snd (bus_write s a blob)))"
    by (metis buildDeviceTree_ok)
  with Some show ?thesis
    by (simp add: Let_def)
qed

section \<open>Where the blob lies\<close>

lemma unat_align_down:
  assumes "valid_xlen TYPE('x::len)"
  shows "unat (align_down (v :: 'x word) (of_nat (sizeof_word TYPE('x)))) = unat v div sizeof_word TYPE('x) * sizeof_word TYPE('x)"
proof -
  obtain k where k: "sizeof_word TYPE('x) = 2 ^ k" "k = 2 \<or> k = 3"
    using assms that [of 2] that [of 3] by (auto simp: valid_xlen_def sizeof_word_def)
  have "of_nat (sizeof_word TYPE('x)) - 1 = (mask k :: 'x word)"
    by (simp add: k(1) mask_eq_exp_minus_1)
  then show ?thesis
    by (simp add: align_down_def and_not_mask_unat k(1))
qed

lemma decode_nonempty: "fdt_decode blob = Some ts \<Longrightarrow> 40 \<le> length blob"
  by (auto simp: fdt_decode_def FDT_V17_SIZE_def split: if_splits)

lemma blob_address:
  fixes s :: "'x::len vm"
  assumes x: "valid_xlen TYPE('x)" and w: "wf_platform s" and L: "L \<le> bufsize"
  defines "a \<equiv> align_down (mem_size s + RAM_BASE - of_nat L) (of_nat (sizeof_word TYPE('x)))"
  shows "in_region s RAM (unat a) L" "unat a mod sizeof_word TYPE('x) = 0"
    "0x80000000 + length (mem_data (ram s)) \<le> unat a + L + 7"
proof -
  let ?v = "mem_size s + RAM_BASE - of_nat L" and ?k = "sizeof_word TYPE('x)"
  have sz: "0x100000 \<le> unat (mem_size s)" "unat (mem_size s) \<le> 0x40000000" "length (mem_data (ram s)) = unat (mem_size s)"
    using w by (auto simp: wf_platform_def wf_devs_def wf_ram_def mem_size_def)
  have p: "(2 :: nat) ^ 32 \<le> 2 ^ LENGTH('x)"
    using valid_xlen_ge [OF x] by (rule power_increasing) simp
  have t: "unat (mem_size s + RAM_BASE) = unat (mem_size s) + 0x80000000"
    using unat_plus_of_nat [of "mem_size s" "0x80000000"] sz p unat_bases(1) [OF x] by (simp add: base_defs)
  have u: "unat (of_nat L :: 'x word) = L"
    using L p by (simp add: unat_of_nat bufsize_def)
  have v: "unat ?v = unat (mem_size s) + 0x80000000 - L"
    using t u sz L by (simp add: unat_sub word_le_nat_alt bufsize_def)
  have k: "?k = 4 \<or> ?k = 8"
    using x by (auto simp: valid_xlen_def sizeof_word_def)
  have a: "unat a = unat ?v div ?k * ?k"
    unfolding a_def by (rule unat_align_down [OF x])
  have b: "unat a \<le> unat ?v" "unat ?v \<le> unat a + 7"
    unfolding a using k div_mult_mod_eq [of "unat ?v" ?k] mod_less_divisor [of ?k "unat ?v"] by auto
  show "in_region s RAM (unat a) L"
    using b v sz L region_sizes(4) [OF x w] by (auto simp: in_region_def region_base_def bufsize_def)
  show "unat a mod ?k = 0"
    by (simp add: a)
  show "0x80000000 + length (mem_data (ram s)) \<le> unat a + L + 7"
    using b v sz L by (simp add: bufsize_def)
qed

lemma tree_placed:
  fixes s :: "'x::len vm"
  assumes "valid_xlen TYPE('x)" "wf_platform s" "length bytes = bufsize"
  obtains blob a t where "buildDeviceTree (Some bytes) s = Some (a, t)" "fdt_decode blob = Some (flatten (machine_dt s))"
    "a \<noteq> 0" "unat a mod sizeof_word TYPE('x) = 0" "in_region s RAM (unat a) (length blob)" "length blob \<le> bufsize"
    "0x80000000 + length (mem_data (ram s)) \<le> unat a + length blob + 7"
    "mem_data (ram t) = splice_at (unat a - 0x80000000) blob (mem_data (ram s))" "host_ub t = host_ub s"
    "cpu t = cpu s"
proof -
  obtain blob where b: "fdt_decode blob = Some (flatten (machine_dt s))" "length blob \<le> bufsize"
    "buildDeviceTree (Some bytes) s =
       (let a = align_down (mem_size s + RAM_BASE - of_nat (length blob)) (of_nat (sizeof_word TYPE('x)))
        in Some (a, snd (bus_write s a blob)))"
    by (rule buildDeviceTree_ok [OF assms(1,3)])
  define a where "a = align_down (mem_size s + RAM_BASE - of_nat (length blob)) (of_nat (sizeof_word TYPE('x)) :: 'x word)"
  note a = blob_address [OF assms(1,2) b(2), folded a_def]
  have n: "blob \<noteq> []" "a \<noteq> 0"
    using decode_nonempty [OF b(1)] a(1) by (auto simp: in_region_def region_base_def)
  have "bus_write s a blob = (True, (invalidate_on_write a (length blob) s)
      \<lparr>ram := (ram s)\<lparr>mem_data := splice_at (unat a - region_base RAM) blob (mem_data (ram s))\<rparr>\<rparr>)"
    by (rule bus_write_ram [OF assms(1,2) a(1) n(1)])
  then show ?thesis
    using a b n by (intro that [of a "snd (bus_write s a blob)" blob])
      (simp_all add: a_def [symmetric] Let_def region_base_def invalidate_on_write_def)
qed

text \<open>C7. The device tree: with a buffer of 2048 bytes the building always succeeds; the blob, read back the
  way the format lays it out, is the tree that describes the machine; and it lies, aligned, within the last
  bytes of memory, whose other contents stay as they were.\<close>

theorem device_tree_blob:
  fixes s :: "'x::len vm"
  assumes "valid_xlen TYPE('x)" "wf_platform s" "length bytes = bufsize"
  shows "\<exists>blob a t. buildDeviceTree (Some bytes) s = Some (a, t) \<and> fdt_decode blob = Some (flatten (machine_dt s)) \<and>
    a \<noteq> 0 \<and> unat a mod sizeof_word TYPE('x) = 0 \<and> in_region s RAM (unat a) (length blob) \<and>
    0x80000000 + length (mem_data (ram s)) \<le> unat a + length blob + 7 \<and>
    mem_data (ram t) = splice_at (unat a - 0x80000000) blob (mem_data (ram s)) \<and> host_ub t = host_ub s"
proof -
  obtain blob a t where "buildDeviceTree (Some bytes) s = Some (a, t)" "fdt_decode blob = Some (flatten (machine_dt s))"
    "a \<noteq> 0" "unat a mod sizeof_word TYPE('x) = 0" "in_region s RAM (unat a) (length blob)" "length blob \<le> bufsize"
    "0x80000000 + length (mem_data (ram s)) \<le> unat a + length blob + 7"
    "mem_data (ram t) = splice_at (unat a - 0x80000000) blob (mem_data (ram s))" "host_ub t = host_ub s"
    by (rule tree_placed [OF assms])
  then show ?thesis
    by (intro exI [of _ blob] exI [of _ a] exI [of _ t]) simp
qed

theorem device_tree_blob_witness:
  "\<exists>blob a t. buildDeviceTree (Some (replicate 2048 0xAA)) demo = Some (a, t) \<and>
     fdt_decode blob = Some (flatten (machine_dt demo)) \<and>
     mem_data (ram t) = splice_at (unat a - 0x80000000) blob (replicate 0x100000 0)"
proof -
  have "length (replicate 2048 (0xAA :: byte)) = bufsize"
    by (simp add: bufsize_def)
  from device_tree_blob [of demo, OF _ _ this] show ?thesis
    by (auto simp: demo_ram)
qed

section \<open>The machine at the first instruction\<close>

lemma setup_total:
  "\<exists>t :: 'x::len vm. vm_setup op True (zero_vm junk) = (True, t) \<and> mem_data (ram t) = replicate (unat (mem_bytes op :: 'x word)) 0 \<and>
     \<not> host_ub t \<and> mhartid (csr_of t) = 0 \<and> length (Rx (cpu t)) = 32"
  by (simp add: vm_setup_def and_then_def bus_init_def rv_init_def mem_init_def mem_bytes_def
      bus_register_def replicate_slots aclint_init_def plic_init_def ns16550a_init_def zero_vm_def)

lemma start_state:
  fixes s :: "'x::len vm"
  assumes "length (Rx (cpu s)) = 32" "mhartid (csr_of s) = 0"
  shows "PC (cpu (start op e d s)) = e \<and>
    cpu_mode (cpu (start op e d s)) = (if noSBI op then RV_PRIV_MODE_MACHINE else RV_PRIV_MODE_SUPERVISOR) \<and>
    Rx (cpu (start op e d s)) ! 10 = 0 \<and> Rx (cpu (start op e d s)) ! 11 = d \<and> ram (start op e d s) = ram s \<and>
    aclint (start op e d s) = aclint s \<and> plic (start op e d s) = plic s \<and> uart0 (start op e d s) = uart0 s \<and>
    host_ub (start op e d s) = host_ub s"
  using assms by (simp add: start_def sbi_startHart_def rv_reset_def Let_def rv_pokeRx_def rv_getHartID_def writePC_def
      CPU_REG_A0_def CPU_REG_A1_def bus_reservationCheckInvalidate_def flushIcache_def)

lemma machine_dt_cong:
  assumes "wf_devs s" "wf_devs t" "mem_dev (ram t) = mem_dev (ram s)"
  shows "machine_dt t = machine_dt s"
  using assms by (simp add: machine_dt_def mem_size_def wf_devs_def wf_aclint_def wf_plic_def wf_uart_def)

lemma boot_phases:
  fixes t :: "'x::len vm"
  assumes "parseArgs args = (True, op)" "kernelFile op = None" "vm_setup op True (zero_vm junk) = (True, t)"
    and "buildDeviceTree (Some bytes) t = Some (a, t1)" "a \<noteq> 0" "loadBin (Some data) True RAM_BASE t1 = (e, t2)" "e \<noteq> 0"
  shows "boot args True True (Some bytes) (Some data) junk = Some (start op e a t2)"
  using assms by (simp add: boot_def)

lemma boot_core_fields:
  assumes "core c = core d"
  shows "Rx c = Rx d \<and> mhartid (csr c) = mhartid (csr d)"
  using arg_cong [OF assms, of Rx] arg_cong [OF assms, of "\<lambda>c. mhartid (csr c)"] by (simp add: core_def)

lemma tree_and_image:
  fixes t :: "'x::len vm"
  assumes x: "valid_xlen TYPE('x)" and w: "wf_platform t" and l: "length bytes = bufsize"
    and d: "length data + bufsize + 7 \<le> length (mem_data (ram t))"
  obtains blob a t1 t2 where "buildDeviceTree (Some bytes) t = Some (a, t1)" "a \<noteq> 0"
    "loadBin (Some data) True RAM_BASE t1 = (RAM_BASE, t2)" "port_frame t t2" "host_ub t2 = host_ub t"
    "length (mem_data (ram t2)) = length (mem_data (ram t))" "take (length data) (mem_data (ram t2)) = data"
    "slice_at (unat a - 0x80000000) (length blob) (mem_data (ram t2)) = blob"
    "fdt_decode blob = Some (flatten (machine_dt t))"
proof -
  let ?n = "length (mem_data (ram t))"
  obtain blob a t1 where b: "buildDeviceTree (Some bytes) t = Some (a, t1)" "fdt_decode blob = Some (flatten (machine_dt t))"
    "a \<noteq> 0" "in_region t RAM (unat a) (length blob)" "length blob \<le> bufsize" "0x80000000 + ?n \<le> unat a + length blob + 7"
    "mem_data (ram t1) = splice_at (unat a - 0x80000000) blob (mem_data (ram t))" "host_ub t1 = host_ub t"
    by (rule tree_placed [OF x w l])
  let ?o = "unat a - 0x80000000"
  have o: "?o + length blob \<le> ?n" "length data \<le> ?o"
    using b(4-6) d region_sizes(4) [OF x w] by (auto simp: in_region_def region_base_def)
  then have m1: "length (mem_data (ram t1)) = ?n"
    using b(7) by simp
  have f1: "port_frame t t1"
    by (rule buildDeviceTree_port [OF b(1)])
  then have big: "length (mem_data (ram t1)) < 2 ^ LENGTH('x)" and pos: "0 < bufSize TYPE('x)"
    using wf_platform_frame [OF w] x
    by (auto simp: wf_platform_def wf_devs_def wf_ram_def bufSize_def sizeof_word_def valid_xlen_def)
  define t2 where "t2 = snd (loadLoop (bufSize TYPE('x)) data 0 t1)"
  have m2: "mem_data (ram t2) = splice_at 0 data (mem_data (ram t1))" "host_ub t2 = host_ub t1"
    using loadLoop_copies [of "bufSize TYPE('x)" 0 data t1] pos big m1 o by (simp_all add: t2_def)
  have "slice_at ?o (length blob) (mem_data (ram t2)) = slice_at ?o (length blob) (mem_data (ram t1))"
    unfolding m2(1) using o m1 by (intro slice_splice_disjoint) auto
  also have "\<dots> = blob"
    unfolding b(7) using o by simp
  finally have "slice_at ?o (length blob) (mem_data (ram t2)) = blob" .
  moreover have "port_frame t t2"
    unfolding t2_def by (rule port_frame_trans [OF f1 loadLoop_port])
  moreover have "take (length data) (mem_data (ram t2)) = data" "length (mem_data (ram t2)) = ?n"
    unfolding m2(1) using m1 o by (simp_all add: splice_at_def)
  moreover have "loadBin (Some data) True RAM_BASE t1 = (RAM_BASE, t2)"
    by (simp add: loadBin_def t2_def)
  ultimately show ?thesis
    using that b(1-3,8) m2(2) by simp
qed

lemma boots:
  assumes x: "valid_xlen TYPE('x::len)" and p: "parseArgs args = (True, op)" and k: "kernelFile op = None"
    and l: "length bytes = bufsize" and d: "length data + bufsize + 7 \<le> unat (memSizeMb op) * 2 ^ 20"
  shows "\<exists>(s :: 'x vm) blob. boot args True True (Some bytes) (Some data) junk = Some s \<and> PC (cpu s) = RAM_BASE \<and>
    cpu_mode (cpu s) = (if noSBI op then RV_PRIV_MODE_MACHINE else RV_PRIV_MODE_SUPERVISOR) \<and>
    Rx (cpu s) ! 10 = 0 \<and> length (mem_data (ram s)) = unat (memSizeMb op) * 2 ^ 20 \<and>
    take (length data) (mem_data (ram s)) = data \<and>
    slice_at (unat (Rx (cpu s) ! 11) - 0x80000000) (length blob) (mem_data (ram s)) = blob \<and>
    fdt_decode blob = Some (flatten (machine_dt s)) \<and> \<not> host_ub s"
proof -
  let ?n = "unat (memSizeMb op) * 2 ^ 20"
  obtain t :: "'x vm" where t: "vm_setup op True (zero_vm junk) = (True, t)"
    "mem_data (ram t) = replicate (unat (mem_bytes op :: 'x word)) 0" "\<not> host_ub t" "mhartid (csr_of t) = 0" "length (Rx (cpu t)) = 32"
    using setup_total [where op = op and junk = junk] by blast
  have n: "length (mem_data (ram t)) = ?n"
    using t(2) unat_mem_bytes [OF x parseArgs_mem(2) [OF p]] by simp
  have w: "wf_platform t"
    using wf_vm_setup [OF x p t(1)] by (simp add: wf_vm_def)
  have d': "length data + bufsize + 7 \<le> length (mem_data (ram t))"
    using d n by simp
  obtain blob a t1 t2 where b: "buildDeviceTree (Some bytes) t = Some (a, t1)" "a \<noteq> 0"
    "loadBin (Some data) True RAM_BASE t1 = (RAM_BASE, t2)" "port_frame t t2" "host_ub t2 = host_ub t"
    "length (mem_data (ram t2)) = length (mem_data (ram t))" "take (length data) (mem_data (ram t2)) = data"
    "slice_at (unat a - 0x80000000) (length blob) (mem_data (ram t2)) = blob"
    "fdt_decode blob = Some (flatten (machine_dt t))"
    by (rule tree_and_image [OF x w l d'])
  have c2: "length (Rx (cpu t2)) = 32" "mhartid (csr_of t2) = 0"
    using boot_core_fields [of "cpu t2" "cpu t"] b(4) t(4,5) by (simp_all add: port_frame_def)
  define s where "s = start op RAM_BASE a t2"
  note st = start_state [OF c2, of op RAM_BASE a, folded s_def]
  have dt: "machine_dt s = machine_dt t"
    using st b(4) w by (intro machine_dt_cong) (auto simp: port_frame_def wf_platform_def wf_devs_def)
  have "boot args True True (Some bytes) (Some data) junk = Some s"
    unfolding s_def using unat_bases(1) [OF x] by (intro boot_phases [OF p k t(1) b(1-3)]) auto
  then show ?thesis
    using st b(5-9) dt t(3) n by (intro exI [of _ s] exI [of _ blob]) simp
qed

text \<open>C9. A boot from a binary image, end to end: when the command line is accepted and the image leaves
  room for the device tree, the program reaches its loop with the hart at the base of memory in the right
  mode, the hart number in a0 and the address of the device tree in a1, the image at the start of memory
  and behind it a blob that decodes to the description of this machine; no memory of the host is touched
  out of bounds.\<close>

theorem boot_binary:
  assumes x: "valid_xlen TYPE('x::len)" and p: "parseArgs args = (True, op)" and k: "kernelFile op = None"
    and l: "length bytes = bufsize" and d: "length data + bufsize + 7 \<le> unat (memSizeMb op) * 2 ^ 20"
  shows "\<exists>(s :: 'x vm) blob. boot args True True (Some bytes) (Some data) junk = Some s \<and> PC (cpu s) = RAM_BASE \<and>
    cpu_mode (cpu s) = (if noSBI op then RV_PRIV_MODE_MACHINE else RV_PRIV_MODE_SUPERVISOR) \<and>
    Rx (cpu s) ! 10 = 0 \<and> length (mem_data (ram s)) = unat (memSizeMb op) * 2 ^ 20 \<and>
    take (length data) (mem_data (ram s)) = data \<and>
    slice_at (unat (Rx (cpu s) ! 11) - 0x80000000) (length blob) (mem_data (ram s)) = blob \<and>
    fdt_decode blob = Some (flatten (machine_dt s)) \<and> \<not> host_ub s"
  by (rule boots [OF assms])

theorem boot_binary_witness:
  "\<exists>(s :: 64 vm) blob. boot [OPT_b ''image.bin'', OPT_m ''64''] True True (Some (replicate 2048 0xAA)) (Some [0x13, 0, 0, 0]) 0 = Some s \<and>
     PC (cpu s) = 0x80000000 \<and> take 4 (mem_data (ram s)) = [0x13, 0, 0, 0] \<and>
     fdt_decode blob = Some (flatten (machine_dt s))"
proof -
  define op where "op = \<lparr>kernelFile = None, binFile = Some ''image.bin'', noSBI = False, memSizeMb = 64\<rparr>"
  have p: "parseArgs [OPT_b ''image.bin'', OPT_m ''64''] = (True, op)"
    by (simp add: parseArgs_def op_def strtoul10_def is_space_def is_digit_def digits_value_def)
  have "length (replicate 2048 (0xAA :: byte)) = bufsize"
    by (simp add: bufsize_def)
  then obtain s :: "64 vm" and blob where
    "boot [OPT_b ''image.bin'', OPT_m ''64''] True True (Some (replicate 2048 0xAA)) (Some [0x13, 0, 0, 0]) 0 = Some s"
    "PC (cpu s) = RAM_BASE" "take (length [0x13, 0, 0, 0 :: byte]) (mem_data (ram s)) = [0x13, 0, 0, 0]"
    "fdt_decode blob = Some (flatten (machine_dt s))"
    using boot_binary [OF _ p _, where 'x = 64, of "replicate 2048 0xAA" "[0x13, 0, 0, 0]" 0]
    by (auto simp: op_def bufsize_def)
  then show ?thesis
    by (intro exI [of _ s] exI [of _ blob]) (simp add: base_defs eval_nat_numeral)
qed

end
