(* ===== verification/Csr_Props.thy ===== *)
theory Csr_Props
  imports Priv_Props
begin

text \<open>
  The properties of the control registers and of the choice of an interrupt.
\<close>

section \<open>Writing the status registers\<close>

lemma priv_not_above: "\<not> RV_PRIV_MODE_MACHINE < m"
  by (cases m) (simp_all add: priv_order)

lemma bit_run:
  "bit (push_bit k 7 :: 'x::len word) n \<longleftrightarrow> n < LENGTH('x) \<and> k \<le> n \<and> n < k + 3"
  "bit (push_bit k 3 :: 'x word) n \<longleftrightarrow> n < LENGTH('x) \<and> k \<le> n \<and> n < k + 2"
  "bit (push_bit k 0x1F :: 'x word) n \<longleftrightarrow> n < LENGTH('x) \<and> k \<le> n \<and> n < k + 5"
  "bit (push_bit k 0x3F :: 'x word) n \<longleftrightarrow> n < LENGTH('x) \<and> k \<le> n \<and> n < k + 6"
  "bit (push_bit k 0x7F :: 'x word) n \<longleftrightarrow> n < LENGTH('x) \<and> k \<le> n \<and> n < k + 7"
  "bit (push_bit k 0x7FFF :: 'x word) n \<longleftrightarrow> n < LENGTH('x) \<and> k \<le> n \<and> n < k + 15"
  "bit (push_bit k 0x1FFFFFFF :: 'x word) n \<longleftrightarrow> n < LENGTH('x) \<and> k \<le> n \<and> n < k + 29"
  by (auto simp: bit_push_bit_iff bit_low_masks possible_bit_def)

lemmas status_bits = MSTATUS_WPRI_MASK_def MSTATUS_SD_MASK_def mstatus_bit_masks bit_and_iff bit_or_iff
  bit_not_iff bit_single bit_run possible_bit_word if_True if_False simp_thms

lemma cases_below_25:
  assumes "(n :: nat) < 25"
  obtains "n \<in> {1, 3, 5, 7, 8, 11, 12, 17, 18, 19, 20, 21, 22, 23, 24}"
  | "n \<in> {0, 2, 4, 6, 9, 10, 13, 14, 15, 16}"
proof -
  have "list_all (\<lambda>n :: nat. n \<in> {1, 3, 5, 7, 8, 11, 12, 17, 18, 19, 20, 21, 22, 23, 24} \<or>
      n \<in> {0, 2, 4, 6, 9, 10, 13, 14, 15, 16}) [0..<25]"
    by code_simp
  then have "n \<in> {1, 3, 5, 7, 8, 11, 12, 17, 18, 19, 20, 21, 22, 23, 24} \<or>
      n \<in> {0, 2, 4, 6, 9, 10, 13, 14, 15, 16}"
    unfolding list_all_iff using assms by (metis atLeastLessThan_iff set_upt zero_le)
  then show ?thesis
    using that by blast
qed

lemma bit_WR_VAL32:
  assumes "LENGTH('x::len) = 32"
  shows "bit (MSTATUS_WR_VAL (v :: 'x word)) n \<longleftrightarrow> mstatus_writable TYPE('x) n \<and> bit v n"
proof (cases "n < 25")
  case True
  have c: "\<not> CONFIG_RV64 TYPE('x)"
    using assms by (simp add: CONFIG_RV64_def)
  have w: "mstatus_writable TYPE('x) n \<longleftrightarrow> n \<in> {1, 3, 5, 7, 8, 11, 12, 17, 18, 19, 20, 21, 22, 23, 24}"
    using c by (simp only: mstatus_writable_def simp_thms)
  have e: "bit (MSTATUS_WR_VAL v) n \<longleftrightarrow> bit v n \<and> n \<notin> {0, 2, 4, 6, 9, 10, 13, 14, 15, 16}"
    using True by (simp only: MSTATUS_WR_VAL_def c assms status_bits) auto
  from True show ?thesis
    unfolding w e by (rule cases_below_25) (elim insertE; simp)+
next
  case False
  have c: "\<not> CONFIG_RV64 TYPE('x)"
    using assms by (simp add: CONFIG_RV64_def)
  have "n < 32" if "bit v n"
    using that assms by (metis bit_imp_le_length)
  with False show ?thesis
    by (simp only: mstatus_writable_def MSTATUS_WR_VAL_def c assms status_bits) auto
qed

lemma bit_WR_VAL64:
  assumes "LENGTH('x::len) = 64"
  shows "bit (MSTATUS_WR_VAL (v :: 'x word)) n \<longleftrightarrow>
    n = 33 \<or> n = 35 \<or> mstatus_writable TYPE('x) n \<and> bit v n"
proof (cases "n < 25")
  case True
  have c: "CONFIG_RV64 TYPE('x)"
    using assms by (simp add: CONFIG_RV64_def)
  have w: "mstatus_writable TYPE('x) n \<longleftrightarrow> n \<in> {1, 3, 5, 7, 8, 11, 12, 17, 18, 19, 20, 21, 22, 23, 24}"
    using True by (auto simp: mstatus_writable_def)
  have e: "bit (MSTATUS_WR_VAL v) n \<longleftrightarrow> bit v n \<and> n \<notin> {0, 2, 4, 6, 9, 10, 13, 14, 15, 16}"
    using True by (simp only: MSTATUS_WR_VAL_def c assms status_bits) auto
  have "n \<noteq> 33" "n \<noteq> 35"
    using True by simp_all
  from True show ?thesis
    unfolding w e by (rule cases_below_25) (elim insertE; simp)+
next
  case False
  have c: "CONFIG_RV64 TYPE('x)"
    using assms by (simp add: CONFIG_RV64_def)
  have l: "n < 64" if "bit v n"
    using that assms by (metis bit_imp_le_length)
  have w: "mstatus_writable TYPE('x) n \<longleftrightarrow> n \<in> {38, 39, 41, 42}"
    using False c by (auto simp: mstatus_writable_def)
  have e: "bit (MSTATUS_WR_VAL v) n \<longleftrightarrow> n = 33 \<or> n = 35 \<or> bit v n \<and> 38 \<le> n \<and> n < 43 \<and> n \<noteq> 40"
    using False l by (simp only: MSTATUS_WR_VAL_def c assms status_bits) auto
  show ?thesis
    unfolding w e by auto
qed

lemma bit_writeMstatus:
  assumes v: "valid_xlen TYPE('x::len)"
  shows "bit (mstatus (csr_of (writeMstatus val (s :: 'x vm)))) n \<longleftrightarrow>
    (if n = 11 then bit val 11 \<or> bit val 12 else
     CONFIG_RV64 TYPE('x) \<and> (n = 33 \<or> n = 35) \<or> mstatus_writable TYPE('x) n \<and> bit val n)"
proof -
  define mpp where "mpp = (if MSTATUS_GET_MPP val \<noteq> RV_PRIV_MODE_USER \<and>
      MSTATUS_GET_MPP val \<noteq> RV_PRIV_MODE_SUPERVISOR then RV_PRIV_MODE_MACHINE else MSTATUS_GET_MPP val)"
  have m: "odd (priv_code mpp) \<longleftrightarrow> bit val 11 \<or> bit val 12" "2 \<le> priv_code mpp \<longleftrightarrow> bit val 12"
    by (simp_all add: mpp_def MSTATUS_GET_MPP_bit [OF v])
  have w: "mstatus_writable TYPE('x) 12"
    by (simp add: mstatus_writable_def)
  have b: "bit (MSTATUS_WR_VAL val) n \<longleftrightarrow>
      CONFIG_RV64 TYPE('x) \<and> (n = 33 \<or> n = 35) \<or> mstatus_writable TYPE('x) n \<and> bit val n"
    using v bit_WR_VAL32 [of val n] bit_WR_VAL64 [of val n]
    unfolding valid_xlen_def CONFIG_RV64_def by auto
  have "mstatus (csr_of (writeMstatus val s)) = (MSTATUS_WR_VAL val AND NOT MSTATUS_MPP_MASK) OR MSTATUS_MPP mpp"
    by (simp add: writeMstatus_def Let_def mpp_def)
  then have "bit (mstatus (csr_of (writeMstatus val s))) n \<longleftrightarrow>
      bit (MSTATUS_WR_VAL val) n \<and> n \<noteq> 11 \<and> n \<noteq> 12 \<or> bit (MSTATUS_MPP mpp :: 'x word) n"
    by (auto simp: bit_and_iff bit_or_iff bit_not_iff possible_bit_word mask_bits dest: bit_imp_le_length)
  then show ?thesis
    unfolding b bit_MSTATUS_MPP [OF v] m using w by auto
qed

text \<open>C34. Writing \<^verbatim>\<open>mstatus\<close> keeps it legal: only the implemented fields take the written value,
  the fields for the missing extensions and the endianness stay zero, the reserved previous mode is
  replaced by machine mode, and on the 64-bit machine the two width fields stay at 64 bits.\<close>

theorem mstatus_write_legal:
  assumes "valid_xlen TYPE('x::len)" "\<not> trapped (s :: 'x vm)" "mode_of s = RV_PRIV_MODE_MACHINE"
  shows "bit (mstatus (csr_of (writeCSR 0x300 val s))) n \<longleftrightarrow>
    (if n = 11 then bit val 11 \<or> bit val 12 else
     CONFIG_RV64 TYPE('x) \<and> (n = 33 \<or> n = 35) \<or> mstatus_writable TYPE('x) n \<and> bit val n)"
proof -
  have "writeCSR 0x300 val s = writeMstatus val s"
    using assms(2,3) by (simp add: writeCSR_def priv_not_above)
  then show ?thesis
    by (simp only: bit_writeMstatus [OF assms(1)])
qed

text \<open>The example machine in machine mode with interrupts enabled.\<close>

definition demo_M :: "32 vm" where
  "demo_M = demo\<lparr>cpu := (cpu demo)\<lparr>cpu_mode := RV_PRIV_MODE_MACHINE,
     csr := (csr_of demo)\<lparr>mstatus := 0x8, mideleg := 0x222, mie := 0x222, mip := 0x200\<rparr>\<rparr>\<rparr>"

lemma demo_M_simps:
  "mode_of demo_M = RV_PRIV_MODE_MACHINE" "\<not> trapped demo_M" "mstatus (csr_of demo_M) = 0x8"
  "mideleg (csr_of demo_M) = 0x222" "mie (csr_of demo_M) = 0x222" "mip (csr_of demo_M) = 0x200"
  by (simp_all add: demo_M_def demo_cpu)

theorem mstatus_write_legal_witness:
  "bit (mstatus (csr_of (writeCSR 0x300 0x1000 demo_M))) 11 \<and>
   \<not> bit (mstatus (csr_of (writeCSR 0x300 0x6600 demo_M))) 13"
proof -
  have "bit (0x1000 :: 32 word) 12"
    by code_simp
  then show ?thesis
    using mstatus_write_legal [of demo_M "0x1000" 11] mstatus_write_legal [of demo_M "0x6600" 13]
    by (simp add: mstatus_writable_def demo_M_simps)
qed

lemma bit_SSTATUS_WPRI:
  assumes "valid_xlen TYPE('x::len)" "n \<in> {3, 7, 11, 12, 17, 20, 21, 22}"
  shows "bit (SSTATUS_WPRI_MASK :: 'x word) n"
proof -
  have "n < LENGTH('x)"
    using valid_xlen_ge [OF assms(1)] assms(2) by auto
  with assms(2) show ?thesis
    unfolding SSTATUS_WPRI_MASK_def
    by (cases "CONFIG_RV64 TYPE('x)") (simp_all only: bit_or_iff bit_run bit_single if_True if_False, auto)
qed

text \<open>C35. Writing \<^verbatim>\<open>sstatus\<close> from supervisor mode cannot touch the machine-level fields: the machine
  interrupt enables, the previous machine mode, \<^verbatim>\<open>MPRV\<close> and the three trapping bits keep their
  values.\<close>

theorem sstatus_write_confined:
  assumes v: "valid_xlen TYPE('x::len)" and w: "wf_vm (s :: 'x vm)"
    and m: "\<not> trapped s" "RV_PRIV_MODE_SUPERVISOR \<le> mode_of s"
    and n: "n \<in> {3, 7, 11, 12, 17, 20, 21, 22}"
  shows "bit (mstatus (csr_of (writeCSR 0x100 val s))) n \<longleftrightarrow> bit (mstatus (csr_of s)) n"
proof -
  define x where "x = (val AND NOT SSTATUS_WPRI_MASK) OR (mstatus (csr_of s) AND SSTATUS_WPRI_MASK)"
  have x: "bit x k \<longleftrightarrow> bit (mstatus (csr_of s)) k" if "k \<in> {3, 7, 11, 12, 17, 20, 21, 22}" for k
    using bit_SSTATUS_WPRI [OF v that] by (simp add: x_def bit_or_iff bit_and_iff bit_not_iff)
  have "csrPrivMode 0x100 = RV_PRIV_MODE_SUPERVISOR"
    by code_simp
  then have e: "writeCSR 0x100 val s = writeMstatus x s"
    using m by (simp add: writeCSR_def x_def not_less)
  have "\<not> (bit (mstatus (csr_of s)) 12 \<and> \<not> bit (mstatus (csr_of s)) 11)"
    using w by (auto simp: wf_vm_def wf_cpu_def MSTATUS_GET_MPP_bit [OF v] split: if_splits)
  then show ?thesis
    unfolding e bit_writeMstatus [OF v] using n x [OF n] x [of 11] x [of 12]
    by (auto simp: mstatus_writable_def)
qed

theorem sstatus_write_confined_witness:
  "bit (mstatus (csr_of (writeCSR 0x100 0 demo_M))) 3"
proof -
  have b: "bit (8 :: 32 word) 3" "MSTATUS_GET_MPP (8 :: 32 word) = RV_PRIV_MODE_USER"
    by code_simp+
  have "wf_vm demo_M"
    using wf_demo b(2) by (simp add: demo_M_def wf_vm_def wf_cpu_def wf_platform_def wf_devs_def)
  with b(1) show ?thesis
    using sstatus_write_confined [of demo_M 3 0] by (simp add: demo_M_simps priv_order)
qed

section \<open>The supervisor's view of the interrupt registers\<close>

text \<open>Through \<^verbatim>\<open>sie\<close> the supervisor enables and disables exactly the interrupts delegated to it:
  a bit that is not delegated keeps its value, and reading the register back shows the delegated
  bits as written and zero elsewhere.\<close>

lemma sie_write_confined:
  assumes v: "valid_xlen TYPE('x::len)" and m: "\<not> trapped (s :: 'x vm)" "RV_PRIV_MODE_SUPERVISOR \<le> mode_of s"
  shows "(bit (mie (csr_of (writeCSR 0x104 val s))) n \<longleftrightarrow>
      (if bit (mideleg (csr_of s)) n \<and> bit (SIE_RW_MASK :: 'x word) n then bit val n
       else bit (mie (csr_of s)) n)) \<and>
    snd (readCSR (writeCSR 0x104 val s) 0x104) = val AND mideleg (csr_of s) AND SIE_RW_MASK"
proof -
  define msk where "msk = mideleg (csr_of s) AND SIE_RW_MASK"
  have p: "\<not> mode_of s < csrPrivMode 0x104"
  proof -
    have "csrPrivMode 0x104 = RV_PRIV_MODE_SUPERVISOR"
      by code_simp
    with m(2) show ?thesis
      by (simp add: not_less)
  qed
  have e: "writeCSR 0x104 val s = writeMie ((val AND msk) OR (mie (csr_of s) AND NOT msk)) s"
    using m p by (simp add: writeCSR_def msk_def)
  have r: "bit (SIE_RW_MASK :: 'x word) k \<Longrightarrow> bit (MIE_RW_MASK :: 'x word) k" for k
    by (auto simp: SIE_RW_MASK_def MIE_RW_MASK_def bit_or_iff)
  have b: "bit (mie (csr_of (writeCSR 0x104 val s))) k \<longleftrightarrow>
      (if bit (mideleg (csr_of s)) k \<and> bit (SIE_RW_MASK :: 'x word) k then bit val k
       else bit (mie (csr_of s)) k)" for k
    using r [of k] unfolding e writeMie_def Let_def
    by (auto simp: bit_or_iff bit_and_iff bit_not_iff possible_bit_word msk_def pendingIRQ_def
        dest: bit_imp_le_length)
  have f: "trapped (writeCSR 0x104 val s) = trapped s" "mode_of (writeCSR 0x104 val s) = mode_of s"
    "mideleg (csr_of (writeCSR 0x104 val s)) = mideleg (csr_of s)"
    unfolding e by (simp_all add: writeMie_def pendingIRQ_def Let_def)
  have "mie (csr_of (writeCSR 0x104 val s)) AND mideleg (csr_of s) AND SIE_RW_MASK =
      val AND mideleg (csr_of s) AND SIE_RW_MASK"
    by (rule bit_word_eqI) (auto simp: bit_and_iff b)
  then have "snd (readCSR (writeCSR 0x104 val s) 0x104) = val AND mideleg (csr_of s) AND SIE_RW_MASK"
    using f m p by (simp add: readCSR_def csrValue_def)
  with b show ?thesis
    by blast
qed

section \<open>Choosing an interrupt\<close>

text \<open>The interrupts the processor may take now, and their order of priority.\<close>

definition takeable :: "'x::len vm \<Rightarrow> RV_IrqCause \<Rightarrow> bool" where
  "takeable s c \<longleftrightarrow> bit (mip (csr_of s)) (irq_code c) \<and> bit (mie (csr_of s)) (irq_code c) \<and>
     (mode_of s = RV_PRIV_MODE_MACHINE \<longrightarrow> bit (mstatus (csr_of s)) 3) \<and>
     (c \<in> {IRQ_MACHINE_EXT_INT, IRQ_MACHINE_SW_INT, IRQ_MACHINE_TMR_INT} \<or>
      \<not> bit (mideleg (csr_of s)) (irq_code c) \<or> mode_of s < RV_PRIV_MODE_SUPERVISOR \<or>
      mode_of s = RV_PRIV_MODE_SUPERVISOR \<and> bit (mstatus (csr_of s)) 1 \<or>
      mode_of s = RV_PRIV_MODE_MACHINE \<and> \<not> bit (mstatus (csr_of s)) 1)"

definition irq_priority :: "RV_IrqCause list" where
  "irq_priority = [IRQ_MACHINE_EXT_INT, IRQ_MACHINE_SW_INT, IRQ_MACHINE_TMR_INT,
     IRQ_SUPERVISOR_EXT_INT, IRQ_SUPERVISOR_SW_INT, IRQ_SUPERVISOR_TMR_INT, IRQ_CTR_OVF_INT]"

lemma loops_zero: "mLoop 0 vs s = s" "sLoop 0 sie vs s = s"
  by (induction vs) simp_all

lemma processPending_loops:
  "processPendingMInterrupts s = mLoop (pendingEnabled s) m_vectors s"
  "processPendingSInterrupts s = sLoop (pendingEnabled s) (bit (mstatus (csr_of s)) 1) s_vectors s"
  by (cases "pendingEnabled s = 0";
      simp add: processPendingMInterrupts_def processPendingSInterrupts_def Let_def loops_zero)+

lemma mLoop_find:
  "mLoop w vs s = (case find (\<lambda>c. bit w (irq_code c)) vs of None \<Rightarrow> s | Some c \<Rightarrow> interrupt c False s)"
  by (induction vs) simp_all

lemma sLoop_find:
  "sLoop w sie vs s =
     (case find (\<lambda>c. bit w (irq_code c) \<and> (\<not> bit (mideleg (csr_of s)) (irq_code c) \<or>
          mode_of s < RV_PRIV_MODE_SUPERVISOR \<or> mode_of s = RV_PRIV_MODE_SUPERVISOR \<and> sie \<or>
          mode_of s = RV_PRIV_MODE_MACHINE \<and> \<not> sie)) vs of
        None \<Rightarrow> s | Some c \<Rightarrow> interrupt c (bit (mideleg (csr_of s)) (irq_code c)) s)"
  by (induction vs) (simp_all add: Let_def)

lemma find_append_cases: "find P (xs @ ys) = (case find P xs of None \<Rightarrow> find P ys | Some x \<Rightarrow> Some x)"
  by (induction xs) simp_all

lemma find_mem: "find P xs = Some x \<Longrightarrow> x \<in> set xs"
  by (induction xs) (auto split: if_splits)

lemma trapped_interrupt [simp]: "trapped (interrupt c d s)"
  by (simp add: interrupt_def irq_line_defs)

text \<open>The loops take the first interrupt, in the order of priority, that may be taken.\<close>

lemma interrupt_choice:
  assumes "\<not> trapped s"
  shows "processPendingInterrupts s =
    (case find (takeable s) irq_priority of
       None \<Rightarrow> s
     | Some c \<Rightarrow> interrupt c (c \<in> set s_vectors \<and> bit (mideleg (csr_of s)) (irq_code c)) s)"
proof (cases "mode_of s = RV_PRIV_MODE_MACHINE \<and> \<not> bit (mstatus (csr_of s)) 3")
  case True
  then show ?thesis
    by (simp add: processPendingInterrupts_def takeable_def irq_priority_def)
next
  case False
  have "find (\<lambda>c. bit (pendingEnabled s) (irq_code c)) m_vectors = find (takeable s) m_vectors"
    using False by (intro find_cong refl) (auto simp: m_vectors_def takeable_def pendingEnabled_def bit_and_iff)
  then have m: "processPendingMInterrupts s =
      (case find (takeable s) m_vectors of None \<Rightarrow> s | Some c \<Rightarrow> interrupt c False s)"
    by (simp only: processPending_loops mLoop_find)
  have "find (\<lambda>c. bit (pendingEnabled s) (irq_code c) \<and> (\<not> bit (mideleg (csr_of s)) (irq_code c) \<or>
          mode_of s < RV_PRIV_MODE_SUPERVISOR \<or>
          mode_of s = RV_PRIV_MODE_SUPERVISOR \<and> bit (mstatus (csr_of s)) 1 \<or>
          mode_of s = RV_PRIV_MODE_MACHINE \<and> \<not> bit (mstatus (csr_of s)) 1)) s_vectors =
      find (takeable s) s_vectors"
    using False by (intro find_cong refl) (auto simp: s_vectors_def takeable_def pendingEnabled_def bit_and_iff)
  then have i: "processPendingSInterrupts s = (case find (takeable s) s_vectors of None \<Rightarrow> s
      | Some c \<Rightarrow> interrupt c (bit (mideleg (csr_of s)) (irq_code c)) s)"
    by (simp only: processPending_loops sLoop_find)
  have p: "irq_priority = m_vectors @ s_vectors" "set m_vectors \<inter> set s_vectors = {}"
    by (simp_all add: irq_priority_def m_vectors_def s_vectors_def)
  show ?thesis
  proof (cases "find (takeable s) m_vectors")
    case None
    then show ?thesis
      using assms False
      by (auto simp: processPendingInterrupts_def m i p(1) find_append_cases Let_def dest: find_mem
          split: option.splits)
  next
    case (Some c)
    then have "c \<notin> set s_vectors"
      using find_mem p(2) by fastforce
    with Some show ?thesis
      using assms False by (auto simp: processPendingInterrupts_def m p(1) find_append_cases Let_def)
  qed
qed

text \<open>C36. In machine mode with the supervisor interrupt enable off, a pending interrupt that is
  delegated to the supervisor is taken all the same, and taking it lowers the privilege mode: the
  machine-mode program is left for the supervisor's handler.\<close>

theorem delegated_irq_leaves_machine_mode:
  assumes "\<not> trapped s" "mode_of s = RV_PRIV_MODE_MACHINE"
    and "bit (mstatus (csr_of s)) 3" "\<not> bit (mstatus (csr_of s)) 1"
    and "\<forall>k \<in> {11, 3, 7}. \<not> (bit (mip (csr_of s)) k \<and> bit (mie (csr_of s)) k)"
    and "bit (mip (csr_of s)) 9" "bit (mie (csr_of s)) 9" "bit (mideleg (csr_of s)) 9"
  shows "processPendingInterrupts s = interrupt IRQ_SUPERVISOR_EXT_INT True s \<and>
    mode_of (doTrap (processPendingInterrupts s)) = RV_PRIV_MODE_SUPERVISOR"
proof -
  have p: "processPendingInterrupts s = interrupt IRQ_SUPERVISOR_EXT_INT True s"
    using assms by (simp add: processPendingInterrupts_def processPending_loops m_vectors_def
        s_vectors_def pendingEnabled_def bit_and_iff Let_def)
  have "trapDelegate (cpu (interrupt IRQ_SUPERVISOR_EXT_INT True s))"
    by (simp add: interrupt_def irq_line_defs)
  then show ?thesis
    by (simp add: p doTrap_supervisor)
qed

theorem delegated_irq_leaves_machine_mode_witness:
  "mode_of (doTrap (processPendingInterrupts demo_M)) = RV_PRIV_MODE_SUPERVISOR"
proof -
  have b: "bit (0x200 :: 32 word) 9" "bit (0x222 :: 32 word) 9" "bit (8 :: 32 word) 3" "\<not> bit (8 :: 32 word) 1"
    "\<not> bit (0x200 :: 32 word) 11" "\<not> bit (0x200 :: 32 word) 3" "\<not> bit (0x200 :: 32 word) 7"
    by code_simp+
  then show ?thesis
    using conjunct2 [OF delegated_irq_leaves_machine_mode [of demo_M]] by (simp add: demo_M_simps)
qed

end
