(* ===== verification/Irq_Latch.thy ===== *)
theory Irq_Latch
  imports Boot_Props Csr_Props
begin

text \<open>
  Interrupts are not lost. The processor looks at its pending interrupts only while the flag \<^verbatim>\<open>irq\<close> is
  set, and nothing but a reset clears that flag. The locale \<open>irq_lines\<close> states what a property of the flag
  and of the pending word must satisfy to survive every operation of the machine; it is interpreted with
  the flag itself and with the invariant that a pending interrupt implies the flag.
\<close>

section \<open>Properties of the interrupt lines\<close>

locale irq_lines =
  fixes I :: "'x::len vm \<Rightarrow> bool"
  assumes lines: "I s \<Longrightarrow> cpu_irq (cpu t) = cpu_irq (cpu s) \<Longrightarrow> mip (csr_of t) = mip (csr_of s) \<Longrightarrow> I t"
    and raise: "I s \<Longrightarrow> I (rv_setInterrupt c s)"
    and lower: "I s \<Longrightarrow> I (rv_clearInterrupt c s)"
    and wake: "I s \<Longrightarrow> I (pendingIRQ s)"
    and mip_write: "I s \<Longrightarrow> I (writeMip v s)"
begin

lemma I_same: "cpu_irq (cpu t) = cpu_irq (cpu s) \<Longrightarrow> mip (csr_of t) = mip (csr_of s) \<Longrightarrow> I t \<longleftrightarrow> I s"
  using lines by metis

lemma I_fields [simp]:
  "I (s\<lparr>aclint := a\<rparr>) \<longleftrightarrow> I s" "I (s\<lparr>plic := p\<rparr>) \<longleftrightarrow> I s" "I (s\<lparr>uart0 := u\<rparr>) \<longleftrightarrow> I s"
  "I (s\<lparr>ram := m\<rparr>) \<longleftrightarrow> I s" "I (s\<lparr>bus := b\<rparr>) \<longleftrightarrow> I s" "I (c_assert q s) \<longleftrightarrow> I s" "I (c_undefined s) \<longleftrightarrow> I s"
  "I (c_access ok s) \<longleftrightarrow> I s"
  "I (ui_putch ch s) \<longleftrightarrow> I s" "I (writeReg rd d s) \<longleftrightarrow> I s" "I (writePC pc s) \<longleftrightarrow> I s"
  "I (flushIcache s) \<longleftrightarrow> I s" "I (trap cause s) \<longleftrightarrow> I s" "I (xret md isz s) \<longleftrightarrow> I s" "I (rv_pokeRx r d s) \<longleftrightarrow> I s"
  by (rule I_same; simp add: c_assert_def c_undefined_def ui_putch_def writeReg_def writePC_def flushIcache_def
      trap_def xret_def split_def Let_def rv_pokeRx_def)+

lemma I_fold: "(\<And>x s. I s \<Longrightarrow> I (f x s)) \<Longrightarrow> I s \<Longrightarrow> I (fold f xs s)"
  by (induction xs arbitrary: s) auto

section \<open>Devices\<close>

lemma I_aclint:
  assumes "I s"
  shows "I (updateMtimer s)" "I (updateMswi s)" "I (aclint_cbWrite s a buf)" "I (aclint_tick n s)"
    "I (aclint_setMtimecmp h v s)" "I (fst (aclint_cbRead s a buf))"
proof -
  have t: "I (updateMtimer t)" if "I t" for t
    unfolding updateMtimer_def using that
    by (intro I_fold) (simp_all add: updateMtimer_hart_def Let_def raise lower)
  have w: "I (updateMswi t)" if "I t" for t
    unfolding updateMswi_def using that by (intro I_fold) (simp_all add: updateMswi_hart_def Let_def raise lower)
  show "I (updateMtimer s)" "I (updateMswi s)" "I (aclint_cbWrite s a buf)" "I (aclint_tick n s)"
    "I (aclint_setMtimecmp h v s)" "I (fst (aclint_cbRead s a buf))"
    using assms by (simp_all add: t w aclint_cbWrite_def aclint_tick_def aclint_setMtimecmp_def aclint_cbRead_def
        split_def Let_def)
qed

lemma I_processInterrupts: "I s \<Longrightarrow> I (processInterrupts s)"
  unfolding processInterrupts_def split_def by (intro I_fold) (simp_all add: processContext_def split_def Let_def raise lower)

lemma I_plic:
  assumes "I s"
  shows "I (fst (plic_cbRead s a buf))" "I (plic_cbWrite s a buf)" "I (plic_interrupt n s)"
  using assms
  by (simp_all add: plic_cbRead_def plic_cbWrite_def plic_interrupt_def claimInterrupts_def completeInterrupts_def
      split_def Let_def I_processInterrupts split: option.split)

lemma I_uart_irq: "I s \<Longrightarrow> I (uart_irq s)"
  by (simp add: uart_irq_def I_plic)

lemma I_uart:
  assumes "I s"
  shows "I (fst (uart_cbRead s a buf))" "I (uart_cbWrite s a buf)" "I (snd (ns16550_push ch s))"
proof -
  have "I (uart_writeLoop n bs t)" if "I t" for n bs t
    using that by (induction bs arbitrary: n t) (simp_all add: uart_writeByte_def Let_def I_uart_irq)
  then show "I (uart_cbWrite s a buf)"
    using assms by (simp add: uart_cbWrite_def)
  show "I (fst (uart_cbRead s a buf))" "I (snd (ns16550_push ch s))"
    using assms by (simp_all add: uart_cbRead_def ns16550_push_def split_def I_uart_irq)
qed

lemma I_ram: "I s \<Longrightarrow> I (fst (mem_read s a buf))" "I s \<Longrightarrow> I (mem_write s a buf)"
  by (simp_all add: mem_read_def mem_write_def mem_asserts_def Let_def)

lemma I_bus_read: "I s \<Longrightarrow> I (fst (snd (bus_read s a buf)))"
  using I_aclint(6) I_plic(1) I_uart(1) I_ram(1)
  by (simp add: bus_read_def cbRead_def split_def split: option.split dev_id.split)

lemma I_bus_write: "I s \<Longrightarrow> I (snd (bus_write s a buf))"
  using I_aclint(3) I_plic(2) I_uart(2) I_ram(2)
  by (simp add: bus_write_def cbWrite_def split_def Let_def invalidate_on_write_def split: option.split dev_id.split)

section \<open>The processor\<close>

lemma I_readMem: "I s \<Longrightarrow> I (fst (readMem s a buf))"
  by (simp add: readMem_def split_def I_bus_read)

lemma I_writeMem: "I s \<Longrightarrow> I (writeMem s a buf)"
  by (simp add: writeMem_def split_def I_bus_write)

lemma I_writeCSR:
  assumes "I s"
  shows "I (writeCSR n v s)"
proof -
  have "I (writeMstatus w s)" "I (writeMie w s)" for w
    using assms lines [OF wake [OF assms]] lines [OF assms] by (simp_all add: writeMstatus_def writeMie_def Let_def)
  with assms show ?thesis
    unfolding writeCSR_def Let_def
    by (intro if_intro [where P = I]) (simp_all add: mip_write, simp_all add: lines [OF assms])
qed

lemma I_readCSR: "I s \<Longrightarrow> I (fst (readCSR s n))"
  using readCSR_cases [of s n] by auto

end

sublocale irq_lines \<subseteq> lines_keep: exec_stable I
  by unfold_locales (auto simp: I_readMem I_writeMem I_readCSR I_writeCSR bus_reservationCreate_def
      bus_reservationCheckInvalidate_def Let_def I_same [where t = "cpu_update (cpu_wfi_update f) s" for f s])

context irq_lines
begin

lemma I_cpu [simp]: "I (s\<lparr>cpu := (cpu s)\<lparr>cpu_trap := b, cpu_wfi := w\<rparr>\<rparr>) \<longleftrightarrow> I s" "I (enterM s) \<longleftrightarrow> I s"
  "I (enterS s) \<longleftrightarrow> I s" "I (cpu_update (icache_update f) s) \<longleftrightarrow> I s" "I (upd_csr (mie_update g) s) \<longleftrightarrow> I s"
  by (rule I_same; simp add: enterM_def enterS_def Let_def)+

lemma I_interrupt: "I s \<Longrightarrow> I (interrupt c d s)"
  unfolding interrupt_def by (rule lower) (rule lines, simp_all)

lemma I_processPendingInterrupts: "I s \<Longrightarrow> I (processPendingInterrupts s)"
proof -
  have m: "I (mLoop w vs t)" if "I t" for w vs t
    using that by (induction vs) (simp_all add: I_interrupt)
  have "I (sLoop w sie vs t)" if "I t" for w sie vs t
    using that by (induction vs) (simp_all add: I_interrupt Let_def)
  with m show "I s \<Longrightarrow> I (processPendingInterrupts s)"
    by (simp add: processPendingInterrupts_def processPendingMInterrupts_def processPendingSInterrupts_def Let_def)
qed

lemma I_fetch: "I s \<Longrightarrow> I (fst (fetch s))"
  by (simp add: fetch_def Let_def split_def I_bus_read)

lemma I_dbgLoop: "I s \<Longrightarrow> I (snd (dbgLoop a n i s))"
proof (induction a n i s rule: dbgLoop.induct)
  case (1 a n i s)
  obtain ok t buf where r: "bus_read s (a + i) [uninit s] = (ok, t, buf)"
    by (cases "bus_read s (a + i) [uninit s]")
  have "I t"
    using I_bus_read [of s "a + i" "[uninit s]"] "1.prems" by (simp add: r)
  with "1.IH" [of ok "(t, buf)" t buf] "1.prems" show ?case
    by (subst dbgLoop.simps) (simp add: r)
qed

lemma I_sbi:
  assumes "I s"
  shows "I (sbi_handleEcall s)" "I (sbi_handleInterrupt s)" "I (sbi_handleException s)"
  using assms
  by (simp_all add: sbi_handleEcall_def sbi_handleInterrupt_def sbi_handleException_def handleTimerExt_def
      handleDbgConExt_def split_def Let_def I_dbgLoop I_aclint raise)

lemma I_doTrap: "I s \<Longrightarrow> I (doTrap s)"
  by (simp add: doTrap_def Let_def I_sbi)

lemma I_rv_run: "I s \<Longrightarrow> I (rv_run s)"
  using I_fetch by (simp add: rv_run_def Let_def split_def I_doTrap I_processPendingInterrupts lines_keep.I_execute)

lemma I_vm_step: "I s \<Longrightarrow> vm_step s t \<Longrightarrow> I t"
  by (auto elim!: vm_stepE simp: I_rv_run I_aclint I_uart ui_getch_def split: option.split)

lemma I_steps: "vm_step\<^sup>*\<^sup>* s t \<Longrightarrow> I s \<Longrightarrow> I t"
  by (induction rule: rtranclp_induct) (auto intro: I_vm_step)

end

section \<open>The flag covers every pending interrupt\<close>

definition irq_latched :: "'x::len vm \<Rightarrow> bool" where
  "irq_latched s \<longleftrightarrow> cpu_irq (cpu s) \<or> mip (csr_of s) = 0"

interpretation flag: irq_lines "\<lambda>s. cpu_irq (cpu s)"
  by unfold_locales (simp_all add: irq_line_defs writeMip_def Let_def)

interpretation latch: irq_lines irq_latched
  by unfold_locales (auto simp: irq_latched_def irq_line_defs writeMip_def Let_def)

lemma mem_write_cpu: "cpu (mem_write s a buf) = cpu s"
  by (simp add: mem_write_def mem_asserts_def c_assert_def c_undefined_def Let_def)

lemma loadLoop_cpu: "cpu (snd (loadLoop n data ptr s)) = cpu s"
proof (induction n data ptr s rule: loadLoop.induct)
  case (1 n data ptr s)
  then show ?case
    by (subst loadLoop.simps) (simp add: Let_def mem_write_cpu)
qed

lemma load_cpu: "cpu (snd (loadBin c m b s)) = cpu s" "cpu (snd (loadLinuxImage c m b s)) = cpu s"
  by (simp_all add: loadBin_def loadLinuxImage_def Let_def loadLoop_cpu mem_write_cpu split: option.split)

lemma setup_mip: "vm_setup op c s = (True, t) \<Longrightarrow> mip (csr_of t) = 0"
  by (cases c) (auto simp: vm_setup_def and_then_def bus_init_def rv_init_def mem_init_def bus_register_def
      BUS_MAX_DEVICES_def aclint_init_def plic_init_def ns16550a_init_def split: option.splits)

lemma start_mip: "mip (csr_of (start op e d s)) = mip (csr_of s)"
  by (simp add: start_def sbi_startHart_def rv_reset_def Let_def rv_pokeRx_def writePC_def
      bus_reservationCheckInvalidate_def flushIcache_def)

lemma boot_latched:
  assumes x: "valid_xlen TYPE('x::len)" and b: "boot args c m dtb img junk = Some (s :: 'x vm)"
    and l: "\<And>bytes. dtb = Some bytes \<Longrightarrow> length bytes = bufsize"
  shows "irq_latched s"
  using b
proof (rule boot_parts)
  fix op and t :: "'x vm" and d t1 entry t2
  assume p: "parseArgs args = (True, op)" and u: "vm_setup op c (zero_vm junk) = (True, t)"
    and d: "buildDeviceTree dtb t = Some (d, t1)" "d \<noteq> 0" and s: "s = start op entry d t2"
    and e: "(entry, t2) = (if kernelFile op \<noteq> None then loadLinuxImage img m RAM_BASE t1 else loadBin img m RAM_BASE t1)"
  have w: "wf_platform t"
    using wf_vm_setup [OF x p u] by (simp add: wf_vm_def)
  obtain bytes where y: "dtb = Some bytes"
    using d by (cases dtb) (auto simp: buildDeviceTree_def describe_def dt_init_def dt_then_def)
  have "cpu t1 = cpu t"
    by (rule tree_placed [OF x w l [OF y]]) (use d y in simp)
  moreover have "cpu t2 = cpu t1"
    using arg_cong [OF e, of snd] by (cases "kernelFile op = None") (simp_all add: load_cpu)
  ultimately show "irq_latched s"
    using setup_mip [OF u] by (simp add: irq_latched_def s start_mip)
qed

lemma reachable_latched:
  assumes "valid_xlen TYPE('x::len)"
  shows "reachable (s :: 'x vm) \<Longrightarrow> irq_latched s"
  by (induction rule: reachable.induct) (auto intro: boot_latched [OF assms] latch.I_vm_step)

lemma takeable_pending: "find (takeable s) cs = Some c \<Longrightarrow> mip (csr_of s) \<noteq> 0"
  by (auto simp: takeable_def find_Some_iff)

text \<open>C3. One call of \<^verbatim>\<open>rv_run\<close> outside a trap, in every state the machine can reach: if an interrupt is
  pending that may be taken, the first one in the order of priority is accepted, handed to supervisor mode
  exactly when it is a delegated supervisor-level one; otherwise the next instruction is fetched and executed.
  The test of the \<^verbatim>\<open>irq\<close> flag in front of the search is an optimisation that misses no interrupt.\<close>

theorem step_takes_interrupt:
  assumes "valid_xlen TYPE('x::len)" "reachable (s :: 'x vm)" "\<not> trapped s"
  shows "rv_run s = (case find (takeable s) irq_priority of
      Some c \<Rightarrow> interrupt c (c \<in> set s_vectors \<and> bit (mideleg (csr_of s)) (irq_code c)) s
    | None \<Rightarrow> (case fetch s of (t, instr) \<Rightarrow> if trapped t then t else execute instr t))"
  using interrupt_choice [OF assms(3)] takeable_pending [of s irq_priority]
    reachable_latched [OF assms(1,2)] assms(3)
  by (auto simp: rv_run_def irq_latched_def Let_def split: option.split)

lemma start_flags: "\<not> trapped (start op e d s)" "\<not> cpu_irq (cpu (start op e d s))"
  by (simp_all add: start_def sbi_startHart_def rv_reset_def Let_def rv_pokeRx_def writePC_def)

lemma boot_flags: "boot args c m dtb img junk = Some s \<Longrightarrow> \<not> trapped s \<and> \<not> cpu_irq (cpu s)"
  by (erule boot_parts) (simp add: start_flags)

lemma demo_boot:
  obtains s :: "64 vm" where "boot [OPT_b ''image.bin'', OPT_m ''64''] True True (Some (replicate 2048 0xAA))
      (Some [0x13, 0, 0, 0]) 0 = Some s"
proof -
  define op where "op = \<lparr>kernelFile = None, binFile = Some ''image.bin'', noSBI = False, memSizeMb = 64\<rparr>"
  have p: "parseArgs [OPT_b ''image.bin'', OPT_m ''64''] = (True, op)"
    by (simp add: parseArgs_def op_def strtoul10_def is_space_def is_digit_def digits_value_def)
  have l: "length (replicate 2048 (0xAA :: byte)) = bufsize"
    by (simp add: bufsize_def)
  show ?thesis
    using boots [OF _ p _ l, where 'x = 64, of "[0x13, 0, 0, 0]" 0] that by (auto simp: op_def bufsize_def)
qed

lemma demo_boots:
  obtains s :: "64 vm" where "reachable s" "\<not> trapped s" "\<not> cpu_irq (cpu s)"
proof (rule demo_boot)
  fix s :: "64 vm"
  assume s: "boot [OPT_b ''image.bin'', OPT_m ''64''] True True (Some (replicate 2048 0xAA))
      (Some [0x13, 0, 0, 0]) 0 = Some s"
  then have "reachable s"
    by (rule reachable.boot) (auto simp: bufsize_def)
  with boot_flags [OF s] show ?thesis
    using that by simp
qed

theorem step_takes_interrupt_witness:
  "\<exists>s :: 64 vm. reachable s \<and> \<not> trapped s \<and>
     rv_run s = (case fetch s of (t, instr) \<Rightarrow> if trapped t then t else execute instr t)"
proof (rule demo_boots)
  fix s :: "64 vm"
  assume s: "reachable s" "\<not> trapped s" "\<not> cpu_irq (cpu s)"
  then have "find (takeable s) irq_priority = None"
    using reachable_latched [OF _ s(1)] by (auto simp: irq_latched_def takeable_def find_None_iff)
  with s step_takes_interrupt [OF _ s(1,2)] show ?thesis
    by auto
qed

section \<open>The timer\<close>

lemma tick_due:
  assumes "mtimecmp (aclint s) ! 0 \<le> mtime (aclint s) + ucast cycles" "\<not> pindingIrq (aclint s) ! 0"
  obtains a ok where "aclint_tick cycles s = rv_setInterrupt IRQ_MACHINE_TMR_INT (c_access ok (s\<lparr>aclint := a\<rparr>))"
proof -
  have c: "(c_access ok (s\<lparr>aclint := a\<rparr>))\<lparr>aclint := b\<rparr> = c_access ok (s\<lparr>aclint := b\<rparr>)" for ok a b
    by (simp add: c_access_def c_undefined_def)
  show ?thesis
    by (rule that) (use assms in \<open>simp add: aclint_tick_def updateMtimer_unfold updateMtimer_hart_def Let_def c\<close>)
qed

text \<open>C16. The timer interrupt is delivered: when the clock reaches the comparator while the timer interrupt is
  enabled and the mode allows it, and no machine interrupt of higher priority is pending, the very next
  step of the processor accepts it and the trap entry after it is in the machine-mode handler, with the
  interrupted program counter in \<^verbatim>\<open>mepc\<close>.\<close>

theorem timer_interrupt_delivered:
  assumes x: "valid_xlen TYPE('x::len)" and n: "\<not> trapped (s :: 'x vm)"
    and t: "mtimecmp (aclint s) ! 0 \<le> mtime (aclint s) + ucast cycles" "\<not> pindingIrq (aclint s) ! 0"
    and e: "bit (mie (csr_of s)) 7" "mode_of s = RV_PRIV_MODE_MACHINE \<longrightarrow> bit (mstatus (csr_of s)) 3"
    and h: "\<not> bit (pendingEnabled s) 11" "\<not> bit (pendingEnabled s) 3" and b: "\<not> virtualSBI (cpu s)"
  defines "s' \<equiv> rv_run (aclint_tick cycles s)"
  shows "s' = interrupt IRQ_MACHINE_TMR_INT False (aclint_tick cycles s) \<and>
    mode_of (doTrap s') = RV_PRIV_MODE_MACHINE \<and> mepc (csr_of (doTrap s')) = pc_of s \<and>
    mcause (csr_of (doTrap s')) = 7 OR CPU_SIGN_BIT \<and>
    pc_of (doTrap s') = trap_vector (mtvec (csr_of s)) (7 OR CPU_SIGN_BIT) \<and> \<not> trapped (doTrap s')"
proof -
  obtain a ok where a: "aclint_tick cycles s = rv_setInterrupt IRQ_MACHINE_TMR_INT (c_access ok (s\<lparr>aclint := a\<rparr>))"
    by (rule tick_due [OF t])
  let ?t = "aclint_tick cycles s"
  have f: "cpu_irq (cpu ?t)" "\<not> trapped ?t" "mode_of ?t = mode_of s" "mstatus (csr_of ?t) = mstatus (csr_of s)"
    "mie (csr_of ?t) = mie (csr_of s)" "pc_of ?t = pc_of s" "mtvec (csr_of ?t) = mtvec (csr_of s)" "\<not> virtualSBI (cpu ?t)"
    using n b by (simp_all add: a irq_line_defs)
  have m: "bit (mip (csr_of ?t)) i \<longleftrightarrow> bit (mip (csr_of s)) i \<or> i = 7" for i
    using bit_mip_setInterrupt [OF x, of IRQ_MACHINE_TMR_INT "c_access ok (s\<lparr>aclint := a\<rparr>)" i] by (simp add: a)
  have "find (takeable ?t) irq_priority = Some IRQ_MACHINE_TMR_INT"
    using e h by (auto simp: irq_priority_def takeable_def f m pendingEnabled_def bit_and_iff)
  then have r: "s' = interrupt IRQ_MACHINE_TMR_INT False ?t"
    using interrupt_choice [OF f(2)] f(1,2) by (simp add: s'_def rv_run_def s_vectors_def)
  have i: "\<not> trapDelegate (cpu s')" "\<not> virtualSBI (cpu s')" "trapCause (cpu s') = 7 OR CPU_SIGN_BIT"
    "mtvec (csr_of s') = mtvec (csr_of s)" "pc_of s' = pc_of s"
    using f by (simp_all add: r interrupt_def irq_line_defs)
  then have "mode_of (doTrap s') = RV_PRIV_MODE_MACHINE \<and> mepc (csr_of (doTrap s')) = pc_of s \<and>
    mcause (csr_of (doTrap s')) = 7 OR CPU_SIGN_BIT \<and>
    pc_of (doTrap s') = trap_vector (mtvec (csr_of s)) (7 OR CPU_SIGN_BIT) \<and> \<not> trapped (doTrap s')"
    by (simp add: doTrap_machine)
  with r show ?thesis
    by blast
qed

definition demo_timer :: "32 vm" where
  "demo_timer = demo\<lparr>cpu := (cpu demo)\<lparr>virtualSBI := False, PC := 0x80000040,
     csr := (csr_of demo)\<lparr>mtvec := 0x80001001, mie := 0x80\<rparr>\<rparr>\<rparr>"

theorem timer_interrupt_delivered_witness:
  "pc_of (doTrap (rv_run (aclint_tick 100 demo_timer))) = 0x8000101C \<and>
   mepc (csr_of (doTrap (rv_run (aclint_tick 100 demo_timer)))) = 0x80000040"
proof -
  have b: "bit (0x80 :: 32 word) 7" "trap_vector 0x80001001 (7 OR CPU_SIGN_BIT) = (0x8000101C :: 32 word)"
    by code_simp+
  have d: "\<not> trapped demo_timer" "aclint demo_timer = aclint demo" "mie (csr_of demo_timer) = 0x80" "mip (csr_of demo_timer) = 0"
    "mode_of demo_timer = RV_PRIV_MODE_USER" "\<not> virtualSBI (cpu demo_timer)" "pc_of demo_timer = 0x80000040"
    "mtvec (csr_of demo_timer) = 0x80001001"
    by (simp_all add: demo_timer_def demo_cpu)
  show ?thesis
    using conjunct2 [OF timer_interrupt_delivered [of demo_timer 100]] b by (simp add: d demo_devices pendingEnabled_def)
qed

end
