(* ===== verification/Cext_Expand.thy ===== *)
theory Cext_Expand
  imports Device_Props
begin

text \<open>
  The compressed instructions against the manual: each 16-bit instruction stands for one 32-bit
  instruction. The expansion is written down here from the tables of the RISC-V manual, as instruction
  words, and the compressed decoder is shown to do what the decoder of the 32-bit instructions does with
  the expansion, run as an instruction of two bytes.
\<close>

section \<open>Instruction words\<close>

text \<open>Bits of a word moved to new places, and a word put together from fields given by their position,
  width and contents.\<close>

primrec gather :: "(nat \<times> nat) list \<Rightarrow> 32 word \<Rightarrow> 32 word" where
  "gather [] w = 0"
| "gather (p # ps) w = (if bit w (fst p) then push_bit (snd p) 1 else 0) OR gather ps w"

primrec pack :: "(nat \<times> nat \<times> 32 word) list \<Rightarrow> 32 word" where
  "pack [] = 0"
| "pack (f # fs) = (case f of (p, n, v) \<Rightarrow> push_bit p (take_bit n v)) OR pack fs"

lemma word32_eqI:
  fixes a b :: "32 word"
  assumes "\<forall>i \<in> {0, 1, 2, 3, 4, 5, 6, 7, 8, 9, 10, 11, 12, 13, 14, 15, 16, 17, 18, 19, 20, 21, 22, 23, 24, 25, 26,
    27, 28, 29, 30, 31}. bit a i \<longleftrightarrow> bit b i"
  shows "a = b"
proof (rule bit_word_eqI)
  fix i assume "i < LENGTH(32)"
  then have "i \<in> {0, 1, 2, 3, 4, 5, 6, 7, 8, 9, 10, 11, 12, 13, 14, 15, 16, 17, 18, 19, 20, 21, 22, 23, 24, 25, 26,
    27, 28, 29, 30, 31}"
    by (simp add: less_Suc_eq numeral_eq_Suc)
  with assms show "bit a i \<longleftrightarrow> bit b i"
    by blast
qed

lemma bit_gather [simp]: "bit (gather [] w) i = False"
  "bit (gather (p # ps) w) i \<longleftrightarrow> i = snd p \<and> i < 32 \<and> bit w (fst p) \<or> bit (gather ps w) i"
  by (auto simp: bit_or_iff bit_exp_iff possible_bit_def)

lemma bit_pack [simp]: "bit (pack []) i = False"
  "bit (pack ((p, n, v) # fs)) i \<longleftrightarrow> p \<le> i \<and> i < p + n \<and> i < 32 \<and> bit v (i - p) \<or> bit (pack fs) i"
  by (auto simp: bit_or_iff bit_push_bit_iff bit_take_bit_iff)

lemma bit_assemble_simps:
  "bit (assemble d i []) k = False"
  "bit (assemble (d :: 32 word) i (r # rs)) k \<longleftrightarrow> k < 32 \<and> r = k \<and> bit d i \<or> bit (assemble d (Suc i) rs) k"
  by (auto simp: bit_or_iff and_one_of_bit bit_push_bit_iff bit_1_iff)

declare gather.simps [simp del] pack.simps [simp del]

lemmas word_bits = bit_or_iff bit_and_iff bit_drop_bit_eq bit_push_bit_iff bit_take_bit_iff bit_assemble_simps

text \<open>The six formats of the 32-bit instructions.\<close>

definition enc_R :: "32 word \<Rightarrow> 32 word \<Rightarrow> 32 word \<Rightarrow> 32 word \<Rightarrow> 32 word \<Rightarrow> 32 word \<Rightarrow> 32 word" where
  "enc_R opc f3 f7 rd rs1 rs2 =
     pack [(0, 2, 3), (2, 5, opc), (7, 5, rd), (12, 3, f3), (15, 5, rs1), (20, 5, rs2), (25, 7, f7)]"

definition enc_I :: "32 word \<Rightarrow> 32 word \<Rightarrow> 32 word \<Rightarrow> 32 word \<Rightarrow> 32 word \<Rightarrow> 32 word" where
  "enc_I opc f3 rd rs1 imm = pack [(0, 2, 3), (2, 5, opc), (7, 5, rd), (12, 3, f3), (15, 5, rs1), (20, 12, imm)]"

definition enc_S :: "32 word \<Rightarrow> 32 word \<Rightarrow> 32 word \<Rightarrow> 32 word \<Rightarrow> 32 word \<Rightarrow> 32 word" where
  "enc_S opc f3 rs1 rs2 imm =
     pack [(0, 2, 3), (2, 5, opc), (7, 5, imm), (12, 3, f3), (15, 5, rs1), (20, 5, rs2), (25, 7, drop_bit 5 imm)]"

definition enc_B :: "32 word \<Rightarrow> 32 word \<Rightarrow> 32 word \<Rightarrow> 32 word \<Rightarrow> 32 word \<Rightarrow> 32 word" where
  "enc_B opc f3 rs1 rs2 imm =
     pack [(0, 2, 3), (2, 5, opc), (7, 1, drop_bit 11 imm), (8, 4, drop_bit 1 imm), (12, 3, f3), (15, 5, rs1),
       (20, 5, rs2), (25, 6, drop_bit 5 imm), (31, 1, drop_bit 12 imm)]"

definition enc_U :: "32 word \<Rightarrow> 32 word \<Rightarrow> 32 word \<Rightarrow> 32 word" where
  "enc_U opc rd imm = pack [(0, 2, 3), (2, 5, opc), (7, 5, rd), (12, 20, drop_bit 12 imm)]"

definition enc_J :: "32 word \<Rightarrow> 32 word \<Rightarrow> 32 word \<Rightarrow> 32 word" where
  "enc_J opc rd imm =
     pack [(0, 2, 3), (2, 5, opc), (7, 5, rd), (12, 8, drop_bit 12 imm), (20, 1, drop_bit 11 imm),
       (21, 10, drop_bit 1 imm), (31, 1, drop_bit 20 imm)]"

lemmas enc_defs = enc_R_def enc_I_def enc_S_def enc_B_def enc_U_def enc_J_def

text \<open>The decoder reads the fields back.\<close>

lemma decode_fields:
  "drop_bit 2 (enc_R opc f3 f7 rd rs1 rs2) AND 0x1F = take_bit 5 opc"
  "drop_bit 2 (enc_I opc f3 rd rs1 imm) AND 0x1F = take_bit 5 opc"
  "drop_bit 2 (enc_S opc f3 rs1 rs2 imm) AND 0x1F = take_bit 5 opc"
  "drop_bit 2 (enc_B opc f3 rs1 rs2 imm) AND 0x1F = take_bit 5 opc"
  "drop_bit 2 (enc_U opc rd imm) AND 0x1F = take_bit 5 opc"
  "drop_bit 2 (enc_J opc rd imm) AND 0x1F = take_bit 5 opc"
  "drop_bit 7 (enc_R opc f3 f7 rd rs1 rs2) AND 0x1F = take_bit 5 rd"
  "drop_bit 7 (enc_I opc f3 rd rs1 imm) AND 0x1F = take_bit 5 rd"
  "drop_bit 7 (enc_U opc rd imm) AND 0x1F = take_bit 5 rd"
  "drop_bit 7 (enc_J opc rd imm) AND 0x1F = take_bit 5 rd"
  "drop_bit 12 (enc_R opc f3 f7 rd rs1 rs2) AND 7 = take_bit 3 f3"
  "drop_bit 12 (enc_I opc f3 rd rs1 imm) AND 7 = take_bit 3 f3"
  "drop_bit 12 (enc_S opc f3 rs1 rs2 imm) AND 7 = take_bit 3 f3"
  "drop_bit 12 (enc_B opc f3 rs1 rs2 imm) AND 7 = take_bit 3 f3"
  "drop_bit 15 (enc_R opc f3 f7 rd rs1 rs2) AND 0x1F = take_bit 5 rs1"
  "drop_bit 15 (enc_I opc f3 rd rs1 imm) AND 0x1F = take_bit 5 rs1"
  "drop_bit 15 (enc_S opc f3 rs1 rs2 imm) AND 0x1F = take_bit 5 rs1"
  "drop_bit 15 (enc_B opc f3 rs1 rs2 imm) AND 0x1F = take_bit 5 rs1"
  "drop_bit 20 (enc_R opc f3 f7 rd rs1 rs2) AND 0x1F = take_bit 5 rs2"
  "drop_bit 20 (enc_S opc f3 rs1 rs2 imm) AND 0x1F = take_bit 5 rs2"
  "drop_bit 20 (enc_B opc f3 rs1 rs2 imm) AND 0x1F = take_bit 5 rs2"
  "drop_bit 25 (enc_R opc f3 f7 rd rs1 rs2) AND 0x7F = take_bit 7 f7"
  by (rule word32_eqI; simp add: enc_defs word_bits; simp add: eval_nat_numeral)+

lemma decode_imms:
  "DECODE_IIMM (enc_I opc f3 rd rs1 imm) = take_bit 12 imm"
  "DECODE_SIMM (enc_S opc f3 rs1 rs2 imm) = take_bit 12 imm"
  "DECODE_BIMM (enc_B opc f3 rs1 rs2 imm) = take_bit 13 imm AND NOT 1"
  "DECODE_UIMM (enc_U opc rd imm) = imm AND 0xFFFFF000"
  "DECODE_JIMM (enc_J opc rd imm) = take_bit 21 imm AND NOT 1"
  unfolding DECODE_IIMM_def DECODE_SIMM_def DECODE_BIMM_def DECODE_UIMM_def DECODE_JIMM_def
  by (rule word32_eqI; simp add: enc_defs word_bits bit_not_iff; simp add: eval_nat_numeral)+

lemmas decode_enc = DECODE_RD_def DECODE_RS1_def DECODE_RS2_def DECODE_FUNCT3_def DECODE_FUNCT7_def opcode_of_def
  decode_fields decode_imms

section \<open>Executing an instruction word of a given size\<close>

definition exec_sized :: "int \<Rightarrow> 32 word \<Rightarrow> 'x::len vm \<Rightarrow> 'x vm" where
  "exec_sized isz i s =
     (let opc = opcode_of i in
      if opc = 24 then doBRANCH (DECODE_FUNCT3 i) (DECODE_BIMM i) (DECODE_RS1 i) (DECODE_RS2 i) isz s
      else if opc = 25 then doJALR (DECODE_FUNCT3 i) (DECODE_IIMM i) (DECODE_RD i) (DECODE_RS1 i) isz s
      else if opc = 27 then doJAL (DECODE_JIMM i) (DECODE_RD i) isz s
      else if opc = 28 then doSYSTEM (DECODE_FUNCT3 i) (DECODE_IIMM i) (DECODE_RD i) (DECODE_RS1 i) isz s
      else execInstr i s)"

lemma exec_sized_base: "exec_sized 4 i s = execInstr i s"
  by (simp add: exec_sized_def Let_def execInstr_def jumpTable_def decodeBRANCH_def decodeJALR_def decodeJAL_def
      decodeSYSTEM_def)

section \<open>The expansion\<close>

text \<open>Registers and immediates as the manual draws them.\<close>

definition f_rd :: "32 word \<Rightarrow> 32 word" where
  "f_rd = gather [(11, 4), (10, 3), (9, 2), (8, 1), (7, 0)]"
definition f_rs2 :: "32 word \<Rightarrow> 32 word" where
  "f_rs2 = gather [(6, 4), (5, 3), (4, 2), (3, 1), (2, 0)]"
definition f_lo :: "32 word \<Rightarrow> 32 word" where
  "f_lo w = 8 OR gather [(4, 2), (3, 1), (2, 0)] w"
definition f_hi :: "32 word \<Rightarrow> 32 word" where
  "f_hi w = 8 OR gather [(9, 2), (8, 1), (7, 0)] w"

definition u_lw :: "32 word \<Rightarrow> 32 word" where "u_lw = gather [(12, 5), (11, 4), (10, 3), (6, 2), (5, 6)]"
definition u_ld :: "32 word \<Rightarrow> 32 word" where "u_ld = gather [(12, 5), (11, 4), (10, 3), (6, 7), (5, 6)]"
definition u_imm :: "32 word \<Rightarrow> 32 word" where "u_imm = gather [(12, 5), (6, 4), (5, 3), (4, 2), (3, 1), (2, 0)]"
definition u_4spn :: "32 word \<Rightarrow> 32 word" where
  "u_4spn = gather [(12, 5), (11, 4), (10, 9), (9, 8), (8, 7), (7, 6), (6, 2), (5, 3)]"
definition u_16sp :: "32 word \<Rightarrow> 32 word" where
  "u_16sp = gather [(12, 9), (6, 4), (5, 6), (4, 8), (3, 7), (2, 5)]"
definition u_lwsp :: "32 word \<Rightarrow> 32 word" where
  "u_lwsp = gather [(12, 5), (6, 4), (5, 3), (4, 2), (3, 7), (2, 6)]"
definition u_ldsp :: "32 word \<Rightarrow> 32 word" where
  "u_ldsp = gather [(12, 5), (6, 4), (5, 3), (4, 8), (3, 7), (2, 6)]"
definition u_swsp :: "32 word \<Rightarrow> 32 word" where
  "u_swsp = gather [(12, 5), (11, 4), (10, 3), (9, 2), (8, 7), (7, 6)]"
definition u_sdsp :: "32 word \<Rightarrow> 32 word" where
  "u_sdsp = gather [(12, 5), (11, 4), (10, 3), (9, 8), (8, 7), (7, 6)]"
definition u_j :: "32 word \<Rightarrow> 32 word" where
  "u_j = gather [(12, 11), (11, 4), (10, 9), (9, 8), (8, 10), (7, 6), (6, 7), (5, 3), (4, 2), (3, 1), (2, 5)]"
definition u_b :: "32 word \<Rightarrow> 32 word" where
  "u_b = gather [(12, 8), (11, 4), (10, 3), (6, 7), (5, 6), (4, 2), (3, 1), (2, 5)]"

text \<open>One row of the table for each quadrant and function code; nothing where the encoding is illegal,
  reserved or left to other extensions.\<close>

definition expansions :: "bool \<Rightarrow> (32 word \<Rightarrow> 32 word option) list" where
  "expansions rv64 =
     [\<comment> \<open>C.ADDI4SPN\<close> \<lambda>w. if u_4spn w = 0 then None else Some (enc_I 4 0 (f_lo w) 2 (u_4spn w)),
      \<lambda>w. None,
      \<comment> \<open>C.LW\<close> \<lambda>w. Some (enc_I 0 2 (f_lo w) (f_hi w) (u_lw w)),
      \<comment> \<open>C.LD\<close> \<lambda>w. if rv64 then Some (enc_I 0 3 (f_lo w) (f_hi w) (u_ld w)) else None,
      \<lambda>w. None,
      \<lambda>w. None,
      \<comment> \<open>C.SW\<close> \<lambda>w. Some (enc_S 8 2 (f_hi w) (f_lo w) (u_lw w)),
      \<comment> \<open>C.SD\<close> \<lambda>w. if rv64 then Some (enc_S 8 3 (f_hi w) (f_lo w) (u_ld w)) else None,
      \<comment> \<open>C.NOP, C.ADDI\<close> \<lambda>w. Some (enc_I 4 0 (f_rd w) (f_rd w) (signed_take_bit 5 (u_imm w))),
      \<comment> \<open>C.ADDIW, C.JAL\<close> \<lambda>w. if rv64 then
          if f_rd w = 0 then None else Some (enc_I 6 0 (f_rd w) (f_rd w) (signed_take_bit 5 (u_imm w)))
        else Some (enc_J 27 1 (signed_take_bit 11 (u_j w))),
      \<comment> \<open>C.LI\<close> \<lambda>w. Some (enc_I 4 0 (f_rd w) 0 (signed_take_bit 5 (u_imm w))),
      \<comment> \<open>C.ADDI16SP, C.LUI\<close> \<lambda>w. if f_rd w = 2 then
          if u_16sp w = 0 then None else Some (enc_I 4 0 2 2 (signed_take_bit 9 (u_16sp w)))
        else if u_imm w = 0 then None
        else Some (enc_U 13 (f_rd w) (push_bit 12 (signed_take_bit 5 (u_imm w)))),
      \<comment> \<open>C.SRLI, C.SRAI, C.ANDI, C.SUB, C.XOR, C.OR, C.AND, C.SUBW, C.ADDW\<close> \<lambda>w.
        if \<not> bit w 11 then
          if \<not> rv64 \<and> bit w 12 then None
          else Some (enc_I 4 5 (f_hi w) (f_hi w) (if bit w 10 then 0x400 OR u_imm w else u_imm w))
        else if \<not> bit w 10 then Some (enc_I 4 7 (f_hi w) (f_hi w) (signed_take_bit 5 (u_imm w)))
        else if \<not> bit w 12 then
          Some (if bit w 6 then enc_R 12 (if bit w 5 then 7 else 6) 0 (f_hi w) (f_hi w) (f_lo w)
            else if bit w 5 then enc_R 12 4 0 (f_hi w) (f_hi w) (f_lo w)
            else enc_R 12 0 0x20 (f_hi w) (f_hi w) (f_lo w))
        else if rv64 \<and> \<not> bit w 6 then
          Some (enc_R 14 0 (if bit w 5 then 0 else 0x20) (f_hi w) (f_hi w) (f_lo w))
        else None,
      \<comment> \<open>C.J\<close> \<lambda>w. Some (enc_J 27 0 (signed_take_bit 11 (u_j w))),
      \<comment> \<open>C.BEQZ\<close> \<lambda>w. Some (enc_B 24 0 (f_hi w) 0 (signed_take_bit 8 (u_b w))),
      \<comment> \<open>C.BNEZ\<close> \<lambda>w. Some (enc_B 24 1 (f_hi w) 0 (signed_take_bit 8 (u_b w))),
      \<comment> \<open>C.SLLI\<close> \<lambda>w. if \<not> rv64 \<and> bit w 12 then None else Some (enc_I 4 1 (f_rd w) (f_rd w) (u_imm w)),
      \<lambda>w. None,
      \<comment> \<open>C.LWSP\<close> \<lambda>w. if f_rd w = 0 then None else Some (enc_I 0 2 (f_rd w) 2 (u_lwsp w)),
      \<comment> \<open>C.LDSP\<close> \<lambda>w. if f_rd w = 0 \<or> \<not> rv64 then None else Some (enc_I 0 3 (f_rd w) 2 (u_ldsp w)),
      \<comment> \<open>C.JR, C.MV, C.EBREAK, C.JALR, C.ADD\<close> \<lambda>w.
        if f_rs2 w \<noteq> 0 then Some (enc_R 12 0 0 (f_rd w) (if bit w 12 then f_rd w else 0) (f_rs2 w))
        else if f_rd w \<noteq> 0 then Some (enc_I 25 0 (if bit w 12 then 1 else 0) (f_rd w) 0)
        else if bit w 12 then Some (enc_I 28 0 0 0 1)
        else None,
      \<lambda>w. None,
      \<comment> \<open>C.SWSP\<close> \<lambda>w. Some (enc_S 8 2 2 (f_rs2 w) (u_swsp w)),
      \<comment> \<open>C.SDSP\<close> \<lambda>w. if rv64 then Some (enc_S 8 3 2 (f_rs2 w) (u_sdsp w)) else None]"

text \<open>The compressed instruction is in the low 16 bits; its lowest two bits are the quadrant.\<close>

definition expand :: "bool \<Rightarrow> 32 word \<Rightarrow> 32 word option" where
  "expand rv64 instr =
     (if instr AND 3 = 3 then None
      else (expansions rv64 ! unat (push_bit 3 (instr AND 3) OR (drop_bit 13 instr AND 7))) (instr AND 0xFFFF))"

text \<open>Only the low half of the word matters.\<close>

lemma expand_low: "expand rv64 (w AND 0xFFFF) = expand rv64 w"
proof -
  have "(w AND 0xFFFF) AND 3 = w AND 3" "drop_bit 13 (w AND 0xFFFF) AND 7 = drop_bit 13 w AND 7"
    by (rule word32_eqI; simp add: word_bits; simp add: eval_nat_numeral)+
  then show ?thesis
    by (simp add: expand_def and.assoc)
qed

section \<open>The fields as the decoder extracts them\<close>

lemma c_fields:
  "c_imm6 w = u_imm w" "c_lw_imm w = u_lw w" "c_ld_imm w = u_ld w"
  "assemble (drop_bit 2 w AND 0x7FF) 0 [5, 1, 2, 3, 7, 6, 10, 8, 9, 4, 11] = u_j w"
  "(push_bit 3 w AND push_bit 5 1) OR (drop_bit 2 w AND push_bit 1 3) OR (push_bit 1 w AND push_bit 6 3)
     OR (drop_bit 7 w AND push_bit 3 3) OR (drop_bit 4 w AND push_bit 8 1) = u_b w"
  "(drop_bit 2 w AND push_bit 3 1) OR (drop_bit 4 w AND push_bit 2 1) OR (drop_bit 1 w AND push_bit 6 0xF)
     OR (drop_bit 7 w AND push_bit 4 0x3) = u_4spn w"
  "(drop_bit 2 w AND push_bit 4 1) OR (push_bit 3 w AND push_bit 5 1) OR (push_bit 1 w AND push_bit 6 1)
     OR (push_bit 4 w AND push_bit 7 3) OR (drop_bit 3 w AND push_bit 9 1) = u_16sp w"
  "(push_bit 4 w AND push_bit 6 3) OR (drop_bit 2 w AND push_bit 2 7) OR (drop_bit 7 w AND push_bit 5 1) = u_lwsp w"
  "(push_bit 4 w AND push_bit 6 7) OR (drop_bit 2 w AND push_bit 3 3) OR (drop_bit 7 w AND push_bit 5 1) = u_ldsp w"
  "(drop_bit 7 w AND push_bit 2 0xF) OR (drop_bit 1 w AND push_bit 6 3) = u_swsp w"
  "(drop_bit 7 w AND push_bit 3 7) OR (drop_bit 1 w AND push_bit 6 7) = u_sdsp w"
  "drop_bit 7 w AND 0x1F = f_rd w" "drop_bit 2 w AND 0x1F = f_rs2 w"
  unfolding c_imm6_def c_lw_imm_def c_ld_imm_def u_imm_def u_lw_def u_ld_def u_j_def u_b_def u_4spn_def u_16sp_def
    u_lwsp_def u_ldsp_def u_swsp_def u_sdsp_def f_rd_def f_rs2_def
  by (rule word32_eqI; simp add: word_bits del: assemble.simps push_bit_Suc; simp add: eval_nat_numeral del: push_bit_Suc)+

lemma plus_8: "(v AND 7) + 8 = (8 OR (v AND 7) :: 32 word)"
proof -
  have "(v AND 7) + 8 = (v AND 7) OR (8 :: 32 word)"
    by (rule disjunctive_add) (auto simp: bit_and_iff bit_low_masks less_Suc_eq numeral_3_eq_3 intro!: Nat.gr0I)
  then show ?thesis
    by (simp add: or.commute)
qed

lemma c_regs: "c_rd w = unat (f_rd w)" "c_rs2 w = unat (f_rs2 w)" "c_rlo w = unat (f_lo w)" "c_rhi w = unat (f_hi w)"
proof -
  have "f_lo w = 8 OR (drop_bit 2 w AND 7)" "f_hi w = 8 OR (drop_bit 7 w AND 7)"
    unfolding f_lo_def f_hi_def by (rule word32_eqI; simp add: word_bits; simp add: eval_nat_numeral)+
  then show "c_rlo w = unat (f_lo w)" "c_rhi w = unat (f_hi w)"
    by (simp_all add: c_rlo_def c_rhi_def plus_8)
qed (simp_all add: c_rd_def c_rs2_def c_fields)

lemma field_widths:
  "take_bit 5 (f_rd w) = f_rd w" "take_bit 5 (f_rs2 w) = f_rs2 w" "take_bit 5 (f_lo w) = f_lo w" "take_bit 5 (f_hi w) = f_hi w"
  "take_bit 12 (u_lw w) = u_lw w" "take_bit 12 (u_ld w) = u_ld w" "take_bit 12 (u_4spn w) = u_4spn w"
  "take_bit 12 (u_lwsp w) = u_lwsp w" "take_bit 12 (u_ldsp w) = u_ldsp w" "take_bit 12 (u_swsp w) = u_swsp w"
  "take_bit 12 (u_sdsp w) = u_sdsp w" "take_bit 12 (u_imm w) = u_imm w" "take_bit 12 (0x400 OR u_imm w) = 0x400 OR u_imm w"
  "take_bit (Suc 5) (u_imm w) = u_imm w" "take_bit (Suc 9) (u_16sp w) = u_16sp w" "take_bit (Suc 11) (u_j w) = u_j w"
  "take_bit (Suc 8) (u_b w) = u_b w"
  unfolding f_rd_def f_rs2_def f_lo_def f_hi_def u_imm_def u_lw_def u_ld_def u_j_def u_b_def u_4spn_def u_16sp_def
    u_lwsp_def u_ldsp_def u_swsp_def u_sdsp_def
  by (rule word32_eqI; simp add: word_bits; simp add: eval_nat_numeral)+

lemma even_targets: "\<not> bit (u_j w) 0" "\<not> bit (u_b w) 0"
  by (simp_all add: u_j_def u_b_def)

section \<open>Immediates\<close>

text \<open>Sign-extending in two steps is sign-extending once.\<close>

lemma sext_field:
  fixes g :: "32 word"
  assumes "take_bit (Suc k) g = g" "k \<le> n" "n < 32"
  shows "sign_extend (ucast (take_bit (Suc n) (signed_take_bit k g)) :: 'x::len word) n =
    sign_extend (ucast (sign_extend g k)) n"
proof (rule bit_word_eqI)
  fix i assume "i < LENGTH('x)"
  moreover have h: "bit g i \<longrightarrow> i \<le> n"
    using bit_sign_extend_ge [OF assms(1), of i] assms(2) by auto
  moreover have "bit (sign_extend g k) j \<longleftrightarrow> j < 32 \<and> (bit g j \<or> bit g k \<and> k \<le> j)" for j
    by (simp add: bit_sign_extend)
  ultimately show "bit (sign_extend (ucast (take_bit (Suc n) (signed_take_bit k g)) :: 'x word) n) i \<longleftrightarrow>
      bit (sign_extend (ucast (sign_extend g k) :: 'x word) n) i"
    using assms(2,3) bit_sign_extend_ge [OF assms(1)] h
    by (auto simp: sign_extend_eq_signed_take_bit [OF assms(1), symmetric] bit_sign_extend [where 'a = 'x]
        bit_ucast_iff bit_take_bit_iff)
qed

lemma sext_even: "\<not> bit g 0 \<Longrightarrow> k \<noteq> 0 \<Longrightarrow> take_bit m (signed_take_bit k g) AND NOT 1 = take_bit m (signed_take_bit k (g :: 32 word))"
  by (rule bit_word_eqI) (auto simp: bit_and_iff bit_not_iff bit_1_iff bit_take_bit_iff bit_signed_take_bit_iff intro!: Nat.gr0I)

section \<open>Row by row\<close>

lemma exec_enc:
  fixes s :: "'x::len vm"
  shows
  "exec_sized isz (enc_I 0 f3 rd rs1 imm) s =
     doLOAD (unat (take_bit 3 f3)) (take_bit 12 imm) (unat (take_bit 5 rd)) (unat (take_bit 5 rs1)) s"
  "exec_sized isz (enc_I 4 f3 rd rs1 imm) s =
     doOPIMM (unat (take_bit 3 f3)) (take_bit 12 imm) (unat (take_bit 5 rd)) (unat (take_bit 5 rs1)) s"
  "CONFIG_RV64 TYPE('x) \<Longrightarrow> exec_sized isz (enc_I 6 f3 rd rs1 imm) s =
     doOPIMM32 (unat (take_bit 3 f3)) (take_bit 12 imm) (unat (take_bit 5 rd)) (unat (take_bit 5 rs1)) s"
  "exec_sized isz (enc_S 8 f3 rs1 rs2 imm) s =
     doSTORE (unat (take_bit 3 f3)) (take_bit 12 imm) (unat (take_bit 5 rs1)) (unat (take_bit 5 rs2)) s"
  "exec_sized isz (enc_R 12 f3 f7 rd rs1 rs2) s =
     doOP (unat (take_bit 3 f3)) (unat (take_bit 7 f7)) (unat (take_bit 5 rd)) (unat (take_bit 5 rs1)) (unat (take_bit 5 rs2)) s"
  "CONFIG_RV64 TYPE('x) \<Longrightarrow> exec_sized isz (enc_R 14 f3 f7 rd rs1 rs2) s =
     doOP32 (unat (take_bit 3 f3)) (unat (take_bit 7 f7)) (unat (take_bit 5 rd)) (unat (take_bit 5 rs1)) (unat (take_bit 5 rs2)) s"
  "exec_sized isz (enc_U 13 rd imm) s = doLUI (imm AND 0xFFFFF000) (unat (take_bit 5 rd)) s"
  "exec_sized isz (enc_B 24 f3 rs1 rs2 imm) s =
     doBRANCH (unat (take_bit 3 f3)) (take_bit 13 imm AND NOT 1) (unat (take_bit 5 rs1)) (unat (take_bit 5 rs2)) isz s"
  "exec_sized isz (enc_I 25 f3 rd rs1 imm) s =
     doJALR (unat (take_bit 3 f3)) (take_bit 12 imm) (unat (take_bit 5 rd)) (unat (take_bit 5 rs1)) isz s"
  "exec_sized isz (enc_J 27 rd imm) s = doJAL (take_bit 21 imm AND NOT 1) (unat (take_bit 5 rd)) isz s"
  "exec_sized isz (enc_I 28 f3 rd rs1 imm) s =
     doSYSTEM (unat (take_bit 3 f3)) (take_bit 12 imm) (unat (take_bit 5 rd)) (unat (take_bit 5 rs1)) isz s"
  by (simp_all add: exec_sized_def decode_enc Let_def execInstr_def jumpTable_def decodeLOAD_def decodeOPIMM_def
      decodeOPIMM32_def decodeSTORE_def decodeOP_def decodeOP32_def decodeLUI_def)

lemma signed_imm:
  fixes g :: "32 word" and s :: "'x::len vm"
  assumes g: "take_bit (Suc k) g = g" and k: "k \<le> 11" "k \<noteq> 0"
  shows "doOPIMM 0 (take_bit 12 (signed_take_bit k g)) rd rs1 s = doOPIMM 0 (sign_extend g k) rd rs1 s"
    "doOPIMM 7 (take_bit 12 (signed_take_bit k g)) rd rs1 s = doOPIMM 7 (sign_extend g k) rd rs1 s"
    "doOPIMM32 0 (take_bit 12 (signed_take_bit k g)) rd rs1 s = doOPIMM32 0 (sign_extend g k) rd rs1 s"
    "\<not> bit g 0 \<Longrightarrow> doBRANCH f3 (take_bit 13 (signed_take_bit k g) AND NOT 1) rs1 rs2 isz s =
       doBRANCH f3 (sign_extend g k) rs1 rs2 isz s"
    "\<not> bit g 0 \<Longrightarrow> doJAL (take_bit 21 (signed_take_bit k g) AND NOT 1) rd isz s = doJAL (sign_extend g k) rd isz s"
proof -
  have a: "sign_extend (ucast (take_bit 12 (signed_take_bit k g)) :: 'x word) 11 = sign_extend (ucast (sign_extend g k)) 11"
    using sext_field [OF g k(1), where 'x = 'x] by simp
  show "doOPIMM 0 (take_bit 12 (signed_take_bit k g)) rd rs1 s = doOPIMM 0 (sign_extend g k) rd rs1 s"
    "doOPIMM 7 (take_bit 12 (signed_take_bit k g)) rd rs1 s = doOPIMM 7 (sign_extend g k) rd rs1 s"
    "doOPIMM32 0 (take_bit 12 (signed_take_bit k g)) rd rs1 s = doOPIMM32 0 (sign_extend g k) rd rs1 s"
    by (simp_all add: doOPIMM_def doOPIMM32_def Let_def a)
  show "doBRANCH f3 (take_bit 13 (signed_take_bit k g) AND NOT 1) rs1 rs2 isz s =
       doBRANCH f3 (sign_extend g k) rs1 rs2 isz s" if "\<not> bit g 0"
    using sext_field [OF g, of 12, where 'x = 'x] k unfolding sext_even [OF that k(2)] by (simp add: doBRANCH_def)
  show "doJAL (take_bit 21 (signed_take_bit k g) AND NOT 1) rd isz s = doJAL (sign_extend g k) rd isz s" if "\<not> bit g 0"
    using sext_field [OF g, of 20, where 'x = 'x] k unfolding sext_even [OF that k(2)] by (simp add: doJAL_def)
qed

lemma upper_field: "push_bit 12 v AND 0xFFFFF000 = (push_bit 12 v :: 32 word)"
  by (rule word32_eqI) (simp add: word_bits)

lemma writeReg_same: "writeReg rd (readReg s rd) s = s"
  by (simp add: writeReg_def readReg_def)

lemma writeReg_zero: "writeReg 0 v s = s"
  by (simp add: writeReg_def)

lemma sign_extend_zero: "sign_extend 0 k = 0"
  by (simp add: sign_extend_def)

text \<open>The hints: encodings whose expansion changes nothing, which the decoder skips.\<close>

lemma hints:
  "doOPIMM 0 v 0 r s = s" "doOPIMM 0 0 rd rd s = s" "doOPIMM 1 0 rd rd s = s" "doLUI u 0 s = s" "doOP 0 0 0 r r' s = s"
  "drop_bit 6 v = 0 \<Longrightarrow> doOPIMM 1 v 0 r s = s"
  by (simp_all add: doOPIMM_def doLUI_def doOP_def opValue_def shamt_def Let_def writeReg_zero sign_extend_zero
      writeReg_same)

lemma unat_eq_2: "unat v = 2 \<longleftrightarrow> v = (2 :: 32 word)"
  by (simp add: word_unat_eq_iff)

lemmas row_unfold = c_j_imm_def c_b_imm_def c_fields c_regs Let_def

lemma signed_rows:
  fixes s :: "'x::len vm"
  shows
  "exec_sized isz (enc_I 4 0 rd rs1 (signed_take_bit 5 (u_imm w))) s =
     doOPIMM 0 (sign_extend (u_imm w) 5) (unat (take_bit 5 rd)) (unat (take_bit 5 rs1)) s"
  "exec_sized isz (enc_I 4 7 rd rs1 (signed_take_bit 5 (u_imm w))) s =
     doOPIMM 7 (sign_extend (u_imm w) 5) (unat (take_bit 5 rd)) (unat (take_bit 5 rs1)) s"
  "CONFIG_RV64 TYPE('x) \<Longrightarrow> exec_sized isz (enc_I 6 0 rd rs1 (signed_take_bit 5 (u_imm w))) s =
     doOPIMM32 0 (sign_extend (u_imm w) 5) (unat (take_bit 5 rd)) (unat (take_bit 5 rs1)) s"
  "exec_sized isz (enc_I 4 0 rd rs1 (signed_take_bit 9 (u_16sp w))) s =
     doOPIMM 0 (sign_extend (u_16sp w) 9) (unat (take_bit 5 rd)) (unat (take_bit 5 rs1)) s"
  "exec_sized isz (enc_J 27 rd (signed_take_bit 11 (u_j w))) s =
     doJAL (sign_extend (u_j w) 11) (unat (take_bit 5 rd)) isz s"
  "exec_sized isz (enc_B 24 f3 rs1 rs2 (signed_take_bit 8 (u_b w))) s =
     doBRANCH (unat (take_bit 3 f3)) (sign_extend (u_b w) 8) (unat (take_bit 5 rs1)) (unat (take_bit 5 rs2)) isz s"
  using signed_imm [OF field_widths(14)] signed_imm [OF field_widths(15)] signed_imm [OF field_widths(16)]
    signed_imm [OF field_widths(17)] even_targets
  by (simp_all only: exec_enc) simp_all

lemma rows_0:
  fixes s :: "'x::len vm"
  defines "e \<equiv> expansions (CONFIG_RV64 TYPE('x))"
  shows "(e ! 0) w = Some i \<Longrightarrow> decodeCextQ0_0 w s = exec_sized 2 i s"
    "(e ! 2) w = Some i \<Longrightarrow> decodeCextQ0_2 w s = exec_sized 2 i s"
    "(e ! 3) w = Some i \<Longrightarrow> decodeCextQ0_3 w s = exec_sized 2 i s"
    "(e ! 6) w = Some i \<Longrightarrow> decodeCextQ0_6 w s = exec_sized 2 i s"
    "(e ! 7) w = Some i \<Longrightarrow> decodeCextQ0_7 w s = exec_sized 2 i s"
  unfolding decodeCextQ0_0_def decodeCextQ0_2_def decodeCextQ0_3_def decodeCextQ0_6_def decodeCextQ0_7_def row_unfold
  by (auto simp: e_def expansions_def field_widths exec_enc CPU_REG_SP_def split: if_splits)

lemma rows_1:
  fixes s :: "'x::len vm"
  defines "e \<equiv> expansions (CONFIG_RV64 TYPE('x))"
  shows "(e ! 8) w = Some i \<Longrightarrow> decodeCextQ1_0 w s = exec_sized 2 i s"
    "(e ! 9) w = Some i \<Longrightarrow> decodeCextQ1_1 w s = exec_sized 2 i s"
    "(e ! 10) w = Some i \<Longrightarrow> decodeCextQ1_2 w s = exec_sized 2 i s"
    "(e ! 11) w = Some i \<Longrightarrow> decodeCextQ1_3 w s = exec_sized 2 i s"
    "(e ! 13) w = Some i \<Longrightarrow> decodeCextQ1_5 w s = exec_sized 2 i s"
    "(e ! 14) w = Some i \<Longrightarrow> decodeCextQ1_6 w s = exec_sized 2 i s"
    "(e ! 15) w = Some i \<Longrightarrow> decodeCextQ1_7 w s = exec_sized 2 i s"
  unfolding decodeCextQ1_0_def decodeCextQ1_1_def decodeCextQ1_2_def decodeCextQ1_3_def decodeCextQ1_5_def
    decodeCextQ1_6_def decodeCextQ1_7_def row_unfold
  by (auto simp: e_def expansions_def field_widths signed_rows exec_enc(2) [where imm = 0] exec_enc(7) upper_field unat_eq_2 hints cextNop_def
      sign_extend_zero sign_extend_eq_signed_take_bit [OF field_widths(14)] CPU_REG_SP_def CPU_REG_RA_def CPU_REG_ZERO_def
      unat_eq_0 split: if_splits)

lemma two_bits:
  "drop_bit 10 w AND 3 = (if bit w 11 then 2 else 0) + (if bit w 10 then 1 else 0 :: 32 word)"
  "drop_bit 5 w AND 3 = (if bit w 6 then 2 else 0) + (if bit w 5 then 1 else 0 :: 32 word)"
  "drop_bit 12 w AND 1 = (if bit w 12 then 1 else 0 :: 32 word)"
  by (rule word32_eqI; simp add: word_bits; simp add: eval_nat_numeral)+

lemma bit_12: "w AND push_bit 12 1 \<noteq> 0 \<longleftrightarrow> bit (w :: 32 word) 12"
  using and_exp_eq_0_iff [of w 12] by simp

lemma shift_imm: "drop_bit 6 (u_imm w) = 0"
  unfolding u_imm_def by (rule word32_eqI) (simp add: word_bits)

lemma shift_rv32: "\<not> bit w 12 \<Longrightarrow> drop_bit 5 (u_imm w) = 0"
  unfolding u_imm_def by (rule word32_eqI) (simp add: word_bits)

lemma rows_1_4:
  fixes s :: "'x::len vm"
  assumes "(expansions (CONFIG_RV64 TYPE('x)) ! 12) w = Some i"
  shows "decodeCextQ1_4 w s = exec_sized 2 i s"
  using assms unfolding decodeCextQ1_4_def row_unfold two_bits bit_12
  by (auto simp: expansions_def field_widths signed_rows exec_enc(2) [where ?f3.0 = 5] exec_enc(5,6)
      or.commute [of _ "0x400"] split: if_splits)

lemma rows_2:
  fixes s :: "'x::len vm"
  defines "e \<equiv> expansions (CONFIG_RV64 TYPE('x))"
  shows "(e ! 16) w = Some i \<Longrightarrow> decodeCextQ2_0 w s = exec_sized 2 i s"
    "(e ! 18) w = Some i \<Longrightarrow> decodeCextQ2_2 w s = exec_sized 2 i s"
    "(e ! 19) w = Some i \<Longrightarrow> decodeCextQ2_3 w s = exec_sized 2 i s"
    "(e ! 20) w = Some i \<Longrightarrow> decodeCextQ2_4 w s = exec_sized 2 i s"
    "(e ! 22) w = Some i \<Longrightarrow> decodeCextQ2_6 w s = exec_sized 2 i s"
    "(e ! 23) w = Some i \<Longrightarrow> decodeCextQ2_7 w s = exec_sized 2 i s"
  unfolding decodeCextQ2_0_def decodeCextQ2_2_def decodeCextQ2_3_def decodeCextQ2_4_def decodeCextQ2_6_def
    decodeCextQ2_7_def row_unfold two_bits
  by (auto simp: e_def expansions_def field_widths exec_enc hints hints(3,6) [unfolded One_nat_def] cextNop_def shift_imm
      CPU_REG_SP_def CPU_REG_RA_def CPU_REG_ZERO_def unat_eq_0 split: if_splits)

section \<open>The table\<close>

lemma cext_rows:
  "cextTable ! 0 = decodeCextQ0_0" "cextTable ! 1 = decodeCextQ0_1" "cextTable ! 2 = decodeCextQ0_2"
    "cextTable ! 3 = decodeCextQ0_3" "cextTable ! 4 = decodeCextQ0_4" "cextTable ! 5 = decodeCextQ0_5"
    "cextTable ! 6 = decodeCextQ0_6" "cextTable ! 7 = decodeCextQ0_7" "cextTable ! 8 = decodeCextQ1_0"
    "cextTable ! 9 = decodeCextQ1_1" "cextTable ! 10 = decodeCextQ1_2" "cextTable ! 11 = decodeCextQ1_3"
    "cextTable ! 12 = decodeCextQ1_4" "cextTable ! 13 = decodeCextQ1_5" "cextTable ! 14 = decodeCextQ1_6"
    "cextTable ! 15 = decodeCextQ1_7" "cextTable ! 16 = decodeCextQ2_0" "cextTable ! 17 = decodeCextQ2_1"
    "cextTable ! 18 = decodeCextQ2_2" "cextTable ! 19 = decodeCextQ2_3" "cextTable ! 20 = decodeCextQ2_4"
    "cextTable ! 21 = decodeCextQ2_5" "cextTable ! 22 = decodeCextQ2_6" "cextTable ! 23 = decodeCextQ2_7"
  by (simp_all add: cextTable_def)

lemma no_rows: "(expansions r ! 1) w = None" "(expansions r ! 4) w = None" "(expansions r ! 5) w = None"
    "(expansions r ! 17) w = None" "(expansions r ! 21) w = None"
  by (simp_all add: expansions_def)

lemma table_index: "k < 24 \<Longrightarrow> k \<in> {0, 1, 2, 3, 4, 5, 6, 7, 8, 9, 10, 11, 12, 13, 14, 15, 16, 17, 18, 19, 20, 21, 22, 23 :: nat}"
  by (simp add: less_Suc_eq numeral_eq_Suc)

lemma all_rows:
  fixes s :: "'x::len vm"
  assumes k: "k < 24" and e: "(expansions (CONFIG_RV64 TYPE('x)) ! k) w = Some i"
  shows "(cextTable ! k) w s = exec_sized 2 i s"
  using table_index [OF k]
proof (elim insertE emptyE)
qed (use e in \<open>simp_all only: cext_rows rows_0 rows_1 rows_1_4 rows_2 no_rows option.distinct\<close>)

lemma enc_low: "enc_R a b c d e f AND 3 = 3" "enc_I a b c d e AND 3 = 3" "enc_S a b c d e AND 3 = 3"
  "enc_B a b c d e AND 3 = 3" "enc_U a b c AND 3 = 3" "enc_J a b c AND 3 = 3"
  by (rule word32_eqI; simp add: enc_defs word_bits)+

lemma expansion_low:
  assumes k: "k < 24" and e: "(expansions r ! k) w = Some i"
  shows "i AND 3 = 3"
  using table_index [OF k] e
  by (elim insertE emptyE) (auto simp: expansions_def enc_low split: if_splits)

lemma cext_expands:
  fixes s :: "'x::len vm"
  assumes "expand (CONFIG_RV64 TYPE('x)) instr = Some i"
  shows "execCext instr s = (True, exec_sized 2 i s) \<and> i AND 3 = 3 \<and> execInstr i s = exec_sized 4 i s"
proof -
  have q: "instr AND 3 \<noteq> 3"
    using assms by (auto simp: expand_def)
  define k where "k = unat (push_bit 3 (instr AND 3) OR (drop_bit 13 instr AND 7))"
  have k: "k < 24"
    unfolding k_def by (rule cext_index_less [OF q])
  have e: "(expansions (CONFIG_RV64 TYPE('x)) ! k) (instr AND 0xFFFF) = Some i"
    using assms q by (simp add: expand_def k_def)
  have "execCext instr s = (True, (cextTable ! k) (instr AND 0xFFFF) s)"
    using q by (simp add: execCext_def k_def Let_def)
  then show ?thesis
    using all_rows [OF k e, of s] expansion_low [OF k e] by (simp add: exec_sized_base)
qed

text \<open>C8. Every compressed instruction the manual defines does what its 32-bit expansion does, taken as an
  instruction of two bytes: the two decoders agree, for both register widths. The expansion is a genuine 32-bit
  instruction, and at its own size it is what the base decoder executes.\<close>

theorem compressed_expands:
  fixes s :: "'x::len vm"
  assumes "expand (CONFIG_RV64 TYPE('x)) instr = Some i"
  shows "execCext instr s = (True, exec_sized 2 i s) \<and> i AND 3 = 3 \<and> execInstr i s = exec_sized 4 i s"
  by (rule cext_expands [OF assms])

text \<open>\<^verbatim>\<open>c.addi a0, 1\<close> is \<^verbatim>\<open>addi a0, a0, 1\<close>, and \<^verbatim>\<open>c.lw a2, 8(a0)\<close> is \<^verbatim>\<open>lw a2, 8(a0)\<close>.\<close>

theorem compressed_expands_witness:
  "execCext 0x0505 demo = (True, exec_sized 2 0x00150513 demo) \<and>
   execCext 0x4510 demo = (True, exec_sized 2 0x00852603 demo)"
proof -
  have "expand False 0x0505 = Some 0x00150513" "expand False 0x4510 = Some 0x00852603"
    by code_simp+
  then show ?thesis
    using compressed_expands [where s = demo] by simp
qed

end
