(* ===== verification/Isa_Spec.thy ===== *)
theory Isa_Spec
  imports Cext_Expand
begin

text \<open>
  The instruction set as the RISC-V manual describes it, written down without looking at the emulator: the
  unprivileged instructions of RV32 and RV64 with the M, A (but for load-reserved and store-conditional) and C
  extensions as a datatype, their encodings, and what each of them does to an architectural state of registers,
  program counter and memory. Values are described by the integers they stand for. \<open>Isa_Refine\<close> shows that the
  emulator runs programs this way.
\<close>

section \<open>Instructions\<close>

type_synonym reg = "5 word"

datatype alu = Add | Sub | Sll | Slt | Sltu | Xor | Srl | Sra | Or | And
  | Mul | Mulh | Mulhsu | Mulhu | Div | Divu | Rem | Remu

datatype cond = Eq | Ne | Lt | Ge | Ltu | Geu

datatype amo = AmoSwap | AmoAdd | AmoXor | AmoAnd | AmoOr | AmoMin | AmoMax | AmoMinu | AmoMaxu

datatype width = W8 | W16 | W32 | W64

text \<open>Registers are named in the order destination, first source, second source. Branches and \<^verbatim>\<open>jal\<close> carry half
  of their offset, since an offset is even; the two upper-immediate instructions carry the upper twenty bits.\<close>

datatype instr =
    Op alu reg reg reg
  | OpW alu reg reg reg
  | OpImm alu reg reg "12 word"
  | OpImmW reg reg "12 word"
  | Shift alu reg reg "6 word"
  | ShiftW alu reg reg "5 word"
  | Lui reg "20 word"
  | Auipc reg "20 word"
  | Jal reg "20 word"
  | Jalr reg reg "12 word"
  | Branch cond reg reg "12 word"
  | Load width bool reg reg "12 word"
  | Store width reg reg "12 word"
  | Amo amo width reg reg reg "2 word"
  | Fence bool

section \<open>Encodings\<close>

primrec alu_f3 :: "alu \<Rightarrow> 32 word" where
  "alu_f3 Add = 0"
| "alu_f3 Sub = 0"
| "alu_f3 Sll = 1"
| "alu_f3 Slt = 2"
| "alu_f3 Sltu = 3"
| "alu_f3 Xor = 4"
| "alu_f3 Srl = 5"
| "alu_f3 Sra = 5"
| "alu_f3 Or = 6"
| "alu_f3 And = 7"
| "alu_f3 Mul = 0"
| "alu_f3 Mulh = 1"
| "alu_f3 Mulhsu = 2"
| "alu_f3 Mulhu = 3"
| "alu_f3 Div = 4"
| "alu_f3 Divu = 5"
| "alu_f3 Rem = 6"
| "alu_f3 Remu = 7"

definition alu_f7 :: "alu \<Rightarrow> 32 word" where
  "alu_f7 i = (if i \<in> {Sub, Sra} then 0x20
     else if i \<in> {Mul, Mulh, Mulhsu, Mulhu, Div, Divu, Rem, Remu} then 1 else 0)"

primrec cond_f3 :: "cond \<Rightarrow> 32 word" where
  "cond_f3 Eq = 0"
| "cond_f3 Ne = 1"
| "cond_f3 Lt = 4"
| "cond_f3 Ge = 5"
| "cond_f3 Ltu = 6"
| "cond_f3 Geu = 7"

primrec amo_f5 :: "amo \<Rightarrow> 32 word" where
  "amo_f5 AmoAdd = 0"
| "amo_f5 AmoSwap = 1"
| "amo_f5 AmoXor = 4"
| "amo_f5 AmoOr = 8"
| "amo_f5 AmoAnd = 12"
| "amo_f5 AmoMin = 16"
| "amo_f5 AmoMax = 20"
| "amo_f5 AmoMinu = 24"
| "amo_f5 AmoMaxu = 28"

primrec log_bytes :: "width \<Rightarrow> nat" where
  "log_bytes W8 = 0"
| "log_bytes W16 = 1"
| "log_bytes W32 = 2"
| "log_bytes W64 = 3"

abbreviation n_bytes :: "width \<Rightarrow> nat" where
  "n_bytes w \<equiv> 2 ^ log_bytes w"

primrec encode :: "instr \<Rightarrow> 32 word" where
  "encode (Op i rd rs1 rs2) = enc_R 12 (alu_f3 i) (alu_f7 i) (ucast rd) (ucast rs1) (ucast rs2)"
| "encode (OpW i rd rs1 rs2) = enc_R 14 (alu_f3 i) (alu_f7 i) (ucast rd) (ucast rs1) (ucast rs2)"
| "encode (OpImm i rd rs1 imm) = enc_I 4 (alu_f3 i) (ucast rd) (ucast rs1) (ucast imm)"
| "encode (OpImmW rd rs1 imm) = enc_I 6 0 (ucast rd) (ucast rs1) (ucast imm)"
| "encode (Shift i rd rs1 n) = enc_I 4 (alu_f3 i) (ucast rd) (ucast rs1) (push_bit 5 (alu_f7 i) OR ucast n)"
| "encode (ShiftW i rd rs1 n) = enc_I 6 (alu_f3 i) (ucast rd) (ucast rs1) (push_bit 5 (alu_f7 i) OR ucast n)"
| "encode (Lui rd imm) = enc_U 13 (ucast rd) (push_bit 12 (ucast imm))"
| "encode (Auipc rd imm) = enc_U 5 (ucast rd) (push_bit 12 (ucast imm))"
| "encode (Jal rd imm) = enc_J 27 (ucast rd) (push_bit 1 (ucast imm))"
| "encode (Jalr rd rs1 imm) = enc_I 25 0 (ucast rd) (ucast rs1) (ucast imm)"
| "encode (Branch c rs1 rs2 imm) = enc_B 24 (cond_f3 c) (ucast rs1) (ucast rs2) (push_bit 1 (ucast imm))"
| "encode (Load w u rd rs1 imm) =
     enc_I 0 (of_nat (log_bytes w) OR (if u then 4 else 0)) (ucast rd) (ucast rs1) (ucast imm)"
| "encode (Store w rs1 rs2 imm) = enc_S 8 (of_nat (log_bytes w)) (ucast rs1) (ucast rs2) (ucast imm)"
| "encode (Amo i w rd rs1 rs2 aqrl) =
     enc_R 11 (of_nat (log_bytes w)) (push_bit 2 (amo_f5 i) OR ucast aqrl) (ucast rd) (ucast rs1) (ucast rs2)"
| "encode (Fence i) = enc_I 3 (if i then 1 else 0) 0 0 (if i then 0 else 0xFF)"

text \<open>Which of them exist for a register width.\<close>

primrec legal :: "bool \<Rightarrow> instr \<Rightarrow> bool" where
  "legal rv64 (Op i rd rs1 rs2) = True"
| "legal rv64 (OpW i rd rs1 rs2) = (rv64 \<and> i \<in> {Add, Sub, Sll, Srl, Sra, Mul, Div, Divu, Rem, Remu})"
| "legal rv64 (OpImm i rd rs1 imm) = (i \<in> {Add, Slt, Sltu, Xor, Or, And})"
| "legal rv64 (OpImmW rd rs1 imm) = rv64"
| "legal rv64 (Shift i rd rs1 n) = (i \<in> {Sll, Srl, Sra} \<and> (rv64 \<or> n < 32))"
| "legal rv64 (ShiftW i rd rs1 n) = (rv64 \<and> i \<in> {Sll, Srl, Sra})"
| "legal rv64 (Lui rd imm) = True"
| "legal rv64 (Auipc rd imm) = True"
| "legal rv64 (Jal rd imm) = True"
| "legal rv64 (Jalr rd rs1 imm) = True"
| "legal rv64 (Branch c rs1 rs2 imm) = True"
| "legal rv64 (Load w u rd rs1 imm) = (if w = W64 then rv64 \<and> \<not> u else w = W32 \<and> u \<longrightarrow> rv64)"
| "legal rv64 (Store w rs1 rs2 imm) = (w = W64 \<longrightarrow> rv64)"
| "legal rv64 (Amo i w rd rs1 rs2 aqrl) = (w = W32 \<or> w = W64 \<and> rv64)"
| "legal rv64 (Fence i) = True"

section \<open>Values\<close>

primrec alu_val :: "alu \<Rightarrow> 'x::len word \<Rightarrow> 'x word \<Rightarrow> 'x word" where
  "alu_val Add a b = word_of_int (sint a + sint b)"
| "alu_val Sub a b = word_of_int (sint a - sint b)"
| "alu_val Sll a b = word_of_int (uint a * 2 ^ (unat b mod LENGTH('x)))"
| "alu_val Slt a b = of_bool (sint a < sint b)"
| "alu_val Sltu a b = of_bool (uint a < uint b)"
| "alu_val Xor a b = a XOR b"
| "alu_val Srl a b = word_of_int (uint a div 2 ^ (unat b mod LENGTH('x)))"
| "alu_val Sra a b = word_of_int (sint a div 2 ^ (unat b mod LENGTH('x)))"
| "alu_val Or a b = a OR b"
| "alu_val And a b = a AND b"
| "alu_val Mul a b = word_of_int (sint a * sint b)"
| "alu_val Mulh a b = word_of_int (sint a * sint b div 2 ^ LENGTH('x))"
| "alu_val Mulhsu a b = word_of_int (sint a * uint b div 2 ^ LENGTH('x))"
| "alu_val Mulhu a b = word_of_int (uint a * uint b div 2 ^ LENGTH('x))"
| "alu_val Div a b = (if b = 0 then - 1 else word_of_int (sint a sdiv sint b))"
| "alu_val Divu a b = (if b = 0 then - 1 else word_of_int (uint a div uint b))"
| "alu_val Rem a b = (if b = 0 then a else word_of_int (sint a smod sint b))"
| "alu_val Remu a b = (if b = 0 then a else word_of_int (uint a mod uint b))"

primrec cond_val :: "cond \<Rightarrow> 'x::len word \<Rightarrow> 'x word \<Rightarrow> bool" where
  "cond_val Eq a b = (a = b)"
| "cond_val Ne a b = (a \<noteq> b)"
| "cond_val Lt a b = (sint a < sint b)"
| "cond_val Ge a b = (sint b \<le> sint a)"
| "cond_val Ltu a b = (uint a < uint b)"
| "cond_val Geu a b = (uint b \<le> uint a)"

primrec amo_val :: "amo \<Rightarrow> 'x::len word \<Rightarrow> 'x word \<Rightarrow> 'x word" where
  "amo_val AmoSwap old v = v"
| "amo_val AmoAdd old v = old + v"
| "amo_val AmoXor old v = old XOR v"
| "amo_val AmoAnd old v = old AND v"
| "amo_val AmoOr old v = old OR v"
| "amo_val AmoMin old v = (if sint v < sint old then v else old)"
| "amo_val AmoMax old v = (if sint old < sint v then v else old)"
| "amo_val AmoMinu old v = (if uint v < uint old then v else old)"
| "amo_val AmoMaxu old v = (if uint old < uint v then v else old)"

text \<open>A value of the given width in a register: sign-extended, or filled with zeroes.\<close>

definition extend_to :: "width \<Rightarrow> bool \<Rightarrow> 'x::len word \<Rightarrow> 'x word" where
  "extend_to w u v = (if u then take_bit (8 * n_bytes w) v else signed_take_bit (8 * n_bytes w - 1) v)"

section \<open>The architectural state\<close>

text \<open>Memory is what a byte address holds, nothing where there is no memory.\<close>

record (overloaded) 'x arch =
  a_x :: "reg \<Rightarrow> 'x::len word"
  a_pc :: "'x::len word"
  a_mem :: "'x::len word \<Rightarrow> byte option"

definition set_x :: "reg \<Rightarrow> 'x::len word \<Rightarrow> 'x arch \<Rightarrow> 'x arch" where
  "set_x r v a = (if r = 0 then a else a\<lparr>a_x := (a_x a)(r := v)\<rparr>)"

definition mem_load :: "'x::len word \<Rightarrow> nat \<Rightarrow> 'x arch \<Rightarrow> byte list option" where
  "mem_load p n a = those (map (\<lambda>k. a_mem a (p + of_nat k)) [0..<n])"

definition mem_store :: "'x::len word \<Rightarrow> byte list \<Rightarrow> 'x arch \<Rightarrow> 'x arch option" where
  "mem_store p bs a =
     (if mem_load p (length bs) a = None then None
      else Some (a\<lparr>a_mem := (\<lambda>q. if unat (q - p) < length bs then Some (bs ! unat (q - p)) else a_mem a q)\<rparr>))"

definition goto :: "'x::len word \<Rightarrow> 'x arch \<Rightarrow> 'x arch" where
  "goto p a = a\<lparr>a_pc := p\<rparr>"

abbreviation advance :: "nat \<Rightarrow> 'x::len arch \<Rightarrow> 'x arch" where
  "advance n a \<equiv> goto (a_pc a + of_nat n) a"

text \<open>What an instruction of \<open>n\<close> bytes does; nothing where it does not complete because an access leaves memory
  or an atomic operation is not aligned.\<close>

primrec isa :: "nat \<Rightarrow> instr \<Rightarrow> 'x::len arch \<Rightarrow> 'x arch option" where
  "isa n (Op i rd rs1 rs2) a = Some (advance n (set_x rd (alu_val i (a_x a rs1) (a_x a rs2)) a))"
| "isa n (OpW i rd rs1 rs2) a = Some (advance n
     (set_x rd (scast (alu_val i (ucast (a_x a rs1) :: 32 word) (ucast (a_x a rs2)))) a))"
| "isa n (OpImm i rd rs1 imm) a = Some (advance n (set_x rd (alu_val i (a_x a rs1) (scast imm)) a))"
| "isa n (OpImmW rd rs1 imm) a = Some (advance n
     (set_x rd (scast (alu_val Add (ucast (a_x a rs1) :: 32 word) (scast imm))) a))"
| "isa n (Shift i rd rs1 k) a = Some (advance n (set_x rd (alu_val i (a_x a rs1) (ucast k)) a))"
| "isa n (ShiftW i rd rs1 k) a = Some (advance n
     (set_x rd (scast (alu_val i (ucast (a_x a rs1) :: 32 word) (ucast k))) a))"
| "isa n (Lui rd imm) a = Some (advance n (set_x rd (word_of_int (sint imm * 2 ^ 12)) a))"
| "isa n (Auipc rd imm) a = Some (advance n (set_x rd (a_pc a + word_of_int (sint imm * 2 ^ 12)) a))"
| "isa n (Jal rd imm) a = Some (goto (a_pc a + word_of_int (sint imm * 2)) (set_x rd (a_pc a + of_nat n) a))"
| "isa n (Jalr rd rs1 imm) a =
     Some (goto ((a_x a rs1 + scast imm) AND NOT 1) (set_x rd (a_pc a + of_nat n) a))"
| "isa n (Branch c rs1 rs2 imm) a =
     Some (if cond_val c (a_x a rs1) (a_x a rs2) then goto (a_pc a + word_of_int (sint imm * 2)) a else advance n a)"
| "isa n (Load w u rd rs1 imm) a =
     (case mem_load (a_x a rs1 + scast imm) (n_bytes w) a of
        None \<Rightarrow> None
      | Some bs \<Rightarrow> Some (advance n (set_x rd (extend_to w u (le_word bs)) a)))"
| "isa n (Store w rs1 rs2 imm) a =
     (case mem_store (a_x a rs1 + scast imm) (le_bytes (n_bytes w) (a_x a rs2)) a of
        None \<Rightarrow> None
      | Some b \<Rightarrow> Some (advance n b))"
| "isa n (Amo i w rd rs1 rs2 aqrl) a =
     (if unat (a_x a rs1) mod n_bytes w \<noteq> 0 then None
      else (case mem_load (a_x a rs1) (n_bytes w) a of
          None \<Rightarrow> None
        | Some bs \<Rightarrow>
            let old = extend_to w False (le_word bs); v = extend_to w False (a_x a rs2)
            in (case mem_store (a_x a rs1) (le_bytes (n_bytes w) (amo_val i old v)) a of
                  None \<Rightarrow> None
                | Some b \<Rightarrow> Some (advance n (set_x rd old b)))))"
| "isa n (Fence i) a = Some (advance n a)"

section \<open>Running a program\<close>

text \<open>The bytes at the program counter hold the instruction, in full or compressed.\<close>

definition instr_at :: "instr \<Rightarrow> nat \<Rightarrow> 'x::len arch \<Rightarrow> bool" where
  "instr_at i n a \<longleftrightarrow> even (unat (a_pc a)) \<and> legal (CONFIG_RV64 TYPE('x)) i \<and>
     (n = 4 \<and> mem_load (a_pc a) 4 a = Some (le_bytes 4 (encode i)) \<or>
      n = 2 \<and> (\<exists>bs. mem_load (a_pc a) 2 a = Some bs \<and> expand (CONFIG_RV64 TYPE('x)) (le_word bs) = Some (encode i)))"

text \<open>The bytes an instruction writes.\<close>

primrec writes :: "instr \<Rightarrow> 'x::len arch \<Rightarrow> ('x word \<times> nat) option" where
  "writes (Op i rd rs1 rs2) a = None"
| "writes (OpW i rd rs1 rs2) a = None"
| "writes (OpImm i rd rs1 imm) a = None"
| "writes (OpImmW rd rs1 imm) a = None"
| "writes (Shift i rd rs1 n) a = None"
| "writes (ShiftW i rd rs1 n) a = None"
| "writes (Lui rd imm) a = None"
| "writes (Auipc rd imm) a = None"
| "writes (Jal rd imm) a = None"
| "writes (Jalr rd rs1 imm) a = None"
| "writes (Branch c rs1 rs2 imm) a = None"
| "writes (Load w u rd rs1 imm) a = None"
| "writes (Store w rs1 rs2 imm) a = Some (a_x a rs1 + scast imm, n_bytes w)"
| "writes (Amo i w rd rs1 rs2 aqrl) a = Some (a_x a rs1, n_bytes w)"
| "writes (Fence i) a = None"

text \<open>One instruction of the program in memory. There is no step where the bytes at the program counter are not an
  instruction of the datatype, or where the instruction does not complete.\<close>

inductive isa_step :: "'x::len arch \<Rightarrow> 'x arch \<Rightarrow> bool" where
  isa_step: "instr_at i n a \<Longrightarrow> isa n i a = Some b \<Longrightarrow> isa_step a b"

end
