(* ===== verification/Instr_Props.thy ===== *)
theory Instr_Props
  imports Priv_Props
begin

text \<open>
  The laws of division and remainder, and the values of the shifts. The values of all the arithmetic instructions
  are in \<open>Isa_Refine\<close>.
\<close>

section \<open>Arithmetic\<close>

text \<open>C17. Division and remainder: for a divisor that is not zero, quotient times divisor plus
  remainder is the dividend, the remainder is smaller in magnitude than the divisor and takes the
  sign of the dividend; division by zero gives all ones and leaves the dividend as the remainder.\<close>

theorem division_laws:
  fixes a b q r qu ru :: "'x::len word"
  assumes "opValue 4 1 a b = Some q" "opValue 6 1 a b = Some r"
    and "opValue 5 1 a b = Some qu" "opValue 7 1 a b = Some ru"
  shows "q * b + r = a \<and> qu * b + ru = a \<and>
    (b \<noteq> 0 \<longrightarrow> sint r = sint a smod sint b \<and> \<bar>sint r\<bar> < \<bar>sint b\<bar> \<and> ru < b) \<and>
    (b = 0 \<longrightarrow> q = CPU_UINT_MAX \<and> r = a \<and> qu = CPU_UINT_MAX \<and> ru = a)"
proof -
  have e: "q = div_op a b" "r = rem_op a b" "qu = divu_op a b" "ru = remu_op a b"
    using assms by (simp_all add: opValue_def)
  have "ru < b" if "b \<noteq> 0"
    using that by (simp add: e remu_op_def word_less_nat_alt unat_mod unat_gt_0)
  moreover have "\<bar>sint r\<bar> < \<bar>sint b\<bar>" if "b \<noteq> 0"
    using that smod_int_range [where a = "sint a" and b = "sint b"] sint_rem_op [OF that, of a]
    by (auto simp: e abs_less_iff signed_eq_0_iff)
  ultimately show ?thesis
    using div_rem_recompose [of a b] divu_remu_recompose [of a b] sint_rem_op [of b a]
    by (auto simp: e div_op_def rem_op_def divu_op_def remu_op_def)
qed

theorem division_laws_witness:
  "opValue 4 1 (0xFFFFFFF9 :: 32 word) 2 = Some 0xFFFFFFFD \<and>
   (0xFFFFFFFD :: 32 word) * 2 + 0xFFFFFFFF = 0xFFFFFFF9"
proof -
  have "opValue 4 1 (0xFFFFFFF9 :: 32 word) 2 = Some 0xFFFFFFFD" "opValue 6 1 (0xFFFFFFF9 :: 32 word) 2 = Some 0xFFFFFFFF"
    "opValue 5 1 (0xFFFFFFF9 :: 32 word) 2 = Some 0x7FFFFFFC" "opValue 7 1 (0xFFFFFFF9 :: 32 word) 2 = Some 1"
    by code_simp+
  then show ?thesis
    using division_laws [of "0xFFFFFFF9 :: 32 word" 2] by blast
qed

lemma shamt_mod:
  assumes "valid_xlen TYPE('x::len)"
  shows "shamt (b :: 'x word) = unat b mod LENGTH('x)"
  using unat_and_mask [of b 5] unat_and_mask [of b 6] assms
  by (auto simp: shamt_def CPU_SHIFT_MASK_def valid_xlen_def mask_eq_exp_minus_1)

text \<open>Shifts: the amount is the second operand modulo the register width, the left shift
  multiplies, the logical right shift divides the unsigned value and the arithmetic right shift
  divides the signed value, rounding down.\<close>

lemma shift_values:
  assumes v: "valid_xlen TYPE('x::len)" and k: "k = unat b mod LENGTH('x)"
  shows "opValue 1 0 a (b :: 'x word) = Some (a * 2 ^ k) \<and>
    opValue 5 0 a b = Some (word_of_int (uint a div 2 ^ k)) \<and>
    opValue 5 32 a b = Some (word_of_int (sint a div 2 ^ k))"
proof -
  have "k < LENGTH('x)"
    by (simp add: k)
  moreover have "signed_drop_bit k a = word_of_int (sint a div 2 ^ k)"
  proof -
    have "word_of_int (sint (signed_drop_bit k a)) = (word_of_int (sint a div 2 ^ k) :: 'x word)"
      by (simp add: sint_signed_drop_bit_eq drop_bit_eq_div)
    then show ?thesis
      by simp
  qed
  moreover have "drop_bit k a = word_of_int (uint a div 2 ^ k)"
  proof -
    have "word_of_int (uint (drop_bit k a)) = (word_of_int (uint a div 2 ^ k) :: 'x word)"
      by (simp only: unsigned_drop_bit_eq take_bit_uint) (simp only: drop_bit_eq_div)
    then show ?thesis
      by simp
  qed
  ultimately show ?thesis
    by (simp add: opValue_def shamt_mod [OF v] k sra_eq_signed_drop_bit push_bit_eq_mult)
qed

end
