(* ===== verification/Atomics.thy ===== *)
theory Atomics
  imports Priv_Props
begin

text \<open>
  Load-reserved and store-conditional (\<^verbatim>\<open>_doAMO\<close> of \<^verbatim>\<open>src/src/cpu/rv_instr.h\<close> with the reservation of
  \<^verbatim>\<open>src/src/bus.c\<close>): what the pair does to memory when other stores come between.
\<close>

section \<open>The operand\<close>

text \<open>What is stored of the operand is its low bytes, whatever the sign extension put above them.\<close>

lemma le_bytes_cong:
  "(\<And>i. i < 8 * n \<Longrightarrow> bit v i \<longleftrightarrow> bit w i) \<Longrightarrow> le_bytes n v = le_bytes n (w :: 'a::len word)"
  by (rule nth_equalityI) (auto intro!: bit_word_eqI simp: get_byte_def bit_ucast_iff bit_drop_bit_eq)

lemma amo_operand:
  fixes v :: "'x::len word"
  assumes "0 < n" "8 * n \<le> LENGTH('x)"
  shows "le_bytes n (sign_extend (v AND drop_bit (LENGTH('x) - 8 * n) CPU_UINT_MAX) (8 * n - 1)) = le_bytes n v"
proof (rule le_bytes_cong)
  fix i assume i: "i < 8 * n"
  then have "8 * n - 1 \<le> i \<longrightarrow> i = 8 * n - 1"
    by linarith
  with i assms show "bit (sign_extend (v AND drop_bit (LENGTH('x) - 8 * n) CPU_UINT_MAX) (8 * n - 1)) i \<longleftrightarrow> bit v i"
    by (auto simp: bit_sign_extend bit_and_iff bit_drop_bit_eq CPU_UINT_MAX_def bit_mask_iff)
qed

section \<open>The two instructions in memory\<close>

definition sc_ok :: "'x::len vm \<Rightarrow> 'x word \<Rightarrow> nat \<Rightarrow> bool" where
  "sc_ok s a n \<longleftrightarrow> res_valid (reservation (bus s)) \<and>
     bus_includes (res_addr (reservation (bus s))) (of_nat (res_size (reservation (bus s)))) a (of_nat n)"

definition unreserved :: "'x::len vm \<Rightarrow> 'x vm" where
  "unreserved s = s\<lparr>bus := (bus s)\<lparr>reservation := (reservation (bus s))\<lparr>res_valid := False\<rparr>\<rparr>\<rparr>"

lemma reservationCheck: "bus_reservationCheckInvalidate a n s = (sc_ok s a n, unreserved s)"
  by (cases "res_valid (reservation (bus s))")
    (simp_all add: bus_reservationCheckInvalidate_def sc_ok_def unreserved_def Let_def)

lemma wf_platform_reservation [simp]:
  "wf_platform (s\<lparr>bus := (bus s)\<lparr>reservation := r\<rparr>\<rparr>) \<longleftrightarrow> wf_platform s"
  "in_region (s\<lparr>bus := (bus s)\<lparr>reservation := r\<rparr>\<rparr>) d a n \<longleftrightarrow> in_region s d a n"
  by (simp_all add: wf_platform_def wf_devs_def in_region_def region_size_def device_of_def split: dev_id.split)

lemma writeReg_regions [simp]:
  "wf_platform (writeReg rd v s) \<longleftrightarrow> wf_platform s" "in_region (writeReg rd v s) d a n \<longleftrightarrow> in_region s d a n"
  "ram (writeReg rd v s) = ram s" "bus (writeReg rd v s) = bus s" "trapped (writeReg rd v s) = trapped s"
  by (simp_all add: writeReg_def in_region_def region_size_def device_of_def split: dev_id.split)

lemma doAMO_ram:
  fixes s :: "'x::len vm"
  assumes x: "valid_xlen TYPE('x)" and w: "wf_platform s" and n: "\<not> trapped s" "2 ^ f3 \<le> sizeof_word TYPE('x)"
    and a: "readReg s rs1 AND of_nat (2 ^ f3 - 1) = 0" "in_region s RAM (unat (readReg s rs1)) (2 ^ f3)"
  obtains v where "doAMO f3 2 rd rs1 0 s = writeReg rd v (bus_reservationCreate (readReg s rs1) (2 ^ f3) s)"
    "doAMO f3 3 rd rs1 rs2 s = (if sc_ok s (readReg s rs1) (2 ^ f3)
       then writeMem (writeReg rd 0 (unreserved s)) (readReg s rs1) (le_bytes (2 ^ f3) (readReg s rs2))
       else writeReg rd 1 (unreserved s))"
proof -
  have m: "min (2 ^ f3) (sizeof_word TYPE('x)) = 2 ^ f3"
    using n(2) by simp
  have l: "sizeof_word TYPE('x) * 8 = LENGTH('x)"
    using x by (auto simp: valid_xlen_def sizeof_word_def)
  then have o: "le_bytes (2 ^ f3) (sign_extend (readReg s rs2 AND drop_bit (LENGTH('x) - 2 ^ f3 * 8) CPU_UINT_MAX)
      (2 ^ f3 * 8 - 1)) = le_bytes (2 ^ f3) (readReg s rs2)"
    using amo_operand [of "2 ^ f3" "readReg s rs2"] n(2) by (simp add: mult.commute)
  obtain buf where r: "readMem s (readReg s rs1) (replicate (2 ^ f3) 0) = (s, buf)"
    using bus_read_ram [OF x w, of "readReg s rs1" "replicate (2 ^ f3) 0"] a(2) n(1) by (simp add: readMem_def)
  show ?thesis
    using a(1) by (intro that) (simp_all add: doAMO_def m l r amoSwitch_def reservationCheck o [unfolded One_nat_def] Let_def)
qed

section \<open>Stores in between\<close>

definition stores :: "('x::len word \<times> byte list) list \<Rightarrow> 'x vm \<Rightarrow> 'x vm" where
  "stores = fold (\<lambda>(x, bytes) s. snd (bus_write s x bytes))"

definition inside :: "'x::len word \<Rightarrow> nat \<Rightarrow> 'x word \<times> byte list \<Rightarrow> bool" where
  "inside a n st \<longleftrightarrow> unat a \<le> unat (fst st) \<and> unat (fst st) + length (snd st) \<le> unat a + n"

lemma includes_ram:
  fixes s :: "'x::len vm" and a x :: "'x word"
  assumes "valid_xlen TYPE('x)" "wf_platform s" "in_region s RAM (unat a) n" "in_region s RAM (unat x) m"
  shows "bus_includes a (of_nat n) x (of_nat m) \<longleftrightarrow> unat a \<le> unat x \<and> unat x + m \<le> unat a + n"
proof -
  have "unat a + n < 2 ^ LENGTH('x)" "unat x + m < 2 ^ LENGTH('x)"
    using in_ram_nowrap [OF assms(1,2)] assms(3,4) by auto
  moreover from this have "unat (of_nat n :: 'x word) = n"
    by (simp add: unat_of_nat)
  ultimately show ?thesis
    using bus_includes_nat [of a "of_nat n" x m] by simp
qed

lemma stores_reservation:
  fixes s :: "'x::len vm"
  assumes x: "valid_xlen TYPE('x)"
  shows "wf_platform s \<Longrightarrow> reservation (bus s) = \<lparr>res_addr = a, res_size = n, res_valid = b\<rparr> \<Longrightarrow>
    in_region s RAM (unat a) n \<Longrightarrow> (\<And>st. st \<in> set ws \<Longrightarrow> snd st \<noteq> [] \<and> in_region s RAM (unat (fst st)) (length (snd st))) \<Longrightarrow>
    wf_platform (stores ws s) \<and> cpu (stores ws s) = cpu s \<and> (\<forall>d y k. in_region (stores ws s) d y k \<longleftrightarrow> in_region s d y k) \<and>
    reservation (bus (stores ws s)) = \<lparr>res_addr = a, res_size = n, res_valid = b \<and> \<not> (\<exists>st \<in> set ws. inside a n st)\<rparr>"
proof (induction ws arbitrary: s b)
  case Nil
  then show ?case by (simp add: stores_def)
next
  case (Cons st ws)
  let ?t = "snd (bus_write s (fst st) (snd st))"
  have r: "snd st \<noteq> []" "in_region s RAM (unat (fst st)) (length (snd st))"
    using Cons.prems(4) by simp_all
  note wr = bus_write_ram [OF x Cons.prems(1) r(2,1)]
  have i: "bus_includes a (of_nat n) (fst st) (of_nat (length (snd st))) \<longleftrightarrow> inside a n st"
    unfolding inside_def by (rule includes_ram [OF x Cons.prems(1,3) r(2)])
  have t: "wf_platform ?t" "in_region ?t d y k \<longleftrightarrow> in_region s d y k" for d y k
    using ram_after_write(2,3) [OF x Cons.prems(1) r(2,1)] by simp_all
  have t': "reservation (bus ?t) = \<lparr>res_addr = a, res_size = n, res_valid = b \<and> \<not> inside a n st\<rparr>" "cpu ?t = cpu s"
    using Cons.prems(2) i by (auto simp: wr invalidate_on_write_def Let_def)
  have "stores (st # ws) s = stores ws ?t"
    by (simp add: stores_def split_def)
  with Cons.IH [OF t(1) t'(1)] Cons.prems(3,4) t(2) t'(2) show ?case
    by auto
qed

text \<open>C15. Load-reserved and store-conditional: after a load-reserved in memory and any stores to memory, a
  store-conditional to the same address succeeds exactly when none of the stores lay inside the reserved
  range; it then writes its operand and returns zero, and otherwise returns one and leaves memory alone. The
  reservation is used up either way.\<close>

theorem lr_sc:
  fixes s :: "'x::len vm"
  assumes x: "valid_xlen TYPE('x)" and w: "wf_vm s" and n: "\<not> trapped s" and f: "2 ^ f3 \<le> sizeof_word TYPE('x)"
    and a: "readReg s rs1 = a" "a AND of_nat (2 ^ f3 - 1) = 0" "in_region s RAM (unat a) (2 ^ f3)"
    and rd: "rd \<noteq> 0" "rd < 32" "rd \<noteq> rs1" "rd \<noteq> rs2"
    and ws: "\<And>st. st \<in> set ws \<Longrightarrow> snd st \<noteq> [] \<and> in_region s RAM (unat (fst st)) (length (snd st))"
  defines "t \<equiv> stores ws (doAMO f3 2 rd rs1 0 s)"
  defines "u \<equiv> doAMO f3 3 rd rs1 rs2 t"
  shows "\<not> trapped u \<and> \<not> res_valid (reservation (bus u)) \<and>
    (if \<exists>st \<in> set ws. inside a (2 ^ f3) st
     then readReg u rd = 1 \<and> ram u = ram t
     else readReg u rd = 0 \<and>
       mem_data (ram u) = splice_at (unat a - 0x80000000) (le_bytes (2 ^ f3) (readReg s rs2)) (mem_data (ram t)))"
proof -
  have p: "wf_platform s" "length (Rx (cpu s)) = 32"
    using w by (simp_all add: wf_vm_def wf_cpu_def)
  obtain v where lr: "doAMO f3 2 rd rs1 0 s = writeReg rd v (bus_reservationCreate a (2 ^ f3) s)"
    using doAMO_ram [OF x p(1) n f, of rs1] a by metis
  let ?s = "doAMO f3 2 rd rs1 0 s"
  have s: "wf_platform ?s" "reservation (bus ?s) = \<lparr>res_addr = a, res_size = 2 ^ f3, res_valid = True\<rparr>"
    "in_region ?s d y k \<longleftrightarrow> in_region s d y k" for d y k
    using p(1) by (simp_all add: lr bus_reservationCreate_def)
  have t: "wf_platform t" "cpu t = cpu ?s" "in_region t d y k \<longleftrightarrow> in_region s d y k"
    "reservation (bus t) = \<lparr>res_addr = a, res_size = 2 ^ f3, res_valid = \<not> (\<exists>st \<in> set ws. inside a (2 ^ f3) st)\<rparr>" for d y k
    using stores_reservation [OF x s(1,2), of ws] a(3) ws s(3) unfolding t_def by simp_all
  have c: "\<not> trapped t" "readReg t rs1 = a" "readReg t rs2 = readReg s rs2" "length (Rx (cpu t)) = 32"
    using n rd a(1) p(2) by (simp_all add: t(2) lr readReg_def writeReg_def bus_reservationCreate_def)
  have ok: "sc_ok t a (2 ^ f3) \<longleftrightarrow> \<not> (\<exists>st \<in> set ws. inside a (2 ^ f3) st)"
    using includes_ram [OF x t(1), of a "2 ^ f3" a "2 ^ f3"] a(3) t(3) by (simp add: sc_ok_def t(4))
  have sc: "u = (if sc_ok t a (2 ^ f3) then writeMem (writeReg rd 0 (unreserved t)) a (le_bytes (2 ^ f3) (readReg s rs2))
      else writeReg rd 1 (unreserved t))"
    using doAMO_ram [OF x t(1) c(1) f, of rs1 rd rs2] a(2,3) t(3) unfolding u_def c by metis
  have g: "wf_platform (writeReg rd 0 (unreserved t))" "in_region (writeReg rd 0 (unreserved t)) RAM (unat a) (2 ^ f3)"
    "\<not> trapped (writeReg rd 0 (unreserved t))"
    using t(1,3) a(3) c(1) by (simp_all add: unreserved_def)
  let ?b = "le_bytes (2 ^ f3) (readReg s rs2)"
  have "bus_write (writeReg rd 0 (unreserved t)) a ?b = (True, (writeReg rd 0 (unreserved t))
      \<lparr>ram := (ram t)\<lparr>mem_data := splice_at (unat a - 0x80000000) ?b (mem_data (ram t))\<rparr>\<rparr>)"
    using bus_write_ram [OF x g(1), of a ?b] g(2)
    by (simp add: region_base_def invalidate_on_write_def unreserved_def le_bytes_def flip: length_0_conv)
  then have m: "writeMem (writeReg rd 0 (unreserved t)) a ?b = (writeReg rd 0 (unreserved t))
      \<lparr>ram := (ram t)\<lparr>mem_data := splice_at (unat a - 0x80000000) ?b (mem_data (ram t))\<rparr>\<rparr>"
    using g(3) by (simp add: writeMem_def)
  show ?thesis
    using c(1,4) rd(1,2) unfolding sc ok m by (auto simp: unreserved_def readReg_def writeReg_def)
qed

text \<open>On the machine of the examples: with the stack pointer at the start of memory the pair succeeds, and with a
  store to the same word in between it fails.\<close>

definition demo_sp :: "32 vm" where
  "demo_sp = writeReg 2 0x80000000 demo"

theorem lr_sc_witness:
  "readReg (doAMO 2 3 5 2 0 (stores [] (doAMO 2 2 5 2 0 demo_sp))) 5 = 0 \<and>
   readReg (doAMO 2 3 5 2 0 (stores [(0x80000002, [1, 2])] (doAMO 2 2 5 2 0 demo_sp))) 5 = 1"
proof -
  have "wf_vm demo_sp"
    unfolding demo_sp_def by (rule wf_writeReg [OF wf_demo])
  moreover have "\<not> trapped demo_sp" "readReg demo_sp 2 = 0x80000000"
    by (simp_all add: demo_sp_def demo_cpu writeReg_def readReg_def)
  ultimately have w: "wf_vm demo_sp" "\<not> trapped demo_sp" "readReg demo_sp 2 = 0x80000000"
    by simp_all
  have r: "in_region demo_sp RAM k n \<longleftrightarrow> 0x80000000 \<le> k \<and> k + n \<le> 0x80100000" for k n
    unfolding demo_sp_def writeReg_regions
    using region_sizes(4) [of demo] by (simp add: in_region_def region_base_def demo_ram)
  have "(2 :: nat) ^ 2 \<le> sizeof_word TYPE(32)" "(0x80000000 :: 32 word) AND of_nat (2 ^ 2 - 1) = 0"
    by (simp_all add: sizeof_word_def)
  note a = this
  show ?thesis
    using lr_sc [OF _ w(1,2) a(1) w(3) a(2), of 5 0 "[]"] lr_sc [OF _ w(1,2) a(1) w(3) a(2), of 5 0 "[(0x80000002, [1, 2])]"]
    by (simp add: r inside_def)
qed

end
