(* ===== verification/Isa_Refine.thy ===== *)
theory Isa_Refine
  imports Isa_Spec Instr_Props Atomics
begin

text \<open>
  The emulator runs programs the way \<open>Isa_Spec\<close> says: values, immediates, memory, the instruction fetch, one
  step, and then any number of steps through the simulation locale \<open>lockstep\<close>.
\<close>

section \<open>Values\<close>

lemma word_of_int_ops:
  fixes a b :: "'x::len word"
  shows "word_of_int (sint a + sint b) = a + b" "word_of_int (sint a - sint b) = a - b"
    "word_of_int (sint a * sint b) = a * b" "word_of_int (uint a * 2 ^ k) = a * 2 ^ k"
    "word_of_int (uint a div uint b) = a div b" "word_of_int (uint a mod uint b) = a mod b"
  by (simp_all add: wi_hom_add [symmetric] wi_hom_sub [symmetric] wi_hom_mult [symmetric] del: wi_homs
      flip: uint_div uint_mod)

lemma neg_sign_bit: "- CPU_SIGN_BIT = (CPU_SIGN_BIT :: 'x::len word)"
proof -
  have "CPU_SIGN_BIT + CPU_SIGN_BIT = (2 * 2 ^ (LENGTH('x) - 1) :: 'x word)"
    by (simp add: CPU_SIGN_BIT_def)
  also have "\<dots> = 0"
    by (simp flip: power_Suc)
  finally show ?thesis
    by (simp add: minus_equation_iff eq_neg_iff_add_eq_0)
qed

lemma div_op_value: "div_op a b = alu_val Div a b"
proof -
  have "word_of_int (sint (CPU_SIGN_BIT :: 'a word) sdiv - 1) = (- CPU_SIGN_BIT :: 'a word)"
    by simp
  then show ?thesis
    by (auto simp: div_op_def CPU_UINT_MAX_def neg_sign_bit)
qed

lemma rem_op_value: "rem_op a b = alu_val Rem a b"
  by (auto simp: rem_op_def CPU_UINT_MAX_def smod_int_alt_def)

lemma opValue_alu:
  fixes a b :: "'x::len word"
  assumes x: "valid_xlen TYPE('x)"
  shows "opValue (unat (take_bit 3 (alu_f3 i))) (unat (take_bit 7 (alu_f7 i))) a b = Some (alu_val i a b)"
  using shift_values [OF x refl, where a = a and b = b]
  by (cases i) (simp_all add: alu_f7_def opValue_def mulh_eq [OF x] mulhsu_eq [OF x] mulhu_eq [OF x] word_of_int_ops
      div_op_value rem_op_value divu_op_def remu_op_def CPU_UINT_MAX_def word_less_def)

lemma branchTaken_cond:
  "branchTaken (unat (take_bit 3 (cond_f3 c))) a b = Some (cond_val c a b)"
  by (cases c) (simp_all add: branchTaken_def word_less_def word_le_def)


text \<open>The 32-bit operations of the 64-bit set: what the source puts together with \<^verbatim>\<open>SIGN_EXTEND\<close> is the
  sign-extended 32-bit result.\<close>

lemma bit_small_int:
  fixes k :: int
  assumes "- (2 ^ 31) \<le> k" "k < 2 ^ 32" "31 \<le> i" "bit k i"
  shows "bit k 31"
proof (cases "0 \<le> k")
  case True
  have "\<not> bit k i" if "32 \<le> i"
  proof -
    have "k < 2 ^ i"
      using assms(2) power_increasing [OF that, of "2 :: int"] by simp
    with True show ?thesis
      by (simp add: bit_iff_odd)
  qed
  with assms(3,4) show ?thesis
    by (cases "i = 31") auto
next
  case False
  then have "0 \<le> NOT k" "NOT k < 2 ^ 31"
    using assms(1) by (simp_all add: not_int_def)
  then have "\<not> bit (NOT k) 31"
    by (simp add: bit_iff_odd)
  then show ?thesis
    by (simp add: bit_not_iff)
qed

lemma sign_extend_word_of_int:
  assumes "LENGTH('x::len) = 64" "- (2 ^ 31) \<le> k" "k < 2 ^ 32"
  shows "sign_extend (word_of_int k :: 'x word) 31 = scast (word_of_int k :: 32 word)"
proof (rule bit_word_eqI)
  fix i assume "i < LENGTH('x)"
  then show "bit (sign_extend (word_of_int k :: 'x word) 31) i \<longleftrightarrow> bit (scast (word_of_int k :: 32 word) :: 'x word) i"
    using assms(1) bit_small_int [OF assms(2,3), of i]
    by (auto simp: bit_sign_extend bit_word_of_int_iff bit_signed_iff min_def)
qed

lemma sext32_scast:
  assumes "LENGTH('x::len) = 64"
  shows "sext32 v = (scast v :: 'x word)"
proof -
  have "- (2 ^ 31) \<le> uint v" "uint v < 2 ^ 32"
    using uint_lt2p [of v] by (simp_all add: order_trans [OF _ uint_ge_0])
  from sign_extend_word_of_int [OF assms this] show ?thesis
    unfolding sext32_def ucast_eq by simp
qed

lemma signed_results:
  fixes a b :: "32 word"
  assumes "LENGTH('x::len) = 64"
  shows "sign_extend (word_of_int (sint a sdiv sint b) :: 'x word) 31 = scast (word_of_int (sint a sdiv sint b) :: 32 word)"
    "b \<noteq> 0 \<Longrightarrow> sign_extend (word_of_int (sint a smod sint b) :: 'x word) 31 = scast (word_of_int (sint a smod sint b) :: 32 word)"
proof -
  have a: "- (2 ^ 31) \<le> sint v" "sint v < 2 ^ 31" for v :: "32 word"
    using sint_ge [of v] sint_lt [of v] by simp_all
  show "sign_extend (word_of_int (sint a sdiv sint b) :: 'x word) 31 = scast (word_of_int (sint a sdiv sint b) :: 32 word)"
    using sdiv_int_range [of "sint a" "sint b"] a [of a] by (intro sign_extend_word_of_int [OF assms]) auto
  show "sign_extend (word_of_int (sint a smod sint b) :: 'x word) 31 = scast (word_of_int (sint a smod sint b) :: 32 word)"
    if "b \<noteq> 0"
    using smod_int_range [of "sint b" "sint a"] a [of b] that
    by (intro sign_extend_word_of_int [OF assms]) (auto simp: signed_eq_0_iff)
qed

lemma div_results:
  fixes a b :: "32 word"
  assumes l: "LENGTH('x::len) = 64" and b: "b \<noteq> 0"
  shows "(if a = INT32_MIN \<and> b = UINT32_MAX then sign_extend (scast INT32_MIN) 31
      else sign_extend (word_of_int (sint a sdiv sint b)) 31) = (scast (alu_val Div a b) :: 'x word)"
    "(if a = INT32_MIN \<and> b = UINT32_MAX then 0 else sign_extend (word_of_int (sint a smod sint b)) 31) =
      (scast (alu_val Rem a b) :: 'x word)"
proof -
  have "sint INT32_MIN = - (2 ^ 31)" "sint UINT32_MAX = - 1" "(INT32_MIN :: 32 word) = word_of_int (- (2 ^ 31))"
    by (simp_all add: INT32_MIN_def UINT32_MAX_def)
  moreover from this have "(scast INT32_MIN :: 'x word) = - (2 ^ 31)"
    by (simp only: scast_eq) simp
  moreover have "sign_extend (scast INT32_MIN) 31 = (scast INT32_MIN :: 'x word)"
    using sign_extend_word_of_int [OF l, of "- (2 ^ 31)"] by (simp only: scast_eq calculation) simp
  ultimately show "(if a = INT32_MIN \<and> b = UINT32_MAX then sign_extend (scast INT32_MIN) 31
      else sign_extend (word_of_int (sint a sdiv sint b)) 31) = (scast (alu_val Div a b) :: 'x word)"
    using signed_results(1) [OF l, of a b] b by simp
  show "(if a = INT32_MIN \<and> b = UINT32_MAX then 0 else sign_extend (word_of_int (sint a smod sint b)) 31) =
      (scast (alu_val Rem a b) :: 'x word)"
    using signed_results(2) [OF l b, of a] b \<open>sint UINT32_MAX = - 1\<close> by (simp add: smod_int_alt_def)
qed

lemma shift_values_32:
  fixes a b :: "32 word"
  shows "push_bit (unat b mod 32) a = alu_val Sll a b" "drop_bit (unat b mod 32) a = alu_val Srl a b"
    "sra a (unat b mod 32) = alu_val Sra a b"
  using shift_values [where a = a and b = b, OF _ refl]
  by (simp_all add: opValue_def shamt_mod word_of_int_ops)

lemma and_1F: "unat (v AND 0x1F :: 32 word) = unat v mod 32"
  using unat_and_mask [of v 5] by (simp add: mask_eq_exp_minus_1)

lemma sllw_amount:
  fixes r :: "'x::len word"
  assumes x: "CONFIG_RV64 TYPE('x)"
  shows "shamt (ucast (ucast r :: 32 word) :: 'x word) = unat (ucast r :: 32 word) mod 64"
    "unat (ucast r :: 32 word) mod 64 = unat (ucast r :: 32 word) mod 32 + (if bit r 5 then 32 else 0)"
proof -
  have l: "LENGTH('x) = 64" "valid_xlen TYPE('x)"
    using x by (simp_all add: CONFIG_RV64_def valid_xlen_def)
  define b :: "32 word" where "b = ucast r"
  have "unat b < 2 ^ 64"
    using unsigned_less [of b, where 'a = nat] by simp
  then show "shamt (ucast (ucast r :: 32 word) :: 'x word) = unat (ucast r :: 32 word) mod 64"
    unfolding b_def [symmetric] using l by (simp add: shamt_mod unsigned_ucast_eq take_bit_nat_eq_self)
  have "bit (unat b) 5 \<longleftrightarrow> bit r 5"
    by (simp add: b_def bit_unsigned_iff bit_ucast_iff)
  then have "bit r 5 \<longleftrightarrow> unat b div 32 mod 2 = 1"
    using bit_iff_odd [of "unat b" 5] by (simp add: odd_iff_mod_2_eq_one)
  then show "unat (ucast r :: 32 word) mod 64 = unat (ucast r :: 32 word) mod 32 + (if bit r 5 then 32 else 0)"
    unfolding b_def [symmetric] using mod_mult2_eq [of "unat b" 32 2] by auto
qed

lemma doOP32_alu:
  fixes s :: "'x::len vm"
  assumes x: "CONFIG_RV64 TYPE('x)" and i: "i \<in> {Add, Sub, Sll, Srl, Sra, Mul, Div, Divu, Rem, Remu}"
    and n: "i = Sll \<longrightarrow> \<not> bit (readReg s rs2) 5"
  shows "doOP32 (unat (take_bit 3 (alu_f3 i))) (unat (take_bit 7 (alu_f7 i))) rd rs1 rs2 s =
    writeReg rd (scast (alu_val i (ucast (readReg s rs1) :: 32 word) (ucast (readReg s rs2)))) s"
proof -
  have l: "LENGTH('x) = 64" "valid_xlen TYPE('x)"
    using x by (simp_all add: CONFIG_RV64_def valid_xlen_def)
  define b :: "32 word" where "b = ucast (readReg s rs2)"
  have sh: "shamt (ucast b :: 'x word) = unat b mod 64" "i = Sll \<Longrightarrow> unat b mod 64 = unat b mod 32"
    using sllw_amount [OF x, of "readReg s rs2"] n by (simp_all add: b_def)
  define a :: "32 word" where "a = ucast (readReg s rs1)"
  have v: "b \<noteq> 0 \<Longrightarrow> alu_val Divu a b = a div b" "b \<noteq> 0 \<Longrightarrow> alu_val Remu a b = a mod b"
    "b = 0 \<Longrightarrow> scast (alu_val Div a b) = (CPU_UINT_MAX :: 'x word)" "b = 0 \<Longrightarrow> scast (alu_val Divu a b) = (CPU_UINT_MAX :: 'x word)"
    "b = 0 \<Longrightarrow> alu_val Rem a b = a" "b = 0 \<Longrightarrow> alu_val Remu a b = a" "alu_val Add a b = a + b" "alu_val Sub a b = a - b"
    "alu_val Mul a b = a * b" "shamt (0 :: 'x word) = 0" for a b :: "32 word"
    by (simp_all add: word_of_int_ops CPU_UINT_MAX_def shamt_def)
  note f = doOP32_def Let_def a_def [symmetric] b_def [symmetric] if_distribR if_distrib [of "\<lambda>v. writeReg rd v s", symmetric]
    sext32_scast [OF l(1)] shift_values_32 [symmetric] and_1F sh(1)
  from i show ?thesis
    by (elim insertE emptyE; cases "b = 0")
      (simp_all add: f sh(2) v div_results [OF l(1)] alu_f7_def del: alu_val.simps cong: if_cong)
qed


section \<open>Fields\<close>

text \<open>A left shift by 32 or more, which the instruction takes modulo 32, is undefined in C.\<close>

lemma sllw_wide_undefined:
  fixes s :: "'x::len vm"
  assumes x: "CONFIG_RV64 TYPE('x)" and b: "bit (readReg s rs2) 5"
  shows "host_ub (doOP32 1 0 rd rs1 rs2 s)"
  using sllw_amount [OF x, of "readReg s rs2"] b
  by (simp add: doOP32_def Let_def writeReg_def c_undefined_def)

lemma reg_field: "unat (take_bit 5 (ucast (r :: reg) :: 32 word)) = unat r"
proof -
  have "unat r < 32"
    using unsigned_less [of r, where 'a = nat] by simp
  then show ?thesis
    by (simp add: unsigned_take_bit_eq unsigned_ucast_eq take_bit_nat_eq_self)
qed

text \<open>An immediate taken from its field of the instruction word and sign-extended.\<close>

lemma sign_extended_field:
  fixes w :: "'n::len word" and g :: "32 word"
  assumes g: "\<And>i. bit g i \<longleftrightarrow> k \<le> i \<and> bit w (i - k)" and k: "k + LENGTH('n) \<le> 32" and x: "32 \<le> LENGTH('x::len)"
    and n: "n = k + LENGTH('n) - 1"
  shows "sign_extend (ucast g :: 'x word) n = word_of_int (sint w * 2 ^ k)"
proof (rule bit_word_eqI)
  fix i assume i: "i < LENGTH('x)"
  have e: "sint w * 2 ^ k = push_bit k (sint w)"
    by (simp add: push_bit_eq_mult)
  have n': "n - k = LENGTH('n) - 1" "k \<le> n" "n < 32"
    using n k len_gt_0 [where 'a = 'n] by linarith+
  have "bit (word_of_int (sint w * 2 ^ k) :: 'x word) i \<longleftrightarrow> k \<le> i \<and> bit w (min (LENGTH('n) - 1) (i - k))"
    unfolding e using i by (simp add: bit_word_of_int_iff bit_push_bit_iff bit_signed_iff possible_bit_def)
  moreover have "bit (sign_extend (ucast g :: 'x word) n) i \<longleftrightarrow> bit g i \<or> bit g n \<and> n \<le> i"
    using i x n' by (auto simp: bit_sign_extend bit_ucast_iff)
  moreover have "\<not> bit w (i - k)" if "n < i"
    using that n' by (auto dest: bit_imp_le_length)
  ultimately show "bit (sign_extend (ucast g :: 'x word) n) i \<longleftrightarrow> bit (word_of_int (sint w * 2 ^ k) :: 'x word) i"
    using n' by (cases "i < n"; cases "i = n") (auto simp: g min_def)
qed

lemma bit_even_field:
  "n \<le> 32 \<Longrightarrow> bit (take_bit n (push_bit 1 v) AND NOT 1 :: 32 word) i \<longleftrightarrow> 1 \<le> i \<and> i < n \<and> bit v (i - 1)"
  by (auto simp only: bit_take_bit_iff bit_push_bit_iff bit_and_iff bit_not_iff bit_1_iff possible_bit_word len_num1 len_bit0 len_bit1)

lemma upper_imm_field:
  assumes "valid_xlen TYPE('x::len)"
  shows "upper_imm (push_bit 12 v AND 0xFFFFF000) = (sign_extend (ucast (push_bit 12 v)) 31 :: 'x word)"
proof (cases "CONFIG_RV64 TYPE('x)")
  case False
  then have "LENGTH('x) = 32"
    using assms by (auto simp: valid_xlen_def CONFIG_RV64_def)
  then have "sign_extend w 31 = w" for w :: "'x word"
    by (intro bit_word_eqI) (auto simp: bit_sign_extend less_Suc_eq_le numeral_eq_Suc dest!: le_antisym)
  with False show ?thesis
    by (simp add: upper_imm_def upper_field)
qed (simp add: upper_imm_def upper_field)

lemma immediates:
  assumes "valid_xlen TYPE('x::len)"
  shows "sign_extend (ucast (take_bit 12 (ucast (imm :: 12 word) :: 32 word)) :: 'x word) 11 = scast imm"
    "sign_extend (ucast (take_bit 13 (push_bit 1 (ucast imm :: 32 word)) AND NOT 1) :: 'x word) 12 = word_of_int (sint imm * 2)"
    "sign_extend (ucast (take_bit 21 (push_bit 1 (ucast (imm' :: 20 word) :: 32 word)) AND NOT 1) :: 'x word) 20 =
      word_of_int (sint imm' * 2)"
    "upper_imm (push_bit 12 (ucast imm') AND 0xFFFFF000) = (word_of_int (sint imm' * 2 ^ 12) :: 'x word)"
proof -
  note x = valid_xlen_ge [OF assms]
  have b: "bit imm i \<Longrightarrow> i < 12" "bit imm' i \<Longrightarrow> i < 20" for i
    by (auto dest: bit_imp_le_length)
  have "bit (take_bit 12 (ucast imm :: 32 word)) i \<longleftrightarrow> 0 \<le> i \<and> bit imm (i - 0)" for i
    by (auto simp: bit_take_bit_iff bit_ucast_iff dest: b)
  from sign_extended_field [OF this _ x] show "sign_extend (ucast (take_bit 12 (ucast imm :: 32 word)) :: 'x word) 11 = scast imm"
    by (subst scast_eq) simp
  have "bit (take_bit 13 (push_bit 1 (ucast imm :: 32 word)) AND NOT 1) i \<longleftrightarrow> 1 \<le> i \<and> bit imm (i - 1)" for i
    by (subst bit_even_field, simp) (auto simp: bit_ucast_iff less_diff_conv2 dest: b)
  then have "sign_extend (ucast (take_bit 13 (push_bit 1 (ucast imm :: 32 word)) AND NOT 1) :: 'x word) 12 = word_of_int (sint imm * 2 ^ 1)"
    by (rule sign_extended_field [OF _ _ x]) simp_all
  then show "sign_extend (ucast (take_bit 13 (push_bit 1 (ucast imm :: 32 word)) AND NOT 1) :: 'x word) 12 = word_of_int (sint imm * 2)"
    by (simp only: power_one_right)
  have "bit (take_bit 21 (push_bit 1 (ucast imm' :: 32 word)) AND NOT 1) i \<longleftrightarrow> 1 \<le> i \<and> bit imm' (i - 1)" for i
    by (subst bit_even_field, simp) (auto simp: bit_ucast_iff less_diff_conv2 dest: b)
  then have "sign_extend (ucast (take_bit 21 (push_bit 1 (ucast imm' :: 32 word)) AND NOT 1) :: 'x word) 20 = word_of_int (sint imm' * 2 ^ 1)"
    by (rule sign_extended_field [OF _ _ x]) simp_all
  then show "sign_extend (ucast (take_bit 21 (push_bit 1 (ucast imm' :: 32 word)) AND NOT 1) :: 'x word) 20 = word_of_int (sint imm' * 2)"
    by (simp only: power_one_right)
  have u: "bit (push_bit 12 (ucast imm' :: 32 word)) i \<longleftrightarrow> 12 \<le> i \<and> bit imm' (i - 12)" for i
    by (auto simp: bit_ucast_iff bit_push_bit_iff dest: b)
  have "sign_extend (ucast (push_bit 12 (ucast imm') :: 32 word) :: 'x word) 31 = word_of_int (sint imm' * 2 ^ 12)"
    using sign_extended_field [OF u _ x, of 31] by simp
  then show "upper_imm (push_bit 12 (ucast imm') AND 0xFFFFF000) = (word_of_int (sint imm' * 2 ^ 12) :: 'x word)"
    by (simp only: upper_imm_field [OF assms])
qed


section \<open>What the decoded instructions do\<close>

lemma exec_enc_more:
  "exec_sized isz (enc_I 3 f3 rd rs1 imm) s =
     doMISCMEM (unat (take_bit 3 f3)) (take_bit 12 imm) (unat (take_bit 5 rd)) (unat (take_bit 5 rs1)) s"
  "exec_sized isz (enc_U 5 rd imm) s = doAUIPC (imm AND 0xFFFFF000) (unat (take_bit 5 rd)) s"
  by (simp_all add: exec_sized_def decode_enc Let_def execInstr_def jumpTable_def decodeMISCMEM_def decodeAUIPC_def)

lemma exec_enc_amo:
  fixes aqrl :: "2 word"
  assumes "take_bit 5 f5 = f5"
  shows "exec_sized isz (enc_R 11 f3 (push_bit 2 f5 OR ucast aqrl) rd rs1 rs2) s =
     doAMO (unat (take_bit 3 f3)) (unat f5) (unat (take_bit 5 rd)) (unat (take_bit 5 rs1)) (unat (take_bit 5 rs2)) s"
proof -
  have b: "bit aqrl i \<Longrightarrow> i < 2" "bit f5 i \<Longrightarrow> i < 5" for i
    using assms by (auto dest: bit_imp_le_length) (metis bit_take_bit_iff)
  have "drop_bit 27 (enc_R 11 f3 (push_bit 2 f5 OR ucast aqrl) rd rs1 rs2) AND 0x1F = f5"
    by (rule bit_word_eqI) (auto simp: enc_R_def bit_drop_bit_eq bit_and_iff bit_push_bit_iff bit_ucast_iff bit_or_iff
        bit_low_masks dest: b)
  then show ?thesis
    by (simp add: exec_sized_def decode_enc Let_def execInstr_def jumpTable_def decodeAMO_def DECODE_FUNCT5_def)
qed

abbreviation x_of :: "'x::len vm \<Rightarrow> reg \<Rightarrow> 'x word" where
  "x_of s r \<equiv> readReg s (unat r)"

lemma exec_op:
  fixes s :: "'x::len vm"
  assumes x: "valid_xlen TYPE('x)"
  shows "exec_sized isz (encode (Op i rd rs1 rs2)) s = writeReg (unat rd) (alu_val i (x_of s rs1) (x_of s rs2)) s"
    "legal (CONFIG_RV64 TYPE('x)) (OpW i rd rs1 rs2) \<Longrightarrow> (i = Sll \<Longrightarrow> \<not> bit (x_of s rs2) 5) \<Longrightarrow>
     exec_sized isz (encode (OpW i rd rs1 rs2)) s =
       writeReg (unat rd) (scast (alu_val i (ucast (x_of s rs1) :: 32 word) (ucast (x_of s rs2)))) s"
    "exec_sized isz (encode (Lui rd imm)) s = writeReg (unat rd) (word_of_int (sint imm * 2 ^ 12)) s"
    "exec_sized isz (encode (Auipc rd imm)) s = writeReg (unat rd) (pc_of s + word_of_int (sint imm * 2 ^ 12)) s"
    "exec_sized isz (encode (Fence f)) s = flushIcache s"
proof -
  show "exec_sized isz (encode (Op i rd rs1 rs2)) s = writeReg (unat rd) (alu_val i (x_of s rs1) (x_of s rs2)) s"
    by (simp add: exec_enc reg_field doOP_def opValue_alu [OF x])
  show "exec_sized isz (encode (OpW i rd rs1 rs2)) s =
       writeReg (unat rd) (scast (alu_val i (ucast (x_of s rs1) :: 32 word) (ucast (x_of s rs2)))) s"
    if "legal (CONFIG_RV64 TYPE('x)) (OpW i rd rs1 rs2)" "i = Sll \<Longrightarrow> \<not> bit (x_of s rs2) 5"
    using that doOP32_alu [of i s "unat rs2" "unat rd" "unat rs1"] by (simp add: reg_field exec_enc(6))
  show "exec_sized isz (encode (Lui rd imm)) s = writeReg (unat rd) (word_of_int (sint imm * 2 ^ 12)) s"
    "exec_sized isz (encode (Auipc rd imm)) s = writeReg (unat rd) (pc_of s + word_of_int (sint imm * 2 ^ 12)) s"
    unfolding encode.simps exec_enc exec_enc_more reg_field doLUI_def doAUIPC_def immediates [OF x] readPC_def by (rule refl)+
  show "exec_sized isz (encode (Fence f)) s = flushIcache s"
    by (simp add: exec_enc_more doMISCMEM_def)
qed


lemma alu_shifts:
  fixes a b :: "'x::len word"
  assumes "valid_xlen TYPE('x)"
  shows "push_bit (shamt b) a = alu_val Sll a b" "drop_bit (shamt b) a = alu_val Srl a b" "sra a (shamt b) = alu_val Sra a b"
  using opValue_alu [OF assms, of Sll a b] opValue_alu [OF assms, of Srl a b] opValue_alu [OF assms, of Sra a b]
  by (simp_all add: opValue_def alu_f7_def del: alu_val.simps)

lemma shift_field:
  fixes n :: "'n::len word"
  assumes "LENGTH('n) \<le> 6" "c = 0 \<or> c = 0x400"
  shows "unat (take_bit 12 (c OR ucast n) :: 32 word) = unat c + unat n"
proof -
  have b: "bit n i \<Longrightarrow> i < 6" for i
    using assms(1) by (auto dest: bit_imp_le_length)
  have c: "bit c i \<Longrightarrow> i = 10" for i
    using assms(2) bit_exp_iff [of 10 i, where 'a = "32 word"] by (auto simp: possible_bit_def)
  have "take_bit 12 (c OR ucast n) = (c OR ucast n :: 32 word)"
    by (rule bit_word_eqI) (auto simp: bit_take_bit_iff bit_or_iff bit_ucast_iff dest: b c)
  also have "\<dots> = c + ucast n"
    by (rule disjunctive_add [symmetric]) (use b [of 10] c in \<open>fastforce simp: bit_ucast_iff\<close>)
  also have "unat \<dots> = unat c + unat n"
  proof -
    have "unat n < 2 ^ 6"
      using less_le_trans [OF unsigned_less [of n, where 'a = nat]] power_increasing [OF assms(1), of "2 :: nat"] by simp
    moreover from this have "unat (ucast n :: 32 word) = unat n"
      by (simp add: unsigned_ucast_eq take_bit_nat_eq_self)
    ultimately show ?thesis
      using assms(2) by (auto simp: unat_word_ariths)
  qed
  finally show ?thesis .
qed

lemma shift_fields:
  fixes n :: "'n::len word" and c g :: "32 word"
  assumes l: "LENGTH('n) \<le> 6" and c: "c = 0 \<or> c = 0x400" and g: "g = take_bit 12 (c OR ucast n)"
  shows "drop_bit 6 g = drop_bit 6 c" "LENGTH('n) \<le> 5 \<Longrightarrow> drop_bit 5 g = drop_bit 5 c"
    "LENGTH('n) \<le> 5 \<Longrightarrow> unat (g AND 0x1F) = unat n"
proof -
  have n: "unat n < 64" "LENGTH('n) \<le> 5 \<Longrightarrow> unat n < 32"
    using power_increasing [of "LENGTH('n)" 6 "2 :: nat"] power_increasing [of "LENGTH('n)" 5 "2 :: nat"] l
      less_le_trans [OF unsigned_less [of n, where 'a = nat]] by simp_all
  have d: "drop_bit k v = drop_bit k w" if "unat v div 2 ^ k = unat w div 2 ^ k" for k and v w :: "32 word"
  proof -
    have "unat (drop_bit k v) = unat (drop_bit k w)"
      using that unfolding unat_drop_bit_eq unfolding drop_bit_eq_div .
    then show ?thesis by (rule unsigned_word_eqI)
  qed
  have u: "unat g = unat c + unat n" "unat c = 0 \<or> unat c = 1024"
    using c unfolding g by (auto simp only: shift_field [OF l c]) auto
  show "drop_bit 6 g = drop_bit 6 c" 
    by (rule d) (use n(1) u in auto)
  show "drop_bit 5 g = drop_bit 5 c" if "LENGTH('n) \<le> 5"
    by (rule d) (use n(2) [OF that] u in auto)
  show "unat (g AND 0x1F) = unat n" if "LENGTH('n) \<le> 5"
    unfolding and_1F using n(2) [OF that] u mod_mult_self4 [of 32 32 "unat n"] by auto
qed

lemma unat_ucast_xlen:
  assumes "valid_xlen TYPE('x::len)" "unat v < 2 ^ 32"
  shows "unat (ucast v :: 'x word) = unat v"
proof -
  have "(2 :: nat) ^ 32 \<le> 2 ^ LENGTH('x)"
    by (rule power_increasing [OF valid_xlen_ge [OF assms(1)]]) simp
  with assms(2) show ?thesis
    by (simp add: unsigned_ucast_eq take_bit_nat_eq_self)
qed

lemma shamt_field:
  fixes n :: "6 word"
  assumes x: "valid_xlen TYPE('x::len)" and c: "c = 0 \<or> c = 0x400" and g: "g = take_bit 12 (c OR ucast n :: 32 word)"
  shows "shamt (ucast g :: 'x word) = shamt (ucast n :: 'x word)"
proof -
  have n: "unat n < 64"
    using unsigned_less [of n, where 'a = nat] by simp
  have u: "unat g = unat c + unat n" "unat c = 0 \<or> unat c = 1024"
    using c shift_field [of c n] by (auto simp only: g) auto
  have "unat (ucast n :: 'x word) = unat n" "unat (ucast g :: 'x word) = unat g"
    using n unsigned_less [of g, where 'a = nat] by (simp_all add: unat_ucast_xlen [OF x])
  moreover have "LENGTH('x) dvd unat c"
    using x u(2) by (auto simp: valid_xlen_def)
  then have "(unat c + unat n) mod LENGTH('x) = unat n mod LENGTH('x)"
    by (auto elim!: dvdE)
  ultimately show ?thesis
    by (simp add: shamt_mod [OF x] u(1))
qed

lemma exec_imm:
  fixes s :: "'x::len vm"
  assumes x: "valid_xlen TYPE('x)"
  shows "legal (CONFIG_RV64 TYPE('x)) (OpImm i rd rs1 imm) \<Longrightarrow>
     exec_sized isz (encode (OpImm i rd rs1 imm)) s = writeReg (unat rd) (alu_val i (x_of s rs1) (scast imm)) s"
    "legal (CONFIG_RV64 TYPE('x)) (Shift i rd rs1 n) \<Longrightarrow>
     exec_sized isz (encode (Shift i rd rs1 n)) s = writeReg (unat rd) (alu_val i (x_of s rs1) (ucast n)) s"
proof -
  show "exec_sized isz (encode (OpImm i rd rs1 imm)) s = writeReg (unat rd) (alu_val i (x_of s rs1) (scast imm)) s"
    if "legal (CONFIG_RV64 TYPE('x)) (OpImm i rd rs1 imm)"
    using that unfolding encode.simps exec_enc reg_field doOPIMM_def Let_def immediates [OF x] legal.simps
    by (elim insertE emptyE) (simp_all add: word_of_int_ops word_less_def
        add.commute [of "scast imm"] and.commute [of "scast imm"] or.commute [of "scast imm"])
  define c g :: "32 word" where "c = push_bit 5 (alu_f7 i)" and "g = take_bit 12 (c OR ucast n)"
  show "exec_sized isz (encode (Shift i rd rs1 n)) s = writeReg (unat rd) (alu_val i (x_of s rs1) (ucast n)) s"
    if l: "legal (CONFIG_RV64 TYPE('x)) (Shift i rd rs1 n)"
  proof -
    have i: "i \<in> {Sll, Srl, Sra}" and c: "c = 0 \<or> c = 0x400"
      using l by (auto simp: c_def alu_f7_def)
    have "drop_bit 6 g = drop_bit 6 c"
      using shift_fields(1) [OF _ c g_def] by simp
    then show ?thesis
      using i unfolding encode.simps exec_enc reg_field doOPIMM_def Let_def c_def [symmetric] g_def [symmetric]
        shamt_field [OF x c g_def]
      by (elim insertE emptyE) (simp_all add: c_def alu_f7_def alu_shifts [OF x] del: alu_val.simps)
  qed
qed


lemma exec_imm_32:
  fixes s :: "'x::len vm"
  assumes x: "CONFIG_RV64 TYPE('x)"
  shows "exec_sized isz (encode (OpImmW rd rs1 imm)) s =
      writeReg (unat rd) (scast (alu_val Add (ucast (x_of s rs1) :: 32 word) (scast imm))) s"
    "i \<in> {Sll, Srl, Sra} \<Longrightarrow> exec_sized isz (encode (ShiftW i rd rs1 n)) s =
      writeReg (unat rd) (scast (alu_val i (ucast (x_of s rs1) :: 32 word) (ucast n))) s"
proof -
  have l: "LENGTH('x) = 64" and v: "valid_xlen TYPE('x)"
    using x by (simp_all add: CONFIG_RV64_def valid_xlen_def)
  define a :: "32 word" where "a = ucast (x_of s rs1)"
  have "ucast (scast imm + ucast a :: 'x word) = a + scast imm"
  proof -
    have "(scast imm + ucast a :: 'x word) = word_of_int (sint imm + uint a)"
      unfolding scast_eq ucast_eq wi_hom_add [symmetric] by (rule refl)
    moreover have "(ucast (word_of_int k :: 'x word) :: 32 word) = word_of_int k" for k
      by (rule bit_word_eqI) (simp add: bit_ucast_iff bit_word_of_int_iff l)
    moreover have "(word_of_int (sint imm + uint a) :: 32 word) = a + scast imm"
      unfolding wi_hom_add [symmetric] scast_eq [of imm] by (simp add: add.commute)
    ultimately show ?thesis
      by (simp only:)
  qed
  then show "exec_sized isz (encode (OpImmW rd rs1 imm)) s =
      writeReg (unat rd) (scast (alu_val Add (ucast (x_of s rs1) :: 32 word) (scast imm))) s"
    unfolding encode.simps exec_enc(3) [OF x] reg_field doOPIMM32_def Let_def immediates [OF v] a_def [symmetric]
    by (simp add: sext32_scast [OF l] word_of_int_ops)
  show "exec_sized isz (encode (ShiftW i rd rs1 n)) s =
      writeReg (unat rd) (scast (alu_val i (ucast (x_of s rs1) :: 32 word) (ucast n))) s" if i: "i \<in> {Sll, Srl, Sra}"
  proof -
    define c g :: "32 word" where "c = push_bit 5 (alu_f7 i)" and "g = take_bit 12 (c OR ucast n)"
    have c: "c = 0 \<or> c = 0x400"
      using i by (auto simp: c_def alu_f7_def)
    have f: "drop_bit 5 g = drop_bit 5 c" "unat (g AND 0x1F) = unat n"
      using shift_fields(2,3) [OF _ c g_def] by simp_all
    have n: "unat n = unat (ucast n :: 32 word) mod 32"
      using unsigned_less [of n, where 'a = nat] by (simp add: unsigned_ucast_eq take_bit_nat_eq_self)
    note sv = shift_values_32 [where a = a and b = "ucast n", folded n]
    show ?thesis
      using i f(1) unfolding encode.simps exec_enc(3) [OF x] reg_field doOPIMM32_def Let_def c_def [symmetric] g_def [symmetric] f(2)
        a_def [symmetric]
      by (elim insertE emptyE) (simp_all add: sv c_def alu_f7_def sext32_scast [OF l] del: alu_val.simps)
  qed
qed


lemma exec_jump:
  fixes s :: "'x::len vm"
  assumes x: "valid_xlen TYPE('x)"
  shows "exec_sized (int n) (encode (Jal rd imm')) s =
      writePC (pc_of s + word_of_int (sint imm' * 2) - of_nat n) (writeReg (unat rd) (pc_of s + of_nat n) s)"
    "exec_sized (int n) (encode (Jalr rd rs1 imm)) s =
      writePC ((x_of s rs1 + scast imm AND NOT 1) - of_nat n) (writeReg (unat rd) (pc_of s + of_nat n) s)"
    "exec_sized (int n) (encode (Branch c rs1 rs2 imm)) s =
      (if cond_val c (x_of s rs1) (x_of s rs2) then writePC (pc_of s + word_of_int (sint imm * 2) - of_nat n) s else s)"
  unfolding encode.simps exec_enc reg_field doJAL_def doJALR_def doBRANCH_def Let_def immediates [OF x] readPC_def branchTaken_cond
  by simp_all

lemma take_bit_le_word: "take_bit (8 * length bs) (le_word bs) = (le_word bs :: 'x::len word)"
  by (rule bit_word_eqI) (auto simp: bit_take_bit_iff bit_le_word div_less_iff_less_mult mult.commute)

lemma extend_loaded:
  assumes "length bs = n_bytes w"
  shows "extend_to w True (le_word bs) = (le_word bs :: 'x::len word)"
    "extend_to w False (le_word bs) = (sign_extend (le_word bs) (n_bytes w * 8 - 1) :: 'x word)"
proof -
  have "take_bit (Suc (n_bytes w * 8 - 1)) (le_word bs) = (le_word bs :: 'x word)"
    using take_bit_le_word [of bs, where 'x = 'x] assms by (simp add: mult.commute)
  from sign_extend_eq_signed_take_bit [OF this]
  show "extend_to w False (le_word bs) = (sign_extend (le_word bs) (n_bytes w * 8 - 1) :: 'x word)"
    by (simp add: extend_to_def mult.commute)
  show "extend_to w True (le_word bs) = (le_word bs :: 'x word)"
    using take_bit_le_word [of bs, where 'x = 'x] assms by (simp add: extend_to_def)
qed

lemma legal_width:
  assumes "valid_xlen TYPE('x::len)" "w = W64 \<longrightarrow> CONFIG_RV64 TYPE('x)"
  shows "\<not> sizeof_word TYPE('x) < n_bytes w" "sizeof_word TYPE('x) * 8 = LENGTH('x)"
  using assms by (cases w; auto simp: valid_xlen_def sizeof_word_def CONFIG_RV64_def)+

lemma exec_memory:
  fixes s :: "'x::len vm"
  assumes x: "valid_xlen TYPE('x)"
  shows "legal (CONFIG_RV64 TYPE('x)) (Load w u rd rs1 imm) \<Longrightarrow> exec_sized isz (encode (Load w u rd rs1 imm)) s =
      (case readMem s (x_of s rs1 + scast imm) (replicate (n_bytes w) 0) of (t, bs) \<Rightarrow>
         writeReg (unat rd) (extend_to w u (le_word bs)) t)"
    "legal (CONFIG_RV64 TYPE('x)) (Store w rs1 rs2 imm) \<Longrightarrow> exec_sized isz (encode (Store w rs1 rs2 imm)) s =
      writeMem s (x_of s rs1 + scast imm) (le_bytes (n_bytes w) (x_of s rs2))"
proof -
  show "exec_sized isz (encode (Load w u rd rs1 imm)) s =
      (case readMem s (x_of s rs1 + scast imm) (replicate (n_bytes w) 0) of (t, bs) \<Rightarrow>
         writeReg (unat rd) (extend_to w u (le_word bs)) t)" if l: "legal (CONFIG_RV64 TYPE('x)) (Load w u rd rs1 imm)"
  proof -
    define f where "f = unat (take_bit 3 (of_nat (log_bytes w) OR (if u then 4 else 0) :: 32 word))"
    have f: "f mod 4 = log_bytes w" "f div 4 mod 2 = 0 \<longleftrightarrow> \<not> u"
      unfolding f_def by (cases w; cases u; simp)+
    obtain t bs where r: "readMem s (x_of s rs1 + scast imm) (replicate (n_bytes w) 0) = (t, bs)"
      by fastforce
    have "length bs = n_bytes w"
      using readMem_length [of s "x_of s rs1 + scast imm" "replicate (n_bytes w) 0"] r by simp
    then show ?thesis
      using legal_width(1) [OF x, of w] l extend_loaded [of bs w, where 'x = 'x]
      unfolding encode.simps exec_enc reg_field doLOAD_def Let_def f_def [symmetric] f immediates [OF x] r
      by (auto split: if_splits)
  qed
  show "exec_sized isz (encode (Store w rs1 rs2 imm)) s =
      writeMem s (x_of s rs1 + scast imm) (le_bytes (n_bytes w) (x_of s rs2))" if l: "legal (CONFIG_RV64 TYPE('x)) (Store w rs1 rs2 imm)"
  proof -
    have "unat (take_bit 3 (of_nat (log_bytes w) :: 32 word)) = log_bytes w"
      by (cases w) simp_all
    then show ?thesis
      using legal_width(1) [OF x, of w] l
      unfolding encode.simps exec_enc reg_field doSTORE_def Let_def immediates [OF x] by simp
  qed
qed


lemma operand_extend:
  fixes v :: "'x::len word"
  assumes "8 * n \<le> LENGTH('x)" "0 < n"
  shows "sign_extend (v AND drop_bit (LENGTH('x) - n * 8) CPU_UINT_MAX) (n * 8 - 1) = signed_take_bit (8 * n - 1) v"
proof -
  have "v AND drop_bit (LENGTH('x) - n * 8) CPU_UINT_MAX = take_bit (8 * n) v"
    using assms by (intro bit_word_eqI) (auto simp: bit_and_iff bit_drop_bit_eq bit_take_bit_iff CPU_UINT_MAX_def bit_mask_iff)
  moreover have "sign_extend (take_bit (8 * n) v) (8 * n - 1) = signed_take_bit (8 * n - 1) (take_bit (8 * n) v)"
    using assms(2) by (intro sign_extend_eq_signed_take_bit) simp
  moreover have "signed_take_bit (8 * n - 1) (take_bit (8 * n) v) = signed_take_bit (8 * n - 1) v"
    using assms(2) by (intro bit_word_eqI) (auto simp: bit_signed_take_bit_iff bit_take_bit_iff)
  ultimately show ?thesis
    by (simp only: mult.commute)
qed

lemma amo_f5_field: "take_bit 5 (amo_f5 i) = amo_f5 i"
  by (cases i) simp_all

lemma amoSwitch_val:
  "amoSwitch (unat (amo_f5 i)) rs2 p n v old s = (s, old, True, amo_val i old v)"
  by (cases i) (simp_all add: amoSwitch_def word_less_def)

lemma exec_amo:
  fixes s :: "'x::len vm"
  assumes x: "valid_xlen TYPE('x)" and l: "legal (CONFIG_RV64 TYPE('x)) (Amo i w rd rs1 rs2 aqrl)"
    and a: "unat (x_of s rs1) mod n_bytes w = 0"
  shows "exec_sized isz (encode (Amo i w rd rs1 rs2 aqrl)) s =
    (case readMem s (x_of s rs1) (replicate (n_bytes w) 0) of (t, bs) \<Rightarrow>
       writeMem (writeReg (unat rd) (extend_to w False (le_word bs)) t) (x_of s rs1)
         (le_bytes (n_bytes w) (amo_val i (extend_to w False (le_word bs)) (extend_to w False (x_of s rs2)))))"
proof -
  have f: "unat (take_bit 3 (of_nat (log_bytes w) :: 32 word)) = log_bytes w"
    by (cases w) simp_all
  have lw: "w = W64 \<longrightarrow> CONFIG_RV64 TYPE('x)"
    using l by auto
  have m: "min (2 ^ log_bytes w) (sizeof_word TYPE('x)) = n_bytes w"
    using legal_width(1) [OF x lw] by simp
  have al: "x_of s rs1 AND of_nat (n_bytes w - 1) = 0"
  proof -
    have "unat (x_of s rs1 AND mask (log_bytes w)) = 0"
      unfolding unat_and_mask by (rule a)
    then show ?thesis
      by (simp add: mask_eq_exp_minus_1 of_nat_diff unat_eq_0)
  qed
  have v: "sign_extend (x_of s rs2 AND drop_bit (sizeof_word TYPE('x) * 8 - n_bytes w * 8) CPU_UINT_MAX) (n_bytes w * 8 - 1) =
      extend_to w False (x_of s rs2)"
    using operand_extend [of "n_bytes w" "x_of s rs2"] legal_width [OF x lw] by (simp add: extend_to_def)
  obtain t bs where r: "readMem s (x_of s rs1) (replicate (n_bytes w) 0) = (t, bs)"
    by fastforce
  have "length bs = n_bytes w"
    using readMem_length [of s "x_of s rs1" "replicate (n_bytes w) 0"] r by simp
  from extend_loaded(2) [OF this, symmetric, where 'x = 'x] show ?thesis
    unfolding encode.simps exec_enc_amo [OF amo_f5_field] reg_field f doAMO_def Let_def m v r prod.case amoSwitch_val
    using al by (simp add: One_nat_def [symmetric] del: One_nat_def)
qed

end
