(* ===== verification/Isa_Run.thy ===== *)
theory Isa_Run
  imports Isa_Refine Csr_Props
begin

text \<open>
  The emulator runs programs the way \<open>Isa_Spec\<close> says. A machine state stands for an architectural state; reading
  and writing memory, executing an instruction, fetching it through the cache and a whole call of \<^verbatim>\<open>rv_run\<close>
  follow the specification, and the simulation locale \<open>lockstep\<close> takes this to runs of any length. What is asked
  of the program (\<open>code_step\<close>) and of the machine (\<open>running\<close>) is stated here and not in the specification.
\<close>

section \<open>Architectural memory\<close>

lemma those_map: "those (map f ks) = (if \<forall>k \<in> set ks. f k \<noteq> None then Some (map (\<lambda>k. the (f k)) ks) else None)"
  by (induction ks) (auto split: option.splits)

lemma mem_load_Some:
  "mem_load p n a = Some bs \<longleftrightarrow> length bs = n \<and> (\<forall>k < n. a_mem a (p + of_nat k) = Some (bs ! k))"
proof
  assume "mem_load p n a = Some bs"
  then have d: "k < n \<Longrightarrow> a_mem a (p + of_nat k) \<noteq> None" and b: "bs = map (\<lambda>k. the (a_mem a (p + of_nat k))) [0..<n]" for k
    by (auto simp: mem_load_def those_map split: if_splits)
  show "length bs = n \<and> (\<forall>k < n. a_mem a (p + of_nat k) = Some (bs ! k))"
    using d by (auto simp: b)
next
  assume l: "length bs = n \<and> (\<forall>k < n. a_mem a (p + of_nat k) = Some (bs ! k))"
  then have "map (\<lambda>k. the (a_mem a (p + of_nat k))) [0..<n] = bs"
    by (intro nth_equalityI) auto
  with l show "mem_load p n a = Some bs"
    by (auto simp: mem_load_def those_map)
qed

lemma mem_load_part:
  assumes "mem_load p n a = Some bs" "k + m \<le> n"
  shows "mem_load (p + of_nat k) m a = Some (slice_at k m bs)"
  using assms by (auto simp: mem_load_Some add.assoc simp flip: of_nat_add)

lemma mem_load_cong:
  assumes "\<And>k. k < n \<Longrightarrow> a_mem a (p + of_nat k) = a_mem b (p + of_nat k)"
  shows "mem_load p n a = mem_load p n b"
proof -
  have "map (\<lambda>k. a_mem a (p + of_nat k)) [0..<n] = map (\<lambda>k. a_mem b (p + of_nat k)) [0..<n]"
    using assms by simp
  then show ?thesis
    by (simp only: mem_load_def)
qed

lemma mem_load_store:
  fixes p :: "'x::len word"
  assumes "mem_store p bs a = Some b" "length bs \<le> 2 ^ LENGTH('x)"
  shows "mem_load p (length bs) b = Some bs"
  using assms by (auto simp: mem_store_def mem_load_Some unat_of_nat split: if_splits)

lemma arch_frame [simp]:
  "mem_load p n (set_x r v a) = mem_load p n a" "mem_load p n (goto q a) = mem_load p n a"
  "a_mem (set_x r v a) = a_mem a" "a_mem (goto p a) = a_mem a" "a_pc (set_x r v a) = a_pc a"
  "a_pc (goto p a) = p" "a_x (goto p a) = a_x a" "goto p (goto q a) = goto p a"
  by (simp_all add: set_x_def goto_def mem_load_def)

text \<open>Instructions change memory only where they write.\<close>

lemma mem_store_other:
  assumes "mem_store p bs a = Some b" "\<not> unat (q - p) < length bs"
  shows "a_mem b q = a_mem a q"
  using assms by (auto simp: mem_store_def split: if_splits)

lemma isa_writes:
  assumes "isa n i a = Some b" "case writes i a of None \<Rightarrow> True | Some (p, k) \<Rightarrow> \<not> unat (q - p) < k"
  shows "a_mem b q = a_mem a q"
  using assms by (cases i) (auto simp: Let_def dest: mem_store_other split: option.splits if_splits)

section \<open>The code that is run\<close>

text \<open>The steps of the manual that the emulator is asked to follow: those of code that lies between \<open>lo\<close> and \<open>hi\<close> and
  is not written by the program (the instruction cache is not kept coherent with stores), except a \<^verbatim>\<open>sllw\<close> by 32 or
  more, for which the emulator is undefined in C.\<close>

definition sllw_fits :: "instr \<Rightarrow> 'x::len arch \<Rightarrow> bool" where
  "sllw_fits i a = (case i of OpW j rd rs1 rs2 \<Rightarrow> j = Sll \<longrightarrow> \<not> bit (a_x a rs2) 5 | _ \<Rightarrow> True)"

definition outside :: "nat \<Rightarrow> nat \<Rightarrow> 'x::len word \<Rightarrow> nat \<Rightarrow> bool" where
  "outside lo hi p k \<longleftrightarrow> unat p + k < 2 ^ LENGTH('x) \<and> (unat p + k \<le> lo \<or> hi \<le> unat p)"

inductive code_step :: "nat \<Rightarrow> nat \<Rightarrow> 'x::len arch \<Rightarrow> 'x arch \<Rightarrow> bool" for lo hi where
  code_step: "instr_at i n a \<Longrightarrow> isa n i a = Some b \<Longrightarrow> lo \<le> unat (a_pc a) \<Longrightarrow> unat (a_pc a) + n \<le> hi \<Longrightarrow>
    (case writes i a of None \<Rightarrow> True | Some (p, k) \<Rightarrow> outside lo hi p k) \<Longrightarrow> sllw_fits i a \<Longrightarrow> code_step lo hi a b"

inductive_cases code_stepE: "code_step lo hi a b"

text \<open>They are steps of the manual.\<close>

lemma code_step_isa: "code_step lo hi a b \<Longrightarrow> isa_step a b"
  by (auto elim: code_stepE intro: isa_step)

lemma code_run_isa: "(code_step lo hi ^^ n) a b \<Longrightarrow> (isa_step ^^ n) a b"
  by (rule relpowp_mono [of "code_step lo hi"]) (auto intro: code_step_isa)

section \<open>The architectural state of the machine\<close>

definition abs_arch :: "'x::len vm \<Rightarrow> 'x arch" where
  "abs_arch s = \<lparr>a_x = x_of s, a_pc = pc_of s,
     a_mem = (\<lambda>p. if in_region s RAM (unat p) 1 then Some (mem_data (ram s) ! (unat p - region_base RAM)) else None)\<rparr>"

lemma abs_arch_sel [simp]: "a_x (abs_arch s) = x_of s" "a_pc (abs_arch s) = pc_of s"
  by (simp_all add: abs_arch_def)

lemma mem_load_abs:
  fixes s :: "'x::len vm"
  assumes x: "valid_xlen TYPE('x)" and w: "wf_platform s" and n: "0 < n"
  shows "mem_load p n (abs_arch s) = (if in_region s RAM (unat p) n
    then Some (slice_at (unat p - region_base RAM) n (mem_data (ram s))) else None)"
proof -
  have u: "unat (p + of_nat k) = unat p + k" if "in_region s RAM (unat p) k" for k
    using unat_plus_of_nat [of p k] in_ram_nowrap [OF x w that] by simp
  show ?thesis
  proof (cases "in_region s RAM (unat p) n")
    case True
    then have k: "in_region s RAM (unat p) k" "in_region s RAM (unat p + k) 1" if "k < n" for k
      using that by (auto simp: in_region_def)
    from True have "unat p - region_base RAM + n \<le> length (mem_data (ram s))" "region_base RAM \<le> unat p"
      using region_sizes(4) [OF x w] by (auto simp: in_region_def)
    then have "mem_load p n (abs_arch s) = Some (slice_at (unat p - region_base RAM) n (mem_data (ram s)))"
      unfolding mem_load_Some by (auto simp: abs_arch_def u k [unfolded One_nat_def])
    with True show ?thesis by simp
  next
    case False
    have "in_region s RAM (unat p) n" if "\<And>k. k < n \<Longrightarrow> in_region s RAM (unat (p + of_nat k)) 1" "0 < n"
      using that
    proof (induction n)
      case (Suc n)
      show ?case
      proof (cases "n = 0")
        case False
        with Suc have r: "in_region s RAM (unat p) n"
          by simp
        from Suc.prems(1) [of n] have "in_region s RAM (unat p + n) 1"
          by (simp add: u [OF r])
        with r show ?thesis
          by (simp add: in_region_def)
      qed (use Suc.prems(1) [of 0] in simp)
    qed simp
    with False n obtain k where "k < n" "\<not> in_region s RAM (unat (p + of_nat k)) 1"
      by blast
    then have "\<not> (\<exists>bs. mem_load p n (abs_arch s) = Some bs)"
      by (auto simp: mem_load_Some abs_arch_def)
    with False show ?thesis by simp
  qed
qed

lemma abs_writes:
  assumes "wf_vm s" "\<not> trapped s"
  shows "abs_arch (writeReg (unat r) v s) = set_x r v (abs_arch s)" "abs_arch (writePC p s) = goto p (abs_arch s)"
    "abs_arch (flushIcache s) = abs_arch s"
proof -
  have "unat r < 32" "length (Rx (cpu s)) = 32"
    using unsigned_less [of r, where 'a = nat] assms(1) by (simp_all add: wf_vm_def wf_cpu_def)
  then have "x_of (writeReg (unat r) v s) = (if r = 0 then x_of s else (x_of s)(r := v))"
    using assms(2) by (auto simp: fun_eq_iff readReg_def writeReg_def nth_list_update unat_eq_0 simp flip: word_unat_eq_iff)
  then show "abs_arch (writeReg (unat r) v s) = set_x r v (abs_arch s)"
    by (auto simp: abs_arch_def set_x_def) (simp_all add: writeReg_def)
  show "abs_arch (writePC p s) = goto p (abs_arch s)" "abs_arch (flushIcache s) = abs_arch s"
    using assms(2) by (simp_all add: abs_arch_def goto_def writePC_def flushIcache_def readReg_def in_region_def region_size_def
        device_of_def cong: if_cong)
qed

lemma unat_sub_less:
  fixes p q :: "'x::len word"
  assumes "unat p + n < 2 ^ LENGTH('x)"
  shows "unat (q - p) < n \<longleftrightarrow> unat p \<le> unat q \<and> unat q < unat p + n"
proof
  assume l: "unat (q - p) < n"
  then have "unat (p + of_nat (unat (q - p))) = unat p + unat (q - p)"
    using assms by (intro unat_plus_of_nat) simp
  with l show "unat p \<le> unat q \<and> unat q < unat p + n"
    by simp
next
  assume "unat p \<le> unat q \<and> unat q < unat p + n"
  then show "unat (q - p) < n"
    by (auto simp: unat_sub word_le_nat_alt)
qed

text \<open>What an instruction that completes leaves of the machine: no trap, no interrupt, no undefined behaviour,
  the privileged state as it was, and the cache as it was or flushed.\<close>

definition quiet :: "'x::len vm \<Rightarrow> 'x vm \<Rightarrow> bool" where
  "quiet s t \<longleftrightarrow> \<not> trapped t \<and> cpu_irq (cpu t) = cpu_irq (cpu s) \<and> csr_of t = csr_of s \<and> mode_of t = mode_of s \<and>
     host_ub t = host_ub s \<and>
     (icache (cpu t) = icache (cpu s) \<or> ic_base (icache (cpu t)) = CPU_ADDR_MAX) \<and>
     (\<forall>p n. in_region t RAM p n \<longleftrightarrow> in_region s RAM p n)"

lemma quiet_trans: "quiet s t \<Longrightarrow> quiet t u \<Longrightarrow> quiet s u"
  by (auto simp: quiet_def)

lemma quiet_writes:
  assumes "\<not> trapped s"
  shows "quiet s s" "quiet s (writeReg r v s)" "quiet s (writePC p s)" "quiet s (flushIcache s)"
  using assms by (simp_all add: quiet_def writeReg_def writePC_def flushIcache_def in_region_def region_size_def device_of_def)

lemma readMem_abs:
  fixes s :: "'x::len vm"
  assumes x: "valid_xlen TYPE('x)" and w: "wf_vm s" and t: "\<not> trapped s"
    and l: "mem_load p n (abs_arch s) = Some bs" and n: "0 < n"
  shows "readMem s p (replicate n 0) = (s, bs)"
proof -
  have p: "wf_platform s"
    using w by (simp add: wf_vm_def)
  from l have "in_region s RAM (unat p) n" "bs = slice_at (unat p - region_base RAM) n (mem_data (ram s))"
    by (simp_all add: mem_load_abs [OF x p n] split: if_splits)
  then show ?thesis
    using bus_read_ram [OF x p, of p "replicate n 0"] n t by (simp add: readMem_def)
qed

lemma writeMem_abs:
  fixes s :: "'x::len vm"
  assumes x: "valid_xlen TYPE('x)" and w: "wf_vm s" and t: "\<not> trapped s"
    and l: "mem_store p bs (abs_arch s) = Some b" and n: "bs \<noteq> []"
  shows "abs_arch (writeMem s p bs) = b" "quiet s (writeMem s p bs)"
proof -
  have p: "wf_platform s"
    using w by (simp add: wf_vm_def)
  have r: "in_region s RAM (unat p) (length bs)" and b: "b = abs_arch s\<lparr>a_mem := (\<lambda>q. if unat (q - p) < length bs
      then Some (bs ! unat (q - p)) else a_mem (abs_arch s) q)\<rparr>"
    using l n by (simp_all add: mem_store_def mem_load_abs [OF x p] split: if_splits)
  note wr = bus_write_ram [OF x p r n] and after = ram_after_write(3) [OF x p r n]
  have m: "writeMem s p bs = snd (bus_write s p bs)"
    using t by (simp add: writeMem_def wr)
  have c: "cpu (writeMem s p bs) = cpu s" "host_ub (writeMem s p bs) = host_ub s"
    by (simp_all add: m wr invalidate_on_write_def Let_def)
  show "quiet s (writeMem s p bs)"
    using t by (simp add: quiet_def c) (simp add: m after)
  have "mem_data (ram (writeMem s p bs)) ! (unat q - region_base RAM) = (if unat (q - p) < length bs then bs ! unat (q - p)
      else mem_data (ram s) ! (unat q - region_base RAM))" if q: "in_region s RAM (unat q) 1" for q
  proof -
    have "unat q - region_base RAM < length (mem_data (ram s))" "unat p - region_base RAM + length bs \<le> length (mem_data (ram s))"
      "region_base RAM \<le> unat p" "region_base RAM \<le> unat q"
      using q r region_sizes(4) [OF x p] by (auto simp: in_region_def)
    moreover have "unat p \<le> unat q \<Longrightarrow> unat (q - p) = unat q - unat p"
      by (rule unat_sub) (simp add: word_le_nat_alt)
    ultimately show ?thesis
      unfolding unat_sub_less [OF in_ram_nowrap [OF x p r]] by (auto simp: m wr nth_splice)
  qed
  moreover have "in_region s RAM (unat q) 1" if "unat (q - p) < length bs" for q
    using that r unfolding unat_sub_less [OF in_ram_nowrap [OF x p r]] by (auto simp: in_region_def)
  ultimately show "abs_arch (writeMem s p bs) = b"
    unfolding b abs_arch_def by (auto simp: fun_eq_iff c [unfolded m] readReg_def m after)
qed

section \<open>One instruction\<close>

abbreviation finish :: "nat \<Rightarrow> 'x::len vm \<Rightarrow> 'x vm" where
  "finish n u \<equiv> writePC (readPC u + of_nat n) u"

text \<open>A state reached without an incident, and what it stands for.\<close>

definition outcome :: "'x::len vm \<Rightarrow> 'x vm \<Rightarrow> 'x arch \<Rightarrow> bool" where
  "outcome s u a \<longleftrightarrow> wf_vm u \<and> quiet s u \<and> abs_arch u = a"

lemma outcome_rules:
  "wf_vm s \<Longrightarrow> \<not> trapped s \<Longrightarrow> outcome s s (abs_arch s)"
  "outcome s u a \<Longrightarrow> outcome s (writeReg (unat r) v u) (set_x r v a)"
  "outcome s u a \<Longrightarrow> outcome s (writePC p u) (goto p a)"
  "outcome s u a \<Longrightarrow> outcome s (flushIcache u) a"
  "outcome s u a \<Longrightarrow> outcome s (finish n u) (advance n a)"
  "valid_xlen TYPE('x) \<Longrightarrow> outcome s u a \<Longrightarrow> mem_store p bs a = Some b \<Longrightarrow> bs \<noteq> [] \<Longrightarrow> outcome s (writeMem u p bs) b"
  for s :: "'x::len vm"
proof -
  show "outcome s s (abs_arch s)" if "wf_vm s" "\<not> trapped s"
    using that by (simp add: outcome_def quiet_writes)
  fix u a assume o: "outcome s u a"
  then have u: "wf_vm u" "\<not> trapped u" "quiet s u" "a = abs_arch u"
    by (simp_all add: outcome_def quiet_def)
  show "outcome s (writeReg (unat r) v u) (set_x r v a)" "outcome s (writePC p u) (goto p a)" "outcome s (flushIcache u) a"
    "outcome s (finish n u) (advance n a)"
    using u quiet_writes [OF u(2)] by (auto simp: outcome_def abs_writes readPC_def intro: wf_intros quiet_trans)
  show "outcome s (writeMem u p bs) b" if "valid_xlen TYPE('x)" "mem_store p bs a = Some b" "bs \<noteq> []"
    using u writeMem_abs [OF that(1) u(1,2), of p bs b] that(2,3) by (auto simp: outcome_def intro: wf_intros quiet_trans)
qed

lemma mem_store_set_x: "mem_store p bs (set_x r v a) = map_option (set_x r v) (mem_store p bs a)"
  by (simp add: mem_store_def mem_load_def cong: if_cong) (simp add: set_x_def)

lemma outcome_finish:
  "outcome s u a \<Longrightarrow> p = a_pc a + of_nat n \<Longrightarrow> outcome s (finish n u) (goto p a)"
  "outcome s u a \<Longrightarrow> outcome s (finish n (writePC (p - of_nat n) u)) (goto p a)"
proof -
  show "outcome s (finish n u) (goto p a)" if "outcome s u a" "p = a_pc a + of_nat n"
    using outcome_rules(5) [OF that(1), of n] that(2) by simp
  show "outcome s (finish n (writePC (p - of_nat n) u)) (goto p a)" if "outcome s u a"
    using outcome_rules(5) [OF outcome_rules(3) [OF that, of "p - of_nat n"], of n] by simp
qed

lemma exec_abs:
  fixes s :: "'x::len vm"
  assumes x: "valid_xlen TYPE('x)" and w: "wf_vm s" and t: "\<not> trapped s"
    and l: "legal (CONFIG_RV64 TYPE('x)) i" "sllw_fits i (abs_arch s)" and b: "isa n i (abs_arch s) = Some b"
  shows "outcome s (finish n (exec_sized (int n) (encode i) s)) b"
proof -
  have p: "(0 :: nat) < n_bytes v" for v
    by simp
  have ne [simp]: "le_bytes (n_bytes v) z \<noteq> []" for v and z :: "'x word"
    using length_le_bytes [of "n_bytes v" z] p [of v] by (metis list.size(3) less_irrefl)
  note rules = outcome_finish outcome_rules(1) [OF w t] outcome_rules(2,4)
  note ops = exec_op(1,3-5) [OF x] exec_imm [OF x] exec_jump [OF x] exec_memory [OF x] exec_amo [OF x]
  show ?thesis
  proof (cases i)
    case (OpW j rd rs1 rs2)
    with l b exec_op(2) [OF x, of j rd rs1 rs2 s] show ?thesis
      by (auto simp: sllw_fits_def simp del: encode.simps intro!: rules)
  next
    case (OpImmW rd rs1 imm)
    with l b exec_imm_32(1) [where 'x = 'x] show ?thesis
      by (auto simp del: encode.simps alu_val.simps intro!: rules)
  next
    case (ShiftW j rd rs1 k)
    with l b exec_imm_32(2) [where 'x = 'x and i = j] show ?thesis
      by (auto simp del: encode.simps intro!: rules)
  next
    case (Load v u rd rs1 imm)
    with l b show ?thesis
      by (auto simp: exec_memory(1) [OF x] readMem_abs [OF x w t _ p] simp del: encode.simps legal.simps split: option.splits intro!: rules)
  next
    case (Store v rs1 rs2 imm)
    with l b show ?thesis
      by (auto simp: exec_memory(2) [OF x] simp del: encode.simps legal.simps split: option.splits intro!: rules outcome_rules(6) [OF x])
  next
    case (Amo j v rd rs1 rs2 aqrl)
    with l b show ?thesis
      by (auto simp: exec_amo [OF x] readMem_abs [OF x w t _ p] Let_def mem_store_set_x simp del: encode.simps legal.simps
          split: option.splits if_splits intro!: rules outcome_rules(6) [OF x])
  qed (use l(1) b in \<open>auto simp: ops simp del: encode.simps legal.simps intro!: rules\<close>)
qed

section \<open>Fetching an instruction\<close>

text \<open>The bytes of the cache line that belong to the code, if there is a line, are those of memory.\<close>

definition coherent :: "nat \<Rightarrow> nat \<Rightarrow> 'x::len vm \<Rightarrow> bool" where
  "coherent lo hi s \<longleftrightarrow> (let ic = icache (cpu s) in ic_base ic = CPU_ADDR_MAX \<or>
     (\<forall>k < ICACHE_LINE_SIZE. let p = ic_base ic + of_nat k in
        lo \<le> unat p \<and> unat p < hi \<longrightarrow> a_mem (abs_arch s) p = Some (ic_line ic ! k)))"

text \<open>No interrupt is about to be taken: either the processor does not look, or it finds none it may take.\<close>

definition undisturbed :: "'x::len vm \<Rightarrow> bool" where
  "undisturbed s \<longleftrightarrow> (cpu_irq (cpu s) \<longrightarrow> find (takeable s) irq_priority = None)"

text \<open>A machine about to run code that lies between \<open>lo\<close> and \<open>hi\<close>. The two bytes after the code belong to memory as
  well, because the emulator fetches four bytes even for a compressed instruction.\<close>

definition running :: "nat \<Rightarrow> nat \<Rightarrow> 'x::len vm \<Rightarrow> bool" where
  "running lo hi s \<longleftrightarrow> wf_vm s \<and> \<not> trapped s \<and> undisturbed s \<and> \<not> host_ub s \<and>
     in_region s RAM lo (hi + 2 - lo) \<and> coherent lo hi s"

lemma undisturbed_cong:
  "cpu_irq (cpu t) = cpu_irq (cpu s) \<Longrightarrow> csr_of t = csr_of s \<Longrightarrow> mode_of t = mode_of s \<Longrightarrow> undisturbed t \<longleftrightarrow> undisturbed s"
  by (simp add: undisturbed_def takeable_def fun_eq_iff arg_cong [of "takeable t" "takeable s" "\<lambda>f. find f irq_priority"])

lemma even_and_1: "even (unat w) \<Longrightarrow> w AND 1 = 0"
  using unat_and_mask [of w 1] by (auto simp: mask_eq_exp_minus_1 unat_eq_0)

lemma bus_read_past_ram:
  fixes s :: "'x::len vm"
  assumes x: "valid_xlen TYPE('x)" and w: "wf_platform s"
    and r: "in_region s RAM (unat a) 1" "\<not> in_region s RAM (unat a) (length buf)" and l: "length buf \<le> 128"
  shows "bus_read s a buf = (False, s, buf)"
proof -
  note sz = region_sizes [OF x w]
  have "(2 :: nat) ^ 32 \<le> 2 ^ LENGTH('x)"
    using valid_xlen_ge [OF x] by (rule power_increasing) simp
  then have "unat a + length buf < 2 ^ LENGTH('x)" "0 < length buf"
    using r l sz(5) by (auto simp: in_region_def region_base_def)
  moreover have "\<not> in_region s d (unat a) (length buf)" for d
    using r sz by (cases d) (auto simp: in_region_def region_base_def)
  ultimately have "findDevice s a (length buf) = None"
    using findDevice_iff [OF x w, of a "length buf"] by (cases "findDevice s a (length buf)") auto
  then show ?thesis
    by (simp add: bus_read_def)
qed

text \<open>The bytes a fetch returns, as far as they belong to the code, are those of memory.\<close>

lemma fetch_abs:
  fixes s :: "'x::len vm"
  assumes x: "valid_xlen TYPE('x)" and r: "running lo hi s"
    and pc: "even (unat (pc_of s))" "lo \<le> unat (pc_of s)" "unat (pc_of s) + 2 \<le> hi"
  obtains t bs where "fetch s = (t, le_word bs)" "length bs = 4"
    "\<And>k. k < 4 \<Longrightarrow> unat (pc_of s) + k < hi \<Longrightarrow> a_mem (abs_arch s) (pc_of s + of_nat k) = Some (bs ! k)"
    "abs_arch t = abs_arch s" "running lo hi t" "csr_of t = csr_of s"
proof -
  have w: "wf_vm s" "wf_platform s" "length (ic_line (icache (cpu s))) = ICACHE_LINE_SIZE" and t: "\<not> trapped s"
    using r by (auto simp: running_def wf_vm_def wf_cpu_def)
  then have ne: "ic_line (icache (cpu s)) \<noteq> []"
    by (auto simp: ICACHE_LINE_SIZE_def)
  have m4: "in_region s RAM (unat (pc_of s)) 4" "in_region s RAM (unat (pc_of s)) 1"
    using r pc(2,3) by (auto simp: running_def in_region_def)
  note e = even_and_1 [OF pc(1)]
  let ?b = "ic_base (icache (cpu s))" and ?l = "ic_line (icache (cpu s))"
  consider (hit) "?b \<noteq> CPU_ADDR_MAX" "unat (pc_of s - ?b) + 4 \<le> ICACHE_LINE_SIZE"
    | (miss) "?b = CPU_ADDR_MAX \<or> unat (pc_of s - ?b) > ICACHE_LINE_SIZE - 4" "in_region s RAM (unat (pc_of s)) ICACHE_LINE_SIZE"
    | (short) "?b = CPU_ADDR_MAX \<or> unat (pc_of s - ?b) > ICACHE_LINE_SIZE - 4" "\<not> in_region s RAM (unat (pc_of s)) ICACHE_LINE_SIZE"
    by (cases "?b = CPU_ADDR_MAX \<or> unat (pc_of s - ?b) > ICACHE_LINE_SIZE - 4") (auto simp: ICACHE_LINE_SIZE_def)
  then show thesis
  proof cases
    case hit
    have "fetch s = (s, le_word (slice_at (unat (pc_of s - ?b)) 4 ?l))"
      using hit e by (simp add: fetch_def Let_def readPC_def ICACHE_LINE_SIZE_def)
    moreover have "a_mem (abs_arch s) (pc_of s + of_nat k) = Some (slice_at (unat (pc_of s - ?b)) 4 ?l ! k)"
      if "k < 4" "unat (pc_of s) + k < hi" for k
    proof -
      have "hi < 2 ^ LENGTH('x)"
        using in_ram_nowrap [OF x w(2), of lo "hi + 2 - lo"] r pc(2,3) by (simp add: running_def)
      then have "unat (pc_of s + of_nat k) = unat (pc_of s) + k"
        using that by (intro unat_plus_of_nat) simp
      moreover have "?b + of_nat (unat (pc_of s - ?b) + k) = pc_of s + of_nat k"
        by simp
      ultimately show ?thesis
        using r hit that pc(2) w(3) unfolding running_def coherent_def Let_def
        by (auto simp: slice_at_def dest!: spec [of _ "unat (pc_of s - ?b) + k"])
    qed
    ultimately show ?thesis
      using that [of s "slice_at (unat (pc_of s - ?b)) 4 ?l"] r hit(2) w(3) by simp
  next
    case miss
    define t where "t = fst (fetch s)"
    define line where "line = slice_at (unat (pc_of s) - region_base RAM) ICACHE_LINE_SIZE (mem_data (ram s))"
    have b: "bus_read s (pc_of s) ?l = (True, s, line)"
      and "mem_load (pc_of s) ICACHE_LINE_SIZE (abs_arch s) = Some line"
      using bus_read_ram [OF x w(2), of "pc_of s" ?l] miss(2) w(3) ne
      by (auto simp: mem_load_abs [OF x w(2)] line_def ICACHE_LINE_SIZE_def)
    then have m: "length line = ICACHE_LINE_SIZE"
        "k < ICACHE_LINE_SIZE \<Longrightarrow> a_mem (abs_arch s) (pc_of s + of_nat k) = Some (line ! k)" for k
      by (simp_all add: mem_load_Some)
    have f: "fetch s = (t, le_word (slice_at 0 4 line))" "t = cpu_update (icache_update (\<lambda>_. \<lparr>ic_base = pc_of s, ic_line = line\<rparr>)) s"
      using miss(1) e by (simp_all add: t_def fetch_def Let_def readPC_def b)
    have a: "abs_arch t = abs_arch s"
      by (simp add: f(2) abs_arch_def readReg_def in_region_def region_size_def device_of_def cong: if_cong)
    moreover have "running lo hi t"
      using wf_fetch [OF w(1)] r m(2) a undisturbed_cong [of t s]
      by (auto simp: running_def coherent_def Let_def t_def [symmetric])
        (simp_all add: f(2) in_region_def region_size_def device_of_def)
    ultimately show ?thesis
      using that [OF f(1)] m by (simp add: ICACHE_LINE_SIZE_def slice_at_def f(2))
  next
    case short
    define bs where "bs = slice_at (unat (pc_of s) - region_base RAM) 4 (mem_data (ram s))"
    have "bus_read s (pc_of s) ?l = (False, s, ?l)"
      using bus_read_past_ram [OF x w(2) m4(2), of ?l] short(2) w(3) by (simp add: ICACHE_LINE_SIZE_def)
    moreover have "bus_read s (pc_of s) (replicate 4 0) = (True, s, bs)"
      and "mem_load (pc_of s) 4 (abs_arch s) = Some bs"
      using bus_read_ram [OF x w(2), of "pc_of s" "replicate 4 0"] m4(1) by (simp_all add: mem_load_abs [OF x w(2)] bs_def)
    ultimately show ?thesis
      using that [of s bs] short(1) e r by (simp add: fetch_def Let_def readPC_def mem_load_Some)
  qed
qed

text \<open>Every machine that has just been reset is about to run whatever code it holds.\<close>

lemma running_reset:
  assumes "valid_xlen TYPE('x::len)" "wf_vm (s :: 'x vm)" "\<not> host_ub s" "in_region s RAM lo (hi + 2 - lo)"
    "mode \<noteq> RV_PRIV_MODE_RESERVED"
  shows "running lo hi (rv_reset mode addr s)" "pc_of (rv_reset mode addr s) = addr"
  using assms wf_rv_reset [OF assms(1,2,5), of addr]
  by (simp_all add: running_def coherent_def undisturbed_def Let_def rv_reset_def reservationCheck unreserved_def writePC_def
      flushIcache_def in_region_def region_size_def device_of_def)

section \<open>A call of the interpreter\<close>

lemma encode_low: "encode i AND 3 = 3"
  by (cases i) (simp_all add: enc_low)

lemma le_word_half: "length bs = 4 \<Longrightarrow> le_word (take 2 bs) = (le_word bs AND 0xFFFF :: 32 word)"
proof -
  assume l: "length bs = 4"
  have m: "(0xFFFF :: 32 word) = mask 16"
    by (simp add: mask_eq_exp_minus_1)
  show ?thesis
    unfolding m using l by (intro bit_word_eqI) (auto simp: bit_le_word bit_and_iff bit_mask_iff div_less_iff_less_mult)
qed

lemma execute_abs:
  fixes s :: "'x::len vm"
  assumes i: "instr_at i n (abs_arch s)" and l: "length bs = 4"
    and m: "\<And>k. k < n \<Longrightarrow> a_mem (abs_arch s) (pc_of s + of_nat k) = Some (bs ! k)"
  shows "execute (le_word bs) s = finish n (exec_sized (int n) (encode i) s)"
proof -
  have "mem_load (pc_of s) n (abs_arch s) = Some (take n bs)"
    using i l m by (auto simp: mem_load_Some instr_at_def)
  then consider "n = 4" "bs = le_bytes 4 (encode i)"
    | "n = 2" "expand (CONFIG_RV64 TYPE('x)) (le_word (take 2 bs)) = Some (encode i)"
    using i l by (auto simp: instr_at_def)
  then show ?thesis
  proof cases
    case 1
    then have "(le_word bs :: 32 word) = encode i"
      using take_bit_length_eq [of "encode i"] by (simp add: le_word_le_bytes)
    then show ?thesis
      using 1(1) encode_low [of i] by (simp add: execute_def execCext_def Let_def exec_sized_base)
  next
    case 2
    with l have "expand (CONFIG_RV64 TYPE('x)) (le_word bs) = Some (encode i)"
      by (simp add: le_word_half expand_low)
    from cext_expands [OF this, of s] 2(1) show ?thesis
      by (simp add: execute_def Let_def)
  qed
qed

text \<open>A step of the code, from the state the machine stands for, is a call of \<^verbatim>\<open>rv_run\<close>.\<close>

lemma code_kept:
  assumes s: "code_step lo hi a b" and p: "lo \<le> unat p" "unat p < hi"
  shows "a_mem b p = a_mem a p"
proof -
  from s obtain i m where i: "isa m i a = Some b" and w: "case writes i a of None \<Rightarrow> True | Some (q, j) \<Rightarrow> outside lo hi q j"
    by (elim code_stepE) blast
  have "\<not> unat (p - q) < j" if "outside lo hi q j" for q j
    using that p unat_sub_less [of q j p] by (auto simp: outside_def)
  with w show ?thesis
    by (intro isa_writes [OF i]) (auto split: option.splits)
qed

lemma coherent_kept:
  assumes "coherent lo hi s" "icache (cpu t) = icache (cpu s) \<or> ic_base (icache (cpu t)) = CPU_ADDR_MAX"
    and "\<And>p. lo \<le> unat p \<Longrightarrow> unat p < hi \<Longrightarrow> a_mem (abs_arch t) p = a_mem (abs_arch s) p"
  shows "coherent lo hi t"
  using assms by (auto simp: coherent_def Let_def)

lemma rv_run_abs:
  fixes s :: "'x::len vm"
  assumes x: "valid_xlen TYPE('x)" and r: "running lo hi s" and a: "code_step lo hi (abs_arch s) b"
  shows "running lo hi (rv_run s)" "abs_arch (rv_run s) = b" "mie (csr_of (rv_run s)) = mie (csr_of s)"
proof -
  from a obtain i n where i: "instr_at i n (abs_arch s)" "isa n i (abs_arch s) = Some b" "lo \<le> unat (pc_of s)"
    "unat (pc_of s) + n \<le> hi" "sllw_fits i (abs_arch s)"
    by (elim code_stepE) auto
  from i(1) have e: "even (unat (pc_of s))" and l: "legal (CONFIG_RV64 TYPE('x)) i" and n: "2 \<le> n" "n \<le> 4"
    by (auto simp: instr_at_def)
  obtain t bs where f: "fetch s = (t, le_word bs)" "length bs = 4"
      "\<And>k. k < 4 \<Longrightarrow> unat (pc_of s) + k < hi \<Longrightarrow> a_mem (abs_arch s) (pc_of s + of_nat k) = Some (bs ! k)"
      "abs_arch t = abs_arch s"
    and t: "running lo hi t" and c: "csr_of t = csr_of s"
    by (rule fetch_abs [OF x r e i(3)]) (use i(4) n in auto)
  have w: "wf_vm t" "\<not> trapped t" and pc: "pc_of t = pc_of s"
    using t abs_arch_sel(2) [of t] f(4) by (simp_all add: running_def)
  have "(if cpu_irq (cpu s) then processPendingInterrupts s else s) = s"
    using r interrupt_choice [of s] by (auto simp: running_def undisturbed_def)
  then have "rv_run s = execute (le_word bs) t"
    using r w(2) by (simp add: rv_run_def running_def f(1))
  also have "\<dots> = finish n (exec_sized (int n) (encode i) t)"
    using i(1,4) f(2-4) n by (intro execute_abs) (simp_all add: pc)
  finally have o: "outcome t (rv_run s) b"
    using exec_abs [OF x w l, of n b] i(2,5) f(4) by simp
  then show b: "abs_arch (rv_run s) = b"
    by (simp add: outcome_def)
  have q: "quiet t (rv_run s)" "wf_vm (rv_run s)"
    using o by (simp_all add: outcome_def)
  have "coherent lo hi (rv_run s)"
    by (rule coherent_kept [of lo hi t]) (use t q(1) code_kept [OF a] f(4) b in \<open>auto simp: running_def quiet_def\<close>)
  with q t show "running lo hi (rv_run s)"
    using undisturbed_cong [of "rv_run s" t] by (auto simp: running_def quiet_def)
  show "mie (csr_of (rv_run s)) = mie (csr_of s)"
    using q(1) c by (simp add: quiet_def)
qed

section \<open>Programs\<close>

text \<open>A deterministic machine that follows every step of a specification, whatever input comes with it, follows
  every run of it, call by call.\<close>

locale lockstep =
  fixes astep :: "'a \<Rightarrow> 'a \<Rightarrow> bool" and cstep :: "'i \<Rightarrow> 'c \<Rightarrow> 'c" and R :: "'c \<Rightarrow> 'a \<Rightarrow> bool"
  assumes step: "R s a \<Longrightarrow> astep a b \<Longrightarrow> R (cstep i s) b"
begin

lemma run_inputs: "(astep ^^ length is) a b \<Longrightarrow> R s a \<Longrightarrow> R (fold cstep is s) b"
proof (induction "is" arbitrary: a s)
  case (Cons i "is")
  from Cons.prems(1) obtain c where "astep a c" "(astep ^^ length is) c b"
    unfolding length_Cons by (elim relpowp_Suc_E2)
  with Cons.IH [of c "cstep i s"] Cons.prems(2) show ?case
    by (simp add: step)
qed simp

lemma run: "(astep ^^ n) a b \<Longrightarrow> R s a \<Longrightarrow> R ((cstep i ^^ n) s) b"
proof (induction n arbitrary: a s)
  case (Suc n)
  from Suc.prems(1) obtain c where "astep a c" "(astep ^^ n) c b"
    by (elim relpowp_Suc_E2)
  with Suc.IH [of c "cstep i s"] Suc.prems(2) show ?case
    by (simp add: step funpow_Suc_right del: funpow.simps)
qed simp

end

definition stands_for :: "nat \<Rightarrow> nat \<Rightarrow> 'x::len vm \<Rightarrow> 'x arch \<Rightarrow> bool" where
  "stands_for lo hi s a \<longleftrightarrow> valid_xlen TYPE('x) \<and> running lo hi s \<and> abs_arch s = a"

interpretation program: lockstep "code_step lo hi" "\<lambda>_ :: unit. rv_run" "stands_for lo hi" for lo hi
  by unfold_locales (auto simp: stands_for_def rv_run_abs)

text \<open>C2. Programs run as the instruction set manual says: if the manual takes the architectural state of a machine
  (registers, program counter, memory) through \<open>n\<close> instructions of code between \<open>lo\<close> and \<open>hi\<close>, full-size or compressed,
  none of which writes into the code, and no interrupt is about to be taken, then \<open>n\<close> calls of \<^verbatim>\<open>rv_run\<close> take the
  machine to the state the manual says, through the instruction cache, with no trap and no undefined behaviour on the
  way. The instructions are those of \<open>Isa_Spec\<close>, without load-reserved and store-conditional and without a \<^verbatim>\<open>sllw\<close> by
  32 or more.\<close>

theorem programs_run:
  fixes s :: "'x::len vm"
  assumes "valid_xlen TYPE('x)" "running lo hi s" "(code_step lo hi ^^ n) (abs_arch s) a"
  shows "abs_arch ((rv_run ^^ n) s) = a \<and> running lo hi ((rv_run ^^ n) s)"
  using program.run [OF assms(3), of s] assms(1,2) by (simp add: stands_for_def)

text \<open>A small program at the start of memory: \<^verbatim>\<open>addi a0, zero, 7\<close>, \<^verbatim>\<open>c.addi a0, 1\<close>, \<^verbatim>\<open>auipc a1, 1\<close>,
  \<^verbatim>\<open>sw a0, 0(a1)\<close>. It leaves an eight at \<^verbatim>\<open>0x80001006\<close>.\<close>

definition prog_code :: "byte list" where
  "prog_code = le_bytes 4 (encode (OpImm Add 10 0 7)) @ [5, 5] @ le_bytes 4 (encode (Auipc 11 1)) @
     le_bytes 4 (encode (Store W32 11 10 0))"

definition prog :: "32 vm" where
  "prog = writePC 0x80000000 (flushIcache (writeMem demo 0x80000000 prog_code))"

lemma prog_words:
  "slice_at 0 4 prog_code = le_bytes 4 (encode (OpImm Add 10 0 7))" "slice_at 4 2 prog_code = [5, 5]"
  "slice_at 6 4 prog_code = le_bytes 4 (encode (Auipc 11 1))"
  "slice_at 10 4 prog_code = le_bytes 4 (encode (Store W32 11 10 0))" "length prog_code = 14"
  "expand False (le_word [5, 5]) = Some (encode (OpImm Add 10 10 1))"
  by code_simp+

lemma demo_region: "in_region demo RAM k n \<longleftrightarrow> 0x80000000 \<le> k \<and> k + n \<le> 0x80100000"
  using region_sizes(4) [of demo] by (simp add: in_region_def region_base_def demo_ram)

lemma demo_host: "\<not> host_ub demo"
  by (simp add: demo_def demo_opts_def vm_setup_def and_then_def bus_init_def rv_init_def mem_init_def
      bus_register_def replicate_slots aclint_init_def plic_init_def ns16550a_init_def zero_vm_def)

lemma prog_running:
  "running 0x80000000 0x8000000E prog" "mem_load 0x80000000 14 (abs_arch prog) = Some prog_code"
  "mem_load 0x80001006 4 (abs_arch prog) \<noteq> None" "pc_of prog = 0x80000000"
proof -
  have ne: "prog_code \<noteq> []"
    using prog_words(5) by auto
  have "mem_load 0x80000000 14 (abs_arch demo) \<noteq> None"
    by (subst mem_load_abs) (simp_all add: demo_region)
  then obtain b where b: "mem_store 0x80000000 prog_code (abs_arch demo) = Some b"
    by (simp add: mem_store_def prog_words(5))
  have o: "outcome demo prog (goto 0x80000000 b)"
    unfolding prog_def using b ne by (intro outcome_rules(3,4,6)) (simp_all add: demo_cpu outcome_rules(1))
  then have w: "wf_vm prog" "quiet demo prog" "abs_arch prog = goto 0x80000000 b"
    by (simp_all add: outcome_def)
  show "mem_load 0x80000000 14 (abs_arch prog) = Some prog_code"
    using mem_load_store [OF b] by (simp add: w(3) prog_words(5))
  show "pc_of prog = 0x80000000"
    using w(3) abs_arch_sel(2) [of prog] by simp
  have r: "in_region prog RAM k n \<longleftrightarrow> 0x80000000 \<le> k \<and> k + n \<le> 0x80100000" for k n
    using w(2) by (simp add: quiet_def demo_region)
  then show "mem_load 0x80001006 4 (abs_arch prog) \<noteq> None"
    using w(1) by (subst mem_load_abs) (simp_all add: wf_vm_def)
  have "ic_base (icache (cpu prog)) = CPU_ADDR_MAX"
    by (simp add: prog_def writePC_def flushIcache_def)
  with w show "running 0x80000000 0x8000000E prog"
    by (simp add: running_def quiet_def coherent_def undisturbed_def demo_cpu demo_region demo_host Let_def)
qed

lemma relpowp_4: "R a b \<Longrightarrow> R b c \<Longrightarrow> R c d \<Longrightarrow> R d e \<Longrightarrow> (R ^^ 4) a e"
  by (auto simp: numeral_eq_Suc)

lemma prog_steps:
  fixes a0 :: "32 arch"
  assumes code14: "mem_load 0x80000000 14 a0 = Some prog_code" and dest: "mem_load 0x80001006 4 a0 \<noteq> None"
    and a0: "a_pc a0 = 0x80000000" "a_x a0 0 = 0" and hi: "0x8000000E \<le> hi" "hi \<le> 0x80001006"
  obtains a where "(code_step 0x80000000 hi ^^ 4) a0 a" "a_x a 10 = 8" "a_pc a = 0x8000000E"
    "mem_load 0x80001006 4 a = Some (le_bytes 4 (8 :: 32 word))"
    "\<And>p. unat p < hi \<Longrightarrow> a_mem a p = a_mem a0 p"
proof -
  define a1 where "a1 = goto 0x80000004 (set_x 10 7 a0)"
  define a2 where "a2 = goto 0x80000006 (set_x 10 8 a1)"
  define a3 where "a3 = goto 0x8000000A (set_x 11 0x80001006 a2)"
  have x: "a_x a0 0 = 0" "a_x a1 10 = 7" "a_x a3 10 = 8" "a_x a3 11 = 0x80001006"
    by (simp_all add: a0 a1_def a2_def a3_def goto_def set_x_def)
  have pc: "a_pc a0 = 0x80000000" "a_pc a1 = 0x80000004" "a_pc a2 = 0x80000006" "a_pc a3 = 0x8000000A"
    by (simp_all add: a0 a1_def a2_def a3_def)
  have m: "mem_load p n a1 = mem_load p n a0" "mem_load p n a2 = mem_load p n a0" "mem_load p n a3 = mem_load p n a0" for p n
    by (simp_all add: a1_def a2_def a3_def)
  note part = mem_load_part [OF code14]
  have code: "mem_load 0x80000000 4 a0 = Some (le_bytes 4 (encode (OpImm Add 10 0 7)))" "mem_load 0x80000004 2 a0 = Some [5, 5]"
    "mem_load 0x80000006 4 a0 = Some (le_bytes 4 (encode (Auipc 11 1)))"
    "mem_load 0x8000000A 4 a0 = Some (le_bytes 4 (encode (Store W32 11 10 0)))"
    using part [of 0 4] part [of 4 2] part [of 6 4] part [of 10 4] by (simp_all add: prog_words)
  obtain b where b: "mem_store 0x80001006 (le_bytes 4 (8 :: 32 word)) a3 = Some b"
    using dest by (auto simp: mem_store_def m)
  let ?step = "code_step 0x80000000 hi"
  have "?step a0 a1"
    by (rule code_step [of "OpImm Add 10 0 7" 4]) (use hi in \<open>simp_all add: instr_at_def pc x code sllw_fits_def a1_def\<close>)
  moreover have "?step a1 a2"
    by (rule code_step [of "OpImm Add 10 10 1" 2])
      (use hi prog_words(6) in \<open>simp_all add: instr_at_def pc x m code sllw_fits_def a2_def CONFIG_RV64_def\<close>)
  moreover have "?step a2 a3"
    by (rule code_step [of "Auipc 11 1" 4]) (use hi in \<open>simp_all add: instr_at_def pc x m code sllw_fits_def a3_def\<close>)
  moreover have "?step a3 (advance 4 b)"
    by (rule code_step [of "Store W32 11 10 0" 4])
      (use hi in \<open>simp_all add: instr_at_def pc x m code b sllw_fits_def outside_def\<close>)
  ultimately have "(?step ^^ 4) a0 (advance 4 b)"
    by (rule relpowp_4)
  moreover have "a_x b = a_x a3" "a_pc b = a_pc a3"
    using b by (auto simp: mem_store_def split: if_splits)
  moreover have "a_mem b p = a_mem a0 p" if "unat p < hi" for p
    using mem_store_other [OF b, of p] unat_sub_less [of "0x80001006" 4 p] that hi(2) by (simp add: a1_def a2_def a3_def)
  ultimately show thesis
    using that mem_load_store [OF b] x(3) pc(4) by simp
qed

theorem programs_run_witness:
  "\<exists>a. (code_step 0x80000000 0x8000000E ^^ 4) (abs_arch prog) a \<and> abs_arch ((rv_run ^^ 4) prog) = a \<and> a_x a 10 = 8 \<and>
     mem_load 0x80001006 4 a = Some (le_bytes 4 (8 :: 32 word))"
  by (rule prog_steps [of "abs_arch prog" "0x8000000E"])
    (use programs_run [OF _ prog_running(1)] prog_running in \<open>auto simp: running_def wf_vm_def wf_cpu_def readReg_def\<close>)

end
