(* ===== verification/Isa_Boot.thy ===== *)
theory Isa_Boot
  imports Isa_Run Boot_Props
begin

text \<open>
  From the command line to the guest's instructions: the program that was loaded runs as the manual says, in the main
  loop of the emulator, with the timer ticking and characters arriving between its instructions.
\<close>

section \<open>Between two batches of instructions\<close>

text \<open>A machine with every interrupt disabled, which the devices therefore cannot disturb.\<close>

definition undisturbable :: "nat \<Rightarrow> nat \<Rightarrow> 'x::len vm \<Rightarrow> 'x arch \<Rightarrow> bool" where
  "undisturbable lo hi s a \<longleftrightarrow> stands_for lo hi s a \<and> mie (csr_of s) = 0"

lemma undisturbed_mie: "mie (csr_of s) = 0 \<Longrightarrow> undisturbed s"
  by (auto simp: undisturbed_def takeable_def find_None_iff)

lemma device_step:
  assumes r: "undisturbable lo hi s a" and d: "dev_frame s t" "wf_vm t" "host_ub t = host_ub s"
  shows "undisturbable lo hi t a"
proof -
  have c: "core (cpu t) = core (cpu s)" and m: "ram t = ram s"
    using d(1) by (simp_all add: dev_frame_def)
  note f = core_fields [OF c] core_csr_fields(2) [OF core_fields(9) [OF c]]
  have i: "in_region t RAM p n \<longleftrightarrow> in_region s RAM p n" for p n
    by (simp add: in_region_def region_size_def device_of_def m)
  then have b: "abs_arch t = abs_arch s"
    by (simp add: abs_arch_def readReg_def f m cong: if_cong)
  moreover have "coherent lo hi t = coherent lo hi s"
    by (simp add: coherent_def b f)
  moreover have "undisturbed t"
    using r f by (intro undisturbed_mie) (simp add: undisturbable_def)
  ultimately show ?thesis
    using r d(2,3) f i by (simp add: undisturbable_def stands_for_def running_def)
qed

lemma tick_step: "undisturbable lo hi s a \<Longrightarrow> undisturbable lo hi (aclint_tick n s) a"
proof (rule device_step)
  assume r: "undisturbable lo hi s a"
  then have w: "wf_vm s" "wf_aclint (aclint s)"
    by (simp_all add: undisturbable_def stands_for_def running_def wf_vm_def wf_platform_def wf_devs_def)
  show "dev_frame s (aclint_tick n s)"
    by (rule aclint_frame_dev(1) [OF aclint_tick_frame])
  show "wf_vm (aclint_tick n s)"
    by (rule wf_vm_frame [OF w(1) aclint_tick_port])
  show "host_ub (aclint_tick n s) = host_ub s"
    by (rule aclint_tick_ub [OF w(2)])
qed

lemma key_step: "undisturbable lo hi s a \<Longrightarrow> undisturbable lo hi (snd (ui_getch inp s)) a"
proof (rule device_step)
  assume r: "undisturbable lo hi s a"
  then have w: "wf_vm s" "wf_plic (plic s)" "wf_uart (uart0 s)"
    by (simp_all add: undisturbable_def stands_for_def running_def wf_vm_def wf_platform_def wf_devs_def)
  show "dev_frame s (snd (ui_getch inp s))" "host_ub (snd (ui_getch inp s)) = host_ub s"
    using ns16550_push_frame [where s = s] w(2,3) by (auto simp: ui_getch_def uart_frame_def split: option.split)
  show "wf_vm (snd (ui_getch inp s))"
    by (rule wf_vm_frame [OF w(1) ui_getch_port])
qed

interpretation batch: lockstep "code_step lo hi" "\<lambda>_ :: unit. rv_run" "undisturbable lo hi" for lo hi
  by unfold_locales (auto simp: undisturbable_def stands_for_def rv_run_abs)

lemma turn_step:
  assumes "undisturbable lo hi s a" "(code_step lo hi ^^ cyclesPerStep) a b"
  shows "undisturbable lo hi (snd (turn inp s)) b"
proof -
  have "undisturbable lo hi (aclint_tick (of_nat cyclesPerStep) ((rv_run ^^ cyclesPerStep) s)) b"
    by (rule tick_step [OF batch.run [OF assms(2,1)]])
  then show ?thesis
    by (simp add: turn_def idle_def key_step tick_step)
qed

interpretation loop: lockstep "code_step lo hi ^^ cyclesPerStep" "\<lambda>inp s. snd (turn inp s)" "undisturbable lo hi" for lo hi
  by unfold_locales (rule turn_step)

lemma relpowp_mult: "(R ^^ (m * n)) = ((R ^^ m) ^^ n)" for R :: "'a \<Rightarrow> 'a \<Rightarrow> bool"
proof (induction n)
  case (Suc n)
  have "R ^^ (m * Suc n) = R ^^ (m * n + m)"
    by (simp add: add.commute)
  then show ?case
    by (simp only: relpowp_add relpowp.simps Suc)
qed simp

lemma loop_runs:
  assumes "undisturbable lo hi s a" "(code_step lo hi ^^ (cyclesPerStep * length inputs + k)) a b"
  shows "undisturbable lo hi ((rv_run ^^ k) (main_loop inputs s)) b"
proof -
  obtain c where c: "(code_step lo hi ^^ (cyclesPerStep * length inputs)) a c" "(code_step lo hi ^^ k) c b"
    using assms(2) by (auto simp: relpowp_add)
  have "undisturbable lo hi (main_loop inputs s) c"
    unfolding main_loop_def by (rule loop.run_inputs [OF c(1) [unfolded relpowp_mult] assms(1)])
  then show ?thesis
    by (rule batch.run [OF c(2)])
qed

section \<open>After a boot\<close>

text \<open>What \<^verbatim>\<open>main\<close> hands to its loop is a machine about to run code anywhere in memory, with all interrupts disabled.\<close>

lemma start_clean:
  "\<not> trapped (start op e d s)" "ic_base (icache (cpu (start op e d s))) = CPU_ADDR_MAX"
  "mie (csr_of (start op e d s)) = mie (csr_of s)"
  by (simp_all add: start_def sbi_startHart_def rv_reset_def rv_pokeRx_def Let_def writePC_def flushIcache_def
      reservationCheck unreserved_def)

lemma setup_mie: "vm_setup op c s = (True, t) \<Longrightarrow> mie (csr_of t) = 0"
  by (cases c) (auto simp: vm_setup_def and_then_def bus_init_def rv_init_def mem_init_def bus_register_def
      BUS_MAX_DEVICES_def aclint_init_def plic_init_def ns16550a_init_def split: option.splits)

lemma boot_mie:
  assumes "boot args c m dtb img junk = Some s"
  shows "mie (csr_of s) = 0"
  using assms
proof (rule boot_parts)
  fix op t d t1 entry t2
  assume u: "vm_setup op c (zero_vm junk) = (True, t)" and d: "buildDeviceTree dtb t = Some (d, t1)" and s: "s = start op entry d t2"
    and l: "(entry, t2) = (if kernelFile op \<noteq> None then loadLinuxImage img m RAM_BASE t1 else loadBin img m RAM_BASE t1)"
  have "port_frame t1 t2"
    using arg_cong [OF l, of snd] loadLinuxImage_port [of t1 img m RAM_BASE] loadBin_port [of t1 img m RAM_BASE]
    by (cases "kernelFile op = None") simp_all
  then have "core (cpu t2) = core (cpu t)"
    using port_frame_trans [OF buildDeviceTree_port [OF d]] by (auto simp: port_frame_def)
  from core_csr_fields(2) [OF core_fields(9) [OF this]] show "mie (csr_of s) = 0"
    using setup_mie [OF u] by (simp add: s start_clean)
qed

lemma boot_running:
  assumes x: "valid_xlen TYPE('x::len)" and b: "boot args c m dtb img junk = Some (s :: 'x vm)" and u: "\<not> host_ub s"
    and r: "lo = 0x80000000" "hi + 2 \<le> 0x80000000 + length (mem_data (ram s))"
  shows "undisturbable lo hi s (abs_arch s)"
proof -
  have w: "wf_vm s"
    by (rule wf_boot [OF x b])
  then have "in_region s RAM lo (hi + 2 - lo)"
    using r region_sizes(4) [OF x, of s] by (simp add: in_region_def region_base_def wf_vm_def)
  moreover have "\<not> trapped s" "ic_base (icache (cpu s)) = CPU_ADDR_MAX"
    using b by (elim boot_parts, simp add: start_clean)+
  ultimately show ?thesis
    using w u x boot_mie [OF b] undisturbed_mie [of s]
    by (simp add: undisturbable_def stands_for_def running_def coherent_def Let_def)
qed

text \<open>C10. From the command line to the guest's instructions. Whatever the command line and the image (a kernel or a
  binary), when the program reaches its loop with no undefined behaviour on the way: if the manual takes the machine's
  architectural state through a number of instructions of code in memory (instructions of \<open>code_step\<close>: unprivileged
  ones, that do not write into the code), then the loop of \<^verbatim>\<open>main\<close> takes the machine to the state the manual says, at
  every one of them. The instructions are executed in batches of 100, after each of which the timer ticks, a waiting
  processor idles and a character may arrive; \<open>inputs\<close> are the keyboard's answers in the turns that are over and \<open>k\<close> is
  the number of instructions in the turn that is going on. There is no trap and no undefined behaviour: the interrupts
  these events raise are not enabled.\<close>

theorem booted_program_runs:
  assumes x: "valid_xlen TYPE('x::len)" and b: "boot args c m dtb img junk = Some (s :: 'x vm)" and u: "\<not> host_ub s"
    and h: "hi + 2 \<le> 0x80000000 + length (mem_data (ram s))"
    and r: "(code_step 0x80000000 hi ^^ (cyclesPerStep * length inputs + k)) (abs_arch s) a"
  defines "t \<equiv> (rv_run ^^ k) (main_loop inputs s)"
  shows "abs_arch t = a \<and> \<not> trapped t \<and> \<not> host_ub t"
  using loop_runs [OF boot_running [OF x b u refl h] r]
  by (simp add: t_def undisturbable_def stands_for_def running_def)

text \<open>The small program followed by \<^verbatim>\<open>jal zero, 0\<close>, a jump to itself: booted, it runs through two turns of the loop,
  in the first of which a character arrives, and is seven instructions into the third.\<close>

definition prog_loop :: "byte list" where
  "prog_loop = prog_code @ le_bytes 4 (encode (Jal 0 0))"

lemma jump_to_self:
  fixes a :: "'x::len arch"
  assumes "mem_load (a_pc a) 4 a = Some (le_bytes 4 (encode (Jal 0 0)))" "even (unat (a_pc a))" "lo \<le> unat (a_pc a)"
    "unat (a_pc a) + 4 \<le> hi"
  shows "(code_step lo hi ^^ n) a a"
proof (induction n)
  case (Suc n)
  have "code_step lo hi a a"
    by (rule code_step [of "Jal 0 0" 4]) (use assms in \<open>simp_all add: instr_at_def sllw_fits_def set_x_def goto_def\<close>)
  with Suc show ?case
    by auto
qed simp

lemma prog_loop_words: "take 14 prog_loop = prog_code" "slice_at 14 4 prog_loop = le_bytes 4 (encode (Jal 0 0))" "length prog_loop = 18"
  by (simp_all add: prog_loop_def prog_words slice_at_def)

lemma prog_loop_steps:
  fixes a0 :: "32 arch"
  assumes code: "mem_load 0x80000000 18 a0 = Some prog_loop" and dest: "mem_load 0x80001006 4 a0 \<noteq> None"
    and a0: "a_pc a0 = 0x80000000" "a_x a0 0 = 0"
  obtains a where "(code_step 0x80000000 0x80000012 ^^ (4 + n)) a0 a" "a_x a 10 = 8"
    "mem_load 0x80001006 4 a = Some (le_bytes 4 (8 :: 32 word))"
proof -
  have c14: "mem_load 0x80000000 14 a0 = Some prog_code" "mem_load 0x8000000E 4 a0 = Some (le_bytes 4 (encode (Jal 0 0)))"
    using mem_load_part [OF code, of 0 14] mem_load_part [OF code, of 14 4] prog_loop_words(1)
    by (simp_all add: prog_loop_words slice_at_def [of 0])
  obtain a where a: "(code_step 0x80000000 0x80000012 ^^ 4) a0 a" "a_x a 10 = 8" "a_pc a = 0x8000000E"
    "mem_load 0x80001006 4 a = Some (le_bytes 4 (8 :: 32 word))" "\<And>p. unat p < 0x80000012 \<Longrightarrow> a_mem a p = a_mem a0 p"
    by (rule prog_steps [OF c14(1) dest a0, of "0x80000012"]) simp_all
  have "mem_load 0x8000000E 4 a = mem_load 0x8000000E 4 a0"
    by (rule mem_load_cong) (use a(5) unat_plus_of_nat [of "0x8000000E :: 32 word"] in simp)
  then have "(code_step 0x80000000 0x80000012 ^^ n) a a"
    using c14(2) by (intro jump_to_self) (simp_all add: a(3))
  with a show ?thesis
    using that by (auto simp: relpowp_add)
qed

theorem booted_program_runs_witness:
  "\<exists>s :: 32 vm. boot [OPT_b ''image.bin'', OPT_m ''64''] True True (Some (replicate 2048 0xAA)) (Some (prog_loop @ replicate 0x2000 0)) 0 = Some s \<and>
     (let t = (rv_run ^^ 7) (main_loop [Some 0x41, None] s) in
      a_x (abs_arch t) 10 = 8 \<and> mem_load 0x80001006 4 (abs_arch t) = Some (le_bytes 4 (8 :: 32 word)))"
proof -
  define op where "op = \<lparr>kernelFile = None, binFile = Some ''image.bin'', noSBI = False, memSizeMb = 64\<rparr>"
  have p: "parseArgs [OPT_b ''image.bin'', OPT_m ''64''] = (True, op)"
    by (simp add: parseArgs_def op_def strtoul10_def is_space_def is_digit_def digits_value_def)
  define img where "img = prog_loop @ replicate 0x2000 (0 :: byte)"
  have len: "length (replicate 2048 (0xAA :: byte)) = bufsize" "length img = 0x2012"
    by (simp_all add: bufsize_def img_def prog_loop_words)
  obtain s :: "32 vm" where b: "boot [OPT_b ''image.bin'', OPT_m ''64''] True True (Some (replicate 2048 0xAA)) (Some img) 0 = Some s"
    and s: "pc_of s = RAM_BASE" "length (mem_data (ram s)) = 0x4000000" "take (length img) (mem_data (ram s)) = img" "\<not> host_ub s"
    using boots [OF _ p _ len(1), where 'x = 32 and data = img and junk = 0] len by (auto simp: op_def bufsize_def)
  have w: "wf_vm s" "wf_platform s"
    using wf_boot [OF _ b] by (simp_all add: wf_vm_def)
  have "in_region s RAM 0x80000000 0x2012"
    using s(2) region_sizes(4) [OF _ w(2)] by (simp add: in_region_def region_base_def)
  then have m: "mem_load 0x80000000 0x2012 (abs_arch s) = Some img"
    using s(3) len(2) by (simp add: mem_load_abs [OF _ w(2)] region_base_def slice_at_def)
  have "mem_load 0x80000000 18 (abs_arch s) = Some prog_loop" "mem_load 0x80001006 4 (abs_arch s) \<noteq> None"
    using mem_load_part [OF m, of 0 18] mem_load_part [OF m, of "0x1006" 4] by (simp_all add: slice_at_def img_def prog_loop_words)
  moreover have "a_x (abs_arch s) 0 = 0" "a_pc (abs_arch s) = 0x80000000"
    using w(1) s(1) by (simp_all add: wf_vm_def wf_cpu_def readReg_def base_defs)
  ultimately obtain a where "(code_step 0x80000000 0x80000012 ^^ (4 + 203)) (abs_arch s) a" "a_x a 10 = 8"
    "mem_load 0x80001006 4 a = Some (le_bytes 4 (8 :: 32 word))"
    using prog_loop_steps by blast
  then show ?thesis
    using booted_program_runs [OF _ b s(4), of "0x80000012" "[Some 0x41, None]" 7 a] b s(2)
    by (auto simp: cyclesPerStep_def img_def Let_def)
qed

end
