(* ===== verification/Bus_Dump.thy ===== *)
theory Bus_Dump
  imports Machine_Tree
begin

text \<open>
  The hexadecimal dump of a range of the address space, \<^verbatim>\<open>bus_dump\<close> of \<^verbatim>\<open>src/src/bus.c\<close>: the lines it
  prints, that it ends, and that each line fits the buffer it is put together in.
\<close>

section \<open>The dump\<close>

definition isprint :: "byte \<Rightarrow> bool" where
  "isprint b \<longleftrightarrow> 0x20 \<le> b \<and> b \<le> 0x7E"

text \<open>\<^verbatim>\<open>sprintf\<close> with \<^verbatim>\<open>%0nx\<close>.\<close>

definition hex_padded :: "nat \<Rightarrow> nat \<Rightarrow> string" where
  "hex_padded n v = replicate (n - length (hex_digits v)) CHR ''0'' @ hex_digits v"

definition lineBytes :: nat where "lineBytes = 16"

definition dump_line :: "'x::len word \<Rightarrow> byte list \<Rightarrow> string" where
  "dump_line addr bytes =
     hex_padded 8 (unat addr) @ '': '' @
     concat (map (\<lambda>b. hex_padded 2 (unat b) @ '' '') bytes) @
     concat (replicate (lineBytes - length bytes) ''   '') @ ''| '' @
     map (\<lambda>b. if isprint b then char_of (unat b) else CHR ''.'') bytes"

function dumpLines :: "'x::len word \<Rightarrow> byte list \<Rightarrow> string list" where
  "dumpLines addr mem =
     (if mem = [] then []
      else let lineSize = min lineBytes (length mem) in
        dump_line addr (take lineSize mem) # dumpLines (addr + of_nat lineSize) (drop lineSize mem))"
  by pat_completeness auto
termination
  by (relation "measure (\<lambda>(a, m). length m)") (auto simp: lineBytes_def)

declare dumpLines.simps [simp del]

text \<open>\<open>mem\<close> is the allocated buffer, if there is one, with whatever it holds.\<close>

definition bus_dump :: "'x::len word \<Rightarrow> byte list option \<Rightarrow> 'x vm \<Rightarrow> bool \<times> 'x vm \<times> string list" where
  "bus_dump addr malloc s =
     (case malloc of
        None \<Rightarrow> (False, s, [])
      | Some buf \<Rightarrow> (case bus_read s addr buf of (ok, t, mem) \<Rightarrow>
          if \<not> ok then (False, t, []) else (True, t, dumpLines addr mem)))"

section \<open>Its lines\<close>

lemma length_hex_padded: "v < 16 ^ Suc k \<Longrightarrow> length (hex_padded (Suc k) v) = Suc k"
  using length_hex_digits [of v k] by (simp add: hex_padded_def)

lemma length_hex_address:
  assumes "valid_xlen TYPE('x::len)"
  shows "length (hex_padded 8 (unat (a :: 'x word))) \<le> 16"
proof -
  have "LENGTH('x) \<le> 64"
    using assms by (auto simp: valid_xlen_def)
  then have "unat a < 2 ^ 64"
    using unsigned_less [of a, where 'a = nat] by (meson less_le_trans one_le_numeral power_increasing)
  then show ?thesis
    using length_hex_digits [of "unat a" 15] by (simp add: hex_padded_def)
qed

lemma length_hex_bytes: "length (concat (map (\<lambda>b :: byte. hex_padded 2 (unat b) @ '' '') bs)) = 3 * length bs"
proof (induction bs)
  case (Cons b bs)
  have "unat b < 16 ^ Suc 1"
    using unsigned_less [of b, where 'a = nat] by simp
  then have "length (hex_padded 2 (unat b)) = 2"
    using length_hex_padded [of "unat b" 1] by (simp only: Suc_1)
  with Cons show ?case
    by simp
qed simp

text \<open>Each line, with its terminating zero, fits the 256 bytes of \<^verbatim>\<open>buf\<close>.\<close>

lemma dump_line_fits:
  assumes "valid_xlen TYPE('x::len)" "length bytes \<le> lineBytes"
  shows "length (dump_line (a :: 'x word) bytes) \<le> 84"
proof -
  have "length (concat (replicate n ''   '')) = 3 * n" for n
    by (induction n) simp_all
  then show ?thesis
    using assms(2) length_hex_address [OF assms(1), of a]
    by (simp add: dump_line_def length_hex_bytes lineBytes_def)
qed

lemma dumpLines_fit:
  assumes "valid_xlen TYPE('x::len)"
  shows "l \<in> set (dumpLines (a :: 'x word) mem) \<Longrightarrow> length l + 1 \<le> 256"
proof (induction a mem rule: dumpLines.induct)
  case (1 a mem)
  then show ?case
    using dump_line_fits [OF assms, of "take (min lineBytes (length mem)) mem" a]
    by (subst (asm) dumpLines.simps) (auto simp: Let_def split: if_splits)
qed

lemma dumpLines_length: "length (dumpLines a mem) = (length mem + 15) div 16"
proof (induction a mem rule: dumpLines.induct)
  case (1 a mem)
  show ?case
  proof (cases "mem = []")
    case False
    then have "length (dumpLines a mem) = Suc ((length mem - min 16 (length mem) + 15) div 16)"
      using 1 by (subst dumpLines.simps) (simp add: Let_def lineBytes_def)
    also have "\<dots> = (length mem + 15) div 16"
      using False by (cases "16 \<le> length mem") (auto simp: min_def Suc_le_eq neq_Nil_conv)
    finally show ?thesis .
  qed (simp add: dumpLines.simps)
qed

end
