(* ===== verification/Spec2Isabelle.thy ===== *)
theory Spec2Isabelle
  imports Sbi_Props Paged_Props Irq_Latch Isa_Boot Bus_Dump
begin

text \<open>
  A verification of RV640, an emulator of a RISC-V computer written in C (\<^verbatim>\<open>src/src\<close>). The program
  interprets the instructions of one hart (RV32IMAC or RV64IMAC with machine, supervisor and user mode),
  gives it a timer, an interrupt controller, a serial port and memory behind a bus, answers supervisor calls
  with built-in firmware, describes the machine to the guest in a device tree, and runs on Linux or, with
  memory paged to swap files, under DOS.

  \<^bold>\<open>How the model is made.\<close> Every C structure is a record and the static structure \<^verbatim>\<open>_vm\<close> of
  \<^verbatim>\<open>main.c\<close>, through which the structures point at each other, is the record \<open>vm\<close>; an operation takes
  and returns it whole. The register width is a type variable \<open>'x\<close>, with \<open>valid_xlen\<close> restricting it to 32
  and 64 and \<open>CONFIG_RV64\<close> for the preprocessor test. Integers are words of their C width. Two fields record
  what the C program would do to its host: \<open>assert_failed\<close>, and \<open>host_ub\<close> for an access outside an object,
  a null call or an oversized shift. Every access of the bus and device code to an array (memory, the register arrays
  of the devices, the contexts of the interrupt controller, the ring buffer) is checked against the array's
  size (\<open>arr_read\<close>, \<open>arr_write\<close>, \<open>c_access\<close>), apart from the bounds tests of the code, so that a missing or wrong
  test shows as \<open>host_ub\<close>. Errors are booleans, options or pairs as in C. Answers of the
  operating system (allocation, files, the keyboard, the DOS interrupts) are arguments; where a theorem needs
  them to behave, that is a named hypothesis (\<open>dos_io\<close>, \<open>dos_files\<close>) and an instance is exhibited
  (\<open>ram_api\<close>).

  \<^bold>\<open>The theories and the code.\<close>
  \<^item> \<open>RV_Prelude\<close> (\<^verbatim>\<open>utils.h\<close>): bit macros, bytes and words, slices of lists; \<open>RV_Types\<close>
    (\<^verbatim>\<open>cpu/rv_types.h\<close>): widths, causes, modes, masks; \<open>VM_State\<close>: the records and the interrupt lines.
  \<^item> \<open>Aclint\<close>, \<open>Plic\<close>, \<open>Ns16550a\<close> (\<^verbatim>\<open>dev/\<close>): the three devices, byte by byte through their
    register windows; \<open>Flat_Memory\<close> (\<^verbatim>\<open>memory.c\<close>, Linux); \<open>Bus\<close> (\<^verbatim>\<open>bus.c\<close>): address decoding,
    registration, reservations; \<open>Bus_Dump\<close>: its hexadecimal dump. The locale \<open>mmio_device\<close> is the contract of a device, interpreted by all
    four; \<open>memory_port\<close> is what the processor relies on; \<open>bounded_queue\<close> is the ring buffer's contract.
  \<^item> \<open>RV_Internal\<close>, \<open>RV_Csr\<close>, \<open>RV_Arith\<close>, \<open>RV_Instr\<close>, \<open>RV_Base\<close>, \<open>RV_Cext\<close>,
    \<open>RV_Run\<close> (\<^verbatim>\<open>cpu/\<close>): register and memory access, traps, all control registers, all
    instructions, both decoders, interrupt selection, fetch with its one-line cache, trap entry, reset and one
    step \<open>rv_run\<close>; \<open>Sbi\<close> (\<^verbatim>\<open>sbi.c\<close>): the firmware.
  \<^item> \<open>RV_Stable\<close>, \<open>RV_Step\<close>: the locales \<open>instr_closed\<close> and \<open>exec_stable\<close>, which lift a relation or a
    predicate from the primitives of the processor to every instruction of both decoders, and their
    instances: the invariant, an upper bound on the mode, the machine-mode registers, precise traps.
  \<^item> \<open>Fdt_Sw\<close> (libfdt's sequential writer, \<^verbatim>\<open>fdt_sw.c\<close> and what it calls of \<^verbatim>\<open>fdt.c\<close>),
    \<open>Fdt_Tokens\<close>, \<open>Fdt_Writer\<close>, \<open>Fdt_Finish\<close>: a decoder of the flattened format as the
    specification, and the writer shown to append tokens to it (locale \<open>tree_writer\<close>); \<open>Device_Tree\<close>
    (\<^verbatim>\<open>device_tree.c\<close>): the description of the machine; \<open>Machine_Tree\<close>: the tree it should be, with its own unit
    addresses, register cells and strings, and the code shown to write it.
  \<^item> \<open>VM_Main\<close> (\<^verbatim>\<open>main.c\<close>): options, loaders, construction, the main loop, the step relation
    \<open>vm_step\<close> and the reachable states. \<open>Dos_Main\<close>: the command line of the DOS build.
  \<^item> \<open>Dos_Ui\<close> (\<^verbatim>\<open>ui.c\<close>, DOS), \<open>Paged_Memory\<close> (\<^verbatim>\<open>memory.c\<close>, DOS), \<open>Lru_List\<close>,
    \<open>Paged_Refine\<close>, \<open>Paged_Init\<close>: the status line, and memory as a few pages over swap files
    with a least-recently-used list in an array; \<open>byte_memory\<close> is the contract both memories keep.
  \<^item> \<open>Isa_Spec\<close>: the instruction set of the manual, independent of the emulator: instructions, encodings,
    values, an architectural state and its step relation \<open>isa_step\<close>; \<open>Isa_Refine\<close>: each decoded instruction
    computes these values; \<open>Isa_Run\<close>: the steps the emulator is asked to follow (\<open>code_step\<close>, a part of \<open>isa_step\<close>)
    and the machine following them, by the simulation locale \<open>lockstep\<close>, interpreted with \<open>code_step\<close> and \<open>rv_run\<close>;
    \<open>Isa_Boot\<close>: from the command line through the turns of the main loop to the instructions of an image
    (\<open>lockstep\<close> interpreted with \<open>turn\<close>).
  \<^item> \<open>Device_Props\<close>, \<open>Priv_Props\<close>, \<open>Csr_Props\<close>, \<open>Sbi_Props\<close>, \<open>Instr_Props\<close>, \<open>Cext_Expand\<close>,
    \<open>Atomics\<close>, \<open>Irq_Latch\<close>, \<open>Paged_Props\<close>, \<open>Boot_Props\<close> and the end of this theory: the
    properties.

  \<^bold>\<open>What is shown.\<close> From any boot, every state the program can reach is well-formed
  (\<open>program_state_ok\<close>). Programs run as the manual says (\<open>programs_run\<close>): whatever the
  specification does with the base, multiplication, atomic and compressed instructions of code it does not write
  over, the interpreter does, call by call, through its instruction cache, as long as no interrupt may be taken.
  Not covered are load-reserved and store-conditional (which have their own theorem), privileged instructions, code
  that writes over itself and the left shift of \<^verbatim>\<open>sllw\<close> by 32 or more (\<open>sllw_wide_undefined\<close>); \<open>running_reset\<close> says that
  every reset machine is fit to start. A step of the processor takes the first interrupt that may be taken and otherwise
  executes an instruction, although the code looks for interrupts only behind a flag (\<open>step_takes_interrupt\<close>;
  the locale \<open>irq_lines\<close> carries a property of the interrupt lines through the whole machine). Traps are
  precise, privilege is never gained by an instruction, control registers above the mode are refused, and
  handlers entered are left to where they came from. Compressed instructions are their expansions;
  division satisfies its laws; load-reserved and store-conditional work as a pair.
  The bus decodes addresses as intended below the top of the address space, memory returns what was
  stored, the serial port is a queue, the timer and the interrupt controller raise their lines when
  they should, and the firmware's calls of the three extensions it implements do what they promise. The paged memory answers like a flat
  one. The device tree that is written decodes to the description of the machine, lies inside memory, and a
  binary boots with it; the instructions of whatever was booted are then executed by the main loop, batch by batch,
  while the timer ticks and characters arrive (\<open>booted_program_runs\<close>). Some
  theorems state where the code does not do what it means to: at the end of
  the address space, for completions out of range, for interrupts delegated below machine mode, for calls of
  firmware extensions that are announced but missing, for memory sizes that are no power of two, for the exit of the DOS
  build on a refused command line, and for the status line.

  \<^bold>\<open>Loops.\<close> Loops are structural recursion or functions with a termination proof; no fuel is used. The
  two that may not end, the walk over a structure block (\<open>fixNames\<close>) and the page loops of the
  DOS memory that depend on the operating system (\<open>maskLoop\<close>, \<open>extendLoop\<close>), are partial functions into an
  option, and \<open>finish_full\<close>, \<open>buildDeviceTree_returns\<close> and \<open>dos_ram_init_returns\<close> show that they return.

  \<^bold>\<open>Not modelled.\<close> Logging and the usage text (output only); terminal modes, the DOS keyboard and sound and
  the wall clock behind the speed display (operating system calls); the release of resources at exit on Linux; statistics counters that are compiled out; the rest of
  libfdt and the device-tree compiler in its directory, which the emulator does not call.
\<close>

section \<open>The whole program\<close>

lemma reachable_main_loop: "reachable s \<Longrightarrow> reachable (main_loop inputs s)"
  unfolding main_loop_def by (induction inputs arbitrary: s) (auto intro: reachable_turn)

text \<open>C1. Whatever the command line, the image and the keyboard input, as long as the program runs its
  state keeps its shape: 32 registers of which the first is zero, no reserved privilege mode in force or
  stacked, the buffers of the devices and of memory of their declared sizes, the indices of the serial
  port's ring buffer inside it, the four devices where they were registered, and no interrupt pending that
  the processor would not look at.\<close>

theorem program_state_ok:
  fixes s :: "'x::len vm" and inputs :: "byte option list"
  assumes x: "valid_xlen TYPE('x)" and b: "boot args calloc_ok malloc_ok (Some bytes) img junk = Some s"
    and l: "length bytes = bufsize"
  defines "t \<equiv> main_loop inputs s"
  shows "length (Rx (cpu t)) = 32 \<and> Rx (cpu t) ! 0 = 0 \<and> length (ic_line (icache (cpu t))) = ICACHE_LINE_SIZE \<and>
    mode_of t \<noteq> RV_PRIV_MODE_RESERVED \<and> MSTATUS_GET_MPP (mstatus (csr_of t)) \<noteq> RV_PRIV_MODE_RESERVED \<and>
    length (mem_data (ram t)) = unat (dev_size (mem_dev (ram t))) \<and> devices (bus t) = vm_devices \<and>
    wf_aclint (aclint t) \<and> wf_plic (plic t) \<and> wf_uart (uart0 t) \<and> (mip (csr_of t) \<noteq> 0 \<longrightarrow> cpu_irq (cpu t))"
proof -
  have "reachable t"
    unfolding t_def using reachable_main_loop [OF reachable.boot [OF b]] l by simp
  from wf_reachable [OF x this] reachable_latched [OF x this] show ?thesis
    by (auto simp: wf_vm_def wf_cpu_def wf_platform_def wf_devs_def wf_ram_def irq_latched_def)
qed

theorem program_state_ok_witness:
  "\<exists>s :: 64 vm. boot [OPT_b ''image.bin'', OPT_m ''64''] True True (Some (replicate 2048 0xAA)) (Some [0x13, 0, 0, 0]) 0 = Some s \<and>
     Rx (cpu (main_loop [Some 0x41, None] s)) ! 0 = 0"
proof -
  have l: "length (replicate 2048 (0xAA :: byte)) = bufsize"
    by (simp add: bufsize_def)
  obtain s :: "64 vm" where b: "boot [OPT_b ''image.bin'', OPT_m ''64''] True True (Some (replicate 2048 0xAA))
      (Some [0x13, 0, 0, 0]) 0 = Some s"
    by (rule demo_boot)
  with program_state_ok [OF _ b l, where inputs = "[Some 0x41, None]"] show ?thesis
    by simp
qed

end
